(* ===== verification/Edge_Prelude.thy ===== *)
theory Edge_Prelude
  imports Main "HOL-Library.Word"
begin

text \<open>
  Shared vocabulary of the development: the outcome of a Go call (value, error or panic)
  with its sequencing operator, big-endian 16-bit packing on machine words, and the
  fact collections the component theories feed (\<open>go_simps\<close> for the outcome algebra,
  \<open>byte_simps\<close> for word and byte packing).
\<close>

unbundle bit_operations_syntax

named_theorems go_simps
named_theorems byte_simps

section \<open>Outcomes of Go calls\<close>

text \<open>
  A Go function of this code base returns a value and an \<open>error\<close>; it may also panic (an
  index out of range, a write to a nil map, an explicit \<open>panic\<close>). \<open>Ok\<close> is a return with
  \<open>err == nil\<close>, \<open>Err\<close> a return with an error, \<open>Panic\<close> carries the panic message.
\<close>

datatype ('a, 'e) go = Ok 'a | Err 'e | Panic string

fun go_bind :: "('a, 'e) go \<Rightarrow> ('a \<Rightarrow> ('b, 'e) go) \<Rightarrow> ('b, 'e) go" where
  "go_bind (Ok x) f = f x"
| "go_bind (Err e) f = Err e"
| "go_bind (Panic m) f = Panic m"

fun is_panic :: "('a, 'e) go \<Rightarrow> bool" where
  "is_panic (Panic m) = True"
| "is_panic (Ok x) = False"
| "is_panic (Err e) = False"

fun go_map :: "('a \<Rightarrow> 'b) \<Rightarrow> ('a, 'e) go \<Rightarrow> ('b, 'e) go" where
  "go_map f (Ok x) = Ok (f x)"
| "go_map f (Err e) = Err e"
| "go_map f (Panic m) = Panic m"

fun map_err :: "('e \<Rightarrow> 'f) \<Rightarrow> ('a, 'e) go \<Rightarrow> ('a, 'f) go" where
  "map_err f (Ok x) = Ok x"
| "map_err f (Err e) = Err (f e)"
| "map_err f (Panic m) = Panic m"

lemma go_bind_assoc: "go_bind (go_bind m f) g = go_bind m (\<lambda>x. go_bind (f x) g)"
  by (cases m) auto

lemma go_bind_eq_Ok [go_simps]:
  "go_bind m f = Ok y \<longleftrightarrow> (\<exists>x. m = Ok x \<and> f x = Ok y)"
  by (cases m) auto

lemma go_bind_eq_Err [go_simps]:
  "go_bind m f = Err e \<longleftrightarrow> m = Err e \<or> (\<exists>x. m = Ok x \<and> f x = Err e)"
  by (cases m) auto

lemma is_panic_bind [go_simps]:
  "is_panic (go_bind m f) \<longleftrightarrow> is_panic m \<or> (\<exists>x. m = Ok x \<and> is_panic (f x))"
  by (cases m) auto

lemma is_panic_map [simp]: "is_panic (go_map f m) = is_panic m"
  by (cases m) auto

lemma is_panic_map_err [simp]: "is_panic (map_err f m) = is_panic m"
  by (cases m) auto

lemma map_err_eq_Ok [go_simps]: "map_err f m = Ok x \<longleftrightarrow> m = Ok x"
  by (cases m) auto

lemma go_map_eq_Ok [go_simps]: "go_map f m = Ok y \<longleftrightarrow> (\<exists>x. m = Ok x \<and> y = f x)"
  by (cases m) auto

lemma go_bind_cong [fundef_cong]:
  "m = m' \<Longrightarrow> (\<And>x. m' = Ok x \<Longrightarrow> f x = f' x) \<Longrightarrow> go_bind m f = go_bind m' f'"
  by (cases m') auto

section \<open>Bytes and big-endian 16-bit values\<close>

type_synonym byte = "8 word"
type_synonym u16 = "16 word"
type_synonym u32 = "32 word"

text \<open>\<open>binary.BigEndian.Uint16\<close> and \<open>PutUint16\<close> of Go's standard library.\<close>

definition be16 :: "byte \<Rightarrow> byte \<Rightarrow> u16" where
  "be16 h l = push_bit 8 (ucast h) OR ucast l"

definition hi8 :: "u16 \<Rightarrow> byte" where
  "hi8 w = ucast (drop_bit 8 w)"

definition lo8 :: "u16 \<Rightarrow> byte" where
  "lo8 w = ucast w"

definition put16 :: "u16 \<Rightarrow> byte list" where
  "put16 w = [hi8 w, lo8 w]"

lemma be16_hi_lo [simp, byte_simps]: "be16 (hi8 w) (lo8 w) = w"
  unfolding be16_def hi8_def lo8_def
  by (rule bit_word_eqI) (auto simp: bit_simps)

lemma hi8_be16 [simp, byte_simps]: "hi8 (be16 h l) = h"
  unfolding be16_def hi8_def
  by (rule bit_word_eqI) (auto simp: bit_simps dest: bit_imp_le_length)

lemma lo8_be16 [simp, byte_simps]: "lo8 (be16 h l) = l"
  unfolding be16_def lo8_def
  by (rule bit_word_eqI) (auto simp: bit_simps dest: bit_imp_le_length)

lemma be16_inj [simp]: "be16 h l = be16 h' l' \<longleftrightarrow> h = h' \<and> l = l'"
  by (metis hi8_be16 lo8_be16)

lemma hi_lo_eq_iff: "hi8 v = hi8 w \<and> lo8 v = lo8 w \<longleftrightarrow> v = w"
  by (metis be16_hi_lo)

lemma put16_inj [simp]: "put16 v = put16 w \<longleftrightarrow> v = w"
  by (simp add: put16_def hi_lo_eq_iff)

lemma length_put16 [simp]: "length (put16 w) = 2"
  by (simp add: put16_def)

lemma unat_ucast_small: "x < 256 \<Longrightarrow> unat (word_of_nat x :: byte) = x"
  by (simp add: unat_of_nat take_bit_eq_mod)

section \<open>Lists\<close>

lemma concat_map_length_const:
  "(\<And>x. length (f x) = k) \<Longrightarrow> length (concat (map f xs)) = k * length xs"
  by (induction xs) auto

lemma take_butlast_prefix: "n < length xs \<Longrightarrow> take n (butlast xs) = take n xs"
  by (simp add: take_butlast)

end
