(* ===== verification/Modbus_Checksum.thy ===== *)
theory Modbus_Checksum
  imports Modbus_Crc_Table
begin

text \<open>
  The frame checksums of the Modbus serial modes (\<open>third_party/goburrow/modbus/crc.go\<close>,
  \<open>lrc.go\<close>): the CRC with the state the code keeps (a high and a low byte) and the
  longitudinal redundancy check. The CRC is proved equal to the bitwise CRC-16, and a change
  of a single byte is proved to change it.
\<close>

section \<open>CRC\<close>

record crc =
  high :: byte
  low :: byte

definition crc_reset :: crc where
  "crc_reset = \<lparr>high = 0xFF, low = 0xFF\<rparr>"

text \<open>One turn of the loop of \<open>pushBytes\<close>; the index is a byte, so always inside the tables.\<close>

definition crc_push :: "crc \<Rightarrow> byte \<Rightarrow> crc" where
  "crc_push c b =
     (let idx = unat (low c XOR b)
      in \<lparr>high = crcLowBytes ! idx, low = high c XOR crcHighBytes ! idx\<rparr>)"

definition crc_pushBytes :: "crc \<Rightarrow> byte list \<Rightarrow> crc" where
  "crc_pushBytes c bs = foldl crc_push c bs"

definition crc_value :: "crc \<Rightarrow> u16" where
  "crc_value c = push_bit 8 (ucast (high c)) OR ucast (low c)"

section \<open>The reference CRC\<close>

definition crc16_byte :: "u16 \<Rightarrow> byte \<Rightarrow> u16" where
  "crc16_byte c b = crc_bits8 (c XOR ucast b)"

definition crc16 :: "byte list \<Rightarrow> u16" where
  "crc16 bs = foldl crc16_byte 0xFFFF bs"

section \<open>LRC\<close>

type_synonym lrc = byte

definition lrc_reset :: lrc where
  "lrc_reset = 0"

definition lrc_pushByte :: "lrc \<Rightarrow> byte \<Rightarrow> lrc" where
  "lrc_pushByte l b = l + b"

definition lrc_pushBytes :: "lrc \<Rightarrow> byte list \<Rightarrow> lrc" where
  "lrc_pushBytes l bs = foldl (\<lambda>s b. s + b) l bs"

text \<open>\<open>uint8(-int8(sum))\<close>: two's complement negation at eight bits.\<close>

definition lrc_value :: "lrc \<Rightarrow> byte" where
  "lrc_value l = - l"

section \<open>The CRC is the bitwise CRC-16\<close>

lemma unat_byte_less [simp]: "unat (x :: byte) < 256"
  using unsigned_less [of x, where ?'a = nat] by simp

lemma crc_bits8_byte: "crc_bits8 (ucast (x :: byte)) = crc_table ! unat x"
  by (simp add: crc_table_bitwise)

lemma crc_bit_shift:
  assumes "n < 8"
  shows "crc_bit (push_bit (Suc n) (ucast (h :: byte) :: u16)) = push_bit n (ucast h)"
proof -
  have "\<not> bit (push_bit (Suc n) (ucast h :: u16)) 0"
    by (simp only: bit_push_bit_iff) simp
  moreover have "drop_bit 1 (push_bit (Suc n) (ucast h :: u16)) = push_bit n (ucast h)"
    using assms
    by (intro bit_word_eqI) (auto simp: bit_simps simp del: push_bit_Suc dest: bit_imp_le_length)
  ultimately show ?thesis by (simp only: crc_bit_def if_False)
qed

lemma crc_bits8_shift: "crc_bits8 (push_bit 8 (ucast (h :: byte) :: u16)) = ucast h"
  using crc_bit_shift [of 7 h] crc_bit_shift [of 6 h] crc_bit_shift [of 5 h]
    crc_bit_shift [of 4 h] crc_bit_shift [of 3 h] crc_bit_shift [of 2 h]
    crc_bit_shift [of 1 h] crc_bit_shift [of 0 h]
  by (simp add: crc_bits8_unfold eval_nat_numeral)

lemma crc_value_be16: "crc_value c = be16 (high c) (low c)"
  by (simp add: crc_value_def be16_def)

lemma crc_value_split: "be16 h (l XOR b) = push_bit 8 (ucast h) XOR ucast (l XOR b)"
  unfolding be16_def
  by (rule bit_word_eqI) (auto simp: bit_simps dest: bit_imp_le_length)

lemma crc_push_value: "crc_value (crc_push c b) = crc16_byte (crc_value c) b"
proof -
  let ?x = "low c XOR b"
  have "crc_value c XOR ucast b = be16 (high c) ?x"
    unfolding crc_value_def be16_def
    by (rule bit_word_eqI) (auto simp: bit_simps dest: bit_imp_le_length)
  then have "crc16_byte (crc_value c) b = ucast (high c) XOR crc_table ! unat ?x"
    by (simp add: crc16_byte_def crc_value_split crc_bits8_xor crc_bits8_shift crc_bits8_byte)
  also have "\<dots> = ucast (high c) XOR be16 (crcLowBytes ! unat ?x) (crcHighBytes ! unat ?x)"
    by (simp add: crc_table_def)
  also have "\<dots> = be16 (crcLowBytes ! unat ?x) (high c XOR crcHighBytes ! unat ?x)"
    unfolding be16_def
    by (rule bit_word_eqI) (auto simp: bit_simps dest: bit_imp_le_length)
  finally show ?thesis
    by (simp add: crc_push_def Let_def crc_value_be16)
qed

lemma crc_pushBytes_append:
  "crc_pushBytes c (as @ bs) = crc_pushBytes (crc_pushBytes c as) bs"
  by (simp add: crc_pushBytes_def)

lemma crc_pushBytes_value: "crc_value (crc_pushBytes c bs) = foldl crc16_byte (crc_value c) bs"
  by (induction bs arbitrary: c) (simp_all add: crc_pushBytes_def crc_push_value)

text \<open>Every byte moves the CRC state injectively, in the state and in the byte.\<close>

lemma crcLowBytes_nonzero: "i < 256 \<Longrightarrow> crcLowBytes ! i = 0 \<Longrightarrow> i = 0"
proof (cases i)
  case (Suc j)
  assume "i < 256" "crcLowBytes ! i = 0"
  then have "j < length (tl crcLowBytes)" "tl crcLowBytes ! j = 0"
    using Suc by (simp_all add: nth_tl)
  then have "0 \<in> set (tl crcLowBytes)" by (metis nth_mem)
  then show ?thesis by (simp add: crcLowBytes_def)
qed simp

lemma crcLowBytes_hi8: "crcLowBytes ! unat x = hi8 (crc_bits8 (ucast (x :: byte)))"
  by (simp add: crc_bits8_byte crc_table_def)

lemma hi8_xor: "hi8 (v XOR w) = hi8 v XOR hi8 w"
  by (simp add: hi8_def drop_bit_xor unsigned_xor_eq)

lemma ucast_xor: "(ucast (x XOR y :: byte) :: u16) = ucast x XOR ucast y"
  by (rule bit_word_eqI) (auto simp: bit_simps dest: bit_imp_le_length)

lemma crcLowBytes_inj:
  assumes "crcLowBytes ! unat x = crcLowBytes ! unat (y :: byte)"
  shows "x = y"
proof -
  have "crcLowBytes ! unat (x XOR y) = 0"
    using assms by (simp add: crcLowBytes_hi8 ucast_xor crc_bits8_xor hi8_xor)
  then have "unat (x XOR y) = 0" by (rule crcLowBytes_nonzero [OF unat_byte_less])
  then have "x XOR y = 0" by (simp add: unat_eq_0)
  then show ?thesis by (auto simp: bit_eq_iff bit_xor_iff)
qed

lemma xor_cancel [simp]:
  "a XOR b = c XOR b \<longleftrightarrow> a = c" "b XOR a = b XOR c \<longleftrightarrow> a = (c :: byte)"
  by (auto simp: bit_eq_iff bit_xor_iff)

lemma crc_push_inj_state: "crc_push c b = crc_push d b \<Longrightarrow> c = (d :: crc)"
  by (cases c; cases d) (auto simp: crc_push_def Let_def dest!: crcLowBytes_inj)

lemma crc_push_inj_byte: "crc_push c a = crc_push c b \<Longrightarrow> a = b"
  by (auto simp: crc_push_def Let_def dest!: crcLowBytes_inj)

lemma crc_pushBytes_inj: "crc_pushBytes c bs = crc_pushBytes d bs \<Longrightarrow> c = d"
  by (induction bs arbitrary: c d) (auto simp: crc_pushBytes_def dest: crc_push_inj_state)

lemma crc_value_inj: "crc_value c = crc_value d \<Longrightarrow> c = (d :: crc)"
  by (cases c; cases d) (simp add: crc_value_be16)

lemma crc_single_byte_differs:
  assumes "a \<noteq> b"
  shows "crc_value (crc_pushBytes c (xs @ a # ys)) \<noteq> crc_value (crc_pushBytes c (xs @ b # ys))"
proof
  assume "crc_value (crc_pushBytes c (xs @ a # ys)) = crc_value (crc_pushBytes c (xs @ b # ys))"
  then have "crc_pushBytes (crc_push (crc_pushBytes c xs) a) ys =
      crc_pushBytes (crc_push (crc_pushBytes c xs) b) ys"
    by (drule_tac crc_value_inj) (simp add: crc_pushBytes_def)
  then show False
    using assms by (blast dest: crc_pushBytes_inj crc_push_inj_byte)
qed

section \<open>LRC laws\<close>

lemma lrc_pushBytes_sum: "lrc_pushBytes l bs = l + sum_list bs"
  by (induction bs arbitrary: l) (simp_all add: lrc_pushBytes_def add.assoc)

lemma lrc_residue: "lrc_pushByte (lrc_pushBytes lrc_reset bs) (lrc_value (lrc_pushBytes lrc_reset bs)) = 0"
  by (simp add: lrc_pushByte_def lrc_value_def)

end
