(* ===== verification/Go_Text.thy ===== *)
theory Go_Text
  imports Edge_Prelude
begin

text \<open>
  The parts of Go's \<open>strings\<close>, \<open>bytes\<close>, \<open>strconv\<close> and \<open>encoding/base64\<close> packages that the
  program calls, on byte strings (a Go string is a sequence of bytes, here a \<open>char list\<close>).
  Each definition follows the documented behaviour of the library function named beside it.
\<close>

section \<open>strings and bytes\<close>

definition has_prefix :: "string \<Rightarrow> string \<Rightarrow> bool" where
  "has_prefix s p = (take (length p) s = p)"

definition has_suffix :: "string \<Rightarrow> string \<Rightarrow> bool" where
  "has_suffix s p = (length p \<le> length s \<and> drop (length s - length p) s = p)"

definition trim_prefix :: "string \<Rightarrow> string \<Rightarrow> string" where
  "trim_prefix s p = (if has_prefix s p then drop (length p) s else s)"

text \<open>\<open>bytes.Index\<close> and \<open>strings.Index\<close>: the position of the first occurrence.\<close>

fun index_of :: "string \<Rightarrow> string \<Rightarrow> nat option" where
  "index_of [] p = (if p = [] then Some 0 else None)"
| "index_of (c # cs) p =
     (if has_prefix (c # cs) p then Some 0 else map_option Suc (index_of cs p))"

text \<open>\<open>strings.Split\<close> with a one-byte separator; never empty.\<close>

fun split_on :: "char \<Rightarrow> string \<Rightarrow> string list" where
  "split_on d [] = [[]]"
| "split_on d (c # cs) =
     (if c = d then [] # split_on d cs
      else (case split_on d cs of [] \<Rightarrow> [[c]] | w # ws \<Rightarrow> (c # w) # ws))"

text \<open>\<open>strings.Join\<close>.\<close>

fun join_with :: "string \<Rightarrow> string list \<Rightarrow> string" where
  "join_with d [] = []"
| "join_with d [w] = w"
| "join_with d (w # v # ws) = w @ d @ join_with d (v # ws)"

text \<open>\<open>strings.ReplaceAll\<close> for a non-empty old string; non-overlapping, left to right.\<close>

function replace_all :: "string \<Rightarrow> string \<Rightarrow> string \<Rightarrow> string" where
  "replace_all [] old new = []"
| "replace_all (c # cs) old new =
     (if old \<noteq> [] \<and> has_prefix (c # cs) old
      then new @ replace_all (drop (length old) (c # cs)) old new
      else c # replace_all cs old new)"
  by pat_completeness auto
termination
  by (relation "measure (\<lambda>(s, old, new). length s)") auto

text \<open>\<open>strings.Trim\<close> with a set of one-byte characters.\<close>

definition trim_set :: "string \<Rightarrow> string \<Rightarrow> string" where
  "trim_set s cutset =
     rev (dropWhile (\<lambda>c. c \<in> set cutset) (rev (dropWhile (\<lambda>c. c \<in> set cutset) s)))"

text \<open>\<open>path.Clean\<close>: the elements of the path without empty ones and dots; two dots remove the element before
  them, and are kept at the start of a relative path.\<close>

fun clean_parts :: "bool \<Rightarrow> string list \<Rightarrow> string list \<Rightarrow> string list" where
  "clean_parts rooted acc [] = rev acc"
| "clean_parts rooted acc (e # es) =
     (if e = '''' \<or> e = ''.'' then clean_parts rooted acc es
      else if e = ''..'' then
        (case acc of
           [] \<Rightarrow> clean_parts rooted (if rooted then [] else [''..'']) es
         | a # as \<Rightarrow> clean_parts rooted (if a = ''..'' then ''..'' # acc else as) es)
      else clean_parts rooted (e # acc) es)"

definition path_Clean :: "string \<Rightarrow> string" where
  "path_Clean p =
     (if p = '''' then ''.''
      else if hd p = CHR ''/'' then CHR ''/'' # join_with ''/'' (clean_parts True [] (split_on CHR ''/'' p))
      else if clean_parts False [] (split_on CHR ''/'' p) = [] then ''.''
      else join_with ''/'' (clean_parts False [] (split_on CHR ''/'' p)))"

text \<open>\<open>strings.LastIndexByte\<close>.\<close>

fun last_index_byte :: "string \<Rightarrow> char \<Rightarrow> nat option" where
  "last_index_byte [] d = None"
| "last_index_byte (c # cs) d =
     (case last_index_byte cs d of
        Some i \<Rightarrow> Some (Suc i)
      | None \<Rightarrow> if c = d then Some 0 else None)"

lemma has_prefix_append [simp]: "has_prefix (p @ s) p"
  by (simp add: has_prefix_def)

lemma has_prefix_iff: "has_prefix s p \<longleftrightarrow> (\<exists>t. s = p @ t)"
  unfolding has_prefix_def by (metis append_eq_conv_conj append_take_drop_id)

lemma trim_prefix_append [simp]: "trim_prefix (p @ s) p = s"
  by (simp add: trim_prefix_def)

lemma split_on_not_Nil [simp]: "split_on d s \<noteq> []"
  by (induction s) (auto split: list.splits)

lemma split_on_no_sep [simp]: "d \<notin> set s \<Longrightarrow> split_on d s = [s]"
  by (induction s) auto

lemma split_on_append_sep:
  "d \<notin> set w \<Longrightarrow> split_on d (w @ d # s) = w # split_on d s"
  by (induction w) auto

lemma join_split_on: "join_with [d] (split_on d s) = s"
proof (induction s)
  case Nil
  then show ?case by simp
next
  case (Cons c cs)
  obtain w ws where w: "split_on d cs = w # ws"
    by (cases "split_on d cs") auto
  with Cons show ?case by (cases ws) auto
qed

lemma split_on_parts: "w \<in> set (split_on d s) \<Longrightarrow> d \<notin> set w"
  by (induction s arbitrary: w) (auto split: list.splits if_splits)

lemma split_on_join:
  "ws \<noteq> [] \<Longrightarrow> \<forall>w \<in> set ws. d \<notin> set w \<Longrightarrow> split_on d (join_with [d] ws) = ws"
proof (induction ws rule: list_nonempty_induct)
  case (single w)
  then show ?case by simp
next
  case (cons w ws)
  then obtain v vs where "ws = v # vs" by (cases ws) auto
  with cons show ?case by (simp add: split_on_append_sep)
qed

lemma index_of_prefix_eq:
  "index_of s p = Some i \<Longrightarrow> i + length p \<le> length s \<and> take (length p) (drop i s) = p"
proof (induction s p arbitrary: i rule: index_of.induct)
  case (1 p)
  then show ?case by (simp split: if_splits)
next
  case (2 c cs p)
  show ?case
  proof (cases "has_prefix (c # cs) p")
    case True
    with "2.prems" have "i = 0" and "take (length p) (c # cs) = p"
      by (auto simp: has_prefix_def)
    moreover from this(2) have "length p \<le> length (c # cs)"
      by (metis length_take min.absorb_iff2 min.commute)
    ultimately show ?thesis by simp
  next
    case False
    with "2.prems" obtain j where "index_of cs p = Some j" and "i = Suc j" by auto
    with "2.IH" [OF False] show ?thesis by auto
  qed
qed

lemma index_of_None_iff: "p \<noteq> [] \<Longrightarrow> index_of s p = None \<longleftrightarrow> (\<nexists>a b. s = a @ p @ b)"
proof (induction s)
  case Nil
  then show ?case by auto
next
  case (Cons c cs)
  show ?case
  proof (cases "has_prefix (c # cs) p")
    case True
    then obtain t where "c # cs = [] @ p @ t" by (auto simp: has_prefix_iff)
    then have "\<exists>a b. c # cs = a @ p @ b" by blast
    with True show ?thesis by simp
  next
    case False
    then have "(\<exists>a b. c # cs = a @ p @ b) \<longleftrightarrow> (\<exists>a b. cs = a @ p @ b)"
      by (auto simp: has_prefix_iff Cons_eq_append_conv)
    with False Cons show ?thesis by simp
  qed
qed

lemma index_of_first:
  "index_of s p = Some i \<Longrightarrow> j < i \<Longrightarrow> \<not> has_prefix (drop j s) p"
proof (induction s p arbitrary: i j rule: index_of.induct)
  case (1 p)
  then show ?case by (simp split: if_splits)
next
  case (2 c cs p)
  then show ?case by (cases j) (auto split: if_splits)
qed

section \<open>strconv\<close>

datatype num_error = ErrSyntax | ErrRange

text \<open>The text of an error of \<open>strconv\<close>; the quoting is the library's.\<close>

definition num_error_text :: "(string \<Rightarrow> string) \<Rightarrow> string \<Rightarrow> string \<Rightarrow> num_error \<Rightarrow> string" where
  "num_error_text quote fn s e =
     ''strconv.'' @ fn @ '': parsing '' @ quote s @ '': '' @
     (case e of ErrSyntax \<Rightarrow> ''invalid syntax'' | ErrRange \<Rightarrow> ''value out of range'')"

definition digit_val :: "char \<Rightarrow> nat option" where
  "digit_val c =
     (if 48 \<le> (of_char c :: nat) \<and> (of_char c :: nat) \<le> 57
      then Some (of_char c - 48) else None)"

definition digit_char :: "nat \<Rightarrow> char" where
  "digit_char d = char_of (48 + d)"

text \<open>The loop of \<open>strconv.ParseUint\<close> in base 10: the range check comes before the next
  character is looked at.\<close>

fun parse_uint_loop :: "nat \<Rightarrow> nat \<Rightarrow> string \<Rightarrow> num_error + nat" where
  "parse_uint_loop mx n [] = Inr n"
| "parse_uint_loop mx n (c # cs) =
     (case digit_val c of
        None \<Rightarrow> Inl ErrSyntax
      | Some d \<Rightarrow>
          if n * 10 + d > mx then Inl ErrRange else parse_uint_loop mx (n * 10 + d) cs)"

definition parse_uint :: "string \<Rightarrow> nat \<Rightarrow> num_error + nat" where
  "parse_uint s bits =
     (if s = [] then Inl ErrSyntax else parse_uint_loop (2 ^ bits - 1) 0 s)"

text \<open>\<open>strconv.ParseInt\<close> in base 10; \<open>strconv.Atoi\<close> is the 64-bit case, and so is
  \<open>json.Number.Int64\<close>. A magnitude that \<open>ParseUint\<close> finds out of range is out of range here
  too, so the range test below only sees magnitudes that fit.\<close>

definition parse_int :: "string \<Rightarrow> nat \<Rightarrow> num_error + int" where
  "parse_int s bits =
     (case s of
        [] \<Rightarrow> Inl ErrSyntax
      | c # cs \<Rightarrow>
          let neg = (c = CHR ''-'');
              body = (if c = CHR ''-'' \<or> c = CHR ''+'' then cs else s)
          in (case parse_uint body bits of
                Inl e \<Rightarrow> Inl e
              | Inr un \<Rightarrow>
                  if \<not> neg \<and> un \<ge> 2 ^ (bits - 1) then Inl ErrRange
                  else if neg \<and> un > 2 ^ (bits - 1) then Inl ErrRange
                  else Inr (if neg then - int un else int un)))"

text \<open>\<open>strings.ToLower\<close> on an ASCII letter.\<close>

definition lower_char :: "char \<Rightarrow> char" where
  "lower_char c =
     (let n = (of_char c :: nat) in if 65 \<le> n \<and> n \<le> 90 then char_of (n + 32) else c)"

text \<open>\<open>strconv.ParseBool\<close>.\<close>

definition parse_bool :: "string \<Rightarrow> num_error + bool" where
  "parse_bool s =
     (if s \<in> {''1'', ''t'', ''T'', ''true'', ''TRUE'', ''True''} then Inr True
      else if s \<in> {''0'', ''f'', ''F'', ''false'', ''FALSE'', ''False''} then Inr False
      else Inl ErrSyntax)"

text \<open>Decimal rendering (\<open>strconv.Itoa\<close>, the verb \<open>%d\<close>) and two-digit lower-case
  hexadecimal (\<open>%02x\<close> on a value below 256).\<close>

fun dec_of_nat :: "nat \<Rightarrow> string" where
  "dec_of_nat n =
     (if n < 10 then [digit_char n] else dec_of_nat (n div 10) @ [digit_char (n mod 10)])"

declare dec_of_nat.simps [simp del]

definition dec_of_int :: "int \<Rightarrow> string" where
  "dec_of_int i = (if i < 0 then CHR ''-'' # dec_of_nat (nat (- i)) else dec_of_nat (nat i))"

definition hex_char :: "nat \<Rightarrow> char" where
  "hex_char d = (if d < 10 then char_of (48 + d) else char_of (87 + d))"

definition hex2 :: "nat \<Rightarrow> string" where
  "hex2 n = [hex_char (n div 16), hex_char (n mod 16)]"

lemma digit_val_char [simp]: "d < 10 \<Longrightarrow> digit_val (digit_char d) = Some d"
  by (simp add: digit_val_def digit_char_def)

lemma digit_val_bound: "digit_val c = Some d \<Longrightarrow> d < 10"
  by (auto simp: digit_val_def split: if_splits)

lemma parse_uint_loop_append:
  "parse_uint_loop mx n (s @ t) =
     (case parse_uint_loop mx n s of Inl e \<Rightarrow> Inl e | Inr m \<Rightarrow> parse_uint_loop mx m t)"
  by (induction mx n s rule: parse_uint_loop.induct) (auto split: option.splits)

lemma dec_of_nat_not_Nil [simp]: "dec_of_nat n \<noteq> []"
  by (subst dec_of_nat.simps) simp

lemma parse_uint_loop_dec: "n \<le> mx \<Longrightarrow> parse_uint_loop mx 0 (dec_of_nat n) = Inr n"
proof (induction n rule: dec_of_nat.induct)
  case (1 n)
  show ?case
  proof (cases "n < 10")
    case True
    with "1.prems" show ?thesis by (subst dec_of_nat.simps) simp
  next
    case False
    with "1.prems" have "parse_uint_loop mx 0 (dec_of_nat (n div 10)) = Inr (n div 10)"
      by (intro "1.IH") auto
    with False "1.prems" show ?thesis
      by (subst dec_of_nat.simps) (simp add: parse_uint_loop_append)
  qed
qed

lemma parse_uint_dec [simp]: "n < 2 ^ bits \<Longrightarrow> parse_uint (dec_of_nat n) bits = Inr n"
  by (simp add: parse_uint_def parse_uint_loop_dec)

lemma parse_uint_loop_bound: "n \<le> mx \<Longrightarrow> parse_uint_loop mx n s = Inr m \<Longrightarrow> m \<le> mx"
  by (induction mx n s rule: parse_uint_loop.induct) (auto split: option.splits if_splits)

lemma parse_uint_bound:
  assumes "parse_uint s bits = Inr m"
  shows "m < 2 ^ bits"
proof -
  have "m \<le> 2 ^ bits - 1"
    using assms parse_uint_loop_bound [of 0 "2 ^ bits - 1" s m]
    by (simp add: parse_uint_def split: if_splits)
  moreover have "0 < (2 :: nat) ^ bits" by simp
  ultimately show ?thesis by linarith
qed

lemma parse_int_Inr_cases:
  assumes "parse_int s bits = Inr i"
  obtains un where "i = int un" "un < 2 ^ (bits - 1)"
    | un where "i = - int un" "un \<le> 2 ^ (bits - 1)"
  using assms
  by (auto simp: parse_int_def Let_def not_le not_less
      split: list.splits sum.splits if_splits)

lemma parse_int_bound:
  assumes "parse_int s bits = Inr i"
  shows "- (2 ^ (bits - 1)) \<le> i \<and> i < 2 ^ (bits - 1)"
  using assms
proof (cases rule: parse_int_Inr_cases)
  case (1 un)
  then have "i < int (2 ^ (bits - 1))" by (simp only: of_nat_less_iff)
  moreover have "- (2 ^ (bits - 1)) \<le> int un"
    by (rule order_trans [of _ 0]) auto
  ultimately show ?thesis using 1(1) by simp
next
  case (2 un)
  then have "int un \<le> int (2 ^ (bits - 1))" by (simp only: of_nat_le_iff)
  moreover have "0 < (2 :: int) ^ (bits - 1)" by simp
  ultimately show ?thesis using 2(1) by (simp del: zero_less_power)
qed

section \<open>encoding/base64\<close>

definition b64_val :: "char \<Rightarrow> nat option" where
  "b64_val c =
     (let n = (of_char c :: nat) in
      if 65 \<le> n \<and> n \<le> 90 then Some (n - 65)
      else if 97 \<le> n \<and> n \<le> 122 then Some (n - 71)
      else if 48 \<le> n \<and> n \<le> 57 then Some (n + 4)
      else if n = 43 then Some 62
      else if n = 47 then Some 63
      else None)"

definition b64_char :: "nat \<Rightarrow> char" where
  "b64_char v =
     (if v < 26 then char_of (v + 65) else if v < 52 then char_of (v + 71)
      else if v < 62 then char_of (v - 4) else if v = 62 then CHR ''+'' else CHR ''/'')"

definition byte_char :: "nat \<Rightarrow> char" where
  "byte_char n = char_of (n mod 256)"

text \<open>\<open>StdEncoding.DecodeString\<close> after line breaks have been dropped: groups of four
  characters, padding only at the very end.\<close>

fun b64_groups :: "string \<Rightarrow> string option" where
  "b64_groups [] = Some []"
| "b64_groups (a # b # c # d # r) =
     (case (b64_val a, b64_val b) of
        (Some va, Some vb) \<Rightarrow>
          (case (b64_val c, b64_val d) of
             (Some vc, Some vd) \<Rightarrow>
               map_option (\<lambda>t. byte_char (va * 4 + vb div 16)
                             # byte_char (vb * 16 + vc div 4)
                             # byte_char (vc * 64 + vd) # t) (b64_groups r)
           | (Some vc, None) \<Rightarrow>
               if d = CHR ''='' \<and> r = [] then
                 Some [byte_char (va * 4 + vb div 16), byte_char (vb * 16 + vc div 4)]
               else None
           | (None, _) \<Rightarrow>
               if c = CHR ''='' \<and> d = CHR ''='' \<and> r = [] then
                 Some [byte_char (va * 4 + vb div 16)]
               else None)
      | _ \<Rightarrow> None)"
| "b64_groups _ = None"

definition b64_decode :: "string \<Rightarrow> string option" where
  "b64_decode s = b64_groups (filter (\<lambda>c. c \<noteq> CHR 0x0D \<and> c \<noteq> CHR 0x0A) s)"

text \<open>The encoder, used as the specification of the decoder.\<close>

fun b64_encode :: "string \<Rightarrow> string" where
  "b64_encode [] = []"
| "b64_encode [x] =
     (let a = of_char x :: nat in
      [b64_char (a div 4), b64_char (a mod 4 * 16), CHR ''='', CHR ''=''])"
| "b64_encode [x, y] =
     (let a = of_char x :: nat; b = of_char y in
      [b64_char (a div 4), b64_char (a mod 4 * 16 + b div 16),
       b64_char (b mod 16 * 4), CHR ''=''])"
| "b64_encode (x # y # z # r) =
     (let a = of_char x :: nat; b = of_char y; c = of_char z in
      b64_char (a div 4) # b64_char (a mod 4 * 16 + b div 16)
      # b64_char (b mod 16 * 4 + c div 64) # b64_char (c mod 64) # b64_encode r)"

lemma of_char_bound [simp]: "(of_char (c :: char) :: nat) < 256"
  by (metis of_char_mod_256 mod_less_divisor zero_less_numeral)

lemma byte_char_of_char [simp]: "byte_char (of_char c) = c"
  by (simp add: byte_char_def)

lemma b64_val_char [simp]: "v < 64 \<Longrightarrow> b64_val (b64_char v) = Some v"
  by (auto simp: b64_val_def b64_char_def Let_def)

lemma b64_val_pad [simp]:
  "b64_val (CHR ''='') = None" "b64_val (CHR 0x0D) = None" "b64_val (CHR 0x0A) = None"
  by (simp_all add: b64_val_def)

definition b64_letter :: "char \<Rightarrow> bool" where
  "b64_letter c \<longleftrightarrow> b64_val c \<noteq> None \<or> c = CHR ''=''"

lemma b64_letter_simps [simp]: "v < 64 \<Longrightarrow> b64_letter (b64_char v)" "b64_letter (CHR ''='')"
  by (simp_all add: b64_letter_def)

lemma sixbit_bounds [simp]:
  fixes a b :: nat
  assumes "a < 256" "b < 256"
  shows "a div 4 < 64" "a mod 4 * 16 + b div 16 < 64" "a mod 16 * 4 + b div 64 < 64"
    "a mod 4 * 16 < 64" "a mod 16 * 4 < 64"
proof -
  have "a mod 4 < 4" "a mod 16 < 16" "b div 16 < 16" "b div 64 < 4"
    using assms by (auto simp: less_mult_imp_div_less)
  then show "a mod 4 * 16 + b div 16 < 64" "a mod 16 * 4 + b div 64 < 64"
    "a mod 4 * 16 < 64" "a mod 16 * 4 < 64"
    by linarith+
  show "a div 4 < 64" using assms by (simp add: less_mult_imp_div_less)
qed

lemma b64_char_div4 [simp]:
  "b64_val (b64_char (of_char x div 4)) = Some (of_char x div 4)"
  "b64_letter (b64_char (of_char x div 4))"
  by (simp_all add: less_mult_imp_div_less)

lemma byte_char_add_256 [simp]:
  "byte_char (n * 256 + of_char c) = c" "byte_char (of_char c + 256 * n) = c"
  by (simp_all add: byte_char_def mod_add_left_eq)

lemma of_char_div_256 [simp]:
  "(of_char (c :: char) :: nat) div 16 div 16 = 0" "(of_char c :: nat) div 64 div 4 = 0"
  by (simp_all add: div_mult2_eq [symmetric])

lemma sixbit_join1:
  fixes a b :: nat
  assumes "b < 256"
  shows "a div 4 * 4 + (a mod 4 * 16 + b div 16) div 16 = a"
proof -
  have "b div 16 < 16" using assms by (simp add: less_mult_imp_div_less)
  then have "(a mod 4 * 16 + b div 16) div 16 = a mod 4" by simp
  then show ?thesis by simp
qed

lemma sixbit_join2:
  fixes a b c :: nat
  assumes "c < 256"
  shows "(a mod 4 * 16 + b div 16) * 16 + (b mod 16 * 4 + c div 64) div 4 = a mod 4 * 256 + b"
proof -
  have "c div 64 < 4" using assms by (simp add: less_mult_imp_div_less)
  then have "(b mod 16 * 4 + c div 64) div 4 = b mod 16" by simp
  then show ?thesis by (simp add: algebra_simps)
qed

lemma sixbit_join3:
  "((b :: nat) mod 16 * 4 + c div 64) * 64 + c mod 64 = b mod 16 * 256 + c"
  by (simp add: algebra_simps)

lemma b64_encode_letters: "c \<in> set (b64_encode s) \<Longrightarrow> b64_letter c"
  by (induction s rule: b64_encode.induct) (auto simp: Let_def)

lemma b64_groups_encode: "b64_groups (b64_encode s) = Some s"
proof (induction s rule: b64_encode.induct)
  case (3 x y)
  show ?case
    using sixbit_join2 [of 0 "of_char x" "of_char y"] by (simp add: Let_def sixbit_join1)
next
  case (4 x y z r)
  then show ?case by (simp add: Let_def sixbit_join1 sixbit_join2 sixbit_join3)
qed (simp_all add: Let_def)

lemma b64_decode_encode [simp]: "b64_decode (b64_encode s) = Some s"
proof -
  have "\<forall>c \<in> set (b64_encode s). c \<noteq> CHR 0x0D \<and> c \<noteq> CHR 0x0A"
    using b64_encode_letters [of _ s] b64_val_pad by (fastforce simp: b64_letter_def)
  then have "filter (\<lambda>c. c \<noteq> CHR 0x0D \<and> c \<noteq> CHR 0x0A) (b64_encode s) = b64_encode s"
    by (simp add: filter_id_conv)
  then show ?thesis by (simp add: b64_decode_def b64_groups_encode)
qed

text \<open>What evaluates the parsers on a numeral.\<close>

lemmas read_number = parse_int_def parse_uint_def digit_val_def Let_def

end
