(* ===== verification/Modbus_Packager.thy ===== *)
theory Modbus_Packager
  imports Modbus_Checksum Go_Text
begin

text \<open>
  The framing of Modbus protocol data units (\<open>third_party/goburrow/modbus\<close>:
  \<open>modbus.go\<close>, \<open>rtuclient.go\<close>, \<open>asciiclient.go\<close>, \<open>tcpclient.go\<close>). The Go interface
  \<open>Packager\<close> is the locale \<open>packager\<close>; the three packagers are its interpretations. A
  packager is a value with state, so \<open>Encode\<close> returns the packager it leaves behind.

  Slices are lists with their length as capacity; the receive buffers of the transports are
  larger, but \<open>Verify\<close> runs before \<open>Decode\<close> and no read below then reaches past the length.
\<close>

section \<open>Protocol data units and errors\<close>

record pdu =
  FunctionCode :: byte
  Data :: "byte list"

text \<open>The errors of the library; \<open>Exception\<close> is \<open>ModbusError\<close>, the others are \<open>fmt.Errorf\<close>.\<close>

datatype mb_error =
    QuantityRange string nat nat nat
  | StateValue u16
  | SizeVsCount nat nat
  | SizeVsExpected nat nat
  | SizeLess nat nat
  | FieldMismatch string nat nat
  | FifoCount nat
  | EmptyResponse
  | Exception byte byte
  | AduTooLong nat nat
  | ShortResponse nat nat
  | NotEven nat
  | BadStart
  | BadEnd
  | CrcMismatch u16 u16
  | LrcMismatch byte byte
  | LengthMismatch u16 int
  | HexInvalid byte
  | HexOdd
  | TransportErr string

definition rtuMinSize :: nat where "rtuMinSize = 4"
definition rtuMaxSize :: nat where "rtuMaxSize = 256"
definition asciiMinSize :: nat where "asciiMinSize = 3"
definition tcpHeaderSize :: nat where "tcpHeaderSize = 7"

lemmas modbus_sizes = rtuMinSize_def rtuMaxSize_def asciiMinSize_def tcpHeaderSize_def

text \<open>Reads at an index, with Go's bounds panic.\<close>

definition byte_at :: "byte list \<Rightarrow> nat \<Rightarrow> (byte, 'e) go" where
  "byte_at xs i = (if i < length xs then Ok (xs ! i) else Panic ''index out of range'')"

definition u16_at :: "byte list \<Rightarrow> nat \<Rightarrow> (u16, 'e) go" where
  "u16_at xs i =
     (if Suc i < length xs then Ok (be16 (xs ! i) (xs ! Suc i))
      else Panic ''index out of range'')"

section \<open>RTU\<close>

definition rtu_crc :: "byte list \<Rightarrow> u16" where
  "rtu_crc bs = crc_value (crc_pushBytes crc_reset bs)"

definition rtu_Encode :: "byte \<Rightarrow> pdu \<Rightarrow> (byte list, mb_error) go \<times> byte" where
  "rtu_Encode slave p =
     (let len = length (Data p) + 4 in
      if len > rtuMaxSize then (Err (AduTooLong len rtuMaxSize), slave)
      else
        let body = slave # FunctionCode p # Data p;
            checksum = rtu_crc body
        in (Ok (body @ [lo8 checksum, hi8 checksum]), slave))"

definition rtu_Verify :: "byte list \<Rightarrow> byte list \<Rightarrow> (unit, mb_error) go" where
  "rtu_Verify aduRequest aduResponse =
     (if length aduResponse < rtuMinSize then
        Err (ShortResponse (length aduResponse) rtuMinSize)
      else
        go_bind (byte_at aduResponse 0) (\<lambda>r.
        go_bind (byte_at aduRequest 0) (\<lambda>q.
          if r \<noteq> q then Err (FieldMismatch ''slave id'' (unat r) (unat q)) else Ok ())))"

definition rtu_Decode :: "byte list \<Rightarrow> (pdu, mb_error) go" where
  "rtu_Decode adu =
     (let len = length adu in
      if len < 2 then Panic ''slice bounds out of range''
      else
        let want = rtu_crc (take (len - 2) adu);
            checksum = be16 (adu ! (len - 1)) (adu ! (len - 2))
        in if checksum \<noteq> want then Err (CrcMismatch checksum want)
           else if len < 4 then Panic ''slice bounds out of range''
           else Ok \<lparr>FunctionCode = adu ! 1, Data = take (len - 4) (drop 2 adu)\<rparr>)"

section \<open>ASCII\<close>

text \<open>The table \<open>hexTable\<close> and \<open>writeHex\<close>: two upper-case digits per byte.\<close>

definition hexTable :: "nat \<Rightarrow> byte" where
  "hexTable n = (if n < 10 then word_of_nat (48 + n) else word_of_nat (55 + n))"

definition writeHex :: "byte list \<Rightarrow> byte list" where
  "writeHex bs = concat (map (\<lambda>v. [hexTable (unat v div 16), hexTable (unat v mod 16)]) bs)"

text \<open>\<open>encoding/hex\<close>: \<open>fromHexChar\<close> and \<open>Decode\<close>, which stops at the first invalid byte.\<close>

definition fromHexChar :: "byte \<Rightarrow> nat option" where
  "fromHexChar c =
     (let n = unat c in
      if 48 \<le> n \<and> n \<le> 57 then Some (n - 48)
      else if 97 \<le> n \<and> n \<le> 102 then Some (n - 87)
      else if 65 \<le> n \<and> n \<le> 70 then Some (n - 55)
      else None)"

fun hex_Decode :: "byte list \<Rightarrow> (byte list, mb_error) go" where
  "hex_Decode [] = Ok []"
| "hex_Decode [a] = (if fromHexChar a = None then Err (HexInvalid a) else Err HexOdd)"
| "hex_Decode (a # b # r) =
     (case fromHexChar a of
        None \<Rightarrow> Err (HexInvalid a)
      | Some x \<Rightarrow>
          (case fromHexChar b of
             None \<Rightarrow> Err (HexInvalid b)
           | Some y \<Rightarrow> go_map (\<lambda>t. word_of_nat (16 * x + y) # t) (hex_Decode r)))"

definition readHex :: "byte list \<Rightarrow> (byte, mb_error) go" where
  "readHex d =
     (if length d < 2 then Panic ''slice bounds out of range''
      else go_map hd (hex_Decode (take 2 d)))"

definition asciiStart :: byte where "asciiStart = 58"
definition asciiEnd :: "byte list" where "asciiEnd = [13, 10]"

definition ascii_lrc :: "byte \<Rightarrow> byte \<Rightarrow> byte list \<Rightarrow> byte" where
  "ascii_lrc slave fc d =
     lrc_value (lrc_pushBytes (lrc_pushByte (lrc_pushByte lrc_reset slave) fc) d)"

definition ascii_Encode :: "byte \<Rightarrow> pdu \<Rightarrow> (byte list, mb_error) go \<times> byte" where
  "ascii_Encode slave p =
     (Ok ([asciiStart] @ writeHex [slave, FunctionCode p] @ writeHex (Data p)
          @ writeHex [ascii_lrc slave (FunctionCode p) (Data p)] @ asciiEnd), slave)"

definition ascii_Verify :: "byte list \<Rightarrow> byte list \<Rightarrow> (unit, mb_error) go" where
  "ascii_Verify aduRequest aduResponse =
     (let len = length aduResponse in
      if len < asciiMinSize + 6 then Err (ShortResponse len 9)
      else if len mod 2 \<noteq> 1 then Err (NotEven (len - 1))
      else if hd aduResponse \<noteq> asciiStart then Err BadStart
      else if drop (len - 2) aduResponse \<noteq> asciiEnd then Err BadEnd
      else
        go_bind (readHex (drop 1 aduResponse)) (\<lambda>responseVal.
        go_bind (readHex (drop 1 aduRequest)) (\<lambda>requestVal.
          if responseVal \<noteq> requestVal then
            Err (FieldMismatch ''slave id'' (unat responseVal) (unat requestVal))
          else Ok ())))"

definition ascii_Decode :: "byte list \<Rightarrow> (pdu, mb_error) go" where
  "ascii_Decode adu =
     go_bind (readHex (drop 1 adu)) (\<lambda>address.
     go_bind (readHex (drop 3 adu)) (\<lambda>fc.
       if length adu < 9 then Panic ''slice bounds out of range''
       else
         let dataEnd = length adu - 4 in
         go_bind (hex_Decode (take (dataEnd - 5) (drop 5 adu))) (\<lambda>d.
         go_bind (readHex (drop dataEnd adu)) (\<lambda>lrcVal.
           if lrcVal \<noteq> ascii_lrc address fc d then
             Err (LrcMismatch lrcVal (ascii_lrc address fc d))
           else Ok \<lparr>FunctionCode = fc, Data = d\<rparr>))))"

section \<open>TCP\<close>

record tcp_packager =
  transactionId :: u32
  SlaveId :: byte

definition tcp_Encode :: "tcp_packager \<Rightarrow> pdu \<Rightarrow> (byte list, mb_error) go \<times> tcp_packager" where
  "tcp_Encode mb p =
     (let tid = transactionId mb + 1 in
      (Ok (put16 (ucast tid) @ put16 0 @ put16 (word_of_nat (1 + 1 + length (Data p)))
           @ [SlaveId mb, FunctionCode p] @ Data p),
       mb\<lparr>transactionId := tid\<rparr>))"

definition tcp_Verify :: "byte list \<Rightarrow> byte list \<Rightarrow> (unit, mb_error) go" where
  "tcp_Verify aduRequest aduResponse =
     go_bind (u16_at aduResponse 0) (\<lambda>r. go_bind (u16_at aduRequest 0) (\<lambda>q.
       if r \<noteq> q then Err (FieldMismatch ''transaction id'' (unat r) (unat q))
       else
         go_bind (u16_at aduResponse 2) (\<lambda>r. go_bind (u16_at aduRequest 2) (\<lambda>q.
           if r \<noteq> q then Err (FieldMismatch ''protocol id'' (unat r) (unat q))
           else
             go_bind (byte_at aduResponse 6) (\<lambda>r. go_bind (byte_at aduRequest 6) (\<lambda>q.
               if r \<noteq> q then Err (FieldMismatch ''unit id'' (unat r) (unat q))
               else Ok ()))))))"

definition tcp_Decode :: "byte list \<Rightarrow> (pdu, mb_error) go" where
  "tcp_Decode adu =
     go_bind (u16_at adu 4) (\<lambda>len.
       let pduLength = int (length adu) - int tcpHeaderSize in
       if pduLength \<le> 0 \<or> pduLength \<noteq> uint (len - 1) then
         Err (LengthMismatch (len - 1) pduLength)
       else Ok \<lparr>FunctionCode = adu ! tcpHeaderSize, Data = drop (tcpHeaderSize + 1) adu\<rparr>)"

section \<open>The Packager interface\<close>

text \<open>
  What the client relies on, for data that fits a Modbus frame (at most 252 bytes after the
  function code): encoding succeeds; two frames made by the same packager value, such as a
  request and the answer of the addressed unit, verify against each other; and decoding gives
  back what was encoded.
\<close>

definition fits :: "pdu \<Rightarrow> bool" where
  "fits p \<longleftrightarrow> length (Data p) \<le> 252"

locale packager =
  fixes Encode :: "'p \<Rightarrow> pdu \<Rightarrow> (byte list, mb_error) go \<times> 'p"
    and Verify :: "'p \<Rightarrow> byte list \<Rightarrow> byte list \<Rightarrow> (unit, mb_error) go"
    and Decode :: "'p \<Rightarrow> byte list \<Rightarrow> (pdu, mb_error) go"
  assumes Encode_total: "fits p \<Longrightarrow> \<exists>adu pk'. Encode pk p = (Ok adu, pk')"
    and Verify_same: "Encode pk p = (Ok a, pk1) \<Longrightarrow> Encode pk q = (Ok b, pk2) \<Longrightarrow>
      Verify pk1 a b = Ok ()"
    and Decode_Encode: "Encode pk p = (Ok a, pk1) \<Longrightarrow> Encode pk q = (Ok b, pk2) \<Longrightarrow> fits q \<Longrightarrow>
      Decode pk1 b = Ok q"

section \<open>RTU laws\<close>

definition rtu_frame :: "byte \<Rightarrow> pdu \<Rightarrow> byte list" where
  "rtu_frame slave p =
     (let body = slave # FunctionCode p # Data p in
      body @ [lo8 (rtu_crc body), hi8 (rtu_crc body)])"

lemma rtu_Encode_eq:
  "rtu_Encode slave p =
     (if fits p then Ok (rtu_frame slave p) else Err (AduTooLong (length (Data p) + 4) 256), slave)"
  by (auto simp: rtu_Encode_def rtu_frame_def fits_def Let_def modbus_sizes)

lemma length_rtu_frame [simp]: "length (rtu_frame slave p) = length (Data p) + 4"
  by (simp add: rtu_frame_def Let_def)

lemma rtu_frame_nth0 [simp]: "rtu_frame slave p ! 0 = slave"
  by (simp add: rtu_frame_def Let_def)

lemma rtu_Decode_trailer:
  assumes "length body \<ge> 2"
  shows "rtu_Decode (body @ [l, h]) =
    (if be16 h l \<noteq> rtu_crc body then Err (CrcMismatch (be16 h l) (rtu_crc body))
     else Ok \<lparr>FunctionCode = body ! 1, Data = drop 2 body\<rparr>)"
  using assms by (simp add: rtu_Decode_def Let_def nth_append)

lemma rtu_Decode_frame: "rtu_Decode (rtu_frame slave p) = Ok p"
  using rtu_Decode_trailer [of "slave # FunctionCode p # Data p"]
  by (cases p) (simp add: rtu_frame_def Let_def)

lemma rtu_Verify_frame: "rtu_Verify (rtu_frame s p) (rtu_frame s q) = Ok ()"
  by (simp add: rtu_Verify_def byte_at_def modbus_sizes)

interpretation rtu: packager rtu_Encode "\<lambda>_. rtu_Verify" "\<lambda>_. rtu_Decode"
  by unfold_locales
    (auto simp: rtu_Encode_eq rtu_Decode_frame rtu_Verify_frame split: if_splits)

section \<open>ASCII laws\<close>

lemma fromHexChar_hexTable [simp]:
  assumes "n < 16"
  shows "fromHexChar (hexTable n) = Some n"
proof -
  have "unat (word_of_nat (48 + n) :: byte) = 48 + n" "unat (word_of_nat (55 + n) :: byte) = 55 + n"
    using assms by (auto intro!: unat_ucast_small simp del: of_nat_add)
  then show ?thesis
    using assms by (auto simp: fromHexChar_def hexTable_def Let_def simp del: of_nat_add)
qed

lemma unat_byte_div16 [simp]: "unat (v :: byte) div 16 < 16"
  using unat_byte_less [of v] by (simp add: less_mult_imp_div_less)

lemma word_of_unat_split [simp]:
  "word_of_nat (16 * (unat (v :: byte) div 16) + unat v mod 16) = v"
  by simp

lemma writeHex_Nil [simp]: "writeHex [] = []"
  by (simp add: writeHex_def)

lemma writeHex_Cons:
  "writeHex (v # vs) = hexTable (unat v div 16) # hexTable (unat v mod 16) # writeHex vs"
  by (simp add: writeHex_def)

lemma length_writeHex [simp]: "length (writeHex vs) = 2 * length vs"
  by (induction vs) (simp_all add: writeHex_Cons)

lemma hex_Decode_writeHex [simp]: "hex_Decode (writeHex vs) = Ok vs"
  by (induction vs) (simp_all add: writeHex_Cons)

lemma readHex_writeHex [simp]: "readHex (writeHex (v # vs) @ r) = Ok v"
  by (simp add: readHex_def writeHex_Cons)

definition ascii_frame :: "byte \<Rightarrow> pdu \<Rightarrow> byte list" where
  "ascii_frame s p =
     asciiStart # writeHex [s] @ writeHex [FunctionCode p] @ writeHex (Data p)
     @ writeHex [ascii_lrc s (FunctionCode p) (Data p)] @ asciiEnd"

lemma ascii_Encode_eq: "ascii_Encode slave p = (Ok (ascii_frame slave p), slave)"
  by (simp add: ascii_Encode_def ascii_frame_def writeHex_Cons)

lemma length_ascii_frame: "length (ascii_frame slave p) = 2 * length (Data p) + 9"
  by (simp add: ascii_frame_def asciiEnd_def)

lemma drop_exact: "n = length a \<Longrightarrow> drop n (a @ b) = b"
  by simp

lemma ascii_frame_drops:
  defines "lrc s p \<equiv> writeHex [ascii_lrc s (FunctionCode p) (Data p)]"
  shows
    "drop 1 (ascii_frame s p) =
       writeHex [s] @ writeHex [FunctionCode p] @ writeHex (Data p) @ lrc s p @ asciiEnd"
    "drop 3 (ascii_frame s p) =
       writeHex [FunctionCode p] @ writeHex (Data p) @ lrc s p @ asciiEnd"
    "drop 5 (ascii_frame s p) = writeHex (Data p) @ lrc s p @ asciiEnd"
    "drop (2 * length (Data p) + 5) (ascii_frame s p) = lrc s p @ asciiEnd"
    "drop (2 * length (Data p) + 7) (ascii_frame s p) = asciiEnd"
proof -
  let ?a = "[asciiStart]" and ?b = "[asciiStart] @ writeHex [s]"
  let ?c = "?b @ writeHex [FunctionCode p]"
  let ?d = "?c @ writeHex (Data p)" and ?l = "lrc s p"
  have
    "ascii_frame s p = ?a @ writeHex [s] @ writeHex [FunctionCode p] @ writeHex (Data p) @ ?l @ asciiEnd"
    "ascii_frame s p = ?b @ writeHex [FunctionCode p] @ writeHex (Data p) @ ?l @ asciiEnd"
    "ascii_frame s p = ?c @ writeHex (Data p) @ ?l @ asciiEnd"
    "ascii_frame s p = ?d @ ?l @ asciiEnd" "ascii_frame s p = (?d @ ?l) @ asciiEnd"
    by (simp_all add: ascii_frame_def lrc_def)
  moreover have "length ?a = 1" "length ?b = 3" "length ?c = 5"
    "length ?d = 2 * length (Data p) + 5" "length (?d @ ?l) = 2 * length (Data p) + 7"
    by (simp_all add: lrc_def)
  ultimately show
    "drop 1 (ascii_frame s p) =
       writeHex [s] @ writeHex [FunctionCode p] @ writeHex (Data p) @ ?l @ asciiEnd"
    "drop 3 (ascii_frame s p) = writeHex [FunctionCode p] @ writeHex (Data p) @ ?l @ asciiEnd"
    "drop 5 (ascii_frame s p) = writeHex (Data p) @ ?l @ asciiEnd"
    "drop (2 * length (Data p) + 5) (ascii_frame s p) = ?l @ asciiEnd"
    "drop (2 * length (Data p) + 7) (ascii_frame s p) = asciiEnd"
    by (metis drop_exact)+
qed

lemma take_ascii_data: "take (2 * length d) (writeHex d @ r) = writeHex d"
  by simp

lemma ascii_Decode_frame: "ascii_Decode (ascii_frame slave p) = Ok p"
proof -
  have "length (ascii_frame slave p) - 4 = 2 * length (Data p) + 5"
    by (simp add: length_ascii_frame)
  moreover have "\<not> length (ascii_frame slave p) < 9"
    by (simp add: length_ascii_frame)
  ultimately show ?thesis
    by (simp only: ascii_Decode_def ascii_frame_drops Let_def
        readHex_writeHex go_bind.simps if_False add_diff_cancel_right' take_ascii_data
        hex_Decode_writeHex) simp
qed

lemma ascii_Verify_frame: "ascii_Verify (ascii_frame s p) (ascii_frame s q) = Ok ()"
proof -
  have "length (ascii_frame s q) - 2 = 2 * length (Data q) + 7"
    by (simp add: length_ascii_frame)
  moreover have "(2 * length (Data q) + 9) mod 2 = 1" by presburger
  moreover have "hd (ascii_frame s q) = asciiStart" by (simp add: ascii_frame_def)
  ultimately show ?thesis
    by (simp only: ascii_Verify_def ascii_frame_drops length_ascii_frame
        modbus_sizes Let_def readHex_writeHex go_bind.simps) simp
qed

interpretation ascii: packager ascii_Encode "\<lambda>_. ascii_Verify" "\<lambda>_. ascii_Decode"
  by unfold_locales (auto simp: ascii_Encode_eq ascii_Decode_frame ascii_Verify_frame)

section \<open>TCP laws\<close>

definition tcp_frame :: "u16 \<Rightarrow> byte \<Rightarrow> pdu \<Rightarrow> byte list" where
  "tcp_frame tid unit p =
     put16 tid @ put16 0 @ put16 (word_of_nat (2 + length (Data p)))
     @ [unit, FunctionCode p] @ Data p"

lemma tcp_Encode_eq:
  "tcp_Encode mb p =
     (Ok (tcp_frame (ucast (transactionId mb + 1)) (SlaveId mb) p),
      mb\<lparr>transactionId := transactionId mb + 1\<rparr>)"
  by (simp add: tcp_Encode_def tcp_frame_def Let_def)

lemma uint_length_field:
  "n \<le> 252 \<Longrightarrow> uint (word_of_nat (2 + n) - 1 :: u16) = int n + 1"
proof -
  assume "n \<le> 252"
  have "(word_of_nat (2 + n) - 1 :: u16) = word_of_nat (n + 1)" by simp
  then show ?thesis
    using \<open>n \<le> 252\<close> by (simp only: uint_nat unat_of_nat) (simp add: take_bit_eq_mod)
qed

lemma tcp_Decode_frame:
  assumes "fits p"
  shows "tcp_Decode (tcp_frame tid unit p) = Ok p"
  using assms uint_length_field [of "length (Data p)"]
  by (cases p) (simp add: tcp_Decode_def tcp_frame_def u16_at_def put16_def fits_def modbus_sizes)

lemma tcp_Verify_frame:
  "tcp_Verify (tcp_frame t u p) (tcp_frame t' u' q) =
     (if t' \<noteq> t then Err (FieldMismatch ''transaction id'' (unat t') (unat t))
      else if u' \<noteq> u then Err (FieldMismatch ''unit id'' (unat u') (unat u))
      else Ok ())"
  by (simp add: tcp_Verify_def tcp_frame_def u16_at_def byte_at_def put16_def)

interpretation tcp: packager tcp_Encode "\<lambda>_. tcp_Verify" "\<lambda>_. tcp_Decode"
  by unfold_locales (auto simp: tcp_Encode_eq tcp_Decode_frame tcp_Verify_frame)

section \<open>The packager of the configured mode\<close>

text \<open>
  The \<open>switch\<close> over \<open>modbus.mode\<close> in \<open>internal/app/modbus/entrypoint/start.go\<close> chooses the
  function that makes a packager for a slave; a \<open>Packager\<close> value is one of the three.
\<close>

datatype any_packager = PkRTU byte | PkASCII byte | PkTCP tcp_packager

definition packagerFn :: "string \<Rightarrow> (string + (byte \<Rightarrow> any_packager))" where
  "packagerFn mode =
     (if mode = ''tcp'' then Inr (\<lambda>s. PkTCP \<lparr>transactionId = 0, SlaveId = s\<rparr>)
      else if mode = ''rtu'' then Inr PkRTU
      else if mode = ''ascii'' then Inr PkASCII
      else Inl (''modbus.mode should be tcp, rtu or ascii but '' @ mode @ '' given''))"

fun any_Encode :: "any_packager \<Rightarrow> pdu \<Rightarrow> (byte list, mb_error) go \<times> any_packager" where
  "any_Encode (PkRTU s) p = apsnd PkRTU (rtu_Encode s p)"
| "any_Encode (PkASCII s) p = apsnd PkASCII (ascii_Encode s p)"
| "any_Encode (PkTCP s) p = apsnd PkTCP (tcp_Encode s p)"

fun any_Verify :: "any_packager \<Rightarrow> byte list \<Rightarrow> byte list \<Rightarrow> (unit, mb_error) go" where
  "any_Verify (PkRTU _) = rtu_Verify"
| "any_Verify (PkASCII _) = ascii_Verify"
| "any_Verify (PkTCP _) = tcp_Verify"

fun any_Decode :: "any_packager \<Rightarrow> byte list \<Rightarrow> (pdu, mb_error) go" where
  "any_Decode (PkRTU _) = rtu_Decode"
| "any_Decode (PkASCII _) = ascii_Decode"
| "any_Decode (PkTCP _) = tcp_Decode"

interpretation any_mode: packager any_Encode any_Verify any_Decode
proof unfold_locales
  fix p pk
  assume "fits p"
  then show "\<exists>adu pk'. any_Encode pk p = (Ok adu, pk')"
    by (cases pk) (auto simp: rtu_Encode_eq ascii_Encode_eq tcp_Encode_eq)
next
  fix pk p a pk1 q b pk2
  assume ab: "any_Encode pk p = (Ok a, pk1)" "any_Encode pk q = (Ok b, pk2)"
  then show "any_Verify pk1 a b = Ok ()"
    by (cases pk) (auto simp: rtu_Encode_eq ascii_Encode_eq tcp_Encode_eq
        rtu_Verify_frame ascii_Verify_frame tcp_Verify_frame split: if_splits)
  assume "fits q"
  with ab show "any_Decode pk1 b = Ok q"
    by (cases pk) (auto simp: rtu_Encode_eq ascii_Encode_eq tcp_Encode_eq
        rtu_Decode_frame ascii_Decode_frame tcp_Decode_frame split: if_splits)
qed

section \<open>Properties\<close>

text \<open>C19: the table-driven checksum of \<open>pushBytes\<close> is the bitwise CRC-16 of Modbus (reflected
  polynomial \<open>0xA001\<close>, initial value \<open>0xFFFF\<close>) on every byte sequence.\<close>

theorem table_crc_is_crc16: "rtu_crc bs = crc16 bs"
proof -
  have "crc_value crc_reset = 0xFFFF"
    by (simp add: crc_value_def crc_reset_def)
  then show ?thesis by (simp add: rtu_crc_def crc_pushBytes_value crc16_def)
qed

text \<open>C20: an RTU frame in which one byte of address, function code or data was changed on the
  line is refused by the checksum.\<close>

theorem rtu_rejects_changed_byte:
  assumes "a \<noteq> b" and "length (xs @ a # ys) \<ge> 2"
    and "cs = rtu_crc (xs @ a # ys)"
  shows "rtu_Decode ((xs @ b # ys) @ [lo8 cs, hi8 cs]) =
    Err (CrcMismatch cs (rtu_crc (xs @ b # ys)))"
proof -
  have "cs \<noteq> rtu_crc (xs @ b # ys)"
    unfolding assms(3) rtu_crc_def by (rule crc_single_byte_differs [OF assms(1)])
  with assms(2) show ?thesis
    by (subst rtu_Decode_trailer) auto
qed

lemma rtu_rejects_changed_byte_witness:
  "rtu_Decode (([17, 3] @ 2 # [0, 107]) @ [lo8 (rtu_crc ([17, 3] @ 1 # [0, 107])),
      hi8 (rtu_crc ([17, 3] @ 1 # [0, 107]))])
    = Err (CrcMismatch (rtu_crc ([17, 3] @ 1 # [0, 107])) (rtu_crc ([17, 3] @ 2 # [0, 107])))"
  by (rule rtu_rejects_changed_byte [OF _ _ refl]) simp_all

text \<open>C18: in each of the three modes, encoding a data unit that fits a Modbus frame succeeds, the
  frame verifies against a frame of the same packager, and decoding returns the data unit.\<close>

theorem packager_roundtrip:
  assumes "fits p"
  shows "\<exists>adu pk'. any_Encode pk p = (Ok adu, pk') \<and> any_Verify pk' adu adu = Ok ()
    \<and> any_Decode pk' adu = Ok p"
  using any_mode.Encode_total [OF assms, of pk] any_mode.Verify_same any_mode.Decode_Encode assms
  by blast

lemma packager_roundtrip_witness:
  "\<exists>adu pk'. any_Encode (PkASCII 17) \<lparr>FunctionCode = 3, Data = [0, 107]\<rparr> = (Ok adu, pk')
    \<and> any_Verify pk' adu adu = Ok () \<and> any_Decode pk' adu = Ok \<lparr>FunctionCode = 3, Data = [0, 107]\<rparr>"
  by (rule packager_roundtrip) (simp add: fits_def)

end
