(* ===== verification/Modbus_Client.thy ===== *)
theory Modbus_Client
  imports Modbus_Packager
begin

text \<open>
  The Modbus client of \<open>third_party/goburrow/modbus/client.go\<close>: one definition per function
  code, over any packager and any transporter, and the exchange \<open>send\<close> they share. The
  lemmas say what an operation returns when the addressed device answers with a well-formed
  frame, for every packager that satisfies the interface \<open>packager\<close>.
\<close>

section \<open>Client and exchange\<close>

text \<open>
  \<open>client\<close> of the source holds a packager and a transporter; both are values with state, so
  the operations take and return the pair of their states.
\<close>

record ('p, 't) client =
  pk_Encode :: "'p \<Rightarrow> pdu \<Rightarrow> (byte list, mb_error) go \<times> 'p"
  pk_Verify :: "'p \<Rightarrow> byte list \<Rightarrow> byte list \<Rightarrow> (unit, mb_error) go"
  pk_Decode :: "'p \<Rightarrow> byte list \<Rightarrow> (pdu, mb_error) go"
  tr_Send :: "'t \<Rightarrow> byte list \<Rightarrow> (byte list, mb_error) go \<times> 't"

definition responseError :: "pdu \<Rightarrow> mb_error" where
  "responseError response =
     Exception (FunctionCode response)
       (case Data response of [] \<Rightarrow> 0 | d # _ \<Rightarrow> d)"

definition send ::
  "('p, 't) client \<Rightarrow> 'p \<times> 't \<Rightarrow> pdu \<Rightarrow> (pdu, mb_error) go \<times> ('p \<times> 't)" where
  "send mb st request =
     (case pk_Encode mb (fst st) request of
        (Ok aduRequest, p) \<Rightarrow>
          (case tr_Send mb (snd st) aduRequest of
             (Ok aduResponse, t) \<Rightarrow>
               (go_bind (pk_Verify mb p aduRequest aduResponse) (\<lambda>_.
                go_bind (pk_Decode mb p aduResponse) (\<lambda>response.
                  if FunctionCode response \<noteq> FunctionCode request then
                    Err (responseError response)
                  else if Data response = [] then Err EmptyResponse
                  else Ok response)), (p, t))
           | (Err e, t) \<Rightarrow> (Err e, (p, t))
           | (Panic m, t) \<Rightarrow> (Panic m, (p, t)))
      | (Err e, p) \<Rightarrow> (Err e, (p, snd st))
      | (Panic m, p) \<Rightarrow> (Panic m, (p, snd st)))"

definition dataBlock :: "u16 list \<Rightarrow> byte list" where
  "dataBlock vs = concat (map put16 vs)"

definition dataBlockSuffix :: "byte list \<Rightarrow> u16 list \<Rightarrow> byte list" where
  "dataBlockSuffix suffix vs =
     concat (map put16 vs) @ [word_of_nat (length suffix)] @ suffix"

section \<open>Response checks shared by the operations\<close>

text \<open>The byte count in front of read data, and the echo of a write.\<close>

definition counted :: "pdu \<Rightarrow> (byte list, mb_error) go" where
  "counted response =
     go_bind (byte_at (Data response) 0) (\<lambda>c.
       let count = unat c; len = length (Data response) - 1 in
       if count \<noteq> len then Err (SizeVsCount len count) else Ok (tl (Data response)))"

definition echoed :: "string \<Rightarrow> u16 \<Rightarrow> u16 \<Rightarrow> pdu \<Rightarrow> (byte list, mb_error) go" where
  "echoed what address v response =
     (if length (Data response) \<noteq> 4 then Err (SizeVsExpected (length (Data response)) 4)
      else
        go_bind (u16_at (Data response) 0) (\<lambda>a.
          if address \<noteq> a then Err (FieldMismatch ''address'' (unat a) (unat address))
          else
            go_bind (u16_at (Data response) 2) (\<lambda>w.
              if v \<noteq> w then Err (FieldMismatch what (unat w) (unat v))
              else Ok (drop 2 (Data response)))))"

definition finish :: "('a \<Rightarrow> ('b, 'e) go) \<Rightarrow> ('a, 'e) go \<times> 's \<Rightarrow> ('b, 'e) go \<times> 's" where
  "finish f r = (go_bind (fst r) f, snd r)"

section \<open>Operations\<close>

type_synonym ('p, 't) op_result = "(byte list, mb_error) go \<times> ('p \<times> 't)"

definition ReadCoils ::
  "('p, 't) client \<Rightarrow> 'p \<times> 't \<Rightarrow> u16 \<Rightarrow> u16 \<Rightarrow> ('p, 't) op_result" where
  "ReadCoils mb st address quantity =
     (if quantity < 1 \<or> quantity > 2000 then
        (Err (QuantityRange ''quantity'' (unat quantity) 1 2000), st)
      else finish counted
             (send mb st \<lparr>FunctionCode = 1, Data = dataBlock [address, quantity]\<rparr>))"

definition ReadDiscreteInputs ::
  "('p, 't) client \<Rightarrow> 'p \<times> 't \<Rightarrow> u16 \<Rightarrow> u16 \<Rightarrow> ('p, 't) op_result" where
  "ReadDiscreteInputs mb st address quantity =
     (if quantity < 1 \<or> quantity > 2000 then
        (Err (QuantityRange ''quantity'' (unat quantity) 1 2000), st)
      else finish counted
             (send mb st \<lparr>FunctionCode = 2, Data = dataBlock [address, quantity]\<rparr>))"

definition ReadHoldingRegisters ::
  "('p, 't) client \<Rightarrow> 'p \<times> 't \<Rightarrow> u16 \<Rightarrow> u16 \<Rightarrow> ('p, 't) op_result" where
  "ReadHoldingRegisters mb st address quantity =
     (if quantity < 1 \<or> quantity > 125 then
        (Err (QuantityRange ''quantity'' (unat quantity) 1 125), st)
      else finish counted
             (send mb st \<lparr>FunctionCode = 3, Data = dataBlock [address, quantity]\<rparr>))"

definition ReadInputRegisters ::
  "('p, 't) client \<Rightarrow> 'p \<times> 't \<Rightarrow> u16 \<Rightarrow> u16 \<Rightarrow> ('p, 't) op_result" where
  "ReadInputRegisters mb st address quantity =
     (if quantity < 1 \<or> quantity > 125 then
        (Err (QuantityRange ''quantity'' (unat quantity) 1 125), st)
      else finish counted
             (send mb st \<lparr>FunctionCode = 4, Data = dataBlock [address, quantity]\<rparr>))"

definition WriteSingleCoil ::
  "('p, 't) client \<Rightarrow> 'p \<times> 't \<Rightarrow> u16 \<Rightarrow> u16 \<Rightarrow> ('p, 't) op_result" where
  "WriteSingleCoil mb st address v =
     (if v \<noteq> 0xFF00 \<and> v \<noteq> 0 then (Err (StateValue v), st)
      else finish (echoed ''value'' address v)
             (send mb st \<lparr>FunctionCode = 5, Data = dataBlock [address, v]\<rparr>))"

definition WriteSingleRegister ::
  "('p, 't) client \<Rightarrow> 'p \<times> 't \<Rightarrow> u16 \<Rightarrow> u16 \<Rightarrow> ('p, 't) op_result" where
  "WriteSingleRegister mb st address v =
     finish (echoed ''value'' address v)
       (send mb st \<lparr>FunctionCode = 6, Data = dataBlock [address, v]\<rparr>)"

definition WriteMultipleCoils ::
  "('p, 't) client \<Rightarrow> 'p \<times> 't \<Rightarrow> u16 \<Rightarrow> u16 \<Rightarrow> byte list \<Rightarrow> ('p, 't) op_result" where
  "WriteMultipleCoils mb st address quantity v =
     (if quantity < 1 \<or> quantity > 1968 then
        (Err (QuantityRange ''quantity'' (unat quantity) 1 1968), st)
      else finish (echoed ''quantity'' address quantity)
             (send mb st \<lparr>FunctionCode = 15, Data = dataBlockSuffix v [address, quantity]\<rparr>))"

definition WriteMultipleRegisters ::
  "('p, 't) client \<Rightarrow> 'p \<times> 't \<Rightarrow> u16 \<Rightarrow> u16 \<Rightarrow> byte list \<Rightarrow> ('p, 't) op_result" where
  "WriteMultipleRegisters mb st address quantity v =
     (if quantity < 1 \<or> quantity > 123 then
        (Err (QuantityRange ''quantity'' (unat quantity) 1 123), st)
      else finish (echoed ''quantity'' address quantity)
             (send mb st \<lparr>FunctionCode = 16, Data = dataBlockSuffix v [address, quantity]\<rparr>))"

definition mask_echoed :: "u16 \<Rightarrow> u16 \<Rightarrow> u16 \<Rightarrow> pdu \<Rightarrow> (byte list, mb_error) go" where
  "mask_echoed address andMask orMask response =
     (if length (Data response) \<noteq> 6 then Err (SizeVsExpected (length (Data response)) 6)
      else
        go_bind (u16_at (Data response) 0) (\<lambda>a.
        if address \<noteq> a then Err (FieldMismatch ''address'' (unat a) (unat address))
        else go_bind (u16_at (Data response) 2) (\<lambda>m.
        if andMask \<noteq> m then Err (FieldMismatch ''AND-mask'' (unat m) (unat andMask))
        else go_bind (u16_at (Data response) 4) (\<lambda>n.
        if orMask \<noteq> n then Err (FieldMismatch ''OR-mask'' (unat n) (unat orMask))
        else Ok (drop 2 (Data response))))))"

definition MaskWriteRegister ::
  "('p, 't) client \<Rightarrow> 'p \<times> 't \<Rightarrow> u16 \<Rightarrow> u16 \<Rightarrow> u16 \<Rightarrow> ('p, 't) op_result" where
  "MaskWriteRegister mb st address andMask orMask =
     finish (mask_echoed address andMask orMask)
       (send mb st \<lparr>FunctionCode = 22, Data = dataBlock [address, andMask, orMask]\<rparr>)"

definition ReadWriteMultipleRegisters ::
  "('p, 't) client \<Rightarrow> 'p \<times> 't \<Rightarrow> u16 \<Rightarrow> u16 \<Rightarrow> u16 \<Rightarrow> u16 \<Rightarrow> byte list \<Rightarrow> ('p, 't) op_result" where
  "ReadWriteMultipleRegisters mb st readAddress readQuantity writeAddress writeQuantity v =
     (if readQuantity < 1 \<or> readQuantity > 125 then
        (Err (QuantityRange ''quantity to read'' (unat readQuantity) 1 125), st)
      else if writeQuantity < 1 \<or> writeQuantity > 121 then
        (Err (QuantityRange ''quantity to write'' (unat writeQuantity) 1 121), st)
      else finish counted
             (send mb st \<lparr>FunctionCode = 23,
                Data = dataBlockSuffix v [readAddress, readQuantity, writeAddress, writeQuantity]\<rparr>))"

definition fifo_data :: "pdu \<Rightarrow> (byte list, mb_error) go" where
  "fifo_data response =
     (if length (Data response) < 4 then Err (SizeLess (length (Data response)) 4)
      else
        go_bind (u16_at (Data response) 0) (\<lambda>c.
        let len = length (Data response) - 1 in
        if unat c \<noteq> len then Err (SizeVsCount len (unat c))
        else go_bind (u16_at (Data response) 2) (\<lambda>k.
        if unat k > 31 then Err (FifoCount (unat k))
        else Ok (drop 4 (Data response)))))"

definition ReadFIFOQueue ::
  "('p, 't) client \<Rightarrow> 'p \<times> 't \<Rightarrow> u16 \<Rightarrow> ('p, 't) op_result" where
  "ReadFIFOQueue mb st address =
     finish fifo_data (send mb st \<lparr>FunctionCode = 24, Data = dataBlock [address]\<rparr>)"

lemmas client_ops_defs =
  ReadCoils_def ReadDiscreteInputs_def ReadHoldingRegisters_def ReadInputRegisters_def
  WriteSingleCoil_def WriteSingleRegister_def WriteMultipleCoils_def
  WriteMultipleRegisters_def MaskWriteRegister_def ReadWriteMultipleRegisters_def
  ReadFIFOQueue_def

section \<open>Laws of the response checks\<close>

lemma length_dataBlock [simp]: "length (dataBlock vs) = 2 * length vs"
  by (simp add: dataBlock_def concat_map_length_const)

lemma length_dataBlockSuffix [simp]:
  "length (dataBlockSuffix s vs) = 2 * length vs + 1 + length s"
  by (simp add: dataBlockSuffix_def concat_map_length_const)

lemma counted_eq_Ok: "counted r = Ok d \<longleftrightarrow> (\<exists>c. Data r = c # d \<and> unat c = length d)"
  by (cases "Data r") (auto simp: counted_def byte_at_def Let_def)

lemma echoed_eq_Ok: "echoed w a v r = Ok d \<longleftrightarrow> Data r = put16 a @ put16 v \<and> d = put16 v"
proof (cases "length (Data r) = 4")
  case True
  then obtain x y z u where "Data r = [x, y, z, u]"
    by (auto simp: numeral_eq_Suc length_Suc_conv)
  then show ?thesis
    by (auto simp: echoed_def u16_at_def put16_def)
next
  case False
  then show ?thesis by (auto simp: echoed_def put16_def)
qed

lemma counted_no_panic: "Data r \<noteq> [] \<Longrightarrow> \<not> is_panic (counted r)"
  by (cases "Data r") (auto simp: counted_def byte_at_def Let_def)

lemma echoed_no_panic: "\<not> is_panic (echoed w a v r)"
  by (auto simp: echoed_def u16_at_def)

section \<open>Exchanges with a conforming device\<close>

text \<open>
  A transporter whose answer to a request is the frame of some data unit, made by the same
  packager value (same unit, and for TCP the same transaction).
\<close>

definition answers ::
  "('p, 't) client \<Rightarrow> 'p \<Rightarrow> 't \<Rightarrow> pdu \<Rightarrow> pdu \<Rightarrow> 't \<Rightarrow> bool" where
  "answers mb p t request response t' \<longleftrightarrow>
     (\<exists>a b pa pb. pk_Encode mb p request = (Ok a, pa) \<and> pk_Encode mb p response = (Ok b, pb)
        \<and> tr_Send mb t a = (Ok b, t'))"

context packager
begin

lemma send_answer:
  assumes "pk_Encode mb = Encode" "pk_Verify mb = Verify" "pk_Decode mb = Decode"
    and "answers mb p t request response t'" and "fits response"
  shows "fst (send mb (p, t) request) =
      (if FunctionCode response \<noteq> FunctionCode request then Err (responseError response)
       else if Data response = [] then Err EmptyResponse else Ok response)"
    and "snd (snd (send mb (p, t) request)) = t'"
proof -
  obtain a b pa pb where
    ab: "Encode p request = (Ok a, pa)" "Encode p response = (Ok b, pb)" "tr_Send mb t a = (Ok b, t')"
    using assms by (auto simp: answers_def)
  from ab(1,2) have v: "Verify pa a b = Ok ()" by (rule Verify_same)
  from ab(1,2) assms(5) have d: "Decode pa b = Ok response" by (rule Decode_Encode)
  from ab v d assms(1-3) show
    "fst (send mb (p, t) request) =
      (if FunctionCode response \<noteq> FunctionCode request then Err (responseError response)
       else if Data response = [] then Err EmptyResponse else Ok response)"
    "snd (snd (send mb (p, t) request)) = t'"
    by (simp_all add: send_def)
qed

end

section \<open>Properties\<close>

text \<open>the answer to \<open>ReadFIFOQueue\<close> that the Modbus specification prescribes (a 16-bit byte
  count covering the FIFO count and the values) is always rejected: the code compares the count
  with the length of the data less one.\<close>

theorem fifo_rejects_conforming:
  assumes "length vs \<le> 31"
  shows "fifo_data \<lparr>FunctionCode = 24,
      Data = put16 (word_of_nat (2 + 2 * length vs)) @ put16 (word_of_nat (length vs)) @ dataBlock vs\<rparr>
    = Err (SizeVsCount (3 + 2 * length vs) (2 + 2 * length vs))"
proof -
  have "unat (word_of_nat (2 + 2 * length vs) :: u16) = 2 + 2 * length vs"
    using assms by (simp only: unat_of_nat) (simp add: take_bit_eq_mod)
  then show ?thesis
    by (simp add: fifo_data_def u16_at_def put16_def Let_def nth_Cons' del: of_nat_add of_nat_mult)
qed

lemma fifo_rejects_conforming_witness:
  "fifo_data \<lparr>FunctionCode = 24,
      Data = put16 (word_of_nat (2 + 2 * length [7, 8 :: u16])) @ put16 (word_of_nat (length [7, 8 :: u16]))
        @ dataBlock [7, 8]\<rparr>
    = Err (SizeVsCount (3 + 2 * length [7, 8 :: u16]) (2 + 2 * length [7, 8 :: u16]))"
  by (rule fifo_rejects_conforming) simp

end
