(* ===== verification/Objx.thy ===== *)
theory Objx
  imports Go_Text "HOL-Library.AList"
begin

text \<open>
  Dynamic values and the selector access of \<open>objx.Map\<close>
  (\<open>vendor/github.com/stretchr/objx/accessors.go\<close>), through which every component reads
  and writes request parameters, configuration and state.

  A Go \<open>interface{}\<close> built from JSON is a \<open>gval\<close>. \<open>GNum\<close> is a \<open>json.Number\<close> (the
  connectors decode with \<open>UseNumber\<close>), \<open>GFloat\<close> a float64 by its bits (the core decodes
  without it), \<open>GInt\<close> any Go integer, \<open>GBytes\<close> a byte slice and \<open>GRaw\<close> a
  \<open>jsoniter.RawMessage\<close>. Maps are association lists; only lookups are observed.
\<close>

datatype gval =
    GNil
  | GBool bool
  | GNum string
  | GFloat "64 word"
  | GInt int
  | GStr string
  | GBytes string
  | GRaw string
  | GArr "gval list"
  | GMap "(string \<times> gval) list"

type_synonym gmap = "(string \<times> gval) list"

section \<open>Selectors\<close>

text \<open>
  \<open>mapAccessRegex\<close> is \<open>^([^\[]*)\[([^\]]+)\](.*)$\<close>: text without an opening bracket, a
  bracketed non-empty key, and a rest in which \<open>.\<close> does not match a newline.
\<close>

definition map_access_match :: "string \<Rightarrow> (string \<times> string \<times> string) option" where
  "map_access_match s =
     (let pre = takeWhile (\<lambda>c. c \<noteq> CHR ''['') s;
          post = dropWhile (\<lambda>c. c \<noteq> CHR ''['') s in
      case post of
        [] \<Rightarrow> None
      | _ # t \<Rightarrow>
          let mid = takeWhile (\<lambda>c. c \<noteq> CHR '']'') t;
              rest = dropWhile (\<lambda>c. c \<noteq> CHR '']'') t in
          (case rest of
             [] \<Rightarrow> None
           | _ # r \<Rightarrow>
               if mid = [] \<or> CHR 0x0A \<in> set r then None else Some (pre, mid, r)))"

text \<open>\<open>strings.SplitN(s, ".", 2)\<close>, with the empty string for a missing second part.\<close>

definition split_dot :: "string \<Rightarrow> string \<times> string" where
  "split_dot s = (takeWhile (\<lambda>c. c \<noteq> CHR ''.'') s, tl (dropWhile (\<lambda>c. c \<noteq> CHR ''.'') s))"

definition strip_dot :: "string \<Rightarrow> string" where
  "strip_dot s = (case s of c # r \<Rightarrow> if c = CHR ''.'' then r else s | [] \<Rightarrow> [])"

definition getKey :: "string \<Rightarrow> string \<times> string" where
  "getKey s =
     (case map_access_match s of
        Some (m1, m2, m3) \<Rightarrow>
          (case parse_int m2 64 of
             Inr _ \<Rightarrow> split_dot s
           | Inl _ \<Rightarrow>
               if m1 = [] then (m2, strip_dot m3)
               else (m1, strip_dot (CHR ''['' # m2 @ CHR '']'' # m3)))
      | None \<Rightarrow> split_dot s)"

text \<open>
  \<open>arrayAccesRegex\<close> is \<open>^(.+)\[([0-9]+)\]$\<close>. An index beyond the range of \<open>int\<close> is read
  as the largest \<open>int\<close> by \<open>Atoi\<close>; like every index past the end it selects nothing.
\<close>

definition getIndex :: "string \<Rightarrow> nat option \<times> string" where
  "getIndex s =
     (case rev s of
        c # r \<Rightarrow>
          let ds = rev (takeWhile (\<lambda>c. digit_val c \<noteq> None) r);
              q = dropWhile (\<lambda>c. digit_val c \<noteq> None) r in
          (case q of
             b # p \<Rightarrow>
               if c \<noteq> CHR '']'' \<or> b \<noteq> CHR ''['' \<or> ds = [] \<or> p = [] \<or> CHR 0x0A \<in> set p
               then (None, s)
               else (Some (foldl (\<lambda>n c. n * 10 + the (digit_val c)) 0 ds), rev p)
           | [] \<Rightarrow> (None, s))
      | [] \<Rightarrow> (None, s))"

lemma length_takeWhile_tl_dropWhile:
  "dropWhile P s = c # t \<Longrightarrow> length (takeWhile P s) + length t < length s"
  by (metis add_Suc_right length_Cons length_append lessI takeWhile_dropWhile_id)

lemma map_access_match_length:
  "map_access_match s = Some (m1, m2, m3) \<Longrightarrow>
     length m1 + length m2 + length m3 + 2 \<le> length s \<and> m2 \<noteq> []"
  by (auto simp: map_access_match_def Let_def split: list.splits if_splits
      dest!: length_takeWhile_tl_dropWhile)

lemma length_strip_dot: "length (strip_dot s) \<le> length s"
  by (auto simp: strip_dot_def split: list.splits)

lemma length_split_dot: "snd (split_dot s) \<noteq> [] \<Longrightarrow> length (snd (split_dot s)) < length s"
proof -
  assume ne: "snd (split_dot s) \<noteq> []"
  have "length (tl xs) < length xs" if "tl xs \<noteq> []" for xs :: string
    using that by (cases xs) auto
  with ne show ?thesis
    unfolding split_dot_def snd_conv
    by (meson length_dropWhile_le less_le_trans)
qed

lemma getKey_shorter:
  assumes "snd (getKey s) \<noteq> []"
  shows "length (snd (getKey s)) < length s"
proof (cases "map_access_match s")
  case None
  with assms length_split_dot show ?thesis by (simp add: getKey_def)
next
  case (Some t)
  obtain m1 m2 m3 where t: "t = (m1, m2, m3)" by (cases t) auto
  from Some t have len: "length m1 + length m2 + length m3 + 2 \<le> length s"
    using map_access_match_length by blast
  show ?thesis
  proof (cases "parse_int m2 64")
    case (Inr i)
    with Some t assms length_split_dot show ?thesis by (simp add: getKey_def)
  next
    case (Inl e)
    show ?thesis
    proof (cases "m1 = []")
      case True
      with Some t Inl len length_strip_dot [of m3] show ?thesis by (simp add: getKey_def)
    next
      case False
      then have "0 < length m1" by simp
      with len length_strip_dot [of "CHR ''['' # m2 @ CHR '']'' # m3"]
      have "length (strip_dot (CHR ''['' # m2 @ CHR '']'' # m3)) < length s"
        by (simp only: length_Cons length_append)
      with Some t Inl False show ?thesis by (simp add: getKey_def)
    qed
  qed
qed

text \<open>The selector split of one \<open>access\<close> call: index, key and remaining selector.\<close>

definition selector :: "string \<Rightarrow> nat option \<times> string \<times> string" where
  "selector s =
     (let (this, next) = getKey s;
          (idx, key) = (if CHR ''['' \<in> set this then getIndex this else (None, this))
      in (idx, key, next))"

lemma selector_shorter [simp]:
  "(idx, key, next) = selector s \<Longrightarrow> next \<noteq> [] \<Longrightarrow> length next < length s"
  using getKey_shorter [of s] by (auto simp: selector_def Let_def split: prod.splits)

section \<open>Access\<close>

text \<open>\<open>interSlice\<close>: a byte slice is copied element by element.\<close>

definition interSlice :: "gval \<Rightarrow> gval list option" where
  "interSlice v =
     (case v of
        GArr xs \<Rightarrow> Some xs
      | GBytes s \<Rightarrow> Some (map (\<lambda>c. GInt (of_char c)) s)
      | GRaw s \<Rightarrow> Some (map (\<lambda>c. GInt (of_char c)) s)
      | _ \<Rightarrow> None)"

definition look :: "gmap \<Rightarrow> string \<Rightarrow> gval" where
  "look m k = (case map_of m k of None \<Rightarrow> GNil | Some v \<Rightarrow> v)"

definition at_index :: "nat option \<Rightarrow> gval \<Rightarrow> gval" where
  "at_index idx v =
     (case idx of
        None \<Rightarrow> v
      | Some i \<Rightarrow>
          (case interSlice v of
             Some xs \<Rightarrow> if i < length xs then xs ! i else GNil
           | None \<Rightarrow> v))"

definition is_GMap :: "gval \<Rightarrow> bool" where
  "is_GMap v = (case v of GMap _ \<Rightarrow> True | _ \<Rightarrow> False)"

text \<open>\<open>access\<close> with \<open>isSet == false\<close>.\<close>

function access_get :: "gval \<Rightarrow> string \<Rightarrow> gval" where
  "access_get cur sel =
     (case selector sel of (idx, key, next) \<Rightarrow>
        let cur1 = at_index idx (case cur of GMap m \<Rightarrow> look m key | _ \<Rightarrow> GNil) in
        if next = [] then cur1 else access_get cur1 next)"
  by pat_completeness auto
termination
  by (relation "measure (\<lambda>(cur, sel). length sel)") auto

declare access_get.simps [simp del]

text \<open>
  \<open>access\<close> with \<open>isSet == true\<close>. Go maps and slices are references, so the call updates
  the tree in place; the model returns the updated tree. A missing or non-map entry on the
  way is replaced by an empty map unless an index follows the key.
\<close>

definition grow :: "nat option \<Rightarrow> string \<Rightarrow> gmap \<Rightarrow> gmap" where
  "grow idx key m =
     (if idx = None \<and> \<not> is_GMap (look m key) then AList.update key (GMap []) m else m)"

function access_set :: "gval \<Rightarrow> string \<Rightarrow> gval \<Rightarrow> gval" where
  "access_set cur sel v =
     (case cur of
        GMap m \<Rightarrow>
          (case selector sel of (idx, key, next) \<Rightarrow>
             if next = [] then GMap (AList.update key v m)
             else
               let m1 = grow idx key m; c1 = look m1 key in
               (case idx of
                  None \<Rightarrow> GMap (AList.update key (access_set c1 next v) m1)
                | Some i \<Rightarrow>
                    (case c1 of
                       GArr xs \<Rightarrow>
                         if i < length xs then
                           GMap (AList.update key
                                   (GArr (xs[i := access_set (xs ! i) next v])) m1)
                         else GMap m1
                     | GMap _ \<Rightarrow> GMap (AList.update key (access_set c1 next v) m1)
                     | _ \<Rightarrow> GMap m1)))
      | _ \<Rightarrow> cur)"
  by pat_completeness auto
termination
  by (relation "measure (\<lambda>(cur, sel, v). length sel)") auto

declare access_set.simps [simp del]

text \<open>
  \<open>Map.Get\<close> and \<open>Map.Set\<close>. A nil \<open>objx.Map\<close> (what decoding the JSON text \<open>null\<close> leaves)
  reads as empty and panics on every write.
\<close>

definition Get :: "gval \<Rightarrow> string \<Rightarrow> gval" where
  "Get m sel = access_get m sel"

definition Set :: "gval \<Rightarrow> string \<Rightarrow> gval \<Rightarrow> (gval, 'e) go" where
  "Set m sel v =
     (case m of
        GMap _ \<Rightarrow> Ok (access_set m sel v)
      | _ \<Rightarrow> Panic ''assignment to entry in nil map'')"

section \<open>Typed reads of a value\<close>

fun IsNil :: "gval \<Rightarrow> bool" where
  "IsNil GNil = True"
| "IsNil _ = False"

fun IsStr :: "gval \<Rightarrow> bool" where
  "IsStr (GStr s) = True"
| "IsStr _ = False"

fun Str :: "gval \<Rightarrow> string" where
  "Str (GStr s) = s"
| "Str _ = []"

fun Str_default :: "gval \<Rightarrow> string \<Rightarrow> string" where
  "Str_default (GStr s) d = s"
| "Str_default _ d = d"

fun Bool :: "gval \<Rightarrow> bool" where
  "Bool (GBool b) = b"
| "Bool _ = False"

fun InterSlice :: "gval \<Rightarrow> gval list option" where
  "InterSlice (GArr xs) = Some xs"
| "InterSlice _ = None"

fun ObjxMapSlice :: "gval \<Rightarrow> gval list option" where
  "ObjxMapSlice (GArr xs) = (if list_all is_GMap xs then Some xs else None)"
| "ObjxMapSlice _ = None"

section \<open>Laws of selector access\<close>

named_theorems objx_simps

abbreviation no_bracket :: "string \<Rightarrow> bool" where
  "no_bracket s \<equiv> CHR ''['' \<notin> set s"

abbreviation no_dot :: "string \<Rightarrow> bool" where
  "no_dot s \<equiv> CHR ''.'' \<notin> set s"

lemma look_Nil [simp]: "look [] k = GNil"
  by (simp add: look_def)

lemma look_update [simp]: "look (AList.update k v m) k' = (if k' = k then v else look m k')"
  by (simp add: look_def update_conv')

lemma look_Cons [simp]: "look ((k, v) # m) k' = (if k' = k then v else look m k')"
  by (simp add: look_def)

lemma dropWhile_no_sep: "d \<notin> set s \<Longrightarrow> dropWhile (\<lambda>c. c \<noteq> d) s = []"
  by (auto simp: dropWhile_eq_Nil_conv)

lemma takeWhile_no_sep: "d \<notin> set s \<Longrightarrow> takeWhile (\<lambda>c. c \<noteq> d) s = s"
  by (auto simp: takeWhile_eq_all_conv)

lemma map_access_match_plain: "no_bracket s \<Longrightarrow> map_access_match s = None"
  by (simp add: map_access_match_def dropWhile_no_sep)

lemma split_dot_plain [simp]: "no_dot s \<Longrightarrow> split_dot s = (s, [])"
  by (simp add: split_dot_def dropWhile_no_sep takeWhile_no_sep)

lemma split_dot_append [simp]: "no_dot a \<Longrightarrow> split_dot (a @ CHR ''.'' # r) = (a, r)"
  by (induction a) (auto simp: split_dot_def)

lemma set_split_dot: "set (fst (split_dot s)) \<subseteq> set s \<and> set (snd (split_dot s)) \<subseteq> set s"
  by (auto simp: split_dot_def dest: set_takeWhileD list.set_sel(2) set_dropWhileD)
    (metis list.sel(2) list.set_sel(2) set_dropWhileD)

lemma selector_plain [objx_simps]:
  "no_bracket s \<Longrightarrow> selector s = (None, fst (split_dot s), snd (split_dot s))"
  using set_split_dot [of s]
  by (auto simp: selector_def getKey_def map_access_match_plain split: prod.splits)

lemma access_get_plain [objx_simps]:
  "no_bracket k \<Longrightarrow> no_dot k \<Longrightarrow> access_get (GMap m) k = look m k"
  by (subst access_get.simps) (simp add: selector_plain at_index_def)

lemma access_get_path [objx_simps]:
  "no_bracket (a @ CHR ''.'' # r) \<Longrightarrow> no_dot a \<Longrightarrow> r \<noteq> [] \<Longrightarrow>
     access_get (GMap m) (a @ CHR ''.'' # r) = access_get (look m a) r"
  by (subst access_get.simps) (simp add: selector_plain at_index_def)

lemma access_get_no_map:
  "\<not> is_GMap c \<Longrightarrow> no_bracket s \<Longrightarrow> access_get c s = GNil"
proof (induction "length s" arbitrary: c s rule: less_induct)
  case less
  obtain idx key nxt where sel: "selector s = (idx, key, nxt)" by (cases "selector s") auto
  with less.prems have "idx = None" by (simp add: selector_plain)
  moreover have "no_bracket nxt"
    using less.prems(2) set_split_dot [of s] sel by (auto simp: selector_plain)
  moreover have "nxt \<noteq> [] \<Longrightarrow> access_get GNil nxt = GNil"
    using less.hyps [of nxt GNil] sel \<open>no_bracket nxt\<close> by (auto simp: is_GMap_def)
  ultimately show ?case
    using less.prems(1) sel
    by (subst access_get.simps) (auto simp: at_index_def is_GMap_def split: gval.splits)
qed

lemma is_GMap_access_set [simp]: "is_GMap (access_set c s v) = is_GMap c"
  by (subst access_set.simps)
    (auto simp: is_GMap_def Let_def split: gval.splits prod.splits option.splits)

lemma is_GMap_grow: "is_GMap (look (grow None key m) key)"
  by (auto simp: grow_def is_GMap_def)

lemma access_get_set:
  "no_bracket s \<Longrightarrow> is_GMap c \<Longrightarrow> access_get (access_set c s v) s = v"
proof (induction "length s" arbitrary: c s rule: less_induct)
  case less
  obtain m where c: "c = GMap m"
    using less.prems by (auto simp: is_GMap_def split: gval.splits)
  obtain idx key nxt where sel: "selector s = (idx, key, nxt)" by (cases "selector s") auto
  with less.prems have idx: "idx = None" by (simp add: selector_plain)
  have nb: "no_bracket nxt"
    using less.prems(1) set_split_dot [of s] sel by (auto simp: selector_plain)
  show ?case
  proof (cases "nxt = []")
    case True
    with c sel idx show ?thesis
      by (subst access_get.simps, subst access_set.simps) (simp add: at_index_def)
  next
    case False
    with less.hyps [of nxt "look (grow None key m) key"] nb sel
    have "access_get (access_set (look (grow None key m) key) nxt v) nxt = v"
      by (simp add: is_GMap_grow)
    with False c sel idx show ?thesis
      by (subst access_get.simps, subst access_set.simps) (simp add: at_index_def Let_def)
  qed
qed

lemma look_access_set_other:
  "no_bracket s \<Longrightarrow> access_set (GMap m) s v = GMap m' \<Longrightarrow> k \<noteq> fst (split_dot s) \<Longrightarrow>
     look m' k = look m k"
  by (subst (asm) access_set.simps)
    (auto simp: selector_plain grow_def Let_def split: if_splits prod.splits)

lemma access_get_set_other:
  assumes "no_bracket s" "no_bracket t" "fst (split_dot s) \<noteq> fst (split_dot t)" "is_GMap c"
  shows "access_get (access_set c s v) t = access_get c t"
proof -
  obtain m where c: "c = GMap m"
    using assms(4) by (auto simp: is_GMap_def split: gval.splits)
  have "is_GMap (access_set (GMap m) s v)" by (simp only: is_GMap_access_set) (simp add: is_GMap_def)
  then obtain m' where m': "access_set (GMap m) s v = GMap m'"
    by (auto simp: is_GMap_def split: gval.splits)
  then have "look m' (fst (split_dot t)) = look m (fst (split_dot t))"
    using assms by (metis look_access_set_other)
  then show ?thesis
    unfolding c m' using assms(2)
    by (subst (1 2) access_get.simps)
      (simp add: selector_plain at_index_def case_prod_beta)
qed

lemma access_set_plain [objx_simps]:
  "no_bracket k \<Longrightarrow> no_dot k \<Longrightarrow> access_set (GMap m) k v = GMap (AList.update k v m)"
  by (subst access_set.simps) (simp add: selector_plain)

lemma Get_key: "no_bracket k \<Longrightarrow> no_dot k \<Longrightarrow> Get (GMap m) k = look m k"
  by (simp add: Get_def access_get_plain)

end
