(* ===== verification/Jsonrpc.thy ===== *)
theory Jsonrpc
  imports Objx
begin

text \<open>
  The JSON-RPC layer of \<open>pkg/jsonrpc\<close>: the error values with their codes (\<open>error.go\<close>),
  the message handling, panic recovery, serve loop and notifications of \<open>Service\<close>
  (\<open>jsonrpc.go\<close>) and the reconnecting driver (\<open>serve.go\<close>). The interface \<open>Caller\<close>, which
  every connector implements, is the locale \<open>rpc_caller\<close>.

  JSON text is produced by the library json-iterator: its string quoting and value encoding
  are the parameters \<open>quote\<close> and \<open>enc\<close> of the definitions that emit text. Stack traces and
  generated process ids are parameters as well.
\<close>

named_theorems rpc_simps

section \<open>Errors\<close>

record rpc_error =
  err_code :: int
  err_message :: string
  err_data :: gmap

text \<open>Go's \<open>error\<close> interface: a \<open>jsonrpc.Error\<close> or any other error, by its text.\<close>

datatype gerror = RpcErr rpc_error | GoErr string

definition rpc_err :: "int \<Rightarrow> string \<Rightarrow> rpc_error" where
  "rpc_err c m = \<lparr>err_code = c, err_message = m, err_data = []\<rparr>"

definition ErrParse :: rpc_error where
  "ErrParse = rpc_err (-32700) ''Parse error''"

definition ErrInvalidRequest :: rpc_error where
  "ErrInvalidRequest = rpc_err (-32600) ''Invalid Request''"

definition ErrMethodNotFound :: rpc_error where
  "ErrMethodNotFound = rpc_err (-32601) ''Method not found''"

definition ErrInvalidParams :: rpc_error where
  "ErrInvalidParams = rpc_err (-32602) ''Invalid params''"

definition ErrInternal :: rpc_error where
  "ErrInternal = rpc_err (-32603) ''Internal error''"

definition ErrServer :: rpc_error where
  "ErrServer = rpc_err (-32000) ''Server error''"

definition SetCode :: "rpc_error \<Rightarrow> int \<Rightarrow> rpc_error" where
  "SetCode e c =
     (if -32099 \<le> err_code e \<and> err_code e \<le> -32000 \<and> -32099 \<le> c \<and> c \<le> -32000
      then e\<lparr>err_code := c\<rparr> else e)"

definition AddData :: "rpc_error \<Rightarrow> string \<Rightarrow> gval \<Rightarrow> rpc_error" where
  "AddData e k v = e\<lparr>err_data := AList.update k v (err_data e)\<rparr>"

definition SetData :: "rpc_error \<Rightarrow> gmap \<Rightarrow> rpc_error" where
  "SetData e d = e\<lparr>err_data := d\<rparr>"

text \<open>\<open>Error.Error\<close> and the \<open>Error\<close> method of the interface.\<close>

definition Error_text :: "rpc_error \<Rightarrow> string" where
  "Error_text e = dec_of_int (err_code e) @ '' - '' @ err_message e"

fun error_text :: "gerror \<Rightarrow> string" where
  "error_text (RpcErr e) = Error_text e"
| "error_text (GoErr m) = m"

text \<open>\<open>rpcErrEncoder.IsEmpty\<close> and \<open>Encode\<close>; the data field is left out when empty.\<close>

definition enc_IsEmpty :: "rpc_error \<Rightarrow> bool" where
  "enc_IsEmpty e = (err_code e = 0)"

definition enc_Encode :: "(string \<Rightarrow> string) \<Rightarrow> (gval \<Rightarrow> string) \<Rightarrow> rpc_error \<Rightarrow> string" where
  "enc_Encode quote enc e =
     ''{\"code\":'' @ dec_of_int (err_code e) @ '','' @ ''\"message\":'' @ quote (err_message e)
     @ (if err_data e \<noteq> [] then '','' @ ''\"data\":'' @ enc (GMap (err_data e)) else '''') @ ''}''"

definition jsonRPCVersion :: string where
  "jsonRPCVersion = ''2.0''"

definition BuildErrResp ::
  "(string \<Rightarrow> string) \<Rightarrow> (gval \<Rightarrow> string) \<Rightarrow> string \<Rightarrow> rpc_error \<Rightarrow> string" where
  "BuildErrResp quote enc rid e =
     (let d = enc_Encode quote enc e;
          id' = (if rid = '''' then ''null'' else rid)
      in ''{\"jsonrpc\":\"'' @ jsonRPCVersion @ ''\",\"id\":\"'' @ id' @ ''\",\"error\":'' @ d @ ''}'')"

lemmas rpc_error_defs =
  rpc_err_def ErrParse_def ErrInvalidRequest_def ErrMethodNotFound_def ErrInvalidParams_def
  ErrInternal_def ErrServer_def

lemma code_consts [rpc_simps]:
  "err_code ErrParse = -32700" "err_code ErrInvalidRequest = -32600" "err_code ErrMethodNotFound = -32601"
  "err_code ErrInvalidParams = -32602" "err_code ErrInternal = -32603" "err_code ErrServer = -32000"
  by (simp_all add: rpc_error_defs)

lemma code_AddData [simp]: "err_code (AddData e k v) = err_code e"
  by (simp add: AddData_def)

lemma code_SetData [simp]: "err_code (SetData e d) = err_code e"
  by (simp add: SetData_def)

lemma message_upd [simp]:
  "err_message (AddData e k v) = err_message e" "err_message (SetData e d) = err_message e"
  "err_message (SetCode e c) = err_message e"
  by (simp_all add: AddData_def SetData_def SetCode_def)

lemma data_upd [simp]:
  "look (err_data (AddData e k v)) k' = (if k' = k then v else look (err_data e) k')"
  "err_data (SetData e d) = d" "err_data (SetCode e c) = err_data e"
  by (simp_all add: AddData_def SetData_def SetCode_def)

definition server_range :: "int \<Rightarrow> bool" where
  "server_range c \<longleftrightarrow> -32099 \<le> c \<and> c \<le> -32000"

lemma code_SetCode: "err_code (SetCode e c) =
     (if server_range (err_code e) \<and> server_range c then c else err_code e)"
  by (simp add: SetCode_def server_range_def)

section \<open>Messages\<close>

record request =
  JSONRPC :: string
  Method :: string
  ID :: string
  Params :: gval

record response =
  resp_JSONRPC :: string
  resp_ID :: string
  resp_Result :: gval
  resp_Error :: "rpc_error option"

text \<open>
  What a \<open>Caller\<close> returns besides an error: a plain value (nil is \<open>GNil\<close>) or a
  \<open>NotificationService\<close>, known by its process id.
\<close>

datatype call_result = RVal gval | RNotify string

type_synonym 's caller = "'s \<Rightarrow> request \<Rightarrow> (call_result, gerror) go \<times> 's"

definition toResult :: "string \<Rightarrow> gval" where
  "toResult pid = GMap [(''process_id'', GStr pid), (''notification'', GBool True)]"

definition buildResult :: "string \<Rightarrow> gval \<Rightarrow> gerror option \<Rightarrow> response" where
  "buildResult rid res e =
     (let id' = (if rid = '''' then ''null'' else rid) in
      case e of
        None \<Rightarrow> \<lparr>resp_JSONRPC = jsonRPCVersion, resp_ID = id', resp_Result = res,
                 resp_Error = None\<rparr>
      | Some err \<Rightarrow>
          let rerr = (case err of
                        RpcErr r \<Rightarrow> r
                      | GoErr m \<Rightarrow> SetCode (AddData ErrServer ''msg'' (GStr m)) (-32098))
          in \<lparr>resp_JSONRPC = jsonRPCVersion, resp_ID = id', resp_Result = GNil,
              resp_Error = Some rerr\<rparr>)"

definition errBadVer :: rpc_error where
  "errBadVer = AddData ErrInvalidRequest ''msg'' (GStr ''bad jsonrpc version'')"

definition errBadMethod :: rpc_error where
  "errBadMethod = AddData ErrInvalidRequest ''msg'' (GStr ''empty method'')"

text \<open>The errors the connectors answer bad parameters and unknown methods with.\<close>

definition invalid_params :: "string \<Rightarrow> gerror" where
  "invalid_params m = RpcErr (AddData ErrInvalidParams ''msg'' (GStr m))"

definition method_not_found :: "string \<Rightarrow> gerror" where
  "method_not_found m = RpcErr (AddData ErrMethodNotFound ''method'' (GStr m))"

text \<open>\<open>Service.call\<close>: the deferred recover turns a panic into a server error.\<close>

definition panic_error :: "string \<Rightarrow> string \<Rightarrow> rpc_error" where
  "panic_error stack m =
     SetCode (SetData ErrServer
        [(''msg'', GStr m), (''panic'', GBool True), (''stack'', GStr stack)]) (-32099)"

definition call_service ::
  "bool \<Rightarrow> string \<Rightarrow> 's caller \<Rightarrow> 's \<Rightarrow> request \<Rightarrow> (call_result, gerror) go \<times> 's" where
  "call_service catchPanic stack c s req =
     (case c s req of
        (Panic m, s') \<Rightarrow>
          if catchPanic then (Err (RpcErr (panic_error stack m)), s') else (Panic m, s')
      | r \<Rightarrow> r)"

text \<open>
  \<open>Service.handleMessage\<close> on what the decoder returned (a request or its error text).
  \<open>Inl\<close> is a panic that leaves the function: nothing above it recovers.
\<close>

definition handleMessage ::
  "bool \<Rightarrow> string \<Rightarrow> 's caller \<Rightarrow> 's \<Rightarrow> string + request \<Rightarrow> (string + response) \<times> 's" where
  "handleMessage catchPanic stack c s d =
     (case d of
        Inl m \<Rightarrow>
          (Inr (buildResult '''' GNil (Some (RpcErr (AddData ErrParse ''msg'' (GStr m))))), s)
      | Inr req \<Rightarrow>
          if JSONRPC req \<noteq> jsonRPCVersion then
            (Inr (buildResult (ID req) GNil (Some (RpcErr errBadVer))), s)
          else if Method req = '''' then
            (Inr (buildResult (ID req) GNil (Some (RpcErr errBadMethod))), s)
          else
            (case call_service catchPanic stack c s req of
               (Panic m, s') \<Rightarrow> (Inl m, s')
             | (Err e, s') \<Rightarrow> (Inr (buildResult (ID req) GNil (Some e)), s')
             | (Ok (RNotify pid), s') \<Rightarrow> (Inr (buildResult (ID req) (toResult pid) None), s')
             | (Ok (RVal v), s') \<Rightarrow>
                 if IsNil v then (Inl ''result and error are nil'', s')
                 else (Inr (buildResult (ID req) v None), s')))"

section \<open>The serve loop\<close>

text \<open>
  One turn of \<open>Service.Serve\<close>: whether the context is done when the loop tests it, what
  the reader and decoder deliver, the error of \<open>NextWriter\<close>, and the error the encoder
  ends with.
\<close>

datatype incoming = ReadFail gerror | ReadEOF | ReadMsg "string + request"

record turn =
  ctx_done :: bool
  incoming :: incoming
  writer_err :: "gerror option"
  encoder_err :: "string option"

datatype stop = Blocked | Cancelled | Returned gerror | ReturnedEOF | Crashed string

fun serve ::
  "bool \<Rightarrow> string \<Rightarrow> 's caller \<Rightarrow> 's \<Rightarrow> turn list \<Rightarrow> response list \<times> stop \<times> 's" where
  "serve cp st c s [] = ([], Blocked, s)"
| "serve cp st c s (t # ts) =
     (if ctx_done t then ([], Cancelled, s)
      else
        (case incoming t of
           ReadFail e \<Rightarrow> ([], Returned e, s)
         | ReadEOF \<Rightarrow> ([], ReturnedEOF, s)
         | ReadMsg d \<Rightarrow>
             (case handleMessage cp st c s d of
                (Inl m, s') \<Rightarrow> ([], Crashed m, s')
              | (Inr r, s') \<Rightarrow>
                  (case writer_err t of
                     Some e \<Rightarrow> ([], Returned e, s')
                   | None \<Rightarrow>
                       (case encoder_err t of
                          Some m \<Rightarrow> ([r], Crashed m, s')
                        | None \<Rightarrow>
                            (case serve cp st c s' ts of
                               (rs, q, s'') \<Rightarrow> (r # rs, q, s'')))))))"

section \<open>Notifications\<close>

text \<open>The request \<open>NotificationService.Send\<close> writes.\<close>

definition notification_request :: "gval \<Rightarrow> string \<Rightarrow> gval \<Rightarrow> request" where
  "notification_request requestParams pid v =
     \<lparr>JSONRPC = jsonRPCVersion, Method = ''notification'', ID = '''',
      Params = GMap [(''__request_params'', requestParams), (''__process_id'', GStr pid),
                     (''value'', v)]\<rparr>"

text \<open>
  The retry loop of \<open>Send\<close>, over the outcomes of the successive \<open>NextWriter\<close> calls:
  \<open>Inl\<close> an error (sleep and try again), \<open>Inr\<close> a writer with the encoder's final error. The
  result is the requests written, and whether the loop returned, panicked or still waits.
\<close>

datatype send_end = Waiting_writer | Sent | Send_panic string

fun Send :: "request \<Rightarrow> (gerror + string option) list \<Rightarrow> request list \<times> send_end" where
  "Send req [] = ([], Waiting_writer)"
| "Send req (Inl e # as) = Send req as"
| "Send req (Inr None # as) = ([req], Sent)"
| "Send req (Inr (Some m) # as) = ([req], Send_panic m)"

section \<open>Reconnecting\<close>

text \<open>
  \<open>ServeWithReconnect\<close> as a machine: serving; waiting for the next tick of the one-second
  ticker with the value of \<open>counter\<close>; stopped. A step also says whether it logs the line
  that announces a reconnect attempt.
\<close>

datatype rc_state = Serving | Reconnecting nat | Stopped

datatype rc_event = CtxDone | ServeErr | Tick bool

fun rc_step :: "rc_state \<Rightarrow> rc_event \<Rightarrow> rc_state \<times> bool" where
  "rc_step Serving CtxDone = (Stopped, False)"
| "rc_step Serving ServeErr = (Reconnecting 0, False)"
| "rc_step Serving (Tick ok) = (Serving, False)"
| "rc_step (Reconnecting n) CtxDone = (Stopped, False)"
| "rc_step (Reconnecting n) (Tick ok) =
     (if ok then Serving else Reconnecting (Suc n), n mod 5 = 0)"
| "rc_step (Reconnecting n) ServeErr = (Reconnecting n, False)"
| "rc_step Stopped e = (Stopped, False)"

fun rc_run :: "rc_state \<Rightarrow> rc_event list \<Rightarrow> rc_state \<times> nat" where
  "rc_run q [] = (q, 0)"
| "rc_run q (e # es) =
     (case rc_step q e of (q', l) \<Rightarrow>
        case rc_run q' es of (q'', k) \<Rightarrow> (q'', (if l then Suc k else k)))"

section \<open>Laws\<close>

lemma resp_ID_buildResult [simp]:
  "resp_ID (buildResult rid v e) = (if rid = '''' then ''null'' else rid)"
  by (simp add: buildResult_def Let_def split: option.split)

lemma buildResult_one_of:
  "resp_Error (buildResult rid v e) = None \<longleftrightarrow> e = None"
  "e \<noteq> None \<Longrightarrow> resp_Result (buildResult rid v e) = GNil"
  "e = None \<Longrightarrow> resp_Result (buildResult rid v e) = v"
  by (auto simp: buildResult_def Let_def split: option.split)

lemma call_service_no_panic:
  "\<not> is_panic (fst (call_service True st c s req))"
  by (auto simp: call_service_def split: prod.splits go.splits)

lemma handleMessage_Inr_ID:
  "handleMessage cp st c s (Inr req) = (Inr r, s') \<Longrightarrow>
     resp_ID r = (if ID req = '''' then ''null'' else ID req)"
  by (auto simp: handleMessage_def split: if_splits prod.splits go.splits call_result.splits)

text \<open>The identifier an answer carries: that of the request, \<open>null\<close> for a request without one and for a
  message that is no request.\<close>

definition answer_id :: "string + request \<Rightarrow> string" where
  "answer_id d = (case d of Inl _ \<Rightarrow> ''null'' | Inr req \<Rightarrow> if ID req = '''' then ''null'' else ID req)"

lemma answer_id_of_answer:
  "handleMessage cp st c s d = (Inr r, s') \<Longrightarrow> resp_ID r = answer_id d"
  by (cases d) (auto simp: answer_id_def handleMessage_Inr_ID handleMessage_def)

lemma handleMessage_rejects:
  assumes "JSONRPC req \<noteq> jsonRPCVersion \<or> Method req = ''''"
  shows "snd (handleMessage cp st c s (Inr req)) = s"
    "\<exists>r e. fst (handleMessage cp st c s (Inr req)) = Inr r \<and> resp_Error r = Some e
       \<and> err_code e = -32600"
  using assms
  by (auto simp: handleMessage_def buildResult_def errBadVer_def errBadMethod_def rpc_simps)

section \<open>The Caller interface\<close>

text \<open>
  What the message handling relies on from a connector: it never returns a nil result
  together with a nil error. Under it the service with panic recovery answers every
  message; without it one nil result ends the process.
\<close>

locale rpc_caller =
  fixes call :: "'s caller"
  assumes not_nil: "call s req \<noteq> (Ok (RVal GNil), s')"
begin

lemma handleMessage_total:
  "\<exists>r s'. handleMessage True st call s d = (Inr r, s')"
proof (cases d)
  case (Inl m)
  then show ?thesis by (simp add: handleMessage_def)
next
  case (Inr req)
  obtain g s' where c: "call_service True st call s req = (g, s')"
    by (cases "call_service True st call s req") auto
  have np: "\<not> is_panic g"
    using call_service_no_panic [of st call s req] c by simp
  have "g \<noteq> Ok (RVal GNil)"
    using c not_nil [of s req s'] by (auto simp: call_service_def split: prod.splits go.splits)
  with Inr c np show ?thesis
    by (cases g) (auto simp: handleMessage_def split: call_result.split elim: IsNil.elims)
qed

text \<open>With recovery on and a healthy transport, every message is answered, in order: the answers are what
  the handler makes of the messages, one after the other, each in the state the one before has left.\<close>

lemma serve_answers_in_order:
  assumes "\<forall>t \<in> set ts. \<not> ctx_done t \<and> writer_err t = None \<and> encoder_err t = None
             \<and> (\<exists>d. incoming t = ReadMsg d)"
  shows "\<exists>rs ss. serve True st call s ts = (rs, Blocked, ss ! length ts) \<and> length rs = length ts \<and> ss ! 0 = s
    \<and> (\<forall>i < length ts. \<forall>d. incoming (ts ! i) = ReadMsg d \<longrightarrow>
        handleMessage True st call (ss ! i) d = (Inr (rs ! i), ss ! Suc i) \<and> resp_ID (rs ! i) = answer_id d)"
  using assms
proof (induction ts arbitrary: s)
  case Nil
  then show ?case by (intro exI [of _ "[]"] exI [of _ "[s]"]) simp
next
  case (Cons t ts)
  then obtain d where d: "incoming t = ReadMsg d" by auto
  obtain r s1 where h: "handleMessage True st call s d = (Inr r, s1)"
    using handleMessage_total by blast
  from Cons obtain rs ss where
    "serve True st call s1 ts = (rs, Blocked, ss ! length ts)" "length rs = length ts" "ss ! 0 = s1"
    "\<forall>i < length ts. \<forall>d. incoming (ts ! i) = ReadMsg d \<longrightarrow>
        handleMessage True st call (ss ! i) d = (Inr (rs ! i), ss ! Suc i) \<and> resp_ID (rs ! i) = answer_id d"
    by (metis list.set_intros(2))
  with Cons.prems d h show ?case
    by (intro exI [of _ "r # rs"] exI [of _ "s # ss"])
      (auto simp: nth_Cons answer_id_of_answer [OF h] split: nat.split)
qed

end

section \<open>Properties\<close>

text \<open>C36: with panic recovery on, the only way a message can end the process is a handler that
  returns neither a result nor an error, and then it always does: the check sits outside the
  function that recovers.\<close>

theorem nil_result_ends_the_process:
  "fst (handleMessage True st c s d) = Inl m \<longleftrightarrow>
     m = ''result and error are nil'' \<and>
     (\<exists>req s'. d = Inr req \<and> JSONRPC req = jsonRPCVersion \<and> Method req \<noteq> ''''
        \<and> c s req = (Ok (RVal GNil), s'))"
proof (cases d)
  case (Inl x)
  then show ?thesis by (simp add: handleMessage_def)
next
  case (Inr req)
  obtain g s' where g: "c s req = (g, s')" by fastforce
  have nil: "IsNil v \<longleftrightarrow> v = GNil" for v by (cases v) auto
  show ?thesis
  proof (cases g)
    case (Ok r)
    with Inr g nil show ?thesis
      by (cases r) (auto simp: handleMessage_def call_service_def)
  qed (use Inr g in \<open>auto simp: handleMessage_def call_service_def\<close>)
qed

text \<open>C37: a response carries the identifier of the request it answers (\<open>null\<close> when the request has
  none), the version 2.0 whatever version the request names, and either a result or an error, never both.\<close>

theorem response_matches_request:
  assumes "handleMessage cp st c s (Inr req) = (Inr r, s')"
  shows "resp_ID r = (if ID req = '''' then ''null'' else ID req)
    \<and> resp_JSONRPC r = ''2.0'' \<and> (resp_Error r \<noteq> None \<longrightarrow> resp_Result r = GNil)
    \<and> (resp_Error r = None \<longrightarrow> resp_Result r \<noteq> GNil)"
  using assms
  by (auto simp: handleMessage_def toResult_def buildResult_def jsonRPCVersion_def Let_def
      split: if_splits prod.splits go.splits call_result.splits)

lemma response_matches_request_witness:
  "let r = \<lparr>resp_JSONRPC = ''2.0'', resp_ID = ''7'', resp_Result = GBool True, resp_Error = None\<rparr> in
     resp_ID r = (if ''7'' = '''' then ''null'' else ''7'')
    \<and> resp_JSONRPC r = ''2.0'' \<and> (resp_Error r \<noteq> None \<longrightarrow> resp_Result r = GNil)
    \<and> (resp_Error r = None \<longrightarrow> resp_Result r \<noteq> GNil)"
  using response_matches_request [of True "''''" "\<lambda>s req. (Ok (RVal (GBool True)), s)" "0 :: nat"
      "\<lparr>JSONRPC = ''2.0'', Method = ''m'', ID = ''7'', Params = GMap []\<rparr>"
      "\<lparr>resp_JSONRPC = ''2.0'', resp_ID = ''7'', resp_Result = GBool True, resp_Error = None\<rparr>" 0]
  by (simp add: handleMessage_def call_service_def jsonRPCVersion_def buildResult_def)

end
