(* ===== verification/Modbus_Handler.thy ===== *)
theory Modbus_Handler
  imports Modbus_Client Jsonrpc
begin

text \<open>
  The Modbus connector (\<open>internal/app/modbus/handler/handler.go\<close>): parameter parsing, the
  packing of coil and register values, the parsing of read data, the eight handlers and the
  dispatch \<open>Call\<close>, which is an instance of the interface \<open>rpc_caller\<close>.
\<close>

section \<open>Service\<close>

record ('p, 't) mb_service =
  mb_client :: "('p, 't) client"
  packagerGetter :: "byte \<Rightarrow> 'p"

text \<open>The texts of the library's errors (\<open>ModbusError.Error\<close> and the \<open>fmt.Errorf\<close> calls).\<close>

definition exception_name :: "byte \<Rightarrow> string" where
  "exception_name c =
     (if c = 1 then ''illegal function'' else if c = 2 then ''illegal data address''
      else if c = 3 then ''illegal data value'' else if c = 4 then ''server device failure''
      else if c = 5 then ''acknowledge'' else if c = 6 then ''server device busy''
      else if c = 8 then ''memory parity error'' else if c = 10 then ''gateway path unavailable''
      else if c = 11 then ''gateway target device failed to respond'' else ''unknown'')"

definition quoted :: "nat \<Rightarrow> string" where
  "quoted n = [CHR 0x27] @ dec_of_nat n @ [CHR 0x27]"

fun mb_error_text :: "mb_error \<Rightarrow> string" where
  "mb_error_text (Exception fc ec) =
     ''modbus: exception '' @ quoted (unat ec) @ '' ('' @ exception_name ec @ ''), function ''
     @ quoted (unat fc)"
| "mb_error_text (QuantityRange w q lo hi) =
     ''modbus: '' @ w @ '' '' @ quoted q @ '' must be between '' @ quoted lo @ '' and ''
     @ quoted hi @ '',''"
| "mb_error_text (StateValue v) =
     ''modbus: state '' @ quoted (unat v) @ '' must be either 0xFF00 (ON) or 0x0000 (OFF)''"
| "mb_error_text (SizeVsCount n c) =
     ''modbus: response data size '' @ quoted n @ '' does not match count '' @ quoted c"
| "mb_error_text (SizeVsExpected n c) =
     ''modbus: response data size '' @ quoted n @ '' does not match expected '' @ quoted c"
| "mb_error_text (SizeLess n c) =
     ''modbus: response data size '' @ quoted n @ '' is less than expected '' @ quoted c"
| "mb_error_text (FieldMismatch w r q) =
     ''modbus: response '' @ w @ '' '' @ quoted r @ '' does not match request '' @ quoted q"
| "mb_error_text (FifoCount n) =
     ''modbus: fifo count '' @ quoted n @ '' is greater than expected '' @ quoted 31"
| "mb_error_text EmptyResponse = ''modbus: response data is empty''"
| "mb_error_text (AduTooLong n m) =
     ''modbus: length of data '' @ quoted n @ '' must not be bigger than '' @ quoted m"
| "mb_error_text (ShortResponse n m) =
     ''modbus: response length '' @ quoted n @ '' does not meet minimum '' @ quoted m"
| "mb_error_text (NotEven n) = ''modbus: response length '' @ quoted n @ '' is not an even number''"
| "mb_error_text BadStart = ''modbus: response frame is not started with colon''"
| "mb_error_text BadEnd = ''modbus: response frame is not ended with CRLF''"
| "mb_error_text (CrcMismatch c w) =
     ''modbus: response crc '' @ quoted (unat c) @ '' does not match expected '' @ quoted (unat w)"
| "mb_error_text (LrcMismatch c w) =
     ''modbus: response lrc '' @ quoted (unat c) @ '' does not match expected '' @ quoted (unat w)"
| "mb_error_text (LengthMismatch l p) =
     ''modbus: length in response '' @ quoted (unat l) @ '' does not match pdu data length ''
     @ [CHR 0x27] @ dec_of_int p @ [CHR 0x27]"
| "mb_error_text (HexInvalid b) = ''encoding/hex: invalid byte''"
| "mb_error_text HexOdd = ''encoding/hex: odd length hex string''"
| "mb_error_text (TransportErr m) = m"

type_synonym 't handled = "(gval, gerror) go \<times> 't"

text \<open>
  One client call by a handler: \<open>getClient\<close> makes a client around a fresh packager for the
  slave, so nothing of the packager outlives the call; the transporter does.
\<close>

definition with_client ::
  "('p, 't) mb_service \<Rightarrow> 't \<Rightarrow> byte \<Rightarrow>
     (('p, 't) client \<Rightarrow> 'p \<times> 't \<Rightarrow> ('p, 't) op_result) \<Rightarrow> (byte list, gerror) go \<times> 't" where
  "with_client s t slaveID f =
     (case f (mb_client s) (packagerGetter s slaveID, t) of
        (r, st) \<Rightarrow> (map_err (\<lambda>e. GoErr (mb_error_text e)) r, snd st))"

section \<open>Read data\<close>

text \<open>
  The inner loop of \<open>parseResultByteToBits\<close>: it stops when the remaining byte is zero.
\<close>

function low_bits :: "byte \<Rightarrow> u16 list" where
  "low_bits bt = (if bt = 0 then [] else ucast (bt AND 1) # low_bits (drop_bit 1 bt))"
  by pat_completeness auto
termination
proof (relation "measure unat")
  fix bt :: byte
  assume "bt \<noteq> 0"
  then have "0 < unat bt" by (simp add: unat_gt_0)
  then show "(drop_bit 1 bt, bt) \<in> measure unat"
    by (simp add: drop_bit_eq_div unat_div)
qed simp

declare low_bits.simps [simp del]

text \<open>
  The slice is made with capacity \<open>quantity\<close> (zeroed), so the final reslice pads with zeros
  what was not appended and cuts what was appended too much.
\<close>

definition parseResultByteToBits :: "byte list \<Rightarrow> u16 \<Rightarrow> u16 list" where
  "parseResultByteToBits b quantity =
     (let result = concat (map low_bits b)
      in take (unat quantity) (result @ replicate (unat quantity) 0))"

fun parseResult :: "byte list \<Rightarrow> u16 list" where
  "parseResult (h # l # r) = be16 h l # parseResult r"
| "parseResult _ = []"

definition words :: "u16 list \<Rightarrow> gval" where
  "words ws = GArr (map (\<lambda>w. GInt (uint w)) ws)"

section \<open>Parameters\<close>

definition getInt64 :: "gval \<Rightarrow> string \<Rightarrow> int option \<Rightarrow> (int, gerror) go" where
  "getInt64 params k def =
     (let val = Get params k in
      if IsNil val then
        (case def of Some d \<Rightarrow> Ok d | None \<Rightarrow> Err (invalid_params (k @ '' required'')))
      else
        (case val of
           GNum number \<Rightarrow>
             (case parse_int number 64 of
                Inr v \<Rightarrow> Ok v
              | Inl _ \<Rightarrow> Err (invalid_params (k @ '' should be int'')))
         | _ \<Rightarrow> Err (invalid_params (k @ '' should be number''))))"

definition getSlaveID :: "gval \<Rightarrow> (byte, gerror) go" where
  "getSlaveID params =
     go_bind (getInt64 params ''slave_id'' (Some 0)) (\<lambda>v.
       if \<not> (0 \<le> v \<and> v \<le> 255) then Err (invalid_params ''slave_id should be byte'')
       else Ok (word_of_int v))"

definition getUint16 :: "gval \<Rightarrow> string \<Rightarrow> int option \<Rightarrow> (u16, gerror) go" where
  "getUint16 params k def =
     go_bind (getInt64 params k def) (\<lambda>v.
       if \<not> (0 \<le> v \<and> v \<le> 65535) then Err (invalid_params (k @ '' should be uint16''))
       else Ok (word_of_int v))"

definition getTwoUint16 :: "gval \<Rightarrow> string \<Rightarrow> string \<Rightarrow> (u16 \<times> u16, gerror) go" where
  "getTwoUint16 params k1 k2 =
     go_bind (getUint16 params k1 None) (\<lambda>v1.
     go_bind (getUint16 params k2 None) (\<lambda>v2. Ok (v1, v2)))"

definition getAddrAndQuantity :: "gval \<Rightarrow> (u16 \<times> u16, gerror) go" where
  "getAddrAndQuantity params = getTwoUint16 params ''address'' ''quantity''"

definition getAddrAndValue :: "gval \<Rightarrow> (u16 \<times> u16, gerror) go" where
  "getAddrAndValue params = getTwoUint16 params ''address'' ''value''"

definition getArray :: "gval \<Rightarrow> string \<Rightarrow> (gval list, gerror) go" where
  "getArray params k =
     (case InterSlice (Get params k) of
        Some xs \<Rightarrow> Ok xs
      | None \<Rightarrow> Err (invalid_params (k @ '' required and should be array'')))"

text \<open>The callback of \<open>processIntArrayItem\<close> is a closure over mutable variables: a step on
  their values.\<close>

fun processIntArrayItem ::
  "string \<Rightarrow> gval list \<Rightarrow> ('c \<Rightarrow> int \<Rightarrow> ('c, gerror) go) \<Rightarrow> 'c \<Rightarrow> ('c, gerror) go" where
  "processIntArrayItem k [] callback c = Ok c"
| "processIntArrayItem k (v # vs) callback c =
     (case v of
        GNum num \<Rightarrow>
          (case parse_int num 64 of
             Inl _ \<Rightarrow> Err (invalid_params (k @ '' should be array of uint16''))
           | Inr item \<Rightarrow>
               go_bind (callback c item) (processIntArrayItem k vs callback))
      | _ \<Rightarrow> Err (invalid_params (k @ '' should be array of numbers'')))"

text \<open>\<open>buildProcessCoilsArray\<close>: the variables are \<open>i\<close>, \<open>pos\<close> and the byte slice.\<close>

definition buildProcessCoilsArray ::
  "string \<Rightarrow> nat \<times> nat \<times> byte list \<Rightarrow> int \<Rightarrow> (nat \<times> nat \<times> byte list, gerror) go" where
  "buildProcessCoilsArray k st item =
     (case st of (i0, pos0, bytes) \<Rightarrow>
        let (i, pos) = (if pos0 = 8 then (Suc i0, 0) else (i0, pos0)) in
        if item \<noteq> 0 \<and> item \<noteq> 1 then
          Err (invalid_params (''element of '' @ k @ '' should be 1 or 0''))
        else if item = 1 then
          (if i < length bytes then
             Ok (i, Suc pos, bytes[i := bytes ! i OR push_bit pos 1])
           else Panic ''index out of range'')
        else Ok (i, Suc pos, bytes))"

text \<open>\<open>buildProcessRegistersArray\<close>: the variables are \<open>i\<close> and the byte slice; slicing past
  the capacity of the slice panics.\<close>

definition buildProcessRegistersArray ::
  "string \<Rightarrow> nat \<times> byte list \<Rightarrow> int \<Rightarrow> (nat \<times> byte list, gerror) go" where
  "buildProcessRegistersArray k st item =
     (case st of (i, bytes) \<Rightarrow>
        if \<not> (0 \<le> item \<and> item \<le> 65535) then
          Err (invalid_params (k @ '' should be array of uint16''))
        else if i + 2 \<le> length bytes then
          (let w = word_of_int item :: u16
           in Ok (i + 2, bytes[i := hi8 w, i + 1 := lo8 w]))
        else Panic ''slice bounds out of range'')"

section \<open>Handlers\<close>

definition go_st :: "('a, 'e) go \<times> 't \<Rightarrow> ('a \<Rightarrow> ('b, 'e) go) \<Rightarrow> ('b, 'e) go \<times> 't" where
  "go_st r f = (go_bind (fst r) f, snd r)"

fun after :: "('a, 'e) go \<Rightarrow> 't \<Rightarrow> ('a \<Rightarrow> ('b, 'e) go \<times> 't) \<Rightarrow> ('b, 'e) go \<times> 't" where
  "after (Ok x) t f = f x"
| "after (Err e) t f = (Err e, t)"
| "after (Panic m) t f = (Panic m, t)"

definition readCoils :: "('p, 't) mb_service \<Rightarrow> 't \<Rightarrow> gval \<Rightarrow> 't handled" where
  "readCoils s t params =
     after (getAddrAndQuantity params) t (\<lambda>(addr, quantity).
     after (getSlaveID params) t (\<lambda>slaveID.
     go_st (with_client s t slaveID (\<lambda>cli st. ReadCoils cli st addr quantity))
       (\<lambda>res. Ok (words (parseResultByteToBits res quantity)))))"

definition readDiscreteInputs :: "('p, 't) mb_service \<Rightarrow> 't \<Rightarrow> gval \<Rightarrow> 't handled" where
  "readDiscreteInputs s t params =
     after (getAddrAndQuantity params) t (\<lambda>(addr, quantity).
     after (getSlaveID params) t (\<lambda>slaveID.
     go_st (with_client s t slaveID (\<lambda>cli st. ReadDiscreteInputs cli st addr quantity))
       (\<lambda>res. Ok (words (parseResult res)))))"

definition modbusTrueValue :: u16 where
  "modbusTrueValue = 0xFF00"

definition writeSingleCoil :: "('p, 't) mb_service \<Rightarrow> 't \<Rightarrow> gval \<Rightarrow> 't handled" where
  "writeSingleCoil s t params =
     after (getAddrAndValue params) t (\<lambda>(addr, v).
     if v > 1 then
       (Err (RpcErr (AddData (AddData ErrInvalidParams ''msg''
          (GStr ''bad value. only 0 or 1 allowed'')) ''v'' (GInt (uint v)))), t)
     else
       (let v1 = (if v = 1 then modbusTrueValue else v) in
        after (getSlaveID params) t (\<lambda>slaveID.
        go_st (with_client s t slaveID (\<lambda>cli st. WriteSingleCoil cli st addr v1))
          (\<lambda>res. case parseResult res of
                    [] \<Rightarrow> Panic ''index out of range''
                  | r # _ \<Rightarrow> Ok (GInt (uint (if r = modbusTrueValue then 1 else r)))))))"

definition writeMultipleCoils :: "('p, 't) mb_service \<Rightarrow> 't \<Rightarrow> gval \<Rightarrow> 't handled" where
  "writeMultipleCoils s t params =
     after (getAddrAndQuantity params) t (\<lambda>(addr, quantity).
     after (getArray params ''value'') t (\<lambda>vs.
     if unat quantity \<noteq> length vs then (Err (invalid_params ''wrong quantity''), t)
     else
       after (processIntArrayItem ''value'' vs (buildProcessCoilsArray ''value'')
                (0, 0, replicate ((unat quantity + 7) div 8) 0)) t (\<lambda>(_, _, bytes).
       after (getSlaveID params) t (\<lambda>slaveID.
       go_st (with_client s t slaveID (\<lambda>cli st. WriteMultipleCoils cli st addr quantity bytes))
         (\<lambda>res. Ok (words (parseResult res)))))))"

definition readInputRegisters :: "('p, 't) mb_service \<Rightarrow> 't \<Rightarrow> gval \<Rightarrow> 't handled" where
  "readInputRegisters s t params =
     after (getAddrAndQuantity params) t (\<lambda>(addr, quantity).
     after (getSlaveID params) t (\<lambda>slaveID.
     go_st (with_client s t slaveID (\<lambda>cli st. ReadInputRegisters cli st addr quantity))
       (\<lambda>res. Ok (words (parseResult res)))))"

definition readHoldingRegisters :: "('p, 't) mb_service \<Rightarrow> 't \<Rightarrow> gval \<Rightarrow> 't handled" where
  "readHoldingRegisters s t params =
     after (getAddrAndQuantity params) t (\<lambda>(addr, quantity).
     after (getSlaveID params) t (\<lambda>slaveID.
     go_st (with_client s t slaveID (\<lambda>cli st. ReadHoldingRegisters cli st addr quantity))
       (\<lambda>res. Ok (words (parseResult res)))))"

definition writeSingleRegister :: "('p, 't) mb_service \<Rightarrow> 't \<Rightarrow> gval \<Rightarrow> 't handled" where
  "writeSingleRegister s t params =
     after (getAddrAndValue params) t (\<lambda>(addr, v).
     after (getSlaveID params) t (\<lambda>slaveID.
     go_st (with_client s t slaveID (\<lambda>cli st. WriteSingleRegister cli st addr v))
       (\<lambda>res. Ok (words (parseResult res)))))"

text \<open>The byte slice is made with \<open>quantity*2\<close> bytes, computed at 16 bits.\<close>

definition writeMultipleRegisters :: "('p, 't) mb_service \<Rightarrow> 't \<Rightarrow> gval \<Rightarrow> 't handled" where
  "writeMultipleRegisters s t params =
     after (getAddrAndQuantity params) t (\<lambda>(addr, quantity).
     after (getArray params ''value'') t (\<lambda>vs.
     if unat quantity \<noteq> length vs then (Err (invalid_params ''wrong quantity''), t)
     else
       after (processIntArrayItem ''value'' vs (buildProcessRegistersArray ''value'')
                (0, replicate (unat (quantity * 2)) 0)) t (\<lambda>(_, bytes).
       after (getSlaveID params) t (\<lambda>slaveID.
       go_st (with_client s t slaveID (\<lambda>cli st. WriteMultipleRegisters cli st addr quantity bytes))
         (\<lambda>res. Ok (words (parseResult res)))))))"

definition modbus_method :: "string \<Rightarrow> (('p, 't) mb_service \<Rightarrow> 't \<Rightarrow> gval \<Rightarrow> 't handled) option" where
  "modbus_method m =
     (if m = ''modbus-read-coil'' then Some readCoils
      else if m = ''modbus-read-discrete'' then Some readDiscreteInputs
      else if m = ''modbus-write-coil'' then Some writeSingleCoil
      else if m = ''modbus-write-multiple-coils'' then Some writeMultipleCoils
      else if m = ''modbus-read-input'' then Some readInputRegisters
      else if m = ''modbus-read-holding'' then Some readHoldingRegisters
      else if m = ''modbus-write-register'' then Some writeSingleRegister
      else if m = ''modbus-write-multiple-registers'' then Some writeMultipleRegisters
      else None)"

definition modbus_Call :: "('p, 't) mb_service \<Rightarrow> 't caller" where
  "modbus_Call s t req =
     (case modbus_method (Method req) of
        None \<Rightarrow> (Err (method_not_found (Method req)), t)
      | Some h \<Rightarrow> (case h s t (Params req) of (r, t') \<Rightarrow> (go_map RVal r, t')))"

section \<open>Laws of the parameter readers\<close>

named_theorems param_simps

lemma after_eq_Ok [go_simps]:
  "after m t f = (Ok y, t') \<longleftrightarrow> (\<exists>x. m = Ok x \<and> f x = (Ok y, t'))"
  by (cases m) auto

lemma getInt64_Ok [param_simps]:
  "getInt64 params k None = Ok v \<longleftrightarrow> (\<exists>n. Get params k = GNum n \<and> parse_int n 64 = Inr v)"
  by (auto simp: getInt64_def Let_def split: gval.splits sum.splits option.splits)

lemma getUint16_Ok [param_simps]:
  "getUint16 params k None = Ok w \<longleftrightarrow>
     (\<exists>n v. Get params k = GNum n \<and> parse_int n 64 = Inr v \<and> 0 \<le> v \<and> v \<le> 65535
        \<and> w = word_of_int v)"
  by (auto simp: getUint16_def go_simps param_simps split: if_splits)

lemma getInt64_no_panic [simp]: "\<not> is_panic (getInt64 params k def)"
  by (auto simp: getInt64_def Let_def split: gval.splits sum.splits option.splits)

lemma getUint16_no_panic [simp]: "\<not> is_panic (getUint16 params k def)"
  by (auto simp: getUint16_def is_panic_bind)

lemma getSlaveID_no_panic [simp]: "\<not> is_panic (getSlaveID params)"
  by (auto simp: getSlaveID_def is_panic_bind)

lemma getTwoUint16_no_panic [simp]: "\<not> is_panic (getTwoUint16 params k1 k2)"
  by (auto simp: getTwoUint16_def is_panic_bind)

lemma getArray_no_panic [simp]: "\<not> is_panic (getArray params k)"
  by (auto simp: getArray_def split: option.splits)

section \<open>Laws of the read data\<close>

lemma parseResult_dataBlock [simp]: "parseResult (dataBlock ws) = ws"
  by (induction ws) (simp_all add: dataBlock_def put16_def)

lemma parseResult_put16 [simp]: "parseResult (put16 w) = [w]"
  by (simp add: put16_def)

lemma length_parseResult: "length (parseResult b) = length b div 2"
  by (induction b rule: parseResult.induct) auto

lemma low_bits_nth: "i < length (low_bits b) \<Longrightarrow> low_bits b ! i = of_bool (bit b i)"
proof (induction b arbitrary: i rule: low_bits.induct)
  case (1 b)
  have e: "low_bits b = (if b = 0 then [] else ucast (b AND 1) # low_bits (drop_bit 1 b))"
    by (rule low_bits.simps)
  show ?case
  proof (cases i)
    case 0
    with "1.prems" e show ?thesis
      by (auto simp: and_one_eq mod_2_eq_odd bit_0 split: if_splits)
  next
    case (Suc j)
    with "1.prems" e have "b \<noteq> 0" "j < length (low_bits (drop_bit 1 b))"
      by (auto split: if_splits)
    with "1.IH" Suc e show ?thesis by (simp add: bit_drop_bit_eq bit_Suc drop_bit_eq_div)
  qed
qed

lemma low_bits_beyond: "length (low_bits b) \<le> i \<Longrightarrow> \<not> bit b i"
proof (induction b arbitrary: i rule: low_bits.induct)
  case (1 b)
  have e: "low_bits b = (if b = 0 then [] else ucast (b AND 1) # low_bits (drop_bit 1 b))"
    by (rule low_bits.simps)
  show ?case
  proof (cases "b = 0")
    case False
    with "1.prems" e obtain j where "i = Suc j" "length (low_bits (drop_bit 1 b)) \<le> j"
      by (cases i) auto
    with "1.IH" False show ?thesis by (simp add: bit_drop_bit_eq)
  qed simp
qed

lemma low_bits_last: "b \<noteq> 0 \<Longrightarrow> bit b (length (low_bits b) - 1)"
proof (induction b rule: low_bits.induct)
  case (1 b)
  have e: "low_bits b = ucast (b AND 1) # low_bits (drop_bit 1 b)"
    using "1.prems" by (subst low_bits.simps) simp
  show ?case
  proof (cases "drop_bit 1 b = 0")
    case True
    then have "low_bits (drop_bit 1 b) = []" by (subst low_bits.simps) simp
    moreover have "bit b 0"
    proof (rule ccontr)
      assume "\<not> bit b 0"
      then have "b = 0" using True
        by (metis bit_eq_rec bit_0 drop_bit_Suc drop_bit_eq_div even_zero
            bit_iff_odd_drop_bit div_0 One_nat_def drop_bit_0 id_apply)
      with "1.prems" show False by simp
    qed
    ultimately show ?thesis using e by simp
  next
    case False
    then have "low_bits (drop_bit 1 b) \<noteq> []" by (subst low_bits.simps) simp
    with "1.IH" "1.prems" False e show ?thesis
      by (simp add: bit_drop_bit_eq Suc_diff_le length_greater_0_conv)
  qed
qed

lemma length_low_bits: "length (low_bits b) \<le> 8"
proof (cases "b = 0")
  case True
  then show ?thesis by (subst low_bits.simps) simp
next
  case False
  then have "length (low_bits b) - 1 < 8"
    using low_bits_last [THEN bit_imp_le_length] by simp
  then show ?thesis by simp
qed

text \<open>The coil states a device reports: bit \<open>i mod 8\<close> of byte \<open>i div 8\<close>.\<close>

definition coil_states :: "byte list \<Rightarrow> nat \<Rightarrow> u16 list" where
  "coil_states b n = map (\<lambda>i. of_bool (bit (b ! (i div 8)) (i mod 8))) [0..<n]"

lemma parse_bits_one_byte:
  assumes "unat q \<le> 8"
  shows "parseResultByteToBits [b] q = coil_states [b] (unat q)"
proof (rule nth_equalityI)
  fix i assume "i < length (parseResultByteToBits [b] q)"
  then have i: "i < unat q" "i < 8"
    using assms by (auto simp: parseResultByteToBits_def Let_def)
  then show "parseResultByteToBits [b] q ! i = coil_states [b] (unat q) ! i"
    using low_bits_nth [of i b] low_bits_beyond [of b i]
    by (auto simp: parseResultByteToBits_def Let_def coil_states_def nth_append)
qed (simp add: parseResultByteToBits_def coil_states_def Let_def)

lemma length_low_bits_full:
  assumes "bit b 7"
  shows "length (low_bits b) = 8"
  using length_low_bits [of b] low_bits_beyond [of b 7] assms by fastforce

lemma concat_low_bits_nth:
  assumes "\<forall>x \<in> set (butlast b). bit x 7" and "i < 8 * length b"
  shows "(if i < length (concat (map low_bits b)) then concat (map low_bits b) ! i else 0)
     = of_bool (bit (b ! (i div 8)) (i mod 8))"
  using assms
proof (induction b arbitrary: i)
  case (Cons x xs)
  show ?case
  proof (cases "i < 8")
    case True
    have "xs \<noteq> [] \<Longrightarrow> length (low_bits x) = 8"
      using Cons.prems(1) by (intro length_low_bits_full) auto
    with True show ?thesis
      using low_bits_nth [of i x] low_bits_beyond [of x i] by (cases "xs = []") (auto simp: nth_append)
  next
    case False
    then have xs: "xs \<noteq> []" using Cons.prems(2) by auto
    then have l: "length (low_bits x) = 8"
      using Cons.prems(1) by (intro length_low_bits_full) auto
    have "\<forall>x \<in> set (butlast xs). bit x 7" "i - 8 < 8 * length xs"
      using Cons.prems xs False by auto
    from Cons.IH [OF this] have IH:
      "(if i - 8 < length (concat (map low_bits xs)) then concat (map low_bits xs) ! (i - 8) else 0)
         = of_bool (bit (xs ! ((i - 8) div 8)) ((i - 8) mod 8))" .
    have "i div 8 = Suc ((i - 8) div 8)" "i mod 8 = (i - 8) mod 8"
      using False by (simp_all add: le_div_geq le_mod_geq)
    moreover have "i < length (concat (map low_bits (x # xs)))
        \<longleftrightarrow> i - 8 < length (concat (map low_bits xs))"
      using l False by (simp, linarith)
    ultimately show ?thesis using IH l False
      by (simp only: nth_append list.map concat.simps) (simp split: if_splits)
  qed
qed simp

text \<open>With bit 7 set in every byte but the last, no zero is lost between the bytes.\<close>

lemma parse_bits_full_bytes:
  assumes "\<forall>x \<in> set (butlast b). bit x 7" and "unat q \<le> 8 * length b"
  shows "parseResultByteToBits b q = coil_states b (unat q)"
proof (rule nth_equalityI)
  fix i assume "i < length (parseResultByteToBits b q)"
  then have "i < unat q" by (auto simp: parseResultByteToBits_def Let_def)
  then show "parseResultByteToBits b q ! i = coil_states b (unat q) ! i"
    using concat_low_bits_nth [OF assms(1), of i] assms(2)
    by (auto simp: parseResultByteToBits_def Let_def coil_states_def nth_append split: if_splits)
qed (simp add: parseResultByteToBits_def coil_states_def Let_def)

section \<open>Laws of the value arrays\<close>

text \<open>The integer an array item stands for, and a callback run over the items.\<close>

definition int_item :: "gval \<Rightarrow> int option" where
  "int_item v = (case v of GNum n \<Rightarrow> (case parse_int n 64 of Inr i \<Rightarrow> Some i | Inl _ \<Rightarrow> None) | _ \<Rightarrow> None)"

fun run_callback :: "('c \<Rightarrow> int \<Rightarrow> ('c, 'e) go) \<Rightarrow> 'c \<Rightarrow> int list \<Rightarrow> ('c, 'e) go" where
  "run_callback f c [] = Ok c"
| "run_callback f c (x # xs) = go_bind (f c x) (\<lambda>c'. run_callback f c' xs)"

lemma process_items:
  "map int_item vs = map Some xs \<Longrightarrow> processIntArrayItem k vs f c = run_callback f c xs"
proof (induction vs arbitrary: c xs)
  case (Cons v vs)
  then obtain x ys where "xs = x # ys" "int_item v = Some x" "map int_item vs = map Some ys"
    by (cases xs) auto
  then obtain n where "v = GNum n" "parse_int n 64 = Inr x"
    by (auto simp: int_item_def split: gval.splits sum.splits)
  moreover have "processIntArrayItem k vs f = (\<lambda>c. run_callback f c ys)"
    using Cons.IH \<open>map int_item vs = map Some ys\<close> by blast
  ultimately show ?case using \<open>xs = x # ys\<close> by simp
qed simp

lemma process_Ok_items:
  "processIntArrayItem k vs f c = Ok c' \<Longrightarrow> \<exists>xs. map int_item vs = map Some xs"
proof (induction vs arbitrary: c)
  case (Cons v vs)
  then obtain x c1 where "int_item v = Some x" "processIntArrayItem k vs f c1 = Ok c'"
    by (auto simp: int_item_def go_simps split: gval.splits sum.splits)
  with Cons.IH obtain xs where "map int_item vs = map Some xs" by blast
  then have "map int_item (v # vs) = map Some (x # xs)" using \<open>int_item v = Some x\<close> by simp
  then show ?case by blast
qed simp

lemma process_Ok_iff:
  "processIntArrayItem k vs f c = Ok c' \<longleftrightarrow>
     (\<exists>xs. map int_item vs = map Some xs \<and> run_callback f c xs = Ok c')"
  using process_items process_Ok_items by metis

text \<open>After the items \<open>xs\<close> the closure variables stand at coil \<open>8 * i + pos\<close>, and exactly
  the coils whose item was 1 are set.\<close>

definition coil_inv :: "nat \<Rightarrow> int list \<Rightarrow> nat \<times> nat \<times> byte list \<Rightarrow> bool" where
  "coil_inv L xs st \<longleftrightarrow>
     (case st of (i, pos, bytes) \<Rightarrow>
        length bytes = L \<and> 8 * i + pos = length xs \<and> pos \<le> 8 \<and>
        (\<forall>j < 8 * L. bit (bytes ! (j div 8)) (j mod 8) \<longleftrightarrow> j < length xs \<and> xs ! j = 1))"

lemma coil_inv_init: "coil_inv L [] (0, 0, replicate L 0)"
  by (auto simp: coil_inv_def less_mult_imp_div_less mult.commute)

lemma coil_inv_step:
  assumes "coil_inv L xs st" and "x = 0 \<or> x = 1" and "length xs < 8 * L"
  shows "\<exists>st'. buildProcessCoilsArray k st x = Ok st' \<and> coil_inv L (xs @ [x]) st'"
proof -
  obtain i0 p0 bytes where st: "st = (i0, p0, bytes)" by (cases st) auto
  define i p where "i = (if p0 = 8 then Suc i0 else i0)" and "p = (if p0 = 8 then 0 else p0)"
  have inv: "length bytes = L" "8 * i + p = length xs" "p < 8"
    "\<And>j. j < 8 * L \<Longrightarrow> bit (bytes ! (j div 8)) (j mod 8) \<longleftrightarrow> j < length xs \<and> xs ! j = 1"
    using assms(1) by (auto simp: coil_inv_def st i_def p_def)
  then have i: "i < L" using assms(3) by linarith
  have at: "j = length xs \<longleftrightarrow> j div 8 = i \<and> j mod 8 = p" for j
    using inv(2,3) by (metis add.commute div_mult_mod_eq div_mult_self2 div_less add_0_right
        mod_less mod_mult_self2 mult.commute zero_neq_numeral)
  have b: "buildProcessCoilsArray k st x =
      Ok (i, Suc p, if x = 1 then bytes[i := bytes ! i OR push_bit p 1] else bytes)"
    using assms(2) i inv(1) by (cases "p0 = 8") (auto simp: buildProcessCoilsArray_def st i_def p_def)
  have "coil_inv L (xs @ [x]) (i, Suc p, if x = 1 then bytes[i := bytes ! i OR push_bit p 1] else bytes)"
    unfolding coil_inv_def prod.case
  proof (intro conjI allI impI)
    fix j assume j: "j < 8 * L"
    then have jd: "j div 8 < L" by (simp add: less_mult_imp_div_less mult.commute)
    have x1: "bit (push_bit p 1 :: byte) (j mod 8) \<longleftrightarrow> j mod 8 = p"
      using inv(3) by (auto simp: bit_exp_iff)
    show "bit ((if x = 1 then bytes[i := bytes ! i OR push_bit p 1] else bytes) ! (j div 8)) (j mod 8)
       \<longleftrightarrow> j < length (xs @ [x]) \<and> (xs @ [x]) ! j = 1"
      using inv(4) [OF j] at [of j] x1 jd inv(1) assms(2)
      by (cases "j div 8 = i") (auto simp: nth_append bit_or_iff less_Suc_eq)
  qed (use inv in auto)
  with b show ?thesis by blast
qed

lemma coil_item_rejected:
  "x \<noteq> 0 \<Longrightarrow> x \<noteq> 1 \<Longrightarrow> \<exists>e. buildProcessCoilsArray k st x = Err e"
  by (cases st) (auto simp: buildProcessCoilsArray_def)

lemma run_coils:
  assumes "coil_inv L xs st" and "length xs + length ys \<le> 8 * L"
  shows "if set ys \<subseteq> {0, 1}
     then \<exists>st'. run_callback (buildProcessCoilsArray k) st ys = Ok st' \<and> coil_inv L (xs @ ys) st'
     else \<exists>e. run_callback (buildProcessCoilsArray k) st ys = Err e"
  using assms
proof (induction ys arbitrary: xs st)
  case (Cons y ys)
  show ?case
  proof (cases "y = 0 \<or> y = 1")
    case True
    obtain st' where st': "buildProcessCoilsArray k st y = Ok st'" "coil_inv L (xs @ [y]) st'"
      using coil_inv_step [OF Cons.prems(1) True, of k] Cons.prems(2) by fastforce
    have e: "set (y # ys) \<subseteq> {0, 1} \<longleftrightarrow> set ys \<subseteq> {0, 1}" using True by auto
    have r: "run_callback (buildProcessCoilsArray k) st (y # ys)
        = run_callback (buildProcessCoilsArray k) st' ys"
      using st'(1) by simp
    have a: "xs @ y # ys = (xs @ [y]) @ ys" by simp
    have len: "length (xs @ [y]) + length ys \<le> 8 * L" using Cons.prems(2) by simp
    show ?thesis unfolding e r a by (rule Cons.IH [OF st'(2) len])
  next
    case False
    then obtain e where "buildProcessCoilsArray k st y = Err e"
      using coil_item_rejected by metis
    then have "run_callback (buildProcessCoilsArray k) st (y # ys) = Err e" by simp
    moreover have "\<not> set (y # ys) \<subseteq> {0, 1}" using False by auto
    ultimately show ?thesis by metis
  qed
qed simp

lemma coil_states_inv:
  assumes "coil_inv L xs (i, p, bytes)" "set xs \<subseteq> {0, 1}" "length xs \<le> 8 * L"
  shows "coil_states bytes (length xs) = map word_of_int xs"
proof (rule nth_equalityI)
  fix j assume "j < length (coil_states bytes (length xs))"
  then have j: "j < length xs" by (simp add: coil_states_def)
  then have "xs ! j = 0 \<or> xs ! j = 1" using assms(2) nth_mem by fastforce
  then show "coil_states bytes (length xs) ! j = map word_of_int xs ! j"
    using j assms(1,3) by (auto simp: coil_states_def coil_inv_def)
qed (simp add: coil_states_def)

text \<open>The register closure writes the items one after the other, big-endian.\<close>

lemma run_registers:
  assumes "length bytes = i + 2 * length ys + length zs" and "drop (i + 2 * length ys) bytes = zs"
    and "set ys \<subseteq> {0..65535}"
  shows "run_callback (buildProcessRegistersArray k) (i, bytes) ys
     = Ok (i + 2 * length ys, take i bytes @ dataBlock (map word_of_int ys) @ zs)"
  using assms
proof (induction ys arbitrary: i bytes)
  case Nil
  then show ?case using append_take_drop_id [of i bytes] by (simp add: dataBlock_def)
next
  case (Cons y ys)
  let ?b = "bytes[i := hi8 (word_of_int y), i + 1 := lo8 (word_of_int y)]"
  have "run_callback (buildProcessRegistersArray k) (i, bytes) (y # ys)
      = run_callback (buildProcessRegistersArray k) (i + 2, ?b) ys"
    using Cons.prems by (simp add: buildProcessRegistersArray_def Let_def)
  also have "\<dots> = Ok (i + 2 + 2 * length ys,
      take (i + 2) ?b @ dataBlock (map word_of_int ys) @ zs)"
    using Cons.prems by (intro Cons.IH) simp_all
  also have "take (i + 2) ?b = take i bytes @ put16 (word_of_int y)"
    using Cons.prems(1) by (simp add: numeral_2_eq_2 take_Suc_conv_app_nth put16_def)
  finally show ?case by (simp add: dataBlock_def)
qed

lemma run_registers_panic:
  assumes "i \<le> length bytes" "length bytes < i + 2 * length ys" and "set ys \<subseteq> {0..65535}"
  shows "is_panic (run_callback (buildProcessRegistersArray k) (i, bytes) ys)"
  using assms
proof (induction ys arbitrary: i bytes)
  case (Cons y ys)
  then show ?case by (auto simp: buildProcessRegistersArray_def Let_def)
qed (simp)

section \<open>Laws of the handlers\<close>

lemmas handler_defs =
  readCoils_def readDiscreteInputs_def writeSingleCoil_def writeMultipleCoils_def
  readInputRegisters_def readHoldingRegisters_def writeSingleRegister_def
  writeMultipleRegisters_def

lemma words_not_nil [simp]: "words ws \<noteq> GNil"
  by (simp add: words_def)

lemma go_st_eq_Ok [go_simps]:
  "go_st r f = (Ok y, t') \<longleftrightarrow> (\<exists>x. fst r = Ok x \<and> f x = Ok y) \<and> snd r = t'"
  by (auto simp: go_st_def go_simps)

lemma modbus_method_cases:
  "modbus_method m = Some h \<Longrightarrow>
     h = readCoils \<or> h = readDiscreteInputs \<or> h = writeSingleCoil \<or> h = writeMultipleCoils
     \<or> h = readInputRegisters \<or> h = readHoldingRegisters \<or> h = writeSingleRegister
     \<or> h = writeMultipleRegisters"
  by (auto simp: modbus_method_def split: if_splits)

lemma handler_not_nil: "modbus_method m = Some h \<Longrightarrow> h s t params \<noteq> (Ok GNil, t')"
  by (drule modbus_method_cases)
    (auto simp: handler_defs go_simps Let_def neq_Nil_conv split: if_splits prod.splits list.splits)

interpretation modbus: rpc_caller "modbus_Call s" for s
proof unfold_locales
  fix t req t'
  show "modbus_Call s t req \<noteq> (Ok (RVal GNil), t')"
    using handler_not_nil [of "Method req" _ s t "Params req" t']
    by (auto simp: modbus_Call_def go_simps split: option.split prod.split)
qed

section \<open>The connector of a configured mode\<close>

text \<open>\<open>Start\<close> makes the service from the configured mode and its transporter.\<close>

definition mb_service_of ::
  "string \<Rightarrow> ('t \<Rightarrow> byte list \<Rightarrow> (byte list, mb_error) go \<times> 't) \<Rightarrow>
     string + (any_packager, 't) mb_service" where
  "mb_service_of mode tr =
     (case packagerFn mode of
        Inl e \<Rightarrow> Inl e
      | Inr f \<Rightarrow>
          Inr \<lparr>mb_client = \<lparr>pk_Encode = any_Encode, pk_Verify = any_Verify,
                  pk_Decode = any_Decode, tr_Send = tr\<rparr>,
               packagerGetter = f\<rparr>)"

lemma mb_service_of_client:
  "mb_service_of mode tr = Inr s \<Longrightarrow> pk_Encode (mb_client s) = any_Encode
     \<and> pk_Verify (mb_client s) = any_Verify \<and> pk_Decode (mb_client s) = any_Decode"
  by (auto simp: mb_service_of_def split: sum.splits)

text \<open>The device of slave \<open>sl\<close> answers the request \<open>rq\<close> with \<open>rs\<close>.\<close>

definition device ::
  "(any_packager, 't) mb_service \<Rightarrow> byte \<Rightarrow> 't \<Rightarrow> pdu \<Rightarrow> pdu \<Rightarrow> 't \<Rightarrow> bool" where
  "device s sl t rq rs t' \<longleftrightarrow> answers (mb_client s) (packagerGetter s sl) t rq rs t'"

lemma with_client_device:
  assumes "mb_service_of mode tr = Inr s" and "device s sl t rq rs t'" and "fits rs"
    and "\<forall>st. op (mb_client s) st = finish f (send (mb_client s) st rq)"
  shows "with_client s t sl op =
     (map_err (\<lambda>e. GoErr (mb_error_text e))
        (go_bind (if FunctionCode rs \<noteq> FunctionCode rq then Err (responseError rs)
                  else if Data rs = [] then Err EmptyResponse else Ok rs) f), t')"
proof -
  have m: "pk_Encode (mb_client s) = any_Encode" "pk_Verify (mb_client s) = any_Verify"
    "pk_Decode (mb_client s) = any_Decode"
    using mb_service_of_client [OF assms(1)] by simp_all
  note a = any_mode.send_answer [OF m assms(2) [unfolded device_def] assms(3)]
  show ?thesis
    using a by (simp add: with_client_def assms(4) finish_def)
qed

text \<open>An exception answer of the device becomes the error of every operation.\<close>

lemma with_client_exception:
  assumes "mb_service_of mode tr = Inr s"
    and "device s sl t rq \<lparr>FunctionCode = FunctionCode rq OR 0x80, Data = [c]\<rparr> t'"
    and "\<not> bit (FunctionCode rq) 7"
    and "\<forall>st. op (mb_client s) st = finish f (send (mb_client s) st rq)"
  shows "with_client s t sl op =
     (Err (GoErr (mb_error_text (Exception (FunctionCode rq OR 0x80) c))), t')"
proof -
  have "bit (FunctionCode rq OR 0x80) 7"
    by (simp add: bit_or_iff bit_numeral_rec)
  then have "FunctionCode rq OR 0x80 \<noteq> FunctionCode rq" using assms(3) by metis
  then show ?thesis
    using with_client_device [where op = op, OF assms(1,2) _ assms(4)]
    by (simp add: fits_def responseError_def)
qed

lemma unat_count: "n \<le> 255 \<Longrightarrow> unat (word_of_nat n :: byte) = n"
  by (simp add: unat_of_nat take_bit_eq_mod)

lemma with_client_counted:
  assumes "mb_service_of mode tr = Inr s"
    and "device s sl t rq \<lparr>FunctionCode = FunctionCode rq, Data = word_of_nat (length d) # d\<rparr> t'"
    and "length d \<le> 251"
    and "\<forall>st. op (mb_client s) st = finish counted (send (mb_client s) st rq)"
  shows "with_client s t sl op = (Ok d, t')"
proof -
  have c: "counted \<lparr>FunctionCode = FunctionCode rq, Data = word_of_nat (length d) # d\<rparr> = Ok d"
    using assms(3) by (simp add: counted_eq_Ok unat_count)
  show ?thesis
    using with_client_device [where op = op, OF assms(1,2) _ assms(4)] c assms(3) by (simp add: fits_def)
qed

lemma with_client_echoed:
  assumes "mb_service_of mode tr = Inr s"
    and "device s sl t rq \<lparr>FunctionCode = FunctionCode rq, Data = put16 a @ put16 v\<rparr> t'"
    and "\<forall>st. op (mb_client s) st = finish (echoed w a v) (send (mb_client s) st rq)"
  shows "with_client s t sl op = (Ok (put16 v), t')"
proof -
  have c: "echoed w a v \<lparr>FunctionCode = FunctionCode rq, Data = put16 a @ put16 v\<rparr> = Ok (put16 v)"
    by (simp add: echoed_eq_Ok)
  show ?thesis
    using with_client_device [where op = op, OF assms(1,2) _ assms(3)] c by (simp add: fits_def put16_def)
qed

section \<open>Absence of panics\<close>

lemma readHex_no_panic: "2 \<le> length d \<Longrightarrow> \<not> is_panic (readHex d)"
proof -
  have np: "\<not> is_panic (hex_Decode xs)" for xs
    by (induction xs rule: hex_Decode.induct) (auto split: option.split)
  assume "2 \<le> length d"
  then show ?thesis by (simp add: readHex_def np)
qed

lemma hex_Decode_no_panic: "\<not> is_panic (hex_Decode xs)"
  by (induction xs rule: hex_Decode.induct) (auto split: option.split)

text \<open>What the frame checks need of an answer: the TCP transporter reads whole headers.\<close>

definition long_enough :: "any_packager \<Rightarrow> byte list \<Rightarrow> bool" where
  "long_enough pk b \<longleftrightarrow> (case pk of PkTCP _ \<Rightarrow> 7 \<le> length b | _ \<Rightarrow> True)"

lemma any_Encode_no_panic: "\<not> is_panic (fst (any_Encode pk p))"
  by (cases pk) (simp_all add: rtu_Encode_eq ascii_Encode_eq tcp_Encode_eq)

lemma any_Verify_no_panic:
  assumes "any_Encode pk0 p = (Ok a, pk)" and "long_enough pk b"
  shows "\<not> is_panic (any_Verify pk a b)"
proof (cases pk)
  case (PkRTU x)
  with assms have "a \<noteq> []"
    by (cases pk0)
      (auto simp: rtu_Encode_eq ascii_Encode_eq tcp_Encode_eq rtu_frame_def Let_def split: if_splits)
  with PkRTU show ?thesis by (auto simp: rtu_Verify_def byte_at_def is_panic_bind modbus_sizes)
next
  case (PkASCII x)
  with assms have "9 \<le> length a"
    by (cases pk0) (auto simp: rtu_Encode_eq ascii_Encode_eq tcp_Encode_eq length_ascii_frame)
  with PkASCII show ?thesis
    by (auto simp: ascii_Verify_def is_panic_bind readHex_no_panic modbus_sizes Let_def)
next
  case (PkTCP x)
  with assms have "8 \<le> length a"
    by (cases pk0) (auto simp: rtu_Encode_eq ascii_Encode_eq tcp_Encode_eq tcp_frame_def put16_def)
  with PkTCP assms show ?thesis
    by (auto simp: tcp_Verify_def is_panic_bind byte_at_def u16_at_def long_enough_def Let_def)
qed

lemma any_Decode_no_panic:
  assumes "any_Verify pk a b = Ok ()" and "long_enough pk b"
  shows "\<not> is_panic (any_Decode pk b)"
proof (cases pk)
  case (PkRTU x)
  with assms show ?thesis
    by (auto simp: rtu_Verify_def rtu_Decode_def modbus_sizes Let_def split: if_splits)
next
  case (PkASCII x)
  with assms show ?thesis
    by (auto simp: ascii_Verify_def ascii_Decode_def is_panic_bind readHex_no_panic
        hex_Decode_no_panic modbus_sizes Let_def split: if_splits)
next
  case (PkTCP x)
  with assms show ?thesis
    by (auto simp: tcp_Decode_def is_panic_bind u16_at_def long_enough_def Let_def)
qed

lemma any_Encode_same_mode:
  "any_Encode pk0 p = (r, pk) \<Longrightarrow> long_enough pk b = long_enough pk0 b"
  by (cases pk0; cases pk) (auto simp: long_enough_def apsnd_def map_prod_def split: prod.splits)

text \<open>A transporter that, for the frames of the client, which have at least eight bytes, neither panics nor,
  for TCP, returns a truncated header.\<close>

definition sane_transport :: "(any_packager, 't) mb_service \<Rightarrow> bool" where
  "sane_transport s \<longleftrightarrow>
     (\<forall>t a sl. 8 \<le> length a \<longrightarrow> \<not> is_panic (fst (tr_Send (mb_client s) t a)) \<and>
        (\<forall>b. fst (tr_Send (mb_client s) t a) = Ok b \<longrightarrow> long_enough (packagerGetter s sl) b))"

lemma any_Encode_long:
  "any_Encode pk p = (Ok a, pk') \<Longrightarrow> 4 \<le> length (Data p) \<Longrightarrow> 8 \<le> length a"
  by (cases pk) (auto simp: rtu_Encode_eq ascii_Encode_eq tcp_Encode_eq length_ascii_frame tcp_frame_def put16_def
      split: if_splits)

lemma send_no_panic:
  assumes "mb_service_of mode tr = Inr s" and "sane_transport s" and "4 \<le> length (Data rq)"
  shows "\<not> is_panic (fst (send (mb_client s) (packagerGetter s sl, t) rq))"
    "fst (send (mb_client s) (packagerGetter s sl, t) rq) = Ok r \<Longrightarrow> Data r \<noteq> []"
proof -
  have m: "pk_Encode (mb_client s) = any_Encode" "pk_Verify (mb_client s) = any_Verify"
    "pk_Decode (mb_client s) = any_Decode"
    using mb_service_of_client [OF assms(1)] by simp_all
  obtain e pk where e: "any_Encode (packagerGetter s sl) rq = (e, pk)" by fastforce
  have ne: "\<not> is_panic e" using any_Encode_no_panic [of "packagerGetter s sl" rq] e by simp
  have x: "\<not> is_panic (fst (send (mb_client s) (packagerGetter s sl, t) rq)) \<and>
    (\<forall>r. fst (send (mb_client s) (packagerGetter s sl, t) rq) = Ok r \<longrightarrow> Data r \<noteq> [])"
  proof (cases e)
    case (Ok a)
    obtain g t' where g: "tr_Send (mb_client s) t a = (g, t')" by fastforce
    show ?thesis
    proof (cases g)
      case (Ok b)
      have a8: "8 \<le> length a" using any_Encode_long e \<open>e = Ok a\<close> assms(3) by blast
      have l: "long_enough pk b"
        using assms(2) g Ok e any_Encode_same_mode a8
        by (metis fst_conv sane_transport_def)
      have ea: "any_Encode (packagerGetter s sl) rq = (Ok a, pk)" using e \<open>e = Ok a\<close> by simp
      have v: "\<not> is_panic (any_Verify pk a b)" by (rule any_Verify_no_panic [OF ea l])
      have d: "any_Verify pk a b = Ok () \<Longrightarrow> \<not> is_panic (any_Decode pk b)"
        using any_Decode_no_panic l by blast
      show ?thesis
        using ea g Ok v d by (auto simp: send_def m go_simps split: if_splits)
    next
      case (Panic x)
      moreover have "8 \<le> length a" using any_Encode_long e \<open>e = Ok a\<close> assms(3) by blast
      ultimately show ?thesis using assms(2) g by (metis fst_conv is_panic.simps(1) sane_transport_def)
    qed (use e g Ok in \<open>auto simp: send_def m\<close>)
  qed (use e ne in \<open>auto simp: send_def m\<close>)
  then show "\<not> is_panic (fst (send (mb_client s) (packagerGetter s sl, t) rq))" by blast
  show "fst (send (mb_client s) (packagerGetter s sl, t) rq) = Ok r \<Longrightarrow> Data r \<noteq> []"
    using x by blast
qed

lemma client_no_panic:
  assumes "mb_service_of mode tr = Inr s" and "sane_transport s"
    and "\<And>r. Data r \<noteq> [] \<Longrightarrow> \<not> is_panic (f r)" and "4 \<le> length (Data rq)"
  shows "\<not> is_panic (fst (finish f (send (mb_client s) (packagerGetter s sl, t) rq)))"
  using send_no_panic [OF assms(1,2,4)] assms(3) by (auto simp: finish_def is_panic_bind)

lemma is_panic_with_client:
  "is_panic (fst (with_client s t sl f)) = is_panic (fst (f (mb_client s) (packagerGetter s sl, t)))"
  by (simp add: with_client_def split: prod.split)

lemma is_panic_after [go_simps]:
  "is_panic (fst (after m t f)) \<longleftrightarrow> is_panic m \<or> (\<exists>x. m = Ok x \<and> is_panic (fst (f x)))"
  by (cases m) auto

lemma is_panic_go_st [go_simps]:
  "is_panic (fst (go_st r f)) \<longleftrightarrow> is_panic (fst r) \<or> (\<exists>x. fst r = Ok x \<and> is_panic (f x))"
  by (simp add: go_st_def is_panic_bind)

lemma process_no_panic:
  assumes "\<And>xs. length xs \<le> length vs \<Longrightarrow> \<not> is_panic (run_callback f c xs)"
  shows "\<not> is_panic (processIntArrayItem k vs f c)"
  using assms
proof (induction vs arbitrary: c)
  case (Cons v vs)
  show ?case
  proof (cases "int_item v")
    case None
    then show ?thesis by (auto simp: int_item_def split: gval.splits sum.splits)
  next
    case (Some x)
    have "\<not> is_panic (f c x)"
      using Cons.prems [of "[x]"] by (simp add: is_panic_bind)
    moreover have "\<not> is_panic (processIntArrayItem k vs f c')" if "f c x = Ok c'" for c'
      using Cons.prems [of "x # _"] that by (intro Cons.IH) (fastforce simp: is_panic_bind)
    ultimately show ?thesis using Some
      by (auto simp: int_item_def is_panic_bind split: gval.splits sum.splits)
  qed
qed simp

lemma coils_no_panic:
  assumes "length vs \<le> 8 * L"
  shows "\<not> is_panic (processIntArrayItem k vs (buildProcessCoilsArray k) (0, 0, replicate L 0))"
proof (rule process_no_panic)
  fix xs :: "int list"
  assume "length xs \<le> length vs"
  then have "length [] + length xs \<le> 8 * L" using assms by simp
  from run_coils [OF coil_inv_init this, of k]
  show "\<not> is_panic (run_callback (buildProcessCoilsArray k) (0, 0, replicate L 0) xs)"
    by (auto split: if_splits)
qed

lemma registers_no_panic:
  assumes "2 * length vs \<le> L"
  shows "\<not> is_panic (processIntArrayItem k vs (buildProcessRegistersArray k) (0, replicate L 0))"
proof (rule process_no_panic)
  have np: "\<not> is_panic (run_callback (buildProcessRegistersArray k) (i, b) xs)"
    if "i + 2 * length xs \<le> length b" for i b xs
    using that by (induction xs arbitrary: i b)
      (auto simp: buildProcessRegistersArray_def is_panic_bind Let_def)
  fix xs :: "int list"
  assume "length xs \<le> length vs"
  then show "\<not> is_panic (run_callback (buildProcessRegistersArray k) (0, replicate L 0) xs)"
    using assms by (intro np) simp
qed

lemma getAddr_no_panic [simp]:
  "\<not> is_panic (getAddrAndQuantity params)" "\<not> is_panic (getAddrAndValue params)"
  by (simp_all add: getAddrAndQuantity_def getAddrAndValue_def)

lemma op_no_panic:
  assumes "mb_service_of mode tr = Inr s" and "sane_transport s"
  shows "\<not> is_panic (fst (ReadCoils (mb_client s) (packagerGetter s sl, t) a q))"
    "\<not> is_panic (fst (ReadDiscreteInputs (mb_client s) (packagerGetter s sl, t) a q))"
    "\<not> is_panic (fst (ReadHoldingRegisters (mb_client s) (packagerGetter s sl, t) a q))"
    "\<not> is_panic (fst (ReadInputRegisters (mb_client s) (packagerGetter s sl, t) a q))"
    "\<not> is_panic (fst (WriteSingleCoil (mb_client s) (packagerGetter s sl, t) a q))"
    "\<not> is_panic (fst (WriteSingleRegister (mb_client s) (packagerGetter s sl, t) a q))"
    "\<not> is_panic (fst (WriteMultipleCoils (mb_client s) (packagerGetter s sl, t) a q d))"
    "\<not> is_panic (fst (WriteMultipleRegisters (mb_client s) (packagerGetter s sl, t) a q d))"
  by (simp_all add: client_ops_defs client_no_panic [OF assms] counted_no_panic echoed_no_panic)

lemma WriteSingleCoil_Ok:
  "fst (with_client s t sl (\<lambda>cli st. WriteSingleCoil cli st a v)) = Ok d \<Longrightarrow> d = put16 v"
  by (auto simp: with_client_def WriteSingleCoil_def finish_def go_simps echoed_eq_Ok
      split: if_splits prod.splits)

lemma handler_no_panic:
  assumes "mb_service_of mode tr = Inr s" and "sane_transport s"
  shows "\<not> is_panic (fst (readCoils s t params))" "\<not> is_panic (fst (readDiscreteInputs s t params))"
    "\<not> is_panic (fst (readInputRegisters s t params))"
    "\<not> is_panic (fst (readHoldingRegisters s t params))"
    "\<not> is_panic (fst (writeSingleRegister s t params))"
  using op_no_panic [OF assms]
  by (auto simp: handler_defs is_panic_with_client go_simps Let_def split: prod.splits)

lemma writeSingleCoil_no_panic:
  assumes "mb_service_of mode tr = Inr s" and "sane_transport s"
  shows "\<not> is_panic (fst (writeSingleCoil s t params))"
  using op_no_panic [OF assms]
  by (auto simp: handler_defs is_panic_with_client go_simps Let_def
      dest!: WriteSingleCoil_Ok split: prod.splits list.splits if_splits)

lemma writeMultiple_no_panic:
  assumes "mb_service_of mode tr = Inr s" and "sane_transport s"
  shows "\<not> is_panic (fst (writeMultipleCoils s t params))"
    "(\<And>a q. getAddrAndQuantity params = Ok (a, q) \<Longrightarrow> unat q < 32768) \<Longrightarrow>
     \<not> is_panic (fst (writeMultipleRegisters s t params))"
proof -
  have "n \<le> 8 * ((n + 7) div 8)" for n :: nat by linarith
  then show "\<not> is_panic (fst (writeMultipleCoils s t params))"
    using op_no_panic [OF assms] coils_no_panic
    by (auto simp: handler_defs is_panic_with_client go_simps Let_def split: prod.splits if_splits)
  assume "\<And>a q. getAddrAndQuantity params = Ok (a, q) \<Longrightarrow> unat q < 32768"
  then have "getAddrAndQuantity params = Ok (a, q) \<Longrightarrow> unat (q * 2) = 2 * unat q" for a q
    by (simp add: unat_word_ariths)
  then show "\<not> is_panic (fst (writeMultipleRegisters s t params))"
    using op_no_panic [OF assms] registers_no_panic
    by (auto simp: handler_defs is_panic_with_client go_simps Let_def split: prod.splits if_splits)
qed

section \<open>Instances\<close>

text \<open>A connector in RTU mode whose device, slave 0, gives a fixed answer, and request
  parameters.\<close>

definition rtu_example :: "pdu \<Rightarrow> (any_packager, nat) mb_service" where
  "rtu_example rs =
     \<lparr>mb_client = \<lparr>pk_Encode = any_Encode, pk_Verify = any_Verify, pk_Decode = any_Decode,
        tr_Send = (\<lambda>t a. (Ok (rtu_frame 0 rs), t))\<rparr>, packagerGetter = PkRTU\<rparr>"

definition example_params :: "string \<Rightarrow> string \<Rightarrow> gval \<Rightarrow> gval" where
  "example_params a q v = GMap [(''address'', GNum a), (''quantity'', GNum q), (''value'', v)]"

lemma rtu_example_service:
  "mb_service_of ''rtu'' (\<lambda>t a. (Ok (rtu_frame 0 rs), t)) = Inr (rtu_example rs)"
  by (simp add: mb_service_of_def packagerFn_def rtu_example_def)

lemma rtu_example_device: "fits rq \<Longrightarrow> fits rs \<Longrightarrow> device (rtu_example rs) 0 t rq rs t"
  by (simp add: device_def answers_def rtu_example_def rtu_Encode_eq)


lemma example_params_get:
  "Get (example_params a q v) ''address'' = GNum a"
  "Get (example_params a q v) ''quantity'' = GNum q"
  "Get (example_params a q v) ''value'' = v"
  "Get (example_params a q v) ''slave_id'' = GNil"
proof -
  have k: "no_bracket ''address'' \<and> no_dot ''address''" "no_bracket ''quantity'' \<and> no_dot ''quantity''"
    "no_bracket ''value'' \<and> no_dot ''value''" "no_bracket ''slave_id'' \<and> no_dot ''slave_id''"
    by code_simp+
  then show
    "Get (example_params a q v) ''address'' = GNum a"
    "Get (example_params a q v) ''quantity'' = GNum q"
    "Get (example_params a q v) ''value'' = v"
    "Get (example_params a q v) ''slave_id'' = GNil"
    by (simp_all add: Get_def example_params_def access_get_plain look_def)
qed

lemma example_slave: "getSlaveID (example_params a q v) = Ok 0"
  by (simp add: getSlaveID_def getInt64_def example_params_get)

lemma getAddrAndQuantity_eq:
  assumes "Get p ''address'' = GNum a" "parse_int a 64 = Inr i" "0 \<le> i" "i \<le> 65535"
    and "Get p ''quantity'' = GNum q" "parse_int q 64 = Inr j" "0 \<le> j" "j \<le> 65535"
  shows "getAddrAndQuantity p = Ok (word_of_int i, word_of_int j)"
  using assms
  by (simp add: getAddrAndQuantity_def getTwoUint16_def getUint16_def getInt64_def)

lemma example_4_2: "getAddrAndQuantity (example_params ''4'' ''2'' v) = Ok (4, 2)"
  using getAddrAndQuantity_eq [of "example_params ''4'' ''2'' v" "''4''" 4 "''2''" 2]
  by (simp add: example_params_get read_number)

section \<open>Properties\<close>

text \<open>reading registers. For the three modes, when the slave answers the request of
  function 3 (holding) or 4 (input) with the values of the registers, the method returns
  exactly these values.\<close>

theorem read_registers_returns_device_values:
  assumes "mb_service_of mode tr = Inr s"
    and "(Method req, fc) \<in> {(''modbus-read-holding'', 3), (''modbus-read-input'', 4)}"
    and "getAddrAndQuantity (Params req) = Ok (a, q)" and "getSlaveID (Params req) = Ok sl"
    and "1 \<le> q" and "q \<le> 125" and "length ws = unat q"
    and "device s sl t \<lparr>FunctionCode = fc, Data = dataBlock [a, q]\<rparr>
           \<lparr>FunctionCode = fc, Data = word_of_nat (2 * length ws) # dataBlock ws\<rparr> t'"
  shows "modbus_Call s t req = (Ok (RVal (words ws)), t')"
proof -
  have l: "length (dataBlock ws) \<le> 251"
    using assms(6,7) by (simp add: word_le_nat_alt)
  have n: "\<not> (q < 1 \<or> q > 125)" using assms(5,6) by (meson leD)
  have d: "device s sl t \<lparr>FunctionCode = fc, Data = dataBlock [a, q]\<rparr>
      \<lparr>FunctionCode = FunctionCode \<lparr>FunctionCode = fc, Data = dataBlock [a, q]\<rparr>,
       Data = word_of_nat (length (dataBlock ws)) # dataBlock ws\<rparr> t'"
    using assms(8) by simp
  note w = with_client_counted [OF assms(1) d l]
  show ?thesis
    using assms(2-4) n w
    by (auto simp: modbus_Call_def modbus_method_def readHoldingRegisters_def
        readInputRegisters_def ReadHoldingRegisters_def ReadInputRegisters_def go_st_def)
qed

lemma read_registers_returns_device_values_witness:
  "modbus_Call (rtu_example \<lparr>FunctionCode = 3, Data = word_of_nat (2 * length [258, 7 :: u16]) # dataBlock [258, 7]\<rparr>) 0
     \<lparr>JSONRPC = ''2.0'', Method = ''modbus-read-holding'', ID = ''1'', Params = example_params ''4'' ''2'' GNil\<rparr>
   = (Ok (RVal (words [258, 7])), 0)"
  by (rule read_registers_returns_device_values [where q = 2 and a = 4 and sl = 0 and fc = 3,
      OF rtu_example_service _ _ _ _ _ _ rtu_example_device])
    (simp_all add: example_4_2 example_slave fits_def)

text \<open>reading coils. When every byte of the answer but the last has its top bit set (always
  so for at most eight coils), \<open>modbus-read-coil\<close> returns the state of every coil.\<close>

theorem read_coils_returns_states:
  assumes "mb_service_of mode tr = Inr s"
    and "getAddrAndQuantity params = Ok (a, q)" and "getSlaveID params = Ok sl"
    and "1 \<le> q" and "q \<le> 2000" and "length d = (unat q + 7) div 8"
    and "\<forall>x \<in> set (butlast d). bit x 7"
    and "device s sl t \<lparr>FunctionCode = 1, Data = dataBlock [a, q]\<rparr>
           \<lparr>FunctionCode = 1, Data = word_of_nat (length d) # d\<rparr> t'"
  shows "readCoils s t params = (Ok (words (coil_states d (unat q))), t')"
proof -
  have u: "unat q \<le> 2000" using assms(5) by (simp add: word_le_nat_alt)
  then have l: "length d \<le> 251" "unat q \<le> 8 * length d" using assms(6) by linarith+
  have n: "\<not> (q < 1 \<or> q > 2000)" using assms(4,5) by (meson leD)
  have "device s sl t \<lparr>FunctionCode = 1, Data = dataBlock [a, q]\<rparr>
      \<lparr>FunctionCode = FunctionCode \<lparr>FunctionCode = 1, Data = dataBlock [a, q]\<rparr>,
       Data = word_of_nat (length d) # d\<rparr> t'"
    using assms(8) by simp
  note w = with_client_counted [OF assms(1) this l(1)]
  show ?thesis
    using assms(2,3) n w parse_bits_full_bytes [OF assms(7) l(2)]
    by (simp add: readCoils_def ReadCoils_def go_st_def)
qed

lemma example_4_8: "getAddrAndQuantity (example_params ''4'' ''8'' v) = Ok (4, 8)"
  using getAddrAndQuantity_eq [of "example_params ''4'' ''8'' v" "''4''" 4 "''8''" 8]
  by (simp add: example_params_get read_number)

lemma read_coils_returns_states_witness:
  "readCoils (rtu_example \<lparr>FunctionCode = 1, Data = word_of_nat (length [5 :: byte]) # [5]\<rparr>) 0
     (example_params ''4'' ''8'' GNil)
   = (Ok (words (coil_states [5] (unat (8 :: u16)))), 0)"
  by (rule read_coils_returns_states [where q = 8 and a = 4 and sl = 0,
      OF rtu_example_service _ _ _ _ _ _ rtu_example_device])
    (simp_all add: example_4_8 example_slave fits_def)

text \<open>reading coils over a byte boundary. High zero bits of a byte are dropped before the
  next byte is read, so the coils 1, 0, 0, 0, 0, 0, 0, 0, 1, 0, ... come back as 1, 1, 0, 0, ...\<close>

theorem read_coils_misaligned:
  assumes "mb_service_of mode tr = Inr s"
    and "getAddrAndQuantity params = Ok (a, 16)" and "getSlaveID params = Ok sl"
    and "device s sl t \<lparr>FunctionCode = 1, Data = dataBlock [a, 16]\<rparr>
           \<lparr>FunctionCode = 1, Data = [2, 1, 1]\<rparr> t'"
  shows "readCoils s t params = (Ok (words (1 # 1 # replicate 14 0)), t')
    \<and> coil_states [1, 1] 16 = [1, 0, 0, 0, 0, 0, 0, 0, 1, 0, 0, 0, 0, 0, 0, 0]"
proof
  have "device s sl t \<lparr>FunctionCode = 1, Data = dataBlock [a, 16]\<rparr>
      \<lparr>FunctionCode = FunctionCode \<lparr>FunctionCode = 1, Data = dataBlock [a, 16]\<rparr>,
       Data = word_of_nat (length [1 :: byte, 1]) # [1, 1]\<rparr> t'"
    using assms(4) by simp
  note w = with_client_counted [OF assms(1) this]
  have "parseResultByteToBits [1, 1] 16 = 1 # 1 # replicate 14 0"
    by (simp add: parseResultByteToBits_def low_bits.simps drop_bit_eq_div Let_def)
  with w assms(2,3) show "readCoils s t params = (Ok (words (1 # 1 # replicate 14 0)), t')"
    by (simp add: readCoils_def ReadCoils_def go_st_def)
  show "coil_states [1, 1] 16 = [1, 0, 0, 0, 0, 0, 0, 0, 1, 0, 0, 0, 0, 0, 0, 0]"
    by (simp add: coil_states_def upt_conv_Cons bit_1_iff)
qed

lemma example_4_16: "getAddrAndQuantity (example_params ''4'' ''16'' v) = Ok (4, 16)"
  using getAddrAndQuantity_eq [of "example_params ''4'' ''16'' v" "''4''" 4 "''16''" 16]
  by (simp add: example_params_get read_number)

lemma read_coils_misaligned_witness:
  "readCoils (rtu_example \<lparr>FunctionCode = 1, Data = [2, 1, 1]\<rparr>) 0 (example_params ''4'' ''16'' GNil)
     = (Ok (words (1 # 1 # replicate 14 0)), 0)"
  by (rule read_coils_misaligned [where a = 4 and sl = 0,
      OF rtu_example_service _ _ rtu_example_device, THEN conjunct1])
    (simp_all add: example_4_16 example_slave fits_def)

text \<open>the discrete inputs, which the device packs eight to a byte, are read back as 16-bit
  registers: half as many values as bytes, so none at all for up to eight inputs.\<close>

theorem discrete_inputs_read_as_registers:
  assumes "mb_service_of mode tr = Inr s"
    and "getAddrAndQuantity params = Ok (a, q)" and "getSlaveID params = Ok sl"
    and "1 \<le> q" and "q \<le> 8"
    and "device s sl t \<lparr>FunctionCode = 2, Data = dataBlock [a, q]\<rparr>
           \<lparr>FunctionCode = 2, Data = [1, d]\<rparr> t'"
  shows "readDiscreteInputs s t params = (Ok (GArr []), t')"
proof -
  have n: "\<not> (q < 1 \<or> q > 2000)" using assms(4,5) by (auto simp: word_le_nat_alt word_less_nat_alt)
  have "device s sl t \<lparr>FunctionCode = 2, Data = dataBlock [a, q]\<rparr>
      \<lparr>FunctionCode = FunctionCode \<lparr>FunctionCode = 2, Data = dataBlock [a, q]\<rparr>,
       Data = word_of_nat (length [d]) # [d]\<rparr> t'"
    using assms(6) by simp
  note w = with_client_counted [OF assms(1) this]
  then show ?thesis
    using assms(2,3) n by (simp add: readDiscreteInputs_def ReadDiscreteInputs_def go_st_def words_def)
qed

lemma discrete_inputs_read_as_registers_witness:
  "readDiscreteInputs (rtu_example \<lparr>FunctionCode = 2, Data = [1, 255]\<rparr>) 0
     (example_params ''4'' ''8'' GNil) = (Ok (GArr []), 0)"
  by (rule discrete_inputs_read_as_registers [where q = 8 and a = 4 and sl = 0 and d = 255,
      OF rtu_example_service _ _ _ _ rtu_example_device])
    (simp_all add: example_4_8 example_slave fits_def)

text \<open>writing coils. When \<open>value\<close> holds one 0 or 1 per coil, the frame sent carries bytes
  whose bit \<open>i mod 8\<close> of byte \<open>i div 8\<close> is item \<open>i\<close>, and the acknowledged quantity is
  returned.\<close>

theorem write_coils_sends_states:
  assumes "mb_service_of mode tr = Inr s"
    and "getAddrAndQuantity params = Ok (a, q)" and "getSlaveID params = Ok sl"
    and "getArray params ''value'' = Ok vs" and "map int_item vs = map Some xs"
    and "set xs \<subseteq> {0, 1}" and "unat q = length xs" and "1 \<le> q" and "q \<le> 1968"
  shows "\<exists>bytes. length bytes = (length xs + 7) div 8
     \<and> coil_states bytes (length xs) = map word_of_int xs
     \<and> (\<forall>t t'. device s sl t \<lparr>FunctionCode = 15, Data = dataBlockSuffix bytes [a, q]\<rparr>
            \<lparr>FunctionCode = 15, Data = put16 a @ put16 q\<rparr> t'
          \<longrightarrow> writeMultipleCoils s t params = (Ok (words [q]), t'))"
proof -
  let ?L = "(length xs + 7) div 8"
  have len: "length vs = length xs" using assms(5) by (metis length_map)
  have "length [] + length xs \<le> 8 * ?L" by simp
  from run_coils [OF coil_inv_init this, of "''value''"] assms(6)
  obtain i p bytes where
    r: "run_callback (buildProcessCoilsArray ''value'') (0, 0, replicate ?L 0) xs = Ok (i, p, bytes)"
    and inv: "coil_inv ?L xs (i, p, bytes)"
    by auto
  have "length xs \<le> 8 * ?L" by linarith
  then have c: "coil_states bytes (length xs) = map word_of_int xs"
    by (rule coil_states_inv [OF inv assms(6)])
  have n: "\<not> (q < 1 \<or> q > 1968)" using assms(8,9) by (meson leD)
  have "writeMultipleCoils s t params = (Ok (words [q]), t')"
    if d: "device s sl t \<lparr>FunctionCode = 15, Data = dataBlockSuffix bytes [a, q]\<rparr>
            \<lparr>FunctionCode = 15, Data = put16 a @ put16 q\<rparr> t'" for t t'
  proof -
    have "device s sl t \<lparr>FunctionCode = 15, Data = dataBlockSuffix bytes [a, q]\<rparr>
      \<lparr>FunctionCode = FunctionCode \<lparr>FunctionCode = 15, Data = dataBlockSuffix bytes [a, q]\<rparr>,
       Data = put16 a @ put16 q\<rparr> t'"
      using d by simp
    note w = with_client_echoed [OF assms(1) this]
    show ?thesis
      using assms(2-4,7) n w [of _ "''quantity''"] r len
      by (simp add: process_items [OF assms(5)] writeMultipleCoils_def WriteMultipleCoils_def go_st_def)
  qed
  with c inv show ?thesis unfolding coil_inv_def by auto
qed

lemma int_item_num: "parse_int n 64 = Inr i \<Longrightarrow> int_item (GNum n) = Some i"
  by (simp add: int_item_def)

lemma example_array: "getArray (example_params a q (GArr vs)) ''value'' = Ok vs"
  by (simp add: getArray_def example_params_get)

lemma write_coils_sends_states_witness:
  "\<exists>bytes. length bytes = (length [1, 0 :: int] + 7) div 8
     \<and> coil_states bytes (length [1, 0 :: int]) = map word_of_int [1, 0]
     \<and> (\<forall>t t'. device (rtu_example \<lparr>FunctionCode = 15, Data = put16 4 @ put16 2\<rparr>) 0 t
              \<lparr>FunctionCode = 15, Data = dataBlockSuffix bytes [4, 2]\<rparr>
              \<lparr>FunctionCode = 15, Data = put16 4 @ put16 2\<rparr> t'
          \<longrightarrow> writeMultipleCoils (rtu_example \<lparr>FunctionCode = 15, Data = put16 4 @ put16 2\<rparr>) t
                (example_params ''4'' ''2'' (GArr [GNum ''1'', GNum ''0''])) = (Ok (words [2]), t'))"
  by (rule write_coils_sends_states [where vs = "[GNum ''1'', GNum ''0'']", OF rtu_example_service])
    (simp_all add: example_4_2 example_slave example_array int_item_def read_number)

text \<open>writing registers. The frame sent carries the items big-endian, one after the other,
  and the acknowledged quantity is returned.\<close>

theorem write_registers_sends_values:
  assumes "mb_service_of mode tr = Inr s"
    and "getAddrAndQuantity params = Ok (a, q)" and "getSlaveID params = Ok sl"
    and "getArray params ''value'' = Ok vs" and "map int_item vs = map Some xs"
    and "set xs \<subseteq> {0..65535}" and "unat q = length xs" and "1 \<le> q" and "q \<le> 123"
    and "device s sl t
           \<lparr>FunctionCode = 16, Data = dataBlockSuffix (dataBlock (map word_of_int xs)) [a, q]\<rparr>
           \<lparr>FunctionCode = 16, Data = put16 a @ put16 q\<rparr> t'"
  shows "writeMultipleRegisters s t params = (Ok (words [q]), t')"
proof -
  have len: "length vs = length xs" using assms(5) by (metis length_map)
  have "length xs \<le> 123" using assms(7,9) by (simp add: word_le_nat_alt)
  then have q2: "unat (q * 2) = 2 * length xs" using assms(7) by (simp add: unat_word_ariths)
  have r: "run_callback (buildProcessRegistersArray ''value'') (0, replicate (2 * length xs) 0) xs
      = Ok (2 * length xs, dataBlock (map word_of_int xs))"
    using run_registers [of "replicate (2 * length xs) 0" 0 xs "[]"] assms(6) by simp
  have n: "\<not> (q < 1 \<or> q > 123)" using assms(8,9) by (meson leD)
  have "device s sl t \<lparr>FunctionCode = 16, Data = dataBlockSuffix (dataBlock (map word_of_int xs)) [a, q]\<rparr>
      \<lparr>FunctionCode = FunctionCode
         \<lparr>FunctionCode = 16, Data = dataBlockSuffix (dataBlock (map word_of_int xs)) [a, q]\<rparr>,
       Data = put16 a @ put16 q\<rparr> t'"
    using assms(10) by simp
  note w = with_client_echoed [OF assms(1) this]
  show ?thesis
    using assms(2-4,7) n w [of _ "''quantity''"] r len q2
    by (simp add: process_items [OF assms(5)] writeMultipleRegisters_def WriteMultipleRegisters_def go_st_def)
qed

lemma write_registers_sends_values_witness:
  "writeMultipleRegisters (rtu_example \<lparr>FunctionCode = 16, Data = put16 4 @ put16 2\<rparr>) 0
     (example_params ''4'' ''2'' (GArr [GNum ''513'', GNum ''65535''])) = (Ok (words [2]), 0)"
  by (rule write_registers_sends_values [where vs = "[GNum ''513'', GNum ''65535'']" and a = 4
      and xs = "[513, 65535]" and sl = 0, OF rtu_example_service _ _ _ _ _ _ _ _ rtu_example_device])
    (simp_all add: example_4_2 example_slave example_array int_item_def read_number fits_def put16_def)

text \<open>the size \<open>quantity*2\<close> of the value buffer is computed at 16 bits. From 32768
  registers on it wraps, and filling the buffer with the values given panics before the client
  could reject the quantity.\<close>

theorem write_registers_wraps_and_panics:
  assumes "getAddrAndQuantity params = Ok (a, q)" and "32768 \<le> unat q"
    and "getArray params ''value'' = Ok vs" and "map int_item vs = map Some xs"
    and "set xs \<subseteq> {0..65535}" and "unat q = length xs"
  shows "is_panic (fst (writeMultipleRegisters s t params))"
proof -
  have len: "length vs = length xs" using assms(4) by (metis length_map)
  have "unat q < 2 ^ LENGTH(16)" by (rule unsigned_less)
  then have "unat q < 65536" by simp
  then have "unat (q * 2) = 2 * unat q - 65536"
    using assms(2) by (simp add: unat_word_ariths mod_if mult.commute)
  then have "is_panic (run_callback (buildProcessRegistersArray ''value'')
      (0, replicate (unat (q * 2)) 0) xs)"
    using assms(2,5,6) \<open>unat q < 65536\<close> by (intro run_registers_panic) auto
  then show ?thesis
    using assms(1,3,6) len
    by (simp add: writeMultipleRegisters_def process_items [OF assms(4)] is_panic_after)
qed

lemma write_registers_wraps_and_panics_witness:
  "is_panic (fst (writeMultipleRegisters (rtu_example \<lparr>FunctionCode = 16, Data = []\<rparr>) 0
     (example_params ''0'' ''32768'' (GArr (replicate 32768 (GNum ''1''))))))"
proof (rule write_registers_wraps_and_panics)
  show "getAddrAndQuantity (example_params ''0'' ''32768'' (GArr (replicate 32768 (GNum ''1''))))
      = Ok (0, 32768)"
    using getAddrAndQuantity_eq [of "example_params ''0'' ''32768'' _" "''0''" 0 "''32768''" 32768]
    by (simp add: example_params_get read_number)
  show "map int_item (replicate 32768 (GNum ''1'')) = map Some (replicate 32768 1)"
    by (simp add: int_item_def read_number)
qed (simp_all add: example_array)

text \<open>a Modbus exception of the device is the error of the read methods, with its function
  and exception code in the text.\<close>

theorem device_exception_is_the_error:
  assumes "mb_service_of mode tr = Inr s"
    and "(m, fc) \<in> {(''modbus-read-coil'', 1), (''modbus-read-discrete'', 2),
                     (''modbus-read-holding'', 3), (''modbus-read-input'', 4)}"
    and "Method req = m"
    and "getAddrAndQuantity (Params req) = Ok (a, q)" and "getSlaveID (Params req) = Ok sl"
    and "1 \<le> q" and "q \<le> 125"
    and "device s sl t \<lparr>FunctionCode = fc, Data = dataBlock [a, q]\<rparr>
           \<lparr>FunctionCode = fc OR 0x80, Data = [c]\<rparr> t'"
  shows "modbus_Call s t req
     = (Err (GoErr (mb_error_text (Exception (fc OR 0x80) c))), t')"
proof -
  have n: "\<not> (q < 1 \<or> q > 125)" "\<not> (q < 1 \<or> q > 2000)"
    using assms(6,7) by (auto simp: word_le_nat_alt word_less_nat_alt)
  have d: "device s sl t \<lparr>FunctionCode = fc, Data = dataBlock [a, q]\<rparr>
      \<lparr>FunctionCode = FunctionCode \<lparr>FunctionCode = fc, Data = dataBlock [a, q]\<rparr> OR 0x80,
       Data = [c]\<rparr> t'"
    using assms(8) by simp
  have b: "\<not> bit (FunctionCode \<lparr>FunctionCode = fc, Data = dataBlock [a, q]\<rparr>) 7"
    using assms(2) by (auto simp: bit_numeral_rec bit_1_iff)
  note w = with_client_exception [where f = counted, OF assms(1) d b]
  show ?thesis
    using assms(2-5) n w
    by (auto simp: modbus_Call_def modbus_method_def handler_defs client_ops_defs go_st_def
        simp del: mb_error_text.simps)
qed

lemma device_exception_is_the_error_witness:
  "modbus_Call (rtu_example \<lparr>FunctionCode = 3 OR 0x80, Data = [2]\<rparr>) 0
     \<lparr>JSONRPC = ''2.0'', Method = ''modbus-read-holding'', ID = ''1'', Params = example_params ''4'' ''2'' GNil\<rparr>
   = (Err (GoErr (mb_error_text (Exception (3 OR 0x80) 2))), 0)"
  by (rule device_exception_is_the_error [where q = 2 and a = 4 and sl = 0 and fc = 3,
      OF rtu_example_service _ _ _ _ _ _ rtu_example_device])
    (simp_all add: example_4_2 example_slave fits_def)

text \<open>over a transporter that does not panic (and, for TCP, delivers whole headers) no request
  makes the connector panic, except a register write of 32768 registers or more.\<close>

theorem modbus_Call_never_panics:
  assumes "mb_service_of mode tr = Inr s" and "sane_transport s"
    and "Method req = ''modbus-write-multiple-registers'' \<longrightarrow>
           (\<forall>a q. getAddrAndQuantity (Params req) = Ok (a, q) \<longrightarrow> unat q < 32768)"
  shows "\<not> is_panic (fst (modbus_Call s t req))"
proof (cases "Method req = ''modbus-write-multiple-registers''")
  case True
  then show ?thesis
    using writeMultiple_no_panic(2) [OF assms(1,2), of "Params req" t] assms(3)
    by (auto simp: modbus_Call_def modbus_method_def split: prod.split)
next
  case False
  then show ?thesis
    using handler_no_panic [OF assms(1,2), of t "Params req"]
      writeSingleCoil_no_panic [OF assms(1,2), of t "Params req"]
      writeMultiple_no_panic(1) [OF assms(1,2), of t "Params req"]
    by (auto simp: modbus_Call_def modbus_method_def split: prod.split)
qed

lemma modbus_Call_never_panics_witness:
  "\<not> is_panic (fst (modbus_Call (rtu_example \<lparr>FunctionCode = 3, Data = []\<rparr>) 0
     \<lparr>JSONRPC = ''2.0'', Method = ''modbus-write-coil'', ID = '''', Params = GMap []\<rparr>))"
  by (rule modbus_Call_never_panics [OF rtu_example_service])
    (simp_all add: sane_transport_def rtu_example_def long_enough_def)

text \<open>in TCP mode every request is sent with transaction id 1, whatever was sent before, and
  so the check of the transaction id accepts the late answer to an earlier request.\<close>

theorem tcp_transaction_id_constant:
  assumes "mb_service_of ''tcp'' tr = Inr s"
    and "any_Encode (packagerGetter s sl) p = (Ok adu, pk)"
    and "any_Encode (packagerGetter s sl) earlier = (Ok adu0, pk0)"
    and "any_Encode (packagerGetter s sl) q = (Ok late, pk1)"
  shows "take 2 adu = [0, 1] \<and> take 2 adu0 = [0, 1] \<and> any_Verify pk adu late = Ok ()"
proof -
  have f: "packagerGetter s sl = PkTCP \<lparr>transactionId = 0, SlaveId = sl\<rparr>"
    using assms(1) by (auto simp: mb_service_of_def packagerFn_def)
  have i: "hi8 1 = 0" "lo8 1 = 1" by (simp_all add: hi8_def lo8_def drop_bit_eq_div)
  show ?thesis
    using assms(2,3) any_mode.Verify_same [OF assms(2,4)]
    by (auto simp: f tcp_Encode_def put16_def Let_def i)
qed

lemma tcp_transaction_id_constant_witness:
  "\<exists>(s :: (any_packager, nat) mb_service) adu adu0 late pk pk0 pk1.
     any_Encode (packagerGetter s 1) \<lparr>FunctionCode = 3, Data = [0, 9, 0, 1]\<rparr> = (Ok adu, pk)
     \<and> any_Encode (packagerGetter s 1) \<lparr>FunctionCode = 3, Data = [0, 1, 0, 1]\<rparr> = (Ok adu0, pk0)
     \<and> any_Encode (packagerGetter s 1) \<lparr>FunctionCode = 3, Data = [2, 0, 7]\<rparr> = (Ok late, pk1)
     \<and> take 2 adu = [0, 1] \<and> take 2 adu0 = [0, 1] \<and> any_Verify pk adu late = Ok ()"
proof -
  obtain s :: "(any_packager, nat) mb_service" where
    s: "mb_service_of ''tcp'' (\<lambda>t a. (Ok a, t)) = Inr s"
    by (simp add: mb_service_of_def packagerFn_def)
  then have f: "packagerGetter s 1 = PkTCP \<lparr>transactionId = 0, SlaveId = 1\<rparr>"
    by (auto simp: mb_service_of_def packagerFn_def)
  have e: "\<exists>adu pk. any_Encode (packagerGetter s 1) p = (Ok adu, pk)" for p
    by (simp add: f tcp_Encode_def Let_def)
  obtain adu pk where 1: "any_Encode (packagerGetter s 1) \<lparr>FunctionCode = 3, Data = [0, 9, 0, 1]\<rparr> = (Ok adu, pk)"
    using e by blast
  obtain adu0 pk0 where 2: "any_Encode (packagerGetter s 1) \<lparr>FunctionCode = 3, Data = [0, 1, 0, 1]\<rparr> = (Ok adu0, pk0)"
    using e by blast
  obtain late pk1 where 3: "any_Encode (packagerGetter s 1) \<lparr>FunctionCode = 3, Data = [2, 0, 7]\<rparr> = (Ok late, pk1)"
    using e by blast
  from tcp_transaction_id_constant [OF s 1 2 3] 1 2 3 show ?thesis by blast
qed

end
