(* ===== verification/Modbus_Transport.thy ===== *)
theory Modbus_Transport
  imports Modbus_Handler
begin

text \<open>
  The transporters of the Modbus connector (\<open>third_party/goburrow/modbus\<close>: the \<open>Send\<close> methods of
  \<open>tcpclient.go\<close>, \<open>rtuclient.go\<close> and \<open>asciiclient.go\<close>, and \<open>serial.go\<close>) over a stream of bytes that
  arrives in pieces. The kernel's sockets and serial ports are the record \<open>net\<close>: how a dial, a deadline
  and a write end, and what arrives after a write. The lemmas say that the pieces do not matter, what a
  transporter leaves unread, and what that does to the next request.
\<close>

section \<open>What arrives on a connection\<close>

text \<open>In order: bytes that a read can return, the end of the time an exchange may take, and the loss of the
  connection. A connection on which nothing more arrives runs into the deadline.\<close>

datatype arrival = In "byte list" | Lapse | Down string

definition time_out :: string where
  "time_out = ''i/o timeout''"

fun conn_read :: "nat \<Rightarrow> arrival list \<Rightarrow> (string + byte list) \<times> arrival list" where
  "conn_read n [] = (Inl time_out, [])"
| "conn_read n (In bs # q) = (Inr (take n bs), if length bs \<le> n then q else In (drop n bs) # q)"
| "conn_read n (Lapse # q) = (Inl time_out, q)"
| "conn_read n (Down m # q) = (Inl m, Down m # q)"

text \<open>\<open>io.ReadAtLeast\<close> of the standard library into a buffer of size \<open>cap\<close> that already holds \<open>acc\<close>: what
  has been read, and the error. \<open>io.ReadFull\<close> asks for the size of the buffer.\<close>

fun weight :: "arrival list \<Rightarrow> nat" where
  "weight [] = 0"
| "weight (In bs # q) = Suc (length bs) + weight q"
| "weight (a # q) = Suc (weight q)"

lemma weight_read: "conn_read n q = (Inr bs, q') \<Longrightarrow> 0 < n \<Longrightarrow> weight q' < weight q"
  by (cases q rule: weight.cases) (auto split: if_splits)

function read_at_least :: "nat \<Rightarrow> nat \<Rightarrow> byte list \<Rightarrow> arrival list \<Rightarrow> (byte list \<times> string option) \<times> arrival list" where
  "read_at_least cap least acc q =
     (if cap < least then ((acc, Some ''short buffer''), q)
      else if least \<le> length acc then ((acc, None), q)
      else case conn_read (cap - length acc) q of
        (Inl e, q') \<Rightarrow> ((acc, Some (if acc \<noteq> [] \<and> e = ''EOF'' then ''unexpected EOF'' else e)), q')
      | (Inr bs, q') \<Rightarrow> read_at_least cap least (acc @ bs) q')"
  by pat_completeness auto
termination
  by (relation "measure (\<lambda>(_, _, _, q). weight q)") (auto intro: weight_read [OF sym])

declare read_at_least.simps [simp del]

definition read_full :: "nat \<Rightarrow> arrival list \<Rightarrow> (byte list \<times> string option) \<times> arrival list" where
  "read_full n q = read_at_least n n [] q"

section \<open>Connections\<close>

text \<open>A transporter (\<open>TCPTransporter\<close>, or \<open>serialPort\<close> with its configuration): the connection with what has
  arrived on it, the time of the last request, and when the timer that closes an idle connection fires.
  \<open>tt_dev\<close> is the world beyond it.\<close>

record 'd transporter =
  tt_Address :: string
  tt_Timeout :: int
  tt_IdleTimeout :: int
  tt_conn :: "arrival list option"
  tt_last :: int
  tt_timer :: "int option"
  tt_dev :: 'd

record 'd net =
  n_dial :: "'d \<Rightarrow> string \<Rightarrow> string option \<times> 'd"
  n_clock :: "'d \<Rightarrow> int"
  n_deadline :: "'d \<Rightarrow> string option"
  n_write :: "'d \<Rightarrow> byte list \<Rightarrow> (string + arrival list) \<times> 'd"
  n_late_read :: "'d \<Rightarrow> bool"

text \<open>\<open>NewTCPTransporter\<close>, \<open>NewRTUTransporter\<close> and \<open>NewASCIITransporter\<close>; times are in nanoseconds.\<close>

definition NewTCPTransporter :: "'d \<Rightarrow> string \<Rightarrow> 'd transporter" where
  "NewTCPTransporter d address =
     \<lparr>tt_Address = address, tt_Timeout = 10 * 10 ^ 9, tt_IdleTimeout = 60 * 10 ^ 9, tt_conn = None,
      tt_last = 0, tt_timer = None, tt_dev = d\<rparr>"

definition NewSerialTransporter :: "'d \<Rightarrow> string \<Rightarrow> 'd transporter" where
  "NewSerialTransporter d address =
     \<lparr>tt_Address = address, tt_Timeout = 5 * 10 ^ 9, tt_IdleTimeout = 60 * 10 ^ 9, tt_conn = None,
      tt_last = 0, tt_timer = None, tt_dev = d\<rparr>"

definition tr_connect :: "'d net \<Rightarrow> 'd transporter \<Rightarrow> string option \<times> 'd transporter" where
  "tr_connect N t =
     (if tt_conn t = None then
        (case n_dial N (tt_dev t) (tt_Address t) of
           (Some e, d) \<Rightarrow> (Some e, t\<lparr>tt_dev := d\<rparr>)
         | (None, d) \<Rightarrow> (None, t\<lparr>tt_conn := Some [], tt_dev := d\<rparr>))
      else (None, t))"

definition startCloseTimer :: "'d transporter \<Rightarrow> 'd transporter" where
  "startCloseTimer t =
     (if tt_IdleTimeout t \<le> 0 then t else t\<lparr>tt_timer := Some (tt_last t + tt_IdleTimeout t)\<rparr>)"

definition tr_close :: "'d transporter \<Rightarrow> 'd transporter" where
  "tr_close t = t\<lparr>tt_conn := None\<rparr>"

text \<open>The function of the timer, run at time \<open>now\<close>.\<close>

definition closeIdle :: "int \<Rightarrow> 'd transporter \<Rightarrow> 'd transporter" where
  "closeIdle now t =
     (if tt_IdleTimeout t \<le> 0 then t
      else if now - tt_last t \<ge> tt_IdleTimeout t then tr_close t else t)"

text \<open>The start of every \<open>Send\<close>: connect, note the time, start the timer.\<close>

definition begin_send :: "'d net \<Rightarrow> 'd transporter \<Rightarrow> string option \<times> 'd transporter" where
  "begin_send N t =
     (case tr_connect N t of
        (Some e, t') \<Rightarrow> (Some e, t')
      | (None, t') \<Rightarrow> (None, startCloseTimer (t'\<lparr>tt_last := n_clock N (tt_dev t')\<rparr>)))"

text \<open>A write, after which more arrives.\<close>

definition write_conn :: "'d net \<Rightarrow> byte list \<Rightarrow> 'd transporter \<Rightarrow> string option \<times> 'd transporter" where
  "write_conn N adu t =
     (case n_write N (tt_dev t) adu of
        (Inl e, d) \<Rightarrow> (Some e, t\<lparr>tt_dev := d\<rparr>)
      | (Inr as, d) \<Rightarrow> (None, t\<lparr>tt_conn := map_option (\<lambda>q. q @ as) (tt_conn t), tt_dev := d\<rparr>))"

definition on_conn :: "(arrival list \<Rightarrow> 'r \<times> arrival list) \<Rightarrow> 'd transporter \<Rightarrow> 'r \<times> 'd transporter" where
  "on_conn f t = (case f (the (tt_conn t)) of (r, q) \<Rightarrow> (r, t\<lparr>tt_conn := Some q\<rparr>))"

section \<open>TCP\<close>

definition tcpMaxLength :: nat where "tcpMaxLength = 260"

text \<open>\<open>flush\<close> sets the deadline of reads to now and reads once; its error is not looked at. Whether such a
  read still gets what has arrived is left to the network.\<close>

definition tcp_flush :: "'d net \<Rightarrow> 'd transporter \<Rightarrow> 'd transporter" where
  "tcp_flush N t =
     (if n_late_read N (tt_dev t) then
        (case tt_conn t of
           Some (In bs # q) \<Rightarrow> snd (on_conn (conn_read tcpMaxLength) t)
         | _ \<Rightarrow> t)
      else t)"

definition header_text :: "nat \<Rightarrow> string \<Rightarrow> string" where
  "header_text len rest = ''modbus: length in response header '' @ quoted len @ rest"

definition tcp_receive :: "'d net \<Rightarrow> 'd transporter \<Rightarrow> (byte list, mb_error) go \<times> 'd transporter" where
  "tcp_receive N t =
     (case on_conn (read_full tcpHeaderSize) t of
        ((_, Some e), t1) \<Rightarrow> (Err (TransportErr e), t1)
      | ((h, None), t1) \<Rightarrow>
          (let len = unat (be16 (h ! 4) (h ! 5)) in
           if len \<le> 0 then (Err (TransportErr (header_text len '' must not be zero'')), tcp_flush N t1)
           else if len > tcpMaxLength - (tcpHeaderSize - 1) then
             (Err (TransportErr (header_text len ('' must not greater than '' @ quoted (tcpMaxLength - tcpHeaderSize + 1)))),
              tcp_flush N t1)
           else
             (case on_conn (read_full (len + (tcpHeaderSize - 1) - tcpHeaderSize)) t1 of
                ((_, Some e), t2) \<Rightarrow> (Err (TransportErr e), t2)
              | ((b, None), t2) \<Rightarrow> (Ok (h @ b), t2))))"

definition tcp_Send :: "'d net \<Rightarrow> 'd transporter \<Rightarrow> byte list \<Rightarrow> (byte list, mb_error) go \<times> 'd transporter" where
  "tcp_Send N t aduRequest =
     (case begin_send N t of
        (Some e, t1) \<Rightarrow> (Err (TransportErr e), t1)
      | (None, t1) \<Rightarrow>
          (case n_deadline N (tt_dev t1) of
             Some e \<Rightarrow> (Err (TransportErr e), t1)
           | None \<Rightarrow>
               (case write_conn N aduRequest t1 of
                  (Some e, t2) \<Rightarrow> (Err (TransportErr e), t2)
                | (None, t2) \<Rightarrow> tcp_receive N t2)))"

section \<open>RTU\<close>

definition rtuExceptionSize :: nat where "rtuExceptionSize = 5"

text \<open>The functions are coils (1, 2), registers (3, 4, 23), writes (5, 15, 6, 16), a mask write (22) and the
  queue (24).\<close>

definition calculateResponseLength :: "byte list \<Rightarrow> (nat, mb_error) go" where
  "calculateResponseLength adu =
     go_bind (byte_at adu 1) (\<lambda>f.
       if f \<in> {2, 1} then
         go_map (\<lambda>c. rtuMinSize + 1 + unat c div 8 + (if unat c mod 8 \<noteq> 0 then 1 else 0)) (u16_at adu 4)
       else if f \<in> {4, 3, 23} then go_map (\<lambda>c. rtuMinSize + 1 + unat c * 2) (u16_at adu 4)
       else if f \<in> {5, 15, 6, 16} then Ok (rtuMinSize + 4)
       else if f = 22 then Ok (rtuMinSize + 6)
       else Ok rtuMinSize)"

text \<open>The pause before the answer is read, for the two speeds of the code.\<close>

definition calculateDelay :: "int \<Rightarrow> int \<Rightarrow> int" where
  "calculateDelay baud chars =
     (let (characterDelay, frameDelay) =
        (if baud \<le> 0 \<or> baud > 19200 then (750, 1750) else (15000000 div baud, 35000000 div baud))
      in (characterDelay * chars + frameDelay) * 1000)"

text \<open>The answer: at least four bytes, and then what its second byte asks for: how many more are waited for. \<open>function\<close>
  and \<open>functionFail\<close> come from the request.\<close>

definition rtu_more :: "byte \<Rightarrow> byte \<Rightarrow> nat \<Rightarrow> byte list \<Rightarrow> nat" where
  "rtu_more function functionFail bytesToRead d =
     (if d ! 1 = function then
        (if length d < bytesToRead \<and> bytesToRead > rtuMinSize \<and> bytesToRead \<le> rtuMaxSize
         then bytesToRead - length d else 0)
      else if d ! 1 = functionFail then
        (if length d < rtuExceptionSize then rtuExceptionSize - length d else 0)
      else 0)"

text \<open>\<open>Send\<close> in RTU mode does not hold the mutex of the port, and the function of the timer may close the port at any
  point of it. \<open>shut\<close> says where, if anywhere: before one of the three uses of the field \<open>port\<close>, which then is nil,
  or during one of them, which then ends with the error of a closed port.\<close>

datatype rtu_point = WritePort | ReadPort | RestPort

datatype rtu_shut = Shut_before rtu_point | Shut_in rtu_point string

definition nil_port :: string where
  "nil_port = ''invalid memory address or nil pointer dereference''"

definition use_port ::
  "rtu_shut option \<Rightarrow> rtu_point \<Rightarrow> ('d transporter \<Rightarrow> ('x \<times> string option) \<times> 'd transporter) \<Rightarrow> 'd transporter
     \<Rightarrow> ('x, mb_error) go \<times> 'd transporter" where
  "use_port shut p f t =
     (if shut = Some (Shut_before p) then (Panic nil_port, tr_close t)
      else
        (case f t of
           ((x, e), t') \<Rightarrow>
             (case shut of
                Some (Shut_in q m) \<Rightarrow>
                  if q = p then (Err (TransportErr m), tr_close t')
                  else (case e of Some m' \<Rightarrow> Err (TransportErr m') | None \<Rightarrow> Ok x, t')
              | _ \<Rightarrow> (case e of Some m' \<Rightarrow> Err (TransportErr m') | None \<Rightarrow> Ok x, t'))))"

definition after_port :: "('x, 'e) go \<times> 's \<Rightarrow> ('x \<Rightarrow> 's \<Rightarrow> ('y, 'e) go \<times> 's) \<Rightarrow> ('y, 'e) go \<times> 's" where
  "after_port m f =
     (case m of
        (Ok x, s) \<Rightarrow> f x s
      | (Err e, s) \<Rightarrow> (Err e, s)
      | (Panic p, s) \<Rightarrow> (Panic p, s))"

definition rtu_Send ::
  "rtu_shut option \<Rightarrow> 'd net \<Rightarrow> 'd transporter \<Rightarrow> byte list \<Rightarrow> (byte list, mb_error) go \<times> 'd transporter" where
  "rtu_Send shut N t aduRequest =
     (case begin_send N t of
        (Some e, t1) \<Rightarrow> (Err (TransportErr e), t1)
      | (None, t1) \<Rightarrow>
          after_port (use_port shut WritePort (\<lambda>t. case write_conn N aduRequest t of (e, t') \<Rightarrow> (((), e), t')) t1) (\<lambda>_ t2.
          after_port (byte_at aduRequest 1, t2) (\<lambda>function t2.
          after_port (calculateResponseLength aduRequest, t2) (\<lambda>bytesToRead t2.
          after_port (use_port shut ReadPort (on_conn (read_at_least rtuMaxSize rtuMinSize [])) t2) (\<lambda>d t3.
            let more = rtu_more function (function AND 0x80) bytesToRead d in
            if more = 0 then (Ok d, t3)
            else after_port (use_port shut RestPort (on_conn (read_full more)) t3) (\<lambda>b t4. (Ok (d @ b), t4)))))))"

text \<open>The two reads as one, when nothing closes the port.\<close>

definition rtu_receive :: "byte \<Rightarrow> byte \<Rightarrow> nat \<Rightarrow> arrival list \<Rightarrow> (byte list \<times> string option) \<times> arrival list" where
  "rtu_receive function functionFail bytesToRead q =
     (case read_at_least rtuMaxSize rtuMinSize [] q of
        ((d, Some e), q1) \<Rightarrow> (([], Some e), q1)
      | ((d, None), q1) \<Rightarrow>
          (case read_full (rtu_more function functionFail bytesToRead d) q1 of
             ((_, Some e), q2) \<Rightarrow> (([], Some e), q2)
           | ((b, None), q2) \<Rightarrow> ((d @ b, None), q2)))"

section \<open>ASCII\<close>

definition asciiMaxSize :: nat where "asciiMaxSize = 513"

function ascii_receive :: "byte list \<Rightarrow> arrival list \<Rightarrow> (byte list \<times> string option) \<times> arrival list" where
  "ascii_receive d q =
     (case conn_read (asciiMaxSize - length d) q of
        (Inl e, q') \<Rightarrow> (([], Some e), q')
      | (Inr bs, q') \<Rightarrow>
          (let d' = d @ bs in
           if length d' \<ge> asciiMaxSize \<or> bs = [] then ((d', None), q')
           else if length d' > asciiMinSize \<and> drop (length d' - length asciiEnd) d' = asciiEnd then ((d', None), q')
           else ascii_receive d' q'))"
  by pat_completeness auto
termination
  by (relation "measure (\<lambda>(_, q). weight q)") (auto intro!: weight_read [OF sym])

declare ascii_receive.simps [simp del]

definition ascii_Send :: "'d net \<Rightarrow> 'd transporter \<Rightarrow> byte list \<Rightarrow> (byte list, mb_error) go \<times> 'd transporter" where
  "ascii_Send N t aduRequest =
     (case begin_send N t of
        (Some e, t1) \<Rightarrow> (Err (TransportErr e), t1)
      | (None, t1) \<Rightarrow>
          (case write_conn N aduRequest t1 of
             (Some e, t2) \<Rightarrow> (Err (TransportErr e), t2)
           | (None, t2) \<Rightarrow>
               (case on_conn (ascii_receive []) t2 of
                  ((_, Some e), t3) \<Rightarrow> (Err (TransportErr e), t3)
                | ((d, None), t3) \<Rightarrow> (Ok d, t3))))"

text \<open>The transporter of a mode (\<open>Start\<close> in \<open>internal/app/modbus/entrypoint\<close>).\<close>

definition transporter_of ::
  "string \<Rightarrow> rtu_shut option \<Rightarrow> 'd net \<Rightarrow> 'd transporter \<Rightarrow> byte list \<Rightarrow> (byte list, mb_error) go \<times> 'd transporter" where
  "transporter_of mode shut =
     (if mode = ''tcp'' then tcp_Send else if mode = ''rtu'' then rtu_Send shut else ascii_Send)"

section \<open>Reads of a stream\<close>

text \<open>The bytes that can be read before anything else happens, and what comes after them.\<close>

fun pending :: "arrival list \<Rightarrow> byte list" where
  "pending (In bs # q) = bs @ pending q"
| "pending _ = []"

fun beyond :: "arrival list \<Rightarrow> arrival list" where
  "beyond (In bs # q) = beyond q"
| "beyond q = q"

lemma pending_append: "pending (q @ r) = pending q @ (if beyond q = [] then pending r else [])"
  by (induction q rule: pending.induct) auto

lemma beyond_append: "beyond (q @ r) = (if beyond q = [] then beyond r else beyond q @ r)"
  by (induction q rule: beyond.induct) auto

lemma pieces_pending [simp]: "pending (map In cs) = concat cs" "beyond (map In cs) = []"
  by (induction cs) auto

text \<open>A read that waits for the whole of what is pending, or for less, gets it whatever the pieces.\<close>

lemma read_enough:
  assumes "length acc \<le> n" and "n \<le> length acc + length (pending q)"
  shows "\<exists>q'. read_at_least n n acc q = ((acc @ take (n - length acc) (pending q), None), q')
    \<and> pending q' = drop (n - length acc) (pending q) \<and> beyond q' = beyond q"
  using assms
proof (induction "weight q" arbitrary: acc q rule: less_induct)
  case less
  show ?case
  proof (cases "n \<le> length acc")
    case True
    with less.prems show ?thesis by (simp add: read_at_least.simps)
  next
    case False
    then obtain bs r where q: "q = In bs # r"
      using less.prems by (cases q rule: pending.cases) auto
    let ?k = "n - length acc"
    show ?thesis
    proof (cases "length bs \<le> ?k")
      case True
      have "read_at_least n n acc q = read_at_least n n (acc @ bs) r"
        using False True by (subst read_at_least.simps) (simp add: q)
      moreover have "\<exists>q'. read_at_least n n (acc @ bs) r = (((acc @ bs) @ take (n - length (acc @ bs)) (pending r), None), q')
          \<and> pending q' = drop (n - length (acc @ bs)) (pending r) \<and> beyond q' = beyond r"
        by (rule less.hyps) (use True False less.prems q in auto)
      ultimately show ?thesis using True by (simp add: q)
    next
      case long: False
      have "read_at_least n n acc q = read_at_least n n (acc @ take ?k bs) (In (drop ?k bs) # r)"
        using False long by (subst read_at_least.simps) (simp add: q)
      also have "\<dots> = ((acc @ take ?k bs, None), In (drop ?k bs) # r)"
        using False long by (subst read_at_least.simps) simp
      finally show ?thesis using long by (simp add: q)
    qed
  qed
qed

lemma read_full_enough:
  assumes "n \<le> length (pending q)"
  obtains q' where "read_full n q = ((take n (pending q), None), q')" "pending q' = drop n (pending q)"
    "beyond q' = beyond q"
  using read_enough [of "[]" n q] assms by (auto simp: read_full_def)

text \<open>A read of more than is pending fails, and what was pending is gone.\<close>

fun stop :: "arrival list \<Rightarrow> string \<times> arrival list" where
  "stop (Down m # q) = (m, Down m # q)"
| "stop (Lapse # q) = (time_out, q)"
| "stop _ = (time_out, [])"

lemma read_stopped:
  assumes "length acc + length (pending q) < least" and "least \<le> cap"
  shows "\<exists>e. read_at_least cap least acc q = ((acc @ pending q, Some e), snd (stop (beyond q)))
    \<and> (fst (stop (beyond q)) \<noteq> ''EOF'' \<longrightarrow> e = fst (stop (beyond q)))"
  using assms
proof (induction "weight q" arbitrary: acc q rule: less_induct)
  case less
  show ?case
  proof (cases "\<exists>bs r. q = In bs # r")
    case True
    then obtain bs r where q: "q = In bs # r" by blast
    then have "length bs \<le> cap - length acc" using less.prems by simp
    then have "read_at_least cap least acc q = read_at_least cap least (acc @ bs) r"
      using less.prems q by (subst read_at_least.simps) simp
    moreover have "\<exists>e. read_at_least cap least (acc @ bs) r = (((acc @ bs) @ pending r, Some e), snd (stop (beyond r)))
      \<and> (fst (stop (beyond r)) \<noteq> ''EOF'' \<longrightarrow> e = fst (stop (beyond r)))"
      by (rule less.hyps) (use q less.prems in auto)
    ultimately show ?thesis using q by simp
  next
    case False
    then have "conn_read (cap - length acc) q = (Inl (fst (stop (beyond q))), snd (stop (beyond q)))" "pending q = []"
      by (cases q rule: stop.cases; simp)+
    then show ?thesis using less.prems by (subst read_at_least.simps) simp
  qed
qed

section \<open>Frames over TCP\<close>

definition whole_frame :: "byte list \<Rightarrow> bool" where
  "whole_frame f \<longleftrightarrow> 7 \<le> length f \<and> length f \<le> 260 \<and> unat (be16 (f ! 4) (f ! 5)) = length f - 6"

lemma whole_tcp_frame:
  assumes "fits p"
  shows "whole_frame (tcp_frame tid unit p)"
proof -
  have "unat (word_of_nat (2 + length (Data p)) :: u16) = 2 + length (Data p)"
    using assms by (simp only: unat_of_nat fits_def) (simp add: take_bit_eq_mod)
  then show ?thesis using assms by (simp add: whole_frame_def tcp_frame_def put16_def fits_def)
qed

text \<open>The state after the request has been written: what follows it arrives behind what is there.\<close>

definition sent_on :: "'d net \<Rightarrow> 'd transporter \<Rightarrow> arrival list \<Rightarrow> 'd \<Rightarrow> 'd transporter" where
  "sent_on N t as d =
     (startCloseTimer (t\<lparr>tt_last := n_clock N (tt_dev t)\<rparr>))\<lparr>tt_conn := map_option (\<lambda>q. q @ as) (tt_conn t), tt_dev := d\<rparr>"

lemma startCloseTimer_sel [simp]:
  "tt_conn (startCloseTimer t) = tt_conn t" "tt_dev (startCloseTimer t) = tt_dev t"
  "tt_last (startCloseTimer t) = tt_last t" "tt_IdleTimeout (startCloseTimer t) = tt_IdleTimeout t"
  "tt_Address (startCloseTimer t) = tt_Address t"
  by (simp_all add: startCloseTimer_def)

lemma sent_on_sel [simp]:
  "tt_conn (sent_on N t as d) = map_option (\<lambda>q. q @ as) (tt_conn t)" "tt_dev (sent_on N t as d) = d"
  "tt_last (sent_on N t as d) = n_clock N (tt_dev t)" "tt_IdleTimeout (sent_on N t as d) = tt_IdleTimeout t"
  by (simp_all add: sent_on_def)

lemma tcp_Send_receive:
  assumes "tr_connect N t = (None, t1)" and "n_deadline N (tt_dev t1) = None"
    and "n_write N (tt_dev t1) adu = (Inr as, d)"
  shows "tcp_Send N t adu = tcp_receive N (sent_on N t1 as d)"
  using assms by (simp add: tcp_Send_def begin_send_def write_conn_def sent_on_def)

lemma ascii_Send_receive:
  assumes "tr_connect N t = (None, t1)" and "n_write N (tt_dev t1) adu = (Inr as, d)"
  shows "ascii_Send N t adu =
      (case on_conn (ascii_receive []) (sent_on N t1 as d) of
         ((_, Some e), t3) \<Rightarrow> (Err (TransportErr e), t3) | ((b, None), t3) \<Rightarrow> (Ok b, t3))"
  using assms by (simp add: ascii_Send_def begin_send_def write_conn_def sent_on_def)

lemma read_full_0 [simp]: "read_full 0 q = (([], None), q)"
  by (simp add: read_full_def read_at_least.simps)

lemma rtu_Send_receive:
  assumes "tr_connect N t = (None, t1)" and "n_write N (tt_dev t1) adu = (Inr as, d)"
    and "byte_at adu 1 = (Ok f :: (byte, mb_error) go)" and "calculateResponseLength adu = Ok n"
  shows "rtu_Send None N t adu =
      (case on_conn (rtu_receive f (f AND 0x80) n) (sent_on N t1 as d) of
         ((_, Some e), t3) \<Rightarrow> (Err (TransportErr e), t3) | ((b, None), t3) \<Rightarrow> (Ok b, t3))"
proof -
  let ?t = "sent_on N t1 as d"
  have w: "write_conn N adu (startCloseTimer (t1\<lparr>tt_last := n_clock N (tt_dev t1)\<rparr>)) = (None, ?t)"
    using assms(2) by (simp add: write_conn_def sent_on_def)
  obtain b e q where r: "read_at_least rtuMaxSize rtuMinSize [] (the (tt_conn ?t)) = ((b, e), q)" by (metis surj_pair)
  obtain b' e' q' where r': "read_full (rtu_more f (f AND 0x80) n b) q = ((b', e'), q')" by (metis surj_pair)
  show ?thesis
    using assms(1,3,4) w r r'
    by (auto simp: rtu_Send_def begin_send_def use_port_def after_port_def on_conn_def rtu_receive_def Let_def split: option.splits)
qed

lemma tcp_receive_frame:
  assumes "tt_conn t = Some q" and "pending q = f @ rest" and "whole_frame f"
  shows "\<exists>q'. tcp_receive N t = (Ok f, t\<lparr>tt_conn := Some q'\<rparr>) \<and> pending q' = rest \<and> beyond q' = beyond q"
proof -
  have l: "7 \<le> length f" "length f \<le> 260" "unat (be16 (f ! 4) (f ! 5)) = length f - 6"
    using assms(3) by (simp_all add: whole_frame_def)
  obtain q1 where q1: "read_full 7 q = ((take 7 f, None), q1)" "pending q1 = drop 7 f @ rest" "beyond q1 = beyond q"
    using read_full_enough [of 7 q] assms(2) l(1) by auto
  obtain q2 where q2: "read_full (length f - 7) q1 = ((drop 7 f, None), q2)" "pending q2 = rest" "beyond q2 = beyond q"
    using read_full_enough [of "length f - 7" q1] q1 by auto
  have n: "length f - 6 + 6 - 7 = length f - 7" "\<not> 254 < length f - 6" using l(1,2) by simp_all
  show ?thesis
    using assms(1) q1(1) q2 l n
    by (auto simp: tcp_receive_def on_conn_def tcpHeaderSize_def tcpMaxLength_def Let_def)
qed

text \<open>A connection that is in step holds nothing unread; a clean one is in step or still to be made.\<close>

definition in_step :: "'d transporter \<Rightarrow> bool" where
  "in_step t \<longleftrightarrow> (case tt_conn t of None \<Rightarrow> True | Some q \<Rightarrow> pending q = [] \<and> beyond q = [])"

text \<open>The answers of a device behind the network: \<open>f\<close> arrives after \<open>adu\<close>, in some pieces.\<close>

definition replies :: "'d net \<Rightarrow> 'd transporter \<Rightarrow> byte list \<Rightarrow> byte list \<Rightarrow> 'd \<Rightarrow> bool" where
  "replies N t adu f d \<longleftrightarrow> (\<exists>t1 cs. tr_connect N t = (None, t1) \<and> n_deadline N (tt_dev t1) = None
     \<and> n_write N (tt_dev t1) adu = (Inr (map In cs), d) \<and> concat cs = f)"

lemma tr_connect_conn: "tr_connect N t = (None, t1) \<Longrightarrow> tt_conn t1 = Some (case tt_conn t of None \<Rightarrow> [] | Some q \<Rightarrow> q)"
  by (auto simp: tr_connect_def split: if_splits prod.splits option.splits)

lemma tcp_Send_reply:
  assumes "replies N t adu f d" and "tt_conn t = None \<or> tt_conn t = Some q \<and> beyond q = []"
    and "pending (case tt_conn t of None \<Rightarrow> [] | Some q \<Rightarrow> q) @ f = g @ rest" and "whole_frame g"
  shows "\<exists>t' q'. tcp_Send N t adu = (Ok g, t') \<and> tt_conn t' = Some q' \<and> pending q' = rest \<and> beyond q' = []
    \<and> tt_dev t' = d"
proof -
  obtain t1 cs where c: "tr_connect N t = (None, t1)" "n_deadline N (tt_dev t1) = None"
    "n_write N (tt_dev t1) adu = (Inr (map In cs), d)" "concat cs = f"
    using assms(1) by (auto simp: replies_def)
  let ?q = "case tt_conn t of None \<Rightarrow> [] | Some q \<Rightarrow> q"
  have b: "beyond ?q = []" using assms(2) by auto
  have "tt_conn (sent_on N t1 (map In cs) d) = Some (?q @ map In cs)"
    using tr_connect_conn [OF c(1)] by simp
  moreover have "pending (?q @ map In cs) = g @ rest" "beyond (?q @ map In cs) = []"
    using b assms(3) c(4) by (simp_all add: pending_append beyond_append)
  ultimately show ?thesis
    using tcp_receive_frame [OF _ _ assms(4), of "sent_on N t1 (map In cs) d" "?q @ map In cs" rest N]
    by (auto simp: tcp_Send_receive [OF c(1-3)])
qed

section \<open>The connector over TCP\<close>

lemma tcp_service:
  assumes "mb_service_of ''tcp'' tr = Inr s"
  shows "packagerGetter s sl = PkTCP \<lparr>transactionId = 0, SlaveId = sl\<rparr>" "tr_Send (mb_client s) = tr"
    "any_Encode (packagerGetter s sl) p = (Ok (tcp_frame 1 sl p), PkTCP \<lparr>transactionId = 1, SlaveId = sl\<rparr>)"
    "pk_Encode (mb_client s) = any_Encode"
  using assms by (auto simp: mb_service_of_def packagerFn_def tcp_Encode_eq)

text \<open>What the next frame on the connection is, is the answer to the request that is sent next.\<close>

lemma next_frame_answers:
  assumes "mb_service_of ''tcp'' (tcp_Send N) = Inr s" and "replies N t (tcp_frame 1 sl rq) f d"
    and "tt_conn t = None \<or> tt_conn t = Some q \<and> beyond q = []"
    and "pending (case tt_conn t of None \<Rightarrow> [] | Some q \<Rightarrow> q) @ f = tcp_frame 1 sl rs @ rest" and "fits rs"
  shows "\<exists>t' q'. device s sl t rq rs t' \<and> tt_conn t' = Some q' \<and> pending q' = rest \<and> beyond q' = [] \<and> tt_dev t' = d"
proof -
  obtain t' q' where t': "tcp_Send N t (tcp_frame 1 sl rq) = (Ok (tcp_frame 1 sl rs), t')"
    "tt_conn t' = Some q'" "pending q' = rest" "beyond q' = []" "tt_dev t' = d"
    using tcp_Send_reply [OF assms(2,3,4) whole_tcp_frame [OF assms(5)]] by blast
  have "device s sl t rq rs t'"
    unfolding device_def answers_def using t'(1) tcp_service(2-4) [OF assms(1)] by metis
  with t'(2-) show ?thesis by blast
qed

abbreviation registers_request :: "byte \<Rightarrow> u16 \<Rightarrow> u16 \<Rightarrow> pdu" where
  "registers_request fc a q \<equiv> \<lparr>FunctionCode = fc, Data = dataBlock [a, q]\<rparr>"

abbreviation registers_answer :: "byte \<Rightarrow> u16 list \<Rightarrow> pdu" where
  "registers_answer fc ws \<equiv> \<lparr>FunctionCode = fc, Data = word_of_nat (2 * length ws) # dataBlock ws\<rparr>"

definition reads_registers :: "request \<Rightarrow> byte \<Rightarrow> u16 \<Rightarrow> u16 \<Rightarrow> byte \<Rightarrow> bool" where
  "reads_registers req fc a q sl \<longleftrightarrow>
     (Method req, fc) \<in> {(''modbus-read-holding'', 3), (''modbus-read-input'', 4)}
     \<and> getAddrAndQuantity (Params req) = Ok (a, q) \<and> getSlaveID (Params req) = Ok sl \<and> 1 \<le> q \<and> q \<le> 125"

lemma registers_fit: "length ws = unat (q :: u16) \<Longrightarrow> q \<le> 125 \<Longrightarrow> fits (registers_answer fc ws)"
  by (simp add: fits_def word_le_nat_alt)

lemma registers_next_frame:
  assumes "mb_service_of ''tcp'' (tcp_Send N) = Inr s" and "reads_registers req fc a q sl" and "length ws = unat q"
    and "replies N t (tcp_frame 1 sl (registers_request fc a q)) f d"
    and "tt_conn t = None \<or> tt_conn t = Some qu \<and> beyond qu = []"
    and "pending (case tt_conn t of None \<Rightarrow> [] | Some q \<Rightarrow> q) @ f = tcp_frame 1 sl (registers_answer fc ws) @ rest"
  shows "\<exists>t' q'. modbus_Call s t req = (Ok (RVal (words ws)), t') \<and> tt_conn t' = Some q' \<and> pending q' = rest
    \<and> beyond q' = [] \<and> tt_dev t' = d"
proof -
  note r = assms(2) [unfolded reads_registers_def]
  obtain t' q' where t': "device s sl t (registers_request fc a q) (registers_answer fc ws) t'"
    "tt_conn t' = Some q'" "pending q' = rest" "beyond q' = []" "tt_dev t' = d"
    using next_frame_answers [OF assms(1,4,5,6) registers_fit [OF assms(3)]] r by blast
  have "modbus_Call s t req = (Ok (RVal (words ws)), t')"
    by (rule read_registers_returns_device_values [OF assms(1)]) (use r assms(3) t'(1) in auto)
  with t'(2-) show ?thesis by blast
qed

lemma tcp_read_next:
  assumes "mb_service_of ''tcp'' (tcp_Send N) = Inr s" and "reads_registers req fc a q sl" and "length ws = unat q"
    and "in_step t"
    and "replies N t (tcp_frame 1 sl (registers_request fc a q)) (tcp_frame 1 sl (registers_answer fc ws)) d"
  shows "\<exists>t'. modbus_Call s t req = (Ok (RVal (words ws)), t') \<and> in_step t' \<and> tt_dev t' = d"
proof -
  have "tt_conn t = None \<or> tt_conn t = Some (the (tt_conn t)) \<and> beyond (the (tt_conn t)) = []"
    "pending (case tt_conn t of None \<Rightarrow> [] | Some q \<Rightarrow> q) = []"
    using assms(4) by (auto simp: in_step_def split: option.splits)
  then show ?thesis
    using registers_next_frame [where qu = "the (tt_conn t)" and rest = "[]", OF assms(1-3,5)] by (auto simp: in_step_def)
qed

text \<open>reading registers over TCP. However the network cuts the answer of the device into pieces, the
  method returns the values of the registers, and nothing is left on the connection.\<close>

theorem tcp_registers_any_pieces:
  assumes "mb_service_of ''tcp'' (tcp_Send N) = Inr s" and "reads_registers req fc a q sl" and "length ws = unat q"
    and "in_step t"
    and "replies N t (tcp_frame 1 sl (registers_request fc a q)) (tcp_frame 1 sl (registers_answer fc ws)) d"
  shows "\<exists>t'. modbus_Call s t req = (Ok (RVal (words ws)), t') \<and> in_step t' \<and> tt_dev t' = d"
  by (rule tcp_read_next [OF assms])

text \<open>The calls of a connector, one after the other.\<close>

fun calls_in_turn :: "'t caller \<Rightarrow> 't \<Rightarrow> request list \<Rightarrow> (call_result, gerror) go list \<times> 't" where
  "calls_in_turn call t [] = ([], t)"
| "calls_in_turn call t (req # reqs) =
     (case call t req of (r, t1) \<Rightarrow> (case calls_in_turn call t1 reqs of (rs, t2) \<Rightarrow> (r # rs, t2)))"

text \<open>a device of the network that answers every read of registers of a list with the values that go
  with it.\<close>

definition answers_reads :: "'d net \<Rightarrow> byte \<Rightarrow> byte \<Rightarrow> u16 \<Rightarrow> (request \<times> u16 \<times> u16 list) list \<Rightarrow> bool" where
  "answers_reads N fc sl q rs \<longleftrightarrow>
     (\<forall>(req, a, ws) \<in> set rs. reads_registers req fc a q sl \<and> length ws = unat q
        \<and> (\<forall>d. n_deadline N d = None \<and> (\<exists>cs d'. n_write N d (tcp_frame 1 sl (registers_request fc a q)) = (Inr (map In cs), d')
             \<and> concat cs = tcp_frame 1 sl (registers_answer fc ws))))"

definition behind :: "byte \<Rightarrow> byte \<Rightarrow> u16 list \<Rightarrow> 'd transporter \<Rightarrow> bool" where
  "behind fc sl ws t \<longleftrightarrow> (\<exists>q. tt_conn t = Some q \<and> pending q = tcp_frame 1 sl (registers_answer fc ws) \<and> beyond q = [])"

lemma reads_stay_behind:
  assumes "mb_service_of ''tcp'' (tcp_Send N) = Inr s" and "answers_reads N fc sl q rs"
    and "behind fc sl ws0 t" and "length ws0 = unat q"
  shows "fst (calls_in_turn (modbus_Call s) t (map fst rs))
    = map (\<lambda>ws. Ok (RVal (words ws))) (butlast (ws0 # map (\<lambda>(_, _, ws). ws) rs))"
  using assms(2-4)
proof (induction rs arbitrary: ws0 t)
  case (Cons r rs)
  obtain req a ws where r: "r = (req, a, ws)" by (cases r) auto
  have h: "reads_registers req fc a q sl" "length ws = unat q" "n_deadline N (tt_dev t) = None"
    using Cons.prems(1) by (auto simp: answers_reads_def r)
  obtain cs d' where w: "n_write N (tt_dev t) (tcp_frame 1 sl (registers_request fc a q)) = (Inr (map In cs), d')"
    "concat cs = tcp_frame 1 sl (registers_answer fc ws)"
    using Cons.prems(1) by (fastforce simp: answers_reads_def r)
  obtain qu where b: "tt_conn t = Some qu" "pending qu = tcp_frame 1 sl (registers_answer fc ws0)" "beyond qu = []"
    using Cons.prems(2) by (auto simp: behind_def)
  have "replies N t (tcp_frame 1 sl (registers_request fc a q)) (tcp_frame 1 sl (registers_answer fc ws)) d'"
    unfolding replies_def using w h(3) b(1) by (auto simp: tr_connect_def)
  from registers_next_frame [OF assms(1) h(1) Cons.prems(3) this, of qu "tcp_frame 1 sl (registers_answer fc ws)"] b
  obtain t' where t': "modbus_Call s t req = (Ok (RVal (words ws0)), t')" "behind fc sl ws t'"
    by (auto simp: behind_def)
  have "answers_reads N fc sl q rs" using Cons.prems(1) by (simp add: answers_reads_def)
  from Cons.IH [OF this t'(2) h(2)] show ?case
    using t'(1) by (cases rs) (auto simp: r split: prod.split)
qed simp

lemma registers_error:
  assumes "reads_registers req fc a q sl"
    and "send (mb_client s) (packagerGetter s sl, t) (registers_request fc a q) = (Err x, st)"
  shows "modbus_Call s t req = (Err (GoErr (mb_error_text x)), snd st)"
proof -
  note r = assms(1) [unfolded reads_registers_def]
  then have "\<not> (q < 1 \<or> q > 125)" by (meson leD)
  with r assms(2) show ?thesis
    by (auto simp: modbus_Call_def modbus_method_def readHoldingRegisters_def with_client_def finish_def
        readInputRegisters_def ReadHoldingRegisters_def ReadInputRegisters_def go_st_def simp del: mb_error_text.simps)
qed

lemma registers_transport_error:
  assumes "mb_service_of ''tcp'' (tcp_Send N) = Inr s" and "reads_registers req fc a q sl"
    and "tcp_Send N t (tcp_frame 1 sl (registers_request fc a q)) = (Err (TransportErr e), t')"
  shows "modbus_Call s t req = (Err (GoErr e), t')"
  using registers_error [OF assms(2), of s t "TransportErr e"] assms(3) tcp_service(2-4) [OF assms(1)]
  by (simp add: send_def)

text \<open>C6: one late answer over TCP. When the answer to a read of registers arrives after the time-out, that read
  fails; and from then on every read with the same function, unit and number of registers that the device
  answers at once returns the values that the read before it asked for, because requests carry the same transaction
  identifier and the connection is kept, until the idle timer closes it. (A read with another function or unit gets an
  error, one of another length too.)\<close>

theorem late_answer_shifts_all_reads:
  assumes "mb_service_of ''tcp'' (tcp_Send N) = Inr s" and "answers_reads N fc sl q rs"
    and "reads_registers req fc a q sl" and "length ws = unat q"
    and "tr_connect N t = (None, t1)" and "in_step t1" and "n_deadline N (tt_dev t1) = None"
    and "n_write N (tt_dev t1) (tcp_frame 1 sl (registers_request fc a q)) = (Inr (Lapse # map In cs), d)"
    and "concat cs = tcp_frame 1 sl (registers_answer fc ws)"
  shows "fst (calls_in_turn (modbus_Call s) t (req # map fst rs))
    = Err (GoErr time_out) # map (\<lambda>ws. Ok (RVal (words ws))) (butlast (ws # map (\<lambda>(_, _, ws). ws) rs))"
proof -
  let ?t = "sent_on N t1 (Lapse # map In cs) d"
  obtain q1 where q1: "tt_conn t1 = Some q1" "pending q1 = []" "beyond q1 = []"
    using tr_connect_conn [OF assms(5)] assms(6) by (auto simp: in_step_def split: option.splits)
  have "read_full 7 (q1 @ Lapse # map In cs) = (([], Some time_out), map In cs)"
    using read_stopped [of "[]" "q1 @ Lapse # map In cs" 7 7] q1(2,3)
    by (auto simp: read_full_def pending_append beyond_append time_out_def)
  then have "tcp_Send N t (tcp_frame 1 sl (registers_request fc a q))
      = (Err (TransportErr time_out), ?t\<lparr>tt_conn := Some (map In cs)\<rparr>)"
    using q1(1) by (simp add: tcp_Send_receive [OF assms(5,7,8)] tcp_receive_def on_conn_def tcpHeaderSize_def)
  from registers_transport_error [OF assms(1,3) this]
  have c: "modbus_Call s t req = (Err (GoErr time_out), ?t\<lparr>tt_conn := Some (map In cs)\<rparr>)" .
  have "behind fc sl ws (?t\<lparr>tt_conn := Some (map In cs)\<rparr>)" by (simp add: behind_def assms(9))
  from reads_stay_behind [OF assms(1,2) this assms(4)] c show ?thesis by (auto split: prod.split)
qed

section \<open>A connection that the device has closed\<close>

definition closed_by_device :: "'d transporter \<Rightarrow> bool" where
  "closed_by_device t \<longleftrightarrow> (\<exists>q m r. tt_conn t = Some q \<and> pending q = [] \<and> beyond q = Down m # r)"

text \<open>What happens to a transporter: requests, and the timer that fires at a time.\<close>

datatype tr_event = Request "byte list" | Fires int

fun tcp_run ::
  "'d net \<Rightarrow> tr_event list \<Rightarrow> 'd transporter \<Rightarrow> (byte list, mb_error) go list \<times> 'd transporter" where
  "tcp_run N [] t = ([], t)"
| "tcp_run N (Request adu # es) t =
     (case tcp_Send N t adu of (r, t1) \<Rightarrow> (case tcp_run N es t1 of (rs, t2) \<Rightarrow> (r # rs, t2)))"
| "tcp_run N (Fires now # es) t = tcp_run N es (closeIdle now t)"

text \<open>The timer never fires a whole idle time after the last request.\<close>

fun busy :: "'d net \<Rightarrow> tr_event list \<Rightarrow> 'd transporter \<Rightarrow> bool" where
  "busy N [] t \<longleftrightarrow> True"
| "busy N (Request adu # es) t \<longleftrightarrow> busy N es (snd (tcp_Send N t adu))"
| "busy N (Fires now # es) t \<longleftrightarrow> now - tt_last t < tt_IdleTimeout t \<and> busy N es (closeIdle now t)"

lemma closed_Send:
  assumes "closed_by_device t"
  shows "\<exists>e t'. tcp_Send N t adu = (Err e, t') \<and> closed_by_device t'"
proof -
  obtain q m r where q: "tt_conn t = Some q" "pending q = []" "beyond q = Down m # r"
    using assms by (auto simp: closed_by_device_def)
  have c: "tr_connect N t = (None, t)" using q(1) by (simp add: tr_connect_def)
  show ?thesis
  proof (cases "n_deadline N (tt_dev t)")
    case (Some e)
    then show ?thesis using c q by (simp add: tcp_Send_def begin_send_def closed_by_device_def)
  next
    case None
    note dl = None
    obtain w d where w: "n_write N (tt_dev t) adu = (w, d)" by fastforce
    show ?thesis
    proof (cases w)
      case (Inl e)
      with w dl c q show ?thesis
        by (simp add: tcp_Send_def begin_send_def write_conn_def closed_by_device_def)
    next
      case (Inr as)
      have "\<exists>e. read_full 7 (q @ as) = (([], Some e), Down m # r @ as)"
        using read_stopped [of "[]" "q @ as" 7 7] q(2,3)
        by (auto simp: read_full_def pending_append beyond_append)
      then show ?thesis
        using w Inr q(1) by (auto simp: tcp_Send_receive [OF c dl] tcp_receive_def on_conn_def tcpHeaderSize_def
            closed_by_device_def)
    qed
  qed
qed

lemma closed_run:
  "closed_by_device t \<Longrightarrow> busy N es t \<Longrightarrow> tcp_run N es t = (rs, t') \<Longrightarrow>
     (\<forall>r \<in> set rs. \<exists>e. r = Err e) \<and> closed_by_device t'"
proof (induction es arbitrary: t rs)
  case (Cons ev es)
  show ?case
  proof (cases ev)
    case (Request adu)
    obtain e t1 where s: "tcp_Send N t adu = (Err e, t1)" "closed_by_device t1"
      using closed_Send [OF Cons.prems(1)] by blast
    then show ?thesis
      using Cons.IH [OF s(2)] Cons.prems(2,3) Request by (auto split: prod.splits)
  next
    case (Fires now)
    then have "closeIdle now t = t" using Cons.prems(2) by (auto simp: closeIdle_def)
    then show ?thesis using Cons Fires by auto
  qed
qed simp

text \<open>C16: a device that closes the connection, as after a restart of it. While requests come in before the
  idle time is over, every one of them fails, however often the device would accept a new connection: an
  error does not close the connection of the transporter. Once the timer fires after an idle time, the next
  request connects anew.\<close>

theorem closed_connection_outlives_errors:
  assumes "closed_by_device t" and "busy N es t"
  shows "\<exists>rs t'. tcp_run N es t = (rs, t') \<and> (\<forall>r \<in> set rs. \<exists>e. r = Err e) \<and> tt_conn t' \<noteq> None
    \<and> (0 < tt_IdleTimeout t' \<and> tt_last t' + tt_IdleTimeout t' \<le> now \<longrightarrow>
         tt_conn (closeIdle now t') = None \<and> in_step (closeIdle now t'))"
proof -
  obtain rs t' where r: "tcp_run N es t = (rs, t')" by fastforce
  from closed_run [OF assms r] r show ?thesis
    by (auto simp: closed_by_device_def closeIdle_def tr_close_def in_step_def)
qed

section \<open>The serial line\<close>

text \<open>A read of at least so much takes a part of what is pending that depends on the pieces.\<close>

lemma read_some:
  assumes "least \<le> length acc + length (pending q)" and "length acc \<le> cap" and "least \<le> cap"
  shows "\<exists>k q'. read_at_least cap least acc q = ((acc @ take k (pending q), None), q') \<and> least \<le> length acc + k
    \<and> length acc + k \<le> cap \<and> k \<le> length (pending q) \<and> pending q' = drop k (pending q) \<and> beyond q' = beyond q"
  using assms
proof (induction "weight q" arbitrary: acc q rule: less_induct)
  case less
  show ?case
  proof (cases "least \<le> length acc")
    case True
    then have "read_at_least cap least acc q = ((acc @ take 0 (pending q), None), q)"
      using less.prems by (subst read_at_least.simps) simp
    then show ?thesis using True less.prems by (intro exI [of _ 0] exI [of _ q]) simp
  next
    case False
    then obtain bs r where q: "q = In bs # r"
      using less.prems by (cases q rule: pending.cases) auto
    let ?k = "cap - length acc"
    show ?thesis
    proof (cases "length bs \<le> ?k")
      case True
      have e: "read_at_least cap least acc q = read_at_least cap least (acc @ bs) r"
        using False True less.prems by (subst read_at_least.simps) (simp add: q)
      obtain k q' where k: "read_at_least cap least (acc @ bs) r = (((acc @ bs) @ take k (pending r), None), q')"
        "least \<le> length (acc @ bs) + k" "length (acc @ bs) + k \<le> cap" "k \<le> length (pending r)"
        "pending q' = drop k (pending r)" "beyond q' = beyond r"
        using less.hyps [of r "acc @ bs"] True less.prems q by (fastforce simp: le_diff_conv2)
      then show ?thesis
        using e by (intro exI [of _ "length bs + k"] exI [of _ q']) (simp add: q)
    next
      case long: False
      have "read_at_least cap least acc q = read_at_least cap least (acc @ take ?k bs) (In (drop ?k bs) # r)"
        using False long less.prems by (subst read_at_least.simps) (simp add: q)
      also have "\<dots> = ((acc @ take ?k bs, None), In (drop ?k bs) # r)"
        using False long less.prems by (subst read_at_least.simps) simp
      finally show ?thesis
        using long less.prems by (intro exI [of _ ?k] exI [of _ "In (drop ?k bs) # r"]) (simp add: q)
    qed
  qed
qed

lemma rtu_receive_frame:
  assumes "pending q = f" and "length f = n" and "4 < n" and "n \<le> 256" and "f ! 1 = function"
  shows "\<exists>q'. rtu_receive function functionFail n q = ((f, None), q') \<and> pending q' = [] \<and> beyond q' = beyond q"
proof -
  obtain k q1 where k: "read_at_least 256 4 [] q = ((take k f, None), q1)" "4 \<le> k" "k \<le> n"
    "pending q1 = drop k f" "beyond q1 = beyond q"
    using read_some [of 4 "[]" q 256] assms(1-4) by auto
  obtain q2 where q2: "read_full (n - k) q1 = ((drop k f, None), q2)" "pending q2 = []" "beyond q2 = beyond q"
    using read_full_enough [of "n - k" q1] k(3-5) assms(2) by auto
  have "take k f ! 1 = function" "length (take k f) = k" using k(2,3) assms(2,5) by simp_all
  moreover have "k = n \<Longrightarrow> read_full 0 q1 = ((drop k f, None), q1) \<and> pending q1 = []"
    using k(4) assms(2) by (simp add: read_full_def read_at_least.simps)
  ultimately show ?thesis
    using k(1,3,5) q2 assms(2-4) by (cases "k = n")
      (auto simp: rtu_receive_def rtu_more_def rtuMaxSize_def rtuMinSize_def Let_def)
qed

text \<open>The length the code expects of an answer is that of the answer of the specification, for reads of
  registers and coils and for writes.\<close>

lemma calculateResponseLength_reads:
  assumes "length ws = unat q" and "fc \<in> {3, 4}"
  shows "calculateResponseLength (rtu_frame sl (registers_request fc a q)) = Ok (length (rtu_frame sl (registers_answer fc ws)))"
  using assms by (auto simp: calculateResponseLength_def rtu_frame_def Let_def byte_at_def u16_at_def dataBlock_def
      rtuMinSize_def nth_Cons' concat_map_length_const nth_append put16_def [of a] put16_def [of q])

lemma calculateResponseLength_coils:
  assumes "length d = (unat q + 7) div 8" and "fc \<in> {1, 2}"
  shows "calculateResponseLength (rtu_frame sl (registers_request fc a q))
    = Ok (length (rtu_frame sl \<lparr>FunctionCode = fc, Data = word_of_nat (length d) # d\<rparr>))"
proof -
  have "unat q div 8 + (if unat q mod 8 \<noteq> 0 then 1 else 0) = (unat q + 7) div 8" by presburger
  then show ?thesis
    using assms by (auto simp: calculateResponseLength_def rtu_frame_def Let_def byte_at_def u16_at_def dataBlock_def put16_def
      rtuMinSize_def nth_Cons')
qed

lemma rtu_service:
  assumes "mb_service_of ''rtu'' tr = Inr s"
  shows "packagerGetter s sl = PkRTU sl" "tr_Send (mb_client s) = tr"
    "fits p \<Longrightarrow> any_Encode (packagerGetter s sl) p = (Ok (rtu_frame sl p), PkRTU sl)"
    "pk_Encode (mb_client s) = any_Encode" "pk_Verify (mb_client s) = any_Verify" "pk_Decode (mb_client s) = any_Decode"
  using assms by (auto simp: mb_service_of_def packagerFn_def rtu_Encode_eq)

definition serial_replies :: "'d net \<Rightarrow> 'd transporter \<Rightarrow> byte list \<Rightarrow> byte list list \<Rightarrow> 'd \<Rightarrow> bool" where
  "serial_replies N t adu cs d \<longleftrightarrow>
     (\<exists>t1. tr_connect N t = (None, t1) \<and> n_write N (tt_dev t1) adu = (Inr (map In cs), d))"

lemma serial_connected:
  assumes "serial_replies N t adu cs d" and "in_step t"
  obtains t1 q where "tr_connect N t = (None, t1)" "n_write N (tt_dev t1) adu = (Inr (map In cs), d)"
    "tt_conn (sent_on N t1 (map In cs) d) = Some q" "pending q = concat cs" "beyond q = []"
    "tt_dev (sent_on N t1 (map In cs) d) = d"
proof -
  obtain t1 where t1: "tr_connect N t = (None, t1)" "n_write N (tt_dev t1) adu = (Inr (map In cs), d)"
    using assms(1) by (auto simp: serial_replies_def)
  let ?q = "(case tt_conn t of None \<Rightarrow> [] | Some q \<Rightarrow> q) @ map In cs"
  have "tt_conn (sent_on N t1 (map In cs) d) = Some ?q" "pending ?q = concat cs" "beyond ?q = []"
    using tr_connect_conn [OF t1(1)] assms(2)
    by (auto simp: in_step_def pending_append beyond_append split: option.splits)
  with t1 show thesis by (intro that) auto
qed

lemma rtu_frame_function [simp]: "byte_at (rtu_frame sl p) 1 = Ok (FunctionCode p)" "rtu_frame sl p ! Suc 0 = FunctionCode p"
  by (simp_all add: rtu_frame_def Let_def byte_at_def)

lemma rtu_Send_frame:
  assumes "serial_replies N t (rtu_frame sl rq) cs d" and "in_step t"
    and "calculateResponseLength (rtu_frame sl rq) = Ok (length (rtu_frame sl rs))"
    and "concat cs = rtu_frame sl rs" and "FunctionCode rs = FunctionCode rq" and "fits rs" and "Data rs \<noteq> []"
  shows "\<exists>t'. rtu_Send None N t (rtu_frame sl rq) = (Ok (rtu_frame sl rs), t') \<and> in_step t' \<and> tt_dev t' = d"
proof -
  obtain t1 q where t1: "tr_connect N t = (None, t1)" "n_write N (tt_dev t1) (rtu_frame sl rq) = (Inr (map In cs), d)"
    "tt_conn (sent_on N t1 (map In cs) d) = Some q" "pending q = concat cs" "beyond q = []"
    "tt_dev (sent_on N t1 (map In cs) d) = d"
    by (rule serial_connected [OF assms(1,2)])
  have l: "4 < length (rtu_frame sl rs)" "length (rtu_frame sl rs) \<le> 256"
    using assms(6,7) by (simp_all add: fits_def)
  obtain q' where "rtu_receive (FunctionCode rq) (FunctionCode rq AND 0x80) (length (rtu_frame sl rs)) q
      = ((rtu_frame sl rs, None), q')" "pending q' = []" "beyond q' = []"
    using rtu_receive_frame [OF t1(4) [unfolded assms(4)] refl l, of "FunctionCode rq" "FunctionCode rq AND 0x80"] t1(5) assms(5)
    by auto
  then show ?thesis
    using t1(3,6) by (auto simp: rtu_Send_receive [OF t1(1,2) rtu_frame_function(1) assms(3)] on_conn_def in_step_def)
qed

text \<open>reading registers over a serial line in RTU mode: the pieces do not matter either.\<close>

theorem rtu_registers_any_pieces:
  assumes "mb_service_of ''rtu'' (rtu_Send None N) = Inr s" and "reads_registers req fc a q sl" and "length ws = unat q"
    and "in_step t" and "serial_replies N t (rtu_frame sl (registers_request fc a q)) cs d"
    and "concat cs = rtu_frame sl (registers_answer fc ws)"
  shows "\<exists>t'. modbus_Call s t req = (Ok (RVal (words ws)), t') \<and> in_step t' \<and> tt_dev t' = d"
proof -
  note r = assms(2) [unfolded reads_registers_def]
  have f: "fits (registers_request fc a q)" "fits (registers_answer fc ws)"
    using registers_fit [OF assms(3)] r by (simp_all add: fits_def)
  have fc: "fc \<in> {3, 4}" using r by auto
  obtain t' where t': "rtu_Send None N t (rtu_frame sl (registers_request fc a q)) = (Ok (rtu_frame sl (registers_answer fc ws)), t')"
    "in_step t'" "tt_dev t' = d"
    using rtu_Send_frame [OF assms(5,4) calculateResponseLength_reads [OF assms(3) fc] assms(6)] f(2) by auto
  have "device s sl t (registers_request fc a q) (registers_answer fc ws) t'"
    unfolding device_def answers_def using t'(1) rtu_service(2-4) [OF assms(1)] f by metis
  then have "modbus_Call s t req = (Ok (RVal (words ws)), t')"
    by (intro read_registers_returns_device_values [OF assms(1)]) (use r assms(3) in auto)
  with t'(2,3) show ?thesis by blast
qed

section \<open>An exception answer in two pieces\<close>

lemma rtu_receive_exception:
  assumes "pending q = f" and "q = q0 @ [In (take 4 f), In (drop 4 f)]" and "pending q0 = []" and "beyond q0 = []"
    and "length f = 5" and "f ! 1 \<noteq> function" and "f ! 1 \<noteq> 0" and "functionFail = 0"
  shows "rtu_receive function functionFail n q = ((take 4 f, None), [In (drop 4 f)])"
proof -
  have "read_at_least 256 4 [] (q0 @ [In (take 4 f), In (drop 4 f)]) = ((take 4 f, None), [In (drop 4 f)])"
    using assms(3,4)
  proof (induction q0 rule: beyond.induct)
    case (1 bs r)
    then show ?case using assms(5) by (subst read_at_least.simps) simp
  qed (use assms(5) in \<open>simp_all add: read_at_least.simps\<close>)
  then show ?thesis
    using assms(2,5-8) by (simp add: rtu_receive_def rtu_more_def rtuMaxSize_def rtuMinSize_def Let_def read_at_least.simps)
qed

text \<open>The low byte of a checksum pushes nothing but the high one out.\<close>

lemma crc_ends:
  "be16 (lo8 (rtu_crc [a, b, c])) c = rtu_crc [a, b] \<longleftrightarrow> c = lo8 (rtu_crc [a, b])"
proof -
  obtain h l where k: "crc_pushBytes crc_reset [a, b] = \<lparr>high = h, low = l\<rparr>" by (metis crc.surjective unit.exhaust)
  have r: "rtu_crc [a, b] = be16 h l" by (simp add: rtu_crc_def k crc_value_be16)
  have "rtu_crc [a, b, c] = crc_value (crc_push \<lparr>high = h, low = l\<rparr> c)"
    using k by (simp add: rtu_crc_def crc_pushBytes_def)
  moreover have z: "crcHighBytes ! 0 = 0" by (simp add: crcHighBytes_def)
  ultimately show ?thesis unfolding r
    by (auto simp: crc_push_def Let_def crc_value_be16 z)
qed

text \<open>C17: a device that answers a read of registers in RTU mode with an exception, with the last byte of its
  answer in a piece of its own. The code looks for exceptions with a bit that no request has, so it does not
  wait for the byte and takes the first two bytes for the whole answer: the caller gets an error that does not have the
  exception code of the device, a checksum mismatch or, for one code that happens to be the low byte of the checksum,
  the exception 0; and the byte stays on the line in front of the next answer.\<close>

theorem rtu_split_exception_lost:
  assumes "mb_service_of ''rtu'' (rtu_Send None N) = Inr s" and "reads_registers req fc a q sl" and "in_step t"
    and "f = rtu_frame sl \<lparr>FunctionCode = fc OR 0x80, Data = [c]\<rparr>"
    and "serial_replies N t (rtu_frame sl (registers_request fc a q)) [take 4 f, drop 4 f] d"
  shows "\<exists>t'. modbus_Call s t req = (Err (GoErr (mb_error_text
        (if c = lo8 (rtu_crc [sl, fc OR 0x80]) then Exception (fc OR 0x80) 0
         else CrcMismatch (be16 (f ! 3) c) (rtu_crc [sl, fc OR 0x80])))), t')
    \<and> (\<exists>qu. tt_conn t' = Some qu \<and> pending qu = [f ! 4])"
proof -
  note r = assms(2) [unfolded reads_registers_def]
  let ?rq = "registers_request fc a q"
  have fc: "fc = 3 \<or> fc = 4" using r by auto
  have l: "length f = 5" "f ! 0 = sl" "f ! 1 = fc OR 0x80" "f ! 2 = c" by (simp_all add: assms(4) rtu_frame_def Let_def)
  have ne: "fc OR 0x80 \<noteq> fc" "fc OR 0x80 \<noteq> 0" "fc AND 0x80 = 0" using fc by auto
  obtain t1 where t1: "tr_connect N t = (None, t1)"
    "n_write N (tt_dev t1) (rtu_frame sl ?rq) = (Inr (map In [take 4 f, drop 4 f]), d)"
    using assms(5) by (auto simp: serial_replies_def)
  obtain q0 where q0: "tt_conn t1 = Some q0" "pending q0 = []" "beyond q0 = []"
    using tr_connect_conn [OF t1(1)] assms(3) by (auto simp: in_step_def split: option.splits)
  have p: "pending (q0 @ [In (take 4 f), In (drop 4 f)]) = f" using q0(2,3) by (simp add: pending_append)
  let ?t = "(sent_on N t1 (map In [take 4 f, drop 4 f]) d)\<lparr>tt_conn := Some [In (drop 4 f)]\<rparr>"
  have n: "calculateResponseLength (rtu_frame sl ?rq) = Ok (length (rtu_frame sl (registers_answer fc (replicate (unat q) 0))))"
    by (rule calculateResponseLength_reads) (use fc in auto)
  have s: "rtu_Send None N t (rtu_frame sl ?rq) = (Ok (take 4 f), ?t)"
    using rtu_receive_exception [OF p refl q0(2,3) l(1), of fc "fc AND 0x80"] l ne q0(1)
    by (simp add: rtu_Send_receive [OF t1 rtu_frame_function(1) n] on_conn_def)
  have t4: "take 4 f = [sl, fc OR 0x80] @ [c, f ! 3]"
    using l by (auto intro!: nth_equalityI simp: nth_Cons' less_Suc_eq numeral_eq_Suc)
  have v: "rtu_Verify (rtu_frame sl ?rq) (take 4 f) = Ok ()"
    unfolding t4 by (simp add: rtu_Verify_def rtuMinSize_def byte_at_def)
  let ?x = "if c = lo8 (rtu_crc [sl, fc OR 0x80]) then Exception (fc OR 0x80) 0
     else CrcMismatch (be16 (f ! 3) c) (rtu_crc [sl, fc OR 0x80])"
  have "f ! 3 = lo8 (rtu_crc [sl, fc OR 0x80, c])" by (simp add: assms(4) rtu_frame_def Let_def)
  then have cr: "be16 (f ! 3) c = rtu_crc [sl, fc OR 0x80] \<longleftrightarrow> c = lo8 (rtu_crc [sl, fc OR 0x80])"
    by (simp add: crc_ends)
  have "rtu_Decode (take 4 f) = (if be16 (f ! 3) c \<noteq> rtu_crc [sl, fc OR 0x80]
      then Err (CrcMismatch (be16 (f ! 3) c) (rtu_crc [sl, fc OR 0x80])) else Ok \<lparr>FunctionCode = fc OR 0x80, Data = []\<rparr>)"
    unfolding t4 by (subst rtu_Decode_trailer) simp_all
  then have "send (mb_client s) (packagerGetter s sl, t) ?rq = (Err ?x, (PkRTU sl, ?t))"
    using s v ne cr by (simp add: send_def rtu_service [OF assms(1)] rtu_Encode_eq fits_def responseError_def)
  from registers_error [OF assms(2) this]
  have "modbus_Call s t req = (Err (GoErr (mb_error_text ?x)), ?t)" by simp
  moreover have "drop 4 f = [f ! 4]" using l(1) by (auto intro!: nth_equalityI)
  ultimately show ?thesis by (intro exI [of _ ?t]) auto
qed

section \<open>ASCII frames\<close>

text \<open>The last byte of a frame is the only line feed in it, so the loop stops at its end and nowhere before.\<close>

lemma hexTable_visible: "n < 16 \<Longrightarrow> hexTable n \<noteq> 10"
  by (simp add: hexTable_def word_unat_eq_iff unat_of_nat take_bit_eq_mod del: of_nat_add)

lemma writeHex_visible: "10 \<notin> set (writeHex bs)"
proof -
  have "unat b div 16 < 16" for b :: byte using unsigned_less [of b, where 'a = nat] by (simp add: less_mult_imp_div_less)
  then have "hexTable (unat b div 16) \<noteq> 10" "hexTable (unat b mod 16) \<noteq> 10" for b :: byte
    by (simp_all add: hexTable_visible)
  then show ?thesis by (fastforce simp: writeHex_def)
qed

lemma ascii_frame_end:
  "\<exists>b. ascii_frame sl p = b @ [13, 10] \<and> 10 \<notin> set (b @ [13])"
  by (intro exI [of _ "butlast (butlast (ascii_frame sl p))"])
    (simp add: ascii_frame_def asciiEnd_def asciiStart_def butlast_append writeHex_visible)

lemma ascii_receive_pieces:
  assumes "d @ concat cs = b @ [13, 10]" and "10 \<notin> set (b @ [13])" and "2 \<le> length b" and "length b \<le> 511"
    and "[] \<notin> set cs" and "cs \<noteq> []"
  shows "ascii_receive d (map In cs) = ((b @ [13, 10], None), [])"
  using assms(1,5,6)
proof (induction cs arbitrary: d)
  case (Cons c cs)
  have l: "length d + length c + length (concat cs) = length b + 2"
    using arg_cong [OF Cons.prems(1), of length] by simp
  show ?case
  proof (cases "cs = []")
    case True
    with Cons.prems l have "d @ c = b @ [13, 10]" by simp
    then show ?thesis
      using True Cons.prems(2) l assms(3,4)
      by (subst ascii_receive.simps) (auto simp: Let_def asciiMaxSize_def asciiMinSize_def asciiEnd_def)
  next
    case False
    then obtain x where x: "concat cs = butlast (concat cs) @ [x]" "concat cs \<noteq> []"
      using Cons.prems(2) by (metis append_butlast_last_id concat_eq_Nil_conv list.set_intros(2) neq_Nil_conv list.set_intros(1))
    have "(d @ c @ butlast (concat cs)) @ [x] = (b @ [13]) @ [10]"
      using Cons.prems(1) x(1) by (metis append.assoc append_Cons append_Nil concat.simps(2))
    then have "set (d @ c) \<subseteq> set (b @ [13])" by (metis append.assoc butlast_snoc set_append sup_ge1)
    then have "10 \<notin> set (d @ c)" using assms(2) by blast
    then have "10 \<notin> set (drop (length (d @ c) - 2) (d @ c))" using in_set_dropD by metis
    moreover have "xs = [13, 10] \<Longrightarrow> 10 \<in> set xs" for xs :: "byte list" by simp
    ultimately have n: "drop (length (d @ c) - 2) (d @ c) \<noteq> [13, 10]" by blast
    have "length (d @ c) < 513" using l x(2) assms(4) by (cases "concat cs") simp_all
    then have "ascii_receive d (map In (c # cs)) = ascii_receive (d @ c) (map In cs)"
      using n Cons.prems(2)
      by (subst ascii_receive.simps)
        (auto simp: Let_def asciiMaxSize_def asciiMinSize_def asciiEnd_def simp flip: numeral_2_eq_2)
    then show ?thesis using Cons.IH [of "d @ c"] Cons.prems(1,2) False by simp
  qed
qed simp

lemma ascii_service:
  assumes "mb_service_of ''ascii'' tr = Inr s"
  shows "packagerGetter s sl = PkASCII sl" "tr_Send (mb_client s) = tr"
    "any_Encode (packagerGetter s sl) p = (Ok (ascii_frame sl p), PkASCII sl)" "pk_Encode (mb_client s) = any_Encode"
  using assms by (auto simp: mb_service_of_def packagerFn_def ascii_Encode_eq)

text \<open>reading registers over a serial line in ASCII mode.\<close>

theorem ascii_registers_any_pieces:
  assumes "mb_service_of ''ascii'' (ascii_Send N) = Inr s" and "reads_registers req fc a q sl" and "length ws = unat q"
    and "tt_conn t = None \<or> tt_conn t = Some []"
    and "serial_replies N t (ascii_frame sl (registers_request fc a q)) cs d"
    and "concat cs = ascii_frame sl (registers_answer fc ws)" and "[] \<notin> set cs"
  shows "\<exists>t'. modbus_Call s t req = (Ok (RVal (words ws)), t') \<and> tt_conn t' = Some [] \<and> tt_dev t' = d"
proof -
  note r = assms(2) [unfolded reads_registers_def]
  let ?rq = "registers_request fc a q" and ?rs = "registers_answer fc ws"
  obtain t1 where t1: "tr_connect N t = (None, t1)" "n_write N (tt_dev t1) (ascii_frame sl ?rq) = (Inr (map In cs), d)"
    using assms(5) by (auto simp: serial_replies_def)
  have c: "tt_conn (sent_on N t1 (map In cs) d) = Some (map In cs)"
    using tr_connect_conn [OF t1(1)] assms(4) by auto
  obtain b where b: "ascii_frame sl ?rs = b @ [13, 10]" "10 \<notin> set (b @ [13])" using ascii_frame_end by blast
  have l: "length b = 2 * length (Data ?rs) + 7" using arg_cong [OF b(1), of length] by (simp add: length_ascii_frame)
  have "length b \<le> 511" using l registers_fit [OF assms(3), of fc] r by (simp add: fits_def)
  then have "ascii_receive [] (map In cs) = ((ascii_frame sl ?rs, None), [])"
    using ascii_receive_pieces [of "[]" cs b] b l assms(6,7) by (cases "cs = []") (auto simp: length_ascii_frame)
  then have "ascii_Send N t (ascii_frame sl ?rq) = (Ok (ascii_frame sl ?rs), (sent_on N t1 (map In cs) d)\<lparr>tt_conn := Some []\<rparr>)"
    using c by (simp add: ascii_Send_receive [OF t1] on_conn_def)
  then have "device s sl t ?rq ?rs ((sent_on N t1 (map In cs) d)\<lparr>tt_conn := Some []\<rparr>)"
    unfolding device_def answers_def using ascii_service(2-4) [OF assms(1)] by metis
  then have "modbus_Call s t req = (Ok (RVal (words ws)), (sent_on N t1 (map In cs) d)\<lparr>tt_conn := Some []\<rparr>)"
    by (intro read_registers_returns_device_values [OF assms(1)]) (use r assms(3) in auto)
  then show ?thesis by auto
qed

section \<open>No panics\<close>

lemma read_full_length: "read_full n q = ((b, None), q') \<Longrightarrow> length b = n"
proof -
  have "read_at_least n n acc q = ((b, None), q') \<Longrightarrow> length acc \<le> n \<Longrightarrow> length b = n" for acc
  proof (induction "weight q" arbitrary: acc q rule: less_induct)
    case less
    show ?case
    proof (cases "n \<le> length acc")
      case False
      then obtain bs r where c: "conn_read (n - length acc) q = (Inr bs, r)" "read_at_least n n (acc @ bs) r = ((b, None), q')"
        using less.prems(1) by (subst (asm) read_at_least.simps) (auto split: prod.splits sum.splits)
      have "length bs \<le> n - length acc" using c(1) by (cases q rule: weight.cases) (auto split: if_splits)
      with c weight_read [OF c(1)] less False show ?thesis by auto
    qed (use less.prems in \<open>simp add: read_at_least.simps\<close>)
  qed
  then show "read_full n q = ((b, None), q') \<Longrightarrow> length b = n" by (simp add: read_full_def)
qed

lemma on_conn_result: "on_conn f t = (r, t') \<Longrightarrow> \<exists>q. f (the (tt_conn t)) = (r, q)"
  by (auto simp: on_conn_def split: prod.splits)

lemma tcp_receive_sane:
  "\<not> is_panic (fst (tcp_receive N t)) \<and> (\<forall>b. fst (tcp_receive N t) = Ok b \<longrightarrow> 7 \<le> length b)"
proof -
  obtain h e t1 where h: "on_conn (read_full tcpHeaderSize) t = ((h, e), t1)" by (metis surj_pair)
  let ?n = "unat (be16 (h ! 4) (h ! 5)) + (tcpHeaderSize - 1) - tcpHeaderSize"
  obtain b e' t2 where b: "on_conn (read_full ?n) t1 = ((b, e'), t2)" by (metis surj_pair)
  have "e = None \<Longrightarrow> length h = 7"
    using on_conn_result [OF h] read_full_length by (fastforce simp: tcpHeaderSize_def)
  then show ?thesis using h b by (auto simp: tcp_receive_def Let_def split: option.splits)
qed

lemma tcp_Send_sane: "\<not> is_panic (fst (tcp_Send N t a)) \<and> (\<forall>b. fst (tcp_Send N t a) = Ok b \<longrightarrow> 7 \<le> length b)"
  using tcp_receive_sane by (auto simp: tcp_Send_def split: prod.splits option.splits)

lemma calculateResponseLength_no_panic: "6 \<le> length a \<Longrightarrow> \<not> is_panic (calculateResponseLength a)"
  by (auto simp: calculateResponseLength_def is_panic_bind byte_at_def u16_at_def)

lemma after_port_panic [go_simps]:
  "is_panic (fst (after_port m f)) \<longleftrightarrow> is_panic (fst m) \<or> (\<exists>x s. m = (Ok x, s) \<and> is_panic (fst (f x s)))"
  by (cases m; cases "fst m") (auto simp: after_port_def)

lemma use_port_panic [go_simps]: "is_panic (fst (use_port shut p f t)) \<longleftrightarrow> shut = Some (Shut_before p)"
  by (auto simp: use_port_def split: prod.splits option.splits rtu_shut.splits)

lemma rtu_Send_sane:
  "6 \<le> length a \<Longrightarrow> \<forall>p. shut \<noteq> Some (Shut_before p) \<Longrightarrow> \<not> is_panic (fst (rtu_Send shut N t a))"
  using calculateResponseLength_no_panic [of a]
  by (auto simp: rtu_Send_def byte_at_def go_simps Let_def split: prod.splits option.splits)

lemma ascii_Send_sane: "\<not> is_panic (fst (ascii_Send N t a))"
  by (auto simp: ascii_Send_def split: prod.splits option.splits)

lemma transporters_sane:
  assumes "mb_service_of mode (transporter_of mode shut N) = Inr s"
    and "mode = ''rtu'' \<longrightarrow> (\<forall>p. shut \<noteq> Some (Shut_before p))"
  shows "sane_transport s"
proof -
  have s: "packagerFn mode = Inr (packagerGetter s)" "tr_Send (mb_client s) = transporter_of mode shut N"
    using assms(1) by (auto simp: mb_service_of_def split: sum.splits)
  then have "mode = ''tcp'' \<or> mode = ''rtu'' \<or> mode = ''ascii''" by (auto simp: packagerFn_def split: if_splits)
  then show ?thesis
  proof (elim disjE)
    assume m: "mode = ''tcp''"
    then show ?thesis
      using s tcp_Send_sane [of N] by (auto simp: sane_transport_def transporter_of_def long_enough_def split: any_packager.split)
  next
    assume m: "mode = ''rtu''"
    then have "packagerGetter s = PkRTU" using s(1) by (simp add: packagerFn_def)
    then show ?thesis
      using m s(2) assms(2) rtu_Send_sane [of _ shut N] by (simp add: sane_transport_def transporter_of_def long_enough_def)
  next
    assume m: "mode = ''ascii''"
    then have "packagerGetter s = PkASCII" using s(1) by (simp add: packagerFn_def)
    then show ?thesis
      using m s(2) ascii_Send_sane [of N] by (simp add: sane_transport_def transporter_of_def long_enough_def)
  qed
qed

lemma rtu_Send_closed:
  assumes "begin_send N t = (None, t1)"
  shows "rtu_Send (Some (Shut_before WritePort)) N t a = (Panic nil_port, tr_close t1)"
  using assms by (simp add: rtu_Send_def use_port_def after_port_def)

lemma registers_panic:
  assumes "reads_registers req fc a q sl"
    and "send (mb_client s) (packagerGetter s sl, t) (registers_request fc a q) = (Panic m, st)"
  shows "modbus_Call s t req = (Panic m, snd st)"
proof -
  note r = assms(1) [unfolded reads_registers_def]
  then have "\<not> (q < 1 \<or> q > 125)" by (meson leD)
  with r assms(2) show ?thesis
    by (auto simp: modbus_Call_def modbus_method_def readHoldingRegisters_def with_client_def finish_def
        readInputRegisters_def ReadHoldingRegisters_def ReadInputRegisters_def go_st_def)
qed

text \<open>C15: whatever the device and the network do, no message makes a Modbus connector panic in TCP or ASCII mode,
  and in RTU mode only when the timer closes the idle port just before \<open>Send\<close> uses it, except a write of
  32768 registers or more. In RTU mode it does: a read of registers whose port is closed between the connect and
  the write panics.\<close>

theorem modbus_modes_never_panic:
  assumes "mb_service_of mode (transporter_of mode shut N) = Inr s"
  shows "((mode = ''rtu'' \<longrightarrow> (\<forall>p. shut \<noteq> Some (Shut_before p)))
       \<and> (Method req = ''modbus-write-multiple-registers'' \<longrightarrow>
           (\<forall>a q. getAddrAndQuantity (Params req) = Ok (a, q) \<longrightarrow> unat q < 32768))
      \<longrightarrow> \<not> is_panic (fst (modbus_Call s t req)))
    \<and> (mode = ''rtu'' \<and> shut = Some (Shut_before WritePort) \<and> reads_registers req fc a q sl \<and> fst (tr_connect N t) = None
      \<longrightarrow> fst (modbus_Call s t req) = Panic nil_port)"
proof (intro conjI impI)
  assume "(mode = ''rtu'' \<longrightarrow> (\<forall>p. shut \<noteq> Some (Shut_before p)))
       \<and> (Method req = ''modbus-write-multiple-registers'' \<longrightarrow>
           (\<forall>a q. getAddrAndQuantity (Params req) = Ok (a, q) \<longrightarrow> unat q < 32768))"
  then show "\<not> is_panic (fst (modbus_Call s t req))"
    using modbus_Call_never_panics [OF assms transporters_sane [OF assms]] by blast
next
  assume r: "mode = ''rtu'' \<and> shut = Some (Shut_before WritePort) \<and> reads_registers req fc a q sl \<and> fst (tr_connect N t) = None"
  then obtain t1 where "begin_send N t = (None, t1)" by (cases "tr_connect N t") (simp add: begin_send_def)
  from rtu_Send_closed [OF this] have c: "tr_Send (mb_client s) t a = (Panic nil_port, tr_close t1)" for a
    using rtu_service(2) [of _ s] assms r by (simp add: transporter_of_def)
  have "send (mb_client s) (packagerGetter s sl, t) (registers_request fc a q) = (Panic nil_port, (PkRTU sl, tr_close t1))"
    using c rtu_service(1,3-4) [of "transporter_of mode shut N" s] assms r by (simp add: send_def fits_def)
  from registers_panic [OF _ this] r show "fst (modbus_Call s t req) = Panic nil_port" by simp
qed

section \<open>Instances\<close>

text \<open>A network that accepts every dial and write, and a device behind it.\<close>

definition example_net :: "(byte list \<Rightarrow> arrival list) \<Rightarrow> unit net" where
  "example_net f = \<lparr>n_dial = (\<lambda>d _. (None, d)), n_clock = (\<lambda>_. 0), n_deadline = (\<lambda>_. None),
     n_write = (\<lambda>d a. (Inr (f a), d)), n_late_read = (\<lambda>_. False)\<rparr>"

lemma example_net_sel [simp]:
  "n_dial (example_net f) d addr = (None, d)" "n_deadline (example_net f) d = None"
  "n_write (example_net f) d a = (Inr (f a), d)"
  by (simp_all add: example_net_def)

lemma new_connects [simp]:
  "tr_connect (example_net f) (NewTCPTransporter () a) = (None, (NewTCPTransporter () a)\<lparr>tt_conn := Some []\<rparr>)"
  "tr_connect (example_net f) (NewSerialTransporter () a) = (None, (NewSerialTransporter () a)\<lparr>tt_conn := Some []\<rparr>)"
  by (simp_all add: tr_connect_def NewTCPTransporter_def NewSerialTransporter_def)

lemma new_in_step [simp]:
  "in_step (NewTCPTransporter d a)" "in_step (NewSerialTransporter d a)" "in_step (t\<lparr>tt_conn := Some []\<rparr>)"
  by (simp_all add: in_step_def NewTCPTransporter_def NewSerialTransporter_def)

definition read_at :: "string \<Rightarrow> request" where
  "read_at a = \<lparr>JSONRPC = ''2.0'', Method = ''modbus-read-holding'', ID = ''1'', Params = example_params a ''2'' GNil\<rparr>"

lemma reads_at:
  "reads_registers (read_at ''4'') 3 4 2 0" "reads_registers (read_at ''8'') 3 8 2 0" "reads_registers (read_at ''9'') 3 9 2 0"
proof -
  have "getAddrAndQuantity (example_params ''8'' ''2'' v) = Ok (8, 2)" "getAddrAndQuantity (example_params ''9'' ''2'' v) = Ok (9, 2)" for v
    using getAddrAndQuantity_eq [of "example_params ''8'' ''2'' v" "''8''" 8 "''2''" 2]
      getAddrAndQuantity_eq [of "example_params ''9'' ''2'' v" "''9''" 9 "''2''" 2]
    by (simp_all add: example_params_get read_number)
  then show "reads_registers (read_at ''4'') 3 4 2 0" "reads_registers (read_at ''8'') 3 8 2 0"
    "reads_registers (read_at ''9'') 3 9 2 0"
    by (simp_all add: reads_registers_def read_at_def example_4_2 example_slave)
qed

lemma tcp_service_of: "\<exists>s. mb_service_of ''tcp'' tr = Inr s" "\<exists>s. mb_service_of ''rtu'' tr = Inr s"
  by (simp_all add: mb_service_of_def packagerFn_def)

lemma tcp_registers_any_pieces_witness:
  "\<exists>(s :: (any_packager, unit transporter) mb_service) t'.
     modbus_Call s (NewTCPTransporter () ''plc:502'') (read_at ''4'') = (Ok (RVal (words [258, 7])), t') \<and> in_step t'"
proof -
  let ?f = "tcp_frame 1 0 (registers_answer 3 [258, 7])"
  let ?N = "example_net (\<lambda>_. map In [take 3 ?f, [], drop 3 ?f])"
  obtain s where s: "mb_service_of ''tcp'' (tcp_Send ?N) = Inr s" using tcp_service_of by blast
  have "replies ?N (NewTCPTransporter () ''plc:502'') a ?f ()" for a
    unfolding replies_def by (rule exI [of _ "(NewTCPTransporter () ''plc:502'')\<lparr>tt_conn := Some []\<rparr>"],
        rule exI [of _ "[take 3 ?f, [], drop 3 ?f]"]) simp
  then show ?thesis
    using tcp_registers_any_pieces [OF s reads_at(1), of "[258, 7]" "NewTCPTransporter () ''plc:502''" "()"]
    by auto
qed

lemma late_answer_shifts_all_reads_witness:
  "\<exists>(s :: (any_packager, unit transporter) mb_service).
     fst (calls_in_turn (modbus_Call s) (NewTCPTransporter () ''plc:502'') [read_at ''4'', read_at ''8'', read_at ''9''])
     = [Err (GoErr time_out), Ok (RVal (words [4, 4])), Ok (RVal (words [8, 8]))]"
proof -
  let ?f = "\<lambda>a. if a ! 9 = 4 then Lapse # map In [tcp_frame 1 0 (registers_answer 3 [4, 4])]
    else if a ! 9 = 8 then map In [tcp_frame 1 0 (registers_answer 3 [8, 8])]
    else map In [tcp_frame 1 0 (registers_answer 3 [9, 9])]"
  let ?N = "example_net ?f"
  let ?rs = "[(read_at ''8'', 8, [8, 8]), (read_at ''9'', 9, [9, 9])] :: (request \<times> u16 \<times> u16 list) list"
  have i: "tcp_frame 1 0 (registers_request 3 4 2) ! 9 = 4" "tcp_frame 1 0 (registers_request 3 8 2) ! 9 = 8"
    "tcp_frame 1 0 (registers_request 3 9 2) ! 9 = 9"
    by (simp_all add: tcp_frame_def put16_def dataBlock_def lo8_def nth_Cons')
  obtain s where s: "mb_service_of ''tcp'' (tcp_Send ?N) = Inr s" using tcp_service_of by blast
  have "answers_reads ?N 3 0 2 ?rs"
    using reads_at i by (auto simp: answers_reads_def intro!: exI [of _ "[_]"])
  then have "fst (calls_in_turn (modbus_Call s) (NewTCPTransporter () ''plc:502'') (read_at ''4'' # map fst ?rs))
      = Err (GoErr time_out) # map (\<lambda>ws. Ok (RVal (words ws))) (butlast ([4, 4] # map (\<lambda>(_, _, ws). ws) ?rs))"
    by (rule late_answer_shifts_all_reads [OF s _ reads_at(1) _ new_connects(1), where cs = "[tcp_frame 1 0 (registers_answer 3 [4, 4])]"])
      (simp_all add: i)
  then show ?thesis by auto
qed

lemma closed_connection_outlives_errors_witness:
  "\<exists>rs t'. tcp_run (example_net (\<lambda>_. [])) [Request [1], Fires 5, Request [2]]
      ((NewTCPTransporter () ''plc:502'')\<lparr>tt_conn := Some [Down ''EOF'']\<rparr>) = (rs, t')
    \<and> (\<forall>r \<in> set rs. \<exists>e. r = Err e) \<and> tt_conn t' \<noteq> None"
proof -
  let ?t = "(NewTCPTransporter () ''plc:502'')\<lparr>tt_conn := Some [Down ''EOF'']\<rparr>"
  have "closed_by_device ?t" by (simp add: closed_by_device_def)
  moreover have "busy (example_net (\<lambda>_. [])) [Request [1], Fires 5, Request [2]] ?t"
    by (simp add: NewTCPTransporter_def tcp_Send_def begin_send_def tr_connect_def write_conn_def startCloseTimer_def
        example_net_def tcp_receive_def on_conn_def read_full_def read_at_least.simps closeIdle_def tcpHeaderSize_def)
  ultimately show ?thesis using closed_connection_outlives_errors [of ?t _ _ 0] by blast
qed

lemma rtu_split_exception_lost_witness:
  "\<exists>(s :: (any_packager, unit transporter) mb_service) x t'.
     modbus_Call s (NewSerialTransporter () ''/dev/ttyS0'') (read_at ''4'') = (Err (GoErr (mb_error_text x)), t')
     \<and> x \<noteq> Exception (3 OR 0x80) 2"
proof -
  let ?f = "rtu_frame 0 \<lparr>FunctionCode = 3 OR 0x80, Data = [2]\<rparr>"
  let ?N = "example_net (\<lambda>_. map In [take 4 ?f, drop 4 ?f])"
  obtain s where s: "mb_service_of ''rtu'' (rtu_Send None ?N) = Inr s" using tcp_service_of by blast
  have "serial_replies ?N (NewSerialTransporter () ''/dev/ttyS0'') a [take 4 ?f, drop 4 ?f] ()" for a
    by (simp add: serial_replies_def)
  from rtu_split_exception_lost [OF s reads_at(1) _ refl this] obtain t' where
    r: "modbus_Call s (NewSerialTransporter () ''/dev/ttyS0'') (read_at ''4'') = (Err (GoErr (mb_error_text
        (if 2 = lo8 (rtu_crc [0, 3 OR 0x80]) then Exception (3 OR 0x80) 0
         else CrcMismatch (be16 (?f ! 3) 2) (rtu_crc [0, 3 OR 0x80])))), t')" by (auto simp del: mb_error_text.simps)
  show ?thesis by (intro exI conjI, rule r) auto
qed

text \<open>A serial line without and with a timer that closes the port before the write.\<close>

lemma modbus_modes_never_panic_witness:
  "\<exists>s s'. mb_service_of ''rtu'' (transporter_of ''rtu'' None (example_net (\<lambda>_. [In [1, 2]]))) = Inr s
    \<and> \<not> is_panic (fst (modbus_Call s (NewSerialTransporter () ''/dev/ttyS0'') (read_at ''4'')))
    \<and> mb_service_of ''rtu'' (transporter_of ''rtu'' (Some (Shut_before WritePort)) (example_net (\<lambda>_. [In [1, 2]]))) = Inr s'
    \<and> fst (modbus_Call s' (NewSerialTransporter () ''/dev/ttyS0'') (read_at ''4'')) = Panic nil_port"
proof -
  obtain s s' where s: "mb_service_of ''rtu'' (transporter_of ''rtu'' None (example_net (\<lambda>_. [In [1, 2]]))) = Inr s"
    and s': "mb_service_of ''rtu'' (transporter_of ''rtu'' (Some (Shut_before WritePort)) (example_net (\<lambda>_. [In [1, 2]]))) = Inr s'"
    using tcp_service_of by blast
  have "\<not> is_panic (fst (modbus_Call s (NewSerialTransporter () ''/dev/ttyS0'') (read_at ''4'')))"
    using modbus_modes_never_panic [OF s, of "read_at ''4''"] by (simp add: read_at_def)
  moreover have "fst (modbus_Call s' (NewSerialTransporter () ''/dev/ttyS0'') (read_at ''4'')) = Panic nil_port"
    using modbus_modes_never_panic [OF s', of "read_at ''4''" "NewSerialTransporter () ''/dev/ttyS0''" 3 4 2 0] reads_at(1) by simp
  ultimately show ?thesis using s s' by blast
qed

end
