(* ===== verification/Snmp_Handler.thy ===== *)
theory Snmp_Handler
  imports Jsonrpc Edge_Prelude
begin

text \<open>
  The SNMP connector (\<open>internal/app/snmp/handler/handler.go\<close>): construction, the readers of
  parameters, the typed values of a set, traps and the dispatch. The library gosnmp is the record
  \<open>snmp_cli\<close> of its operations over a state of its own; what it does with a set request before
  anything is sent (\<open>GoSNMP.Set\<close> and the value part of \<open>marshalVarbind\<close>) is modelled in
  \<open>gosnmp_Set\<close>, because which requests of the connector can succeed depends on it.
\<close>

section \<open>Data units\<close>

text \<open>The value of a unit keeps the Go type the library switches on.\<close>

datatype pdu_value =
    VInt int
  | VUint "64 word"
  | VUint32 "32 word"
  | VUint64 "64 word"
  | VStr string
  | VAny gval

record varbind =
  vb_Name :: string
  vb_Type :: byte
  vb_Value :: pdu_value

record packet =
  pk_Error :: nat
  pk_Variables :: "varbind list"

record trap =
  tr_Enterprise :: string
  tr_AgentAddress :: string
  tr_GenericTrap :: int
  tr_SpecificTrap :: int
  tr_Timestamp :: "64 word"
  tr_Variables :: "varbind list"

definition Integer :: byte where "Integer = 2"
definition OctetString :: byte where "OctetString = 4"
definition ObjectIdentifier :: byte where "ObjectIdentifier = 6"
definition IPAddress :: byte where "IPAddress = 64"
definition Counter32 :: byte where "Counter32 = 65"
definition Gauge32 :: byte where "Gauge32 = 66"
definition TimeTicks :: byte where "TimeTicks = 67"
definition Counter64 :: byte where "Counter64 = 70"

lemmas ber_defs =
  Integer_def OctetString_def ObjectIdentifier_def IPAddress_def Counter32_def Gauge32_def
  TimeTicks_def Counter64_def

type_synonym 's snmp_op = "'s \<Rightarrow> (packet, string) go \<times> 's"

text \<open>\<open>Walk\<close> hands every unit to its callback and ends with an error or none.\<close>

record 's snmp_cli =
  cli_Get :: "string list \<Rightarrow> 's snmp_op"
  cli_GetNext :: "string list \<Rightarrow> 's snmp_op"
  cli_GetBulk :: "string list \<Rightarrow> byte \<Rightarrow> byte \<Rightarrow> 's snmp_op"
  cli_Walk :: "string \<Rightarrow> 's \<Rightarrow> (varbind list \<times> string option) \<times> 's"
  cli_BulkWalk :: "string \<Rightarrow> 's \<Rightarrow> (varbind list \<times> string option) \<times> 's"
  cli_Set :: "varbind list \<Rightarrow> 's snmp_op"
  cli_SendTrap :: "trap \<Rightarrow> 's snmp_op"

section \<open>Construction\<close>

definition versionToVersion :: "string \<Rightarrow> (byte, string) go" where
  "versionToVersion v =
     (if v = ''1'' then Ok 0
      else if v = ''2c'' then Ok 1
      else if v = ''3'' then Ok 3
      else Err ''snmp: unknown version'')"

text \<open>The flags: bit 0 authentication, bit 1 privacy.\<close>

definition modeToMode :: "string \<Rightarrow> (byte, string) go" where
  "modeToMode m =
     (if m = ''authPriv'' then Ok 3
      else if m = ''authNoPriv'' then Ok 1
      else if m = ''NoauthNoPriv'' then Ok 0
      else if m = '''' then Ok 0
      else Err ''snmp: unknown security mode'')"

definition authprotToAuthProt :: "string \<Rightarrow> (byte, string) go" where
  "authprotToAuthProt p =
     (if p = ''MD5'' then Ok 2
      else if p = ''SHA'' then Ok 3
      else if p = '''' then Ok 2
      else Err ''snmp: unknown or unsupported authentication protocol'')"

definition privprotToPrivProt :: "string \<Rightarrow> (byte, string) go" where
  "privprotToPrivProt p =
     (if p = ''DES'' then Ok 2
      else if p = ''AES'' then Ok 3
      else if p = '''' then Ok 1
      else Err ''snmp: unknown or unsupported privacy protocol'')"

record snmp_config =
  sc_Target :: string
  sc_Port :: u16
  sc_Community :: string
  sc_Version :: byte
  sc_MsgFlags :: byte
  sc_UserName :: string
  sc_Auth :: "byte \<times> string"
  sc_Priv :: "byte \<times> string"

text \<open>\<open>connect\<close> is the outcome of \<open>cli.Connect\<close>.\<close>

type_synonym protocol = string
type_synonym passphrase = string

definition snmp_New ::
  "(string \<Rightarrow> string) \<Rightarrow> (snmp_config \<Rightarrow> string option) \<Rightarrow> string \<Rightarrow> string \<Rightarrow> string \<Rightarrow> string
     \<Rightarrow> protocol \<Rightarrow> passphrase \<Rightarrow> protocol \<Rightarrow> passphrase \<Rightarrow> string \<Rightarrow> (snmp_config, string) go" where
  "snmp_New quote connect hostPort community version mode authProtocol authKey privProtocol privKey securityName =
     (if hostPort = '''' then Err ''snmp.new: empty host_port''
      else if community = '''' then Err ''snmp.new: empty community''
      else
        go_bind (versionToVersion version) (\<lambda>ver.
        go_bind (modeToMode mode) (\<lambda>secMod.
        go_bind (authprotToAuthProt authProtocol) (\<lambda>authProt.
        go_bind (privprotToPrivProt privProtocol) (\<lambda>privProt.
          let tmp = split_on CHR '':'' hostPort in
          if length tmp < 2 then Panic ''index out of range''
          else
            (case parse_uint (tmp ! 1) 16 of
               Inl e \<Rightarrow> Err (num_error_text quote ''ParseUint'' (tmp ! 1) e)
             | Inr port \<Rightarrow>
                 let cli = \<lparr>sc_Target = tmp ! 0, sc_Port = word_of_nat port, sc_Community = community,
                            sc_Version = ver, sc_MsgFlags = secMod, sc_UserName = securityName,
                            sc_Auth = (authProt, authKey), sc_Priv = (privProt, privKey)\<rparr>
                 in (case connect cli of Some e \<Rightarrow> Err e | None \<Rightarrow> Ok cli)))))))"

section \<open>Parameters\<close>

definition errBadOid :: gerror where
  "errBadOid = invalid_params ''oid required and should be string array''"

fun oid_strings :: "gval list \<Rightarrow> (string list, gerror) go" where
  "oid_strings [] = Ok []"
| "oid_strings (v # vs) =
     (case v of
        GStr s \<Rightarrow> go_map (\<lambda>ss. s # ss) (oid_strings vs)
      | _ \<Rightarrow> Err errBadOid)"

definition parseOids :: "gval \<Rightarrow> (string list, gerror) go" where
  "parseOids params =
     (case InterSlice (Get params ''oids'') of
        None \<Rightarrow> Err errBadOid
      | Some vs \<Rightarrow> oid_strings vs)"

definition getUint8 :: "gval \<Rightarrow> string \<Rightarrow> (byte, gerror) go" where
  "getUint8 params k =
     (case Get params k of
        GNum number \<Rightarrow>
          (case parse_int number 64 of
             Inl _ \<Rightarrow> Err (invalid_params (k @ '' required and should be number''))
           | Inr value \<Rightarrow>
               if 0 \<le> value \<and> value \<le> 255 then Ok (word_of_int value)
               else Err (invalid_params (k @ '' should be uint8'')))
      | _ \<Rightarrow> Err (invalid_params (k @ '' required and should be number'')))"

section \<open>Answers\<close>

text \<open>The names the generated \<open>Asn1BER.String\<close> gives.\<close>

definition ber_names :: "(nat \<times> string) list" where
  "ber_names =
     zip [0..<8] [''EndOfContents'', ''Boolean'', ''Integer'', ''BitString'', ''OctetString'', ''Null'',
                  ''ObjectIdentifier'', ''ObjectDescription'']
     @ zip [64..<72] [''IPAddress'', ''Counter32'', ''Gauge32'', ''TimeTicks'', ''Opaque'', ''NsapAddress'',
                      ''Counter64'', ''Uinteger32'']
     @ [(120, ''OpaqueFloat''), (121, ''OpaqueDouble''), (128, ''NoSuchObject''),
        (129, ''NoSuchInstance''), (130, ''EndOfMibView'')]"

definition ber_String :: "byte \<Rightarrow> string" where
  "ber_String t =
     (case map_of ber_names (unat t) of
        Some n \<Rightarrow> n
      | None \<Rightarrow> ''Asn1BER('' @ dec_of_nat (unat t) @ '')'')"

fun value_gval :: "pdu_value \<Rightarrow> gval" where
  "value_gval (VInt i) = GInt i"
| "value_gval (VUint n) = GInt (uint n)"
| "value_gval (VUint32 n) = GInt (uint n)"
| "value_gval (VUint64 n) = GInt (uint n)"
| "value_gval (VStr s) = GStr s"
| "value_gval (VAny v) = v"

definition encodeDataUnit :: "varbind \<Rightarrow> gval" where
  "encodeDataUnit p =
     GMap [(''oid'', GStr (vb_Name p)), (''type_num'', GInt (uint (vb_Type p))),
           (''type_str'', GStr (ber_String (vb_Type p))), (''value'', value_gval (vb_Value p))]"

definition encodeSnmpPacket :: "packet \<Rightarrow> gval" where
  "encodeSnmpPacket p = GArr (map encodeDataUnit (pk_Variables p))"

text \<open>The common end of the handlers: an error of the library is returned as it is.\<close>

definition packet_result :: "(packet, string) go \<times> 's \<Rightarrow> (gval, gerror) go \<times> 's" where
  "packet_result r = (map_err GoErr (go_map encodeSnmpPacket (fst r)), snd r)"

section \<open>Handlers\<close>

type_synonym 's snmp_handler = "'s snmp_cli \<Rightarrow> 's \<Rightarrow> gval \<Rightarrow> (gval, gerror) go \<times> 's"

text \<open>A parameter that is read before anything is sent.\<close>

definition read_then ::
  "('a, gerror) go \<Rightarrow> 's \<Rightarrow> ('a \<Rightarrow> (gval, gerror) go \<times> 's) \<Rightarrow> (gval, gerror) go \<times> 's" where
  "read_then r s f =
     (case r of Ok x \<Rightarrow> f x | Err e \<Rightarrow> (Err e, s) | Panic m \<Rightarrow> (Panic m, s))"

definition snmp_get :: "'s snmp_handler" where
  "snmp_get c s params =
     read_then (parseOids params) s (\<lambda>oids. packet_result (cli_Get c oids s))"

definition snmp_getNext :: "'s snmp_handler" where
  "snmp_getNext c s params =
     read_then (parseOids params) s (\<lambda>oids. packet_result (cli_GetNext c oids s))"

definition snmp_getBulk :: "'s snmp_handler" where
  "snmp_getBulk c s params =
     read_then (parseOids params) s (\<lambda>oids.
     read_then (getUint8 params ''non_repeaters'') s (\<lambda>nonRep.
     read_then (getUint8 params ''max_repetitions'') s (\<lambda>maxRep.
       packet_result (cli_GetBulk c oids nonRep maxRep s))))"

text \<open>\<open>walk\<close>, and \<open>bulkWalk\<close>, which no method reaches.\<close>

definition walk_with :: "(string \<Rightarrow> 's \<Rightarrow> (varbind list \<times> string option) \<times> 's) \<Rightarrow> 's \<Rightarrow> gval \<Rightarrow> (gval, gerror) go \<times> 's" where
  "walk_with op s params =
     (let oidV = Get params ''oid'' in
      if \<not> IsStr oidV then (Err (invalid_params ''oid required and should be string''), s)
      else
        (case op (Str oidV) s of
           ((_, Some e), s') \<Rightarrow> (Err (GoErr e), s')
         | ((units, None), s') \<Rightarrow> (Ok (GArr (map encodeDataUnit units)), s')))"

definition snmp_walk :: "'s snmp_handler" where
  "snmp_walk c s params = walk_with (cli_Walk c) s params"

definition snmp_bulkWalk :: "'s snmp_handler" where
  "snmp_bulkWalk c s params = walk_with (cli_BulkWalk c) s params"

section \<open>Set\<close>

text \<open>\<open>IPtoHEX\<close>: the parts are read one after the other, so a missing part panics only when the
  parts before it are numbers.\<close>

definition ip_part :: "string list \<Rightarrow> nat \<Rightarrow> (nat, string) go" where
  "ip_part s i =
     (if i < length s then
        (case parse_uint (s ! i) 32 of Inl _ \<Rightarrow> Err ''invalid ip'' | Inr v \<Rightarrow> Ok v)
      else Panic ''index out of range'')"

definition IPtoHEX :: "string \<Rightarrow> (string, string) go" where
  "IPtoHEX ip =
     (let s = split_on CHR ''.'' ip in
      go_bind (ip_part s 0) (\<lambda>a.
      go_bind (ip_part s 1) (\<lambda>b.
      go_bind (ip_part s 2) (\<lambda>c.
      go_bind (ip_part s 3) (\<lambda>d.
        if a > 255 \<or> b > 255 \<or> c > 255 \<or> d > 255 then Err ''invalid ip''
        else Ok (hex2 a @ hex2 b @ hex2 c @ hex2 d))))))"

definition set_uint ::
  "(string \<Rightarrow> string) \<Rightarrow> string \<Rightarrow> nat \<Rightarrow> (nat \<Rightarrow> pdu_value) \<Rightarrow> byte \<Rightarrow> (byte \<times> pdu_value, gerror) go" where
  "set_uint quote v bits f t =
     (case parse_uint v bits of
        Inl e \<Rightarrow> Err (GoErr (num_error_text quote ''ParseUint'' v e))
      | Inr n \<Rightarrow> Ok (t, f n))"

text \<open>The type and value of the unit, by the number of the type.\<close>

definition set_value :: "(string \<Rightarrow> string) \<Rightarrow> byte \<Rightarrow> string \<Rightarrow> (byte \<times> pdu_value, gerror) go" where
  "set_value quote typ v =
     (if typ = 4 then Ok (OctetString, VStr v)
      else if typ = 2 then
        (case parse_int v 64 of
           Inl e \<Rightarrow> Err (GoErr (num_error_text quote ''Atoi'' v e))
         | Inr i \<Rightarrow> Ok (Integer, VInt i))
      else if typ = 66 then set_uint quote v 64 (\<lambda>n. VUint (word_of_nat n)) Gauge32
      else if typ = 64 then map_err GoErr (go_map (\<lambda>h. (IPAddress, VStr h)) (IPtoHEX v))
      else if typ = 6 then Ok (ObjectIdentifier, VStr v)
      else if typ = 67 then set_uint quote v 32 (\<lambda>n. VUint32 (word_of_nat n)) TimeTicks
      else if typ = 65 then set_uint quote v 64 (\<lambda>n. VUint (word_of_nat n)) Counter32
      else if typ = 70 then set_uint quote v 64 (\<lambda>n. VUint64 (word_of_nat n)) Counter64
      else Err (invalid_params ''unknown or unsupported type''))"

definition snmp_set :: "(string \<Rightarrow> string) \<Rightarrow> 's snmp_handler" where
  "snmp_set quote c s params =
     (let oidV = Get params ''oid'' in
      if \<not> IsStr oidV then (Err (invalid_params ''oid required and should be string''), s)
      else
        read_then (getUint8 params ''type'') s (\<lambda>typ.
        read_then (set_value quote typ (Str (Get params ''value''))) s (\<lambda>(t, v).
          packet_result (cli_Set c [\<lparr>vb_Name = Str oidV, vb_Type = t, vb_Value = v\<rparr>] s))))"

section \<open>Traps\<close>

text \<open>Type and value are read from the parameters of the request, not from the element.\<close>

fun pdu_list :: "gval \<Rightarrow> gval list \<Rightarrow> (varbind list, gerror) go" where
  "pdu_list params [] = Ok []"
| "pdu_list params (val # vs) =
     (if \<not> IsStr (Get val ''oid'') then Err (invalid_params ''oid should be string'')
      else
        go_bind (getUint8 params ''type'') (\<lambda>typ.
          go_map (\<lambda>ps. \<lparr>vb_Name = Str (Get val ''oid''), vb_Type = typ,
                         vb_Value = VAny (Get params ''value'')\<rparr> # ps)
            (pdu_list params vs)))"

definition parsePDU :: "gval \<Rightarrow> string \<Rightarrow> (varbind list, gerror) go" where
  "parsePDU params k =
     (case ObjxMapSlice (Get params k) of
        None \<Rightarrow> Err (invalid_params (k @ '' should be array''))
      | Some vs \<Rightarrow> pdu_list params vs)"

definition trap_string :: "gval \<Rightarrow> string \<Rightarrow> (string, gerror) go" where
  "trap_string params k =
     (let v = Get params k in
      if IsStr v then Ok (Str v) else Err (invalid_params (k @ '' should be string'')))"

definition trap_number :: "gval \<Rightarrow> string \<Rightarrow> (int, gerror) go" where
  "trap_number params k =
     (case Get params k of
        GNum n \<Rightarrow>
          (case parse_int n 64 of
             Inl _ \<Rightarrow> Err (invalid_params (k @ '' should be number''))
           | Inr v \<Rightarrow> Ok v)
      | _ \<Rightarrow> Err (invalid_params (k @ '' should be number'')))"

definition snmp_sendTrap :: "'s snmp_handler" where
  "snmp_sendTrap c s params =
     read_then (trap_string params ''enterprise'') s (\<lambda>enterprise.
     read_then (trap_string params ''agent_address'') s (\<lambda>agentAddr.
     read_then (trap_number params ''generic_trap'') s (\<lambda>gt.
     read_then (trap_number params ''specific_trap'') s (\<lambda>st.
     read_then (trap_number params ''timestamp'') s (\<lambda>ts.
     read_then (parsePDU params ''variables'') s (\<lambda>pdus.
       packet_result (cli_SendTrap c
         \<lparr>tr_Enterprise = enterprise, tr_AgentAddress = agentAddr, tr_GenericTrap = gt,
          tr_SpecificTrap = st, tr_Timestamp = word_of_int ts, tr_Variables = pdus\<rparr> s)))))))"

section \<open>Dispatch\<close>

definition snmp_method :: "(string \<Rightarrow> string) \<Rightarrow> string \<Rightarrow> 's snmp_handler option" where
  "snmp_method quote m =
     (if m = ''snmp-get'' then Some snmp_get
      else if m = ''snmp-get-next'' then Some snmp_getNext
      else if m = ''snmp-get-bulk'' then Some snmp_getBulk
      else if m = ''snmp-walk'' then Some snmp_walk
      else if m = ''snmp-set'' then Some (snmp_set quote)
      else if m = ''snmp-send-trap'' then Some snmp_sendTrap
      else None)"

definition snmp_Call :: "(string \<Rightarrow> string) \<Rightarrow> 's snmp_cli \<Rightarrow> 's caller" where
  "snmp_Call quote c s req =
     (case snmp_method quote (Method req) of
        None \<Rightarrow> (Err (method_not_found (Method req)), s)
      | Some h \<Rightarrow> (case h c s (Params req) of (r, s') \<Rightarrow> (go_map RVal r, s')))"

section \<open>The library before it sends\<close>

text \<open>
  \<open>GoSNMP.Set\<close> accepts four types of the first unit; the value is then marshalled by its type.
  \<open>parse_ip\<close> is \<open>net.ParseIP\<close>, sixteen bytes or nil, and \<open>ipv4toBytes\<close> slices them without
  a test for nil. \<open>oid_err\<close> is the error of \<open>marshalOID\<close>.
\<close>

definition u32_bytes :: "32 word \<Rightarrow> byte list" where
  "u32_bytes w = [ucast (drop_bit 24 w), ucast (drop_bit 16 w), ucast (drop_bit 8 w), ucast w]"

definition marshalUint32 :: "32 word \<Rightarrow> byte list" where
  "marshalUint32 w =
     (if w < 0x80 then drop 3 (u32_bytes w)
      else if w < 0x8000 then drop 2 (u32_bytes w)
      else if w < 0x800000 then drop 1 (u32_bytes w)
      else u32_bytes w)"

definition marshalInt32 :: "int \<Rightarrow> (byte list, string) go" where
  "marshalInt32 i =
     (if 0 \<le> i \<and> i \<le> 2147483647 then
        Ok (if i < 0x80 then drop 3 (u32_bytes (word_of_int i))
            else if i < 0x8000 then drop 2 (u32_bytes (word_of_int i))
            else if i < 0x800000 then drop 1 (u32_bytes (word_of_int i))
            else u32_bytes (word_of_int i))
      else if -2147483648 \<le> i \<and> i < 0 then Ok (u32_bytes (word_of_int i))
      else Err ''unable to marshal'')"

definition ipv4toBytes :: "byte list option \<Rightarrow> (byte list, string) go" where
  "ipv4toBytes ip =
     (case ip of None \<Rightarrow> Panic ''slice bounds out of range'' | Some b \<Rightarrow> Ok (drop 12 b))"

definition marshal_value :: "(string \<Rightarrow> byte list option) \<Rightarrow> byte \<Rightarrow> pdu_value \<Rightarrow> (byte list, string) go" where
  "marshal_value parse_ip t v =
     (if t = Integer then
        (case v of VInt i \<Rightarrow> marshalInt32 i
         | _ \<Rightarrow> Err ''unable to marshal PDU Integer; not byte or int'')
      else if t = Gauge32 then
        (case v of
           VUint32 w \<Rightarrow> Ok (marshalUint32 w)
         | VUint w \<Rightarrow> Ok (marshalUint32 (ucast w))
         | _ \<Rightarrow> Err ''unable to marshal pdu.Type'')
      else if t = OctetString then
        (case v of VStr s \<Rightarrow> Ok (map of_char s)
         | _ \<Rightarrow> Err ''unable to marshal PDU OctetString; not []byte or string'')
      else
        (case v of VStr s \<Rightarrow> ipv4toBytes (parse_ip s)
         | _ \<Rightarrow> Err ''unable to marshal PDU IPAddress; not []byte or string''))"

fun marshal_units ::
  "(string \<Rightarrow> byte list option) \<Rightarrow> (string \<Rightarrow> string option) \<Rightarrow> varbind list
     \<Rightarrow> ((string \<times> byte \<times> byte list) list, string) go" where
  "marshal_units parse_ip oid_err [] = Ok []"
| "marshal_units parse_ip oid_err (p # ps) =
     (case oid_err (vb_Name p) of
        Some e \<Rightarrow> Err e
      | None \<Rightarrow>
          go_bind (marshal_value parse_ip (vb_Type p) (vb_Value p)) (\<lambda>b.
            go_map (\<lambda>us. (vb_Name p, vb_Type p, b) # us) (marshal_units parse_ip oid_err ps)))"

text \<open>
  The connection of the library: whether there is none, version 3 with its negotiation (the discovery
  packet and what is made of its answer, or the keys), what precedes a request (context, deadline, numbers,
  the keys again with version 3), and the exchange of a packet with these units, retries and their
  answers included. The first two say with which error they end, if any.
\<close>

record 's snmp_conn =
  sn_missing :: "'s \<Rightarrow> bool"
  sn_v3 :: bool
  sn_negotiate :: "'s \<Rightarrow> string option \<times> 's"
  sn_ready :: "'s \<Rightarrow> string option \<times> 's"
  sn_exchange :: "(string \<times> byte \<times> byte list) list \<Rightarrow> 's snmp_op"

text \<open>\<open>send\<close> and \<open>sendOneRequest\<close>: up to the values, then the values, then the exchange. The deferred recover of
  \<open>send\<close> makes an error of every panic under it.\<close>

definition send_begin :: "'s snmp_conn \<Rightarrow> 's \<Rightarrow> string option \<times> 's" where
  "send_begin n s =
     (if sn_missing n s then (Some ''&GoSNMP.Conn is missing. Provide a connection or use Connect()'', s)
      else
        (case (if sn_v3 n then sn_negotiate n s else (None, s)) of
           (Some e, s') \<Rightarrow> (Some e, s')
         | (None, s') \<Rightarrow> sn_ready n s'))"

fun recover_send :: "string \<Rightarrow> ('x, string) go \<Rightarrow> ('x, string) go" where
  "recover_send stack (Ok x) = Ok x"
| "recover_send stack (Err e) = Err e"
| "recover_send stack (Panic m) = Err (''recover: '' @ m @ [CHR 0x0A] @ ''Stack:'' @ stack)"

definition gosnmp_send ::
  "(string \<Rightarrow> byte list option) \<Rightarrow> (string \<Rightarrow> string option) \<Rightarrow> string \<Rightarrow> 's snmp_conn \<Rightarrow> varbind list \<Rightarrow> 's snmp_op" where
  "gosnmp_send parse_ip oid_err stack n pdus s =
     (case (case send_begin n s of
              (Some e, s') \<Rightarrow> (Err e, s')
            | (None, s') \<Rightarrow>
                (case marshal_units parse_ip oid_err pdus of
                   Err e \<Rightarrow> (Err (''marshal: '' @ e), s')
                 | Panic m \<Rightarrow> (Panic m, s')
                 | Ok us \<Rightarrow> sn_exchange n us s')) of
        (r, s') \<Rightarrow> (recover_send stack r, s'))"

definition gosnmp_Set ::
  "(string \<Rightarrow> byte list option) \<Rightarrow> (string \<Rightarrow> string option) \<Rightarrow> string \<Rightarrow> 's snmp_conn \<Rightarrow> varbind list \<Rightarrow> 's snmp_op" where
  "gosnmp_Set parse_ip oid_err stack n pdus s =
     (case pdus of
        [] \<Rightarrow> (Panic ''index out of range'', s)
      | p # _ \<Rightarrow>
          if vb_Type p \<notin> {Integer, OctetString, Gauge32, IPAddress} then
            (Err ''ERR:gosnmp currently only supports SNMP SETs for Integers, IPAddress and OctetStrings'', s)
          else gosnmp_send parse_ip oid_err stack n pdus s)"

section \<open>Laws\<close>

named_theorems snmp_simps

lemma read_then_eq [snmp_simps]:
  "read_then r s f = (Ok v, s') \<longleftrightarrow> (\<exists>x. r = Ok x \<and> f x = (Ok v, s'))"
  by (cases r) (auto simp: read_then_def)

lemma is_panic_read_then [snmp_simps]:
  "is_panic (fst (read_then r s f)) \<longleftrightarrow> is_panic r \<or> (\<exists>x. r = Ok x \<and> is_panic (fst (f x)))"
  by (cases r) (auto simp: read_then_def)

lemma packet_result_eq [snmp_simps]:
  "packet_result r = (Ok v, s') \<longleftrightarrow> (\<exists>p. r = (Ok p, s') \<and> v = encodeSnmpPacket p)"
  by (cases r) (auto simp: packet_result_def go_map_eq_Ok map_err_eq_Ok)

lemma is_panic_packet_result [snmp_simps]: "is_panic (fst (packet_result r)) \<longleftrightarrow> is_panic (fst r)"
  by (simp add: packet_result_def)

lemma oid_strings_map: "oid_strings vs = Ok ss \<longleftrightarrow> vs = map GStr ss"
proof (induction vs arbitrary: ss)
  case (Cons v vs)
  then show ?case by (cases v) (auto simp: go_map_eq_Ok)
qed auto

lemma oid_strings_no_panic: "\<not> is_panic (oid_strings vs)"
  by (induction vs) (auto split: gval.split)

lemma reader_no_panic [simp]:
  "\<not> is_panic (parseOids params)" "\<not> is_panic (getUint8 params k)"
  "\<not> is_panic (trap_string params k)" "\<not> is_panic (trap_number params k)"
  by (auto simp: parseOids_def getUint8_def trap_string_def trap_number_def Let_def oid_strings_no_panic
      split: option.splits gval.splits sum.splits)

lemma getUint8_Ok:
  "getUint8 params k = Ok b \<longleftrightarrow>
     (\<exists>n v. Get params k = GNum n \<and> parse_int n 64 = Inr v \<and> 0 \<le> v \<and> v \<le> 255 \<and> b = word_of_int v)"
  by (auto simp: getUint8_def split: gval.splits sum.splits if_splits)

lemma pdu_list_no_panic [simp]: "\<not> is_panic (pdu_list params vs)"
  by (induction vs) (auto simp: is_panic_bind)

lemma parsePDU_no_panic [simp]: "\<not> is_panic (parsePDU params k)"
  by (auto simp: parsePDU_def split: option.splits)

text \<open>No handler answers with a nil result.\<close>

lemma snmp_handler_not_nil:
  "snmp_method quote m = Some h \<Longrightarrow> h c s params \<noteq> (Ok GNil, s')"
  by (auto simp: snmp_method_def snmp_get_def snmp_getNext_def snmp_getBulk_def snmp_walk_def walk_with_def
      snmp_set_def snmp_sendTrap_def snmp_simps encodeSnmpPacket_def Let_def
      split: if_splits prod.splits option.splits)

interpretation snmp: rpc_caller "snmp_Call quote c" for quote c
proof unfold_locales
  fix s req s'
  show "snmp_Call quote c s req \<noteq> (Ok (RVal GNil), s')"
    using snmp_handler_not_nil [of quote "Method req" _ c s "Params req" s']
    by (auto simp: snmp_Call_def go_map_eq_Ok split: option.splits prod.splits)
qed

section \<open>Numbers as the library sends them\<close>

definition be_nat :: "byte list \<Rightarrow> nat" where
  "be_nat bs = foldl (\<lambda>n b. n * 256 + unat b) 0 bs"

lemma unat_drop_u32: "unat (drop_bit k (w :: 32 word)) = unat w div 2 ^ k"
proof -
  have "unat w < 2 ^ LENGTH(32)" by (rule unsigned_less)
  then show ?thesis
    by (simp add: unsigned_drop_bit_eq drop_bit_eq_div [where 'a = nat] take_bit_nat_eq_self)
qed

lemma unat_low_byte: "unat (ucast (w :: 32 word) :: byte) = unat w mod 256"
  by (simp add: unsigned_ucast_eq take_bit_eq_mod)

lemma bytes_sum:
  fixes n :: nat
  shows "((n div 2 ^ 24 * 256 + n div 2 ^ 16 mod 256) * 256 + n div 2 ^ 8 mod 256) * 256 + n mod 256 = n"
proof -
  have s: "m div 256 * 256 + m mod 256 = m" for m :: nat by simp
  have d: "n div 2 ^ 8 = n div 256" "n div 2 ^ 16 = n div 256 div 256" "n div 2 ^ 24 = n div 256 div 256 div 256"
    by (simp_all add: div_mult2_eq [symmetric])
  show ?thesis unfolding d s ..
qed

lemma bytes_small:
  fixes n :: nat
  shows "n < 0x800000 \<Longrightarrow> n div 2 ^ 24 = 0" and "n < 0x8000 \<Longrightarrow> n div 2 ^ 16 = 0"
    and "n < 0x80 \<Longrightarrow> n div 2 ^ 8 = 0"
  by simp_all

lemma be_nat_u32:
  "be_nat (u32_bytes w) = unat w"
  "w < 0x800000 \<Longrightarrow> be_nat (drop (Suc 0) (u32_bytes w)) = unat w"
  "w < 0x8000 \<Longrightarrow> be_nat (drop 2 (u32_bytes w)) = unat w"
  "w < 0x80 \<Longrightarrow> be_nat (drop 3 (u32_bytes w)) = unat w"
proof -
  have "unat w < 2 ^ LENGTH(32)" by (rule unsigned_less)
  then have m: "unat w div 16777216 mod 256 = unat w div 16777216"
    by (intro mod_less) (simp add: less_mult_imp_div_less)
  note b = bytes_sum [of "unat w"]
  note f = be_nat_def u32_bytes_def unat_low_byte unat_drop_u32
  show "be_nat (u32_bytes w) = unat w"
    using b by (simp add: f m)
  show "be_nat (drop (Suc 0) (u32_bytes w)) = unat w" if "w < 0x800000"
    using b bytes_small(1) [of "unat w"] that by (simp add: f word_less_nat_alt)
  show "be_nat (drop 2 (u32_bytes w)) = unat w" if "w < 0x8000"
    using b bytes_small(1,2) [of "unat w"] that by (simp add: f word_less_nat_alt)
  show "be_nat (drop 3 (u32_bytes w)) = unat w" if "w < 0x80"
    using b bytes_small [of "unat w"] that by (simp add: f word_less_nat_alt)
qed

lemma be_nat_marshalUint32: "be_nat (marshalUint32 w) = unat w"
  by (simp add: marshalUint32_def be_nat_u32)

lemma marshalInt32_cases:
  "(- (2 ^ 31) \<le> i \<and> i < 2 ^ 31 \<longrightarrow> (\<exists>bs. marshalInt32 i = Ok bs \<and> be_nat bs = nat (i mod 2 ^ 32)))
   \<and> (\<not> (- (2 ^ 31) \<le> i \<and> i < 2 ^ 31) \<longrightarrow> marshalInt32 i = Err ''unable to marshal'')"
proof -
  have u: "unat (word_of_int i :: 32 word) = nat (i mod 2 ^ 32)"
    by (simp add: unsigned_of_int take_bit_eq_mod flip: nat_mod_distrib)
  have l: "(word_of_int i :: 32 word) < word_of_int k" if "0 \<le> i" "i < k" "k < 2 ^ 32" for k
    using that by (simp add: word_less_def uint_word_of_int)
  show ?thesis
    using be_nat_u32 [of "word_of_int i"] l [of "0x80"] l [of "0x8000"] l [of "0x800000"]
    by (auto simp: marshalInt32_def u)
qed

section \<open>Addresses\<close>

lemma hex_char_no_sep: "d < 16 \<Longrightarrow> hex_char d \<noteq> CHR ''.'' \<and> hex_char d \<noteq> CHR '':''"
proof -
  assume d: "d < 16"
  have "hex_char d \<noteq> c" if "(of_char c :: nat) \<in> {46, 58}" for c
  proof
    assume "hex_char d = c"
    then have "(of_char (hex_char d) :: nat) \<in> {46, 58}" using that by simp
    with d show False by (auto simp: hex_char_def split: if_splits)
  qed
  then show ?thesis by simp
qed

lemma hex2_no_sep: "n < 256 \<Longrightarrow> CHR ''.'' \<notin> set (hex2 n) \<and> CHR '':'' \<notin> set (hex2 n)"
  using hex_char_no_sep [of "n div 16"] hex_char_no_sep [of "n mod 16"]
    less_mult_imp_div_less [of n 16 16]
  by (auto simp: hex2_def)

lemma IPtoHEX_no_sep: "IPtoHEX ip = Ok h \<Longrightarrow> CHR ''.'' \<notin> set h \<and> CHR '':'' \<notin> set h"
  by (auto simp: IPtoHEX_def Let_def go_simps hex2_no_sep split: if_splits)

lemma ip_part_panic: "is_panic (ip_part s i) \<longleftrightarrow> length s \<le> i"
  by (auto simp: ip_part_def split: sum.splits)

lemma IPtoHEX_panic: "is_panic (IPtoHEX ip) \<Longrightarrow> length (split_on CHR ''.'' ip) < 4"
  by (auto simp: IPtoHEX_def Let_def go_simps ip_part_panic split: if_splits)

section \<open>Sets\<close>

text \<open>A request that is answered with an error and leaves the given state; and what the exchange of units makes of
  a set.\<close>

definition refused :: "(gval, gerror) go \<times> 's \<Rightarrow> 's \<Rightarrow> bool" where
  "refused r s \<longleftrightarrow> snd r = s \<and> (\<exists>e. fst r = Err e)"

definition sent_units ::
  "string \<Rightarrow> 's snmp_conn \<Rightarrow> (string \<times> byte \<times> byte list) list \<Rightarrow> 's \<Rightarrow> (gval, gerror) go \<times> 's" where
  "sent_units stack n us s =
     (case send_begin n s of
        (Some e, s') \<Rightarrow> packet_result (Err e, s')
      | (None, s') \<Rightarrow> (case sn_exchange n us s' of (r, s'') \<Rightarrow> packet_result (recover_send stack r, s'')))"

lemma snmp_set_eq:
  assumes "Get params ''oid'' = GStr ob" and "getUint8 params ''type'' = Ok typ"
    and "Get params ''value'' = GStr v"
  shows "snmp_set quote c s params =
    read_then (set_value quote typ v) s (\<lambda>(t, x).
      packet_result (cli_Set c [\<lparr>vb_Name = ob, vb_Type = t, vb_Value = x\<rparr>] s))"
  using assms by (simp add: snmp_set_def read_then_def)

lemma refused_packet_result: "refused (packet_result (r, s)) s' \<longleftrightarrow> s = s' \<and> (\<exists>e. r = Err e)"
  by (cases r) (auto simp: refused_def packet_result_def)

lemma gosnmp_Set_other:
  "t \<notin> {Integer, OctetString, Gauge32, IPAddress} \<Longrightarrow>
   refused (packet_result (gosnmp_Set parse_ip oid_err stack n [\<lparr>vb_Name = ob, vb_Type = t, vb_Value = x\<rparr>] s)) s"
  by (simp add: gosnmp_Set_def refused_packet_result)

text \<open>A value of the four types is sent, or the set is refused after what precedes the values.\<close>

lemma gosnmp_Set_one:
  assumes "oid_err ob = None" and "t \<in> {Integer, OctetString, Gauge32, IPAddress}"
  shows "(case marshal_value parse_ip t x of
      Ok b \<Rightarrow> packet_result (gosnmp_Set parse_ip oid_err stack n [\<lparr>vb_Name = ob, vb_Type = t, vb_Value = x\<rparr>] s)
        = sent_units stack n [(ob, t, b)] s
    | _ \<Rightarrow> refused (packet_result (gosnmp_Set parse_ip oid_err stack n [\<lparr>vb_Name = ob, vb_Type = t, vb_Value = x\<rparr>] s))
        (snd (send_begin n s)))"
  using assms
  by (auto simp: gosnmp_Set_def gosnmp_send_def sent_units_def refused_packet_result
      split: go.splits option.splits prod.splits)

text \<open>The answers of a set, by the type of its value.\<close>

lemma set_integer_sent:
  assumes lib: "cli_Set c = gosnmp_Set parse_ip oid_err stack n" and "oid_err ob = None"
    and "Get params ''oid'' = GStr ob" and "getUint8 params ''type'' = Ok typ"
    and "Get params ''value'' = GStr v"
    and that: "typ = 2"
  shows "case parse_int v 64 of
           Inl _ \<Rightarrow> refused (snmp_set quote c s params) s
         | Inr i \<Rightarrow>
             if - (2 ^ 31) \<le> i \<and> i < 2 ^ 31
             then \<exists>bs. be_nat bs = nat (i mod 2 ^ 32)
               \<and> snmp_set quote c s params = sent_units stack n [(ob, 2, bs)] s
             else refused (snmp_set quote c s params) (snd (send_begin n s))"
proof -
  note eq = snmp_set_eq [OF assms(3-5), of quote c s]
  note g = gosnmp_Set_one [where oid_err = oid_err and ob = ob and t = Integer and x = "VInt i" and parse_ip = parse_ip and n = n and s = s
      and stack = stack for i, OF assms(2)]
  show ?thesis
  proof (cases "parse_int v 64")
    case (Inl e)
    with that show ?thesis by (simp add: eq read_then_def set_value_def refused_def)
  next
    case (Inr i)
    then have e: "snmp_set quote c s params
        = packet_result (gosnmp_Set parse_ip oid_err stack n [\<lparr>vb_Name = ob, vb_Type = Integer, vb_Value = VInt i\<rparr>] s)"
      using that by (simp add: eq read_then_def set_value_def lib)
    have m: "marshal_value parse_ip Integer (VInt i) = marshalInt32 i" by (simp add: marshal_value_def)
    have "Integer = 2" by (simp add: ber_defs)
    with Inr marshalInt32_cases [of i] g [of i] show ?thesis
      unfolding e by (auto simp: m)
  qed
qed

lemma set_gauge_sent:
  assumes lib: "cli_Set c = gosnmp_Set parse_ip oid_err stack n" and "oid_err ob = None"
    and "Get params ''oid'' = GStr ob" and "getUint8 params ''type'' = Ok typ"
    and "Get params ''value'' = GStr v"
    and that: "typ = 66"
  shows "case parse_uint v 64 of
           Inl _ \<Rightarrow> refused (snmp_set quote c s params) s
         | Inr k \<Rightarrow> \<exists>bs. be_nat bs = k mod 2 ^ 32
             \<and> snmp_set quote c s params = sent_units stack n [(ob, 66, bs)] s"
proof -
  note eq = snmp_set_eq [OF assms(3-5), of quote c s]
  note g = gosnmp_Set_one [where oid_err = oid_err and ob = ob and t = Gauge32 and x = "VUint w" and parse_ip = parse_ip and n = n and s = s
      and stack = stack for w, OF assms(2)]
  show ?thesis
  proof (cases "parse_uint v 64")
    case (Inl e)
    with that show ?thesis
      by (simp add: eq read_then_def set_value_def set_uint_def refused_def)
  next
    case (Inr k)
    let ?w = "word_of_nat k :: 64 word"
    have "be_nat (marshalUint32 (ucast ?w)) = k mod 2 ^ 32"
      by (simp add: be_nat_marshalUint32 unsigned_ucast_eq unsigned_of_nat take_bit_eq_mod mod_mod_cancel)
    moreover have "snmp_set quote c s params = sent_units stack n [(ob, 66, marshalUint32 (ucast ?w))] s"
      using that Inr g [of ?w]
      by (simp add: eq read_then_def set_value_def set_uint_def lib marshal_value_def ber_defs)
    ultimately show ?thesis using Inr by auto
  qed
qed

text \<open>An address with its four parts becomes a text that is no address; one with fewer panics before.\<close>

lemma set_address_refused:
  assumes lib: "cli_Set c = gosnmp_Set parse_ip oid_err stack n" and "oid_err ob = None"
    and "Get params ''oid'' = GStr ob" and "getUint8 params ''type'' = Ok typ"
    and "Get params ''value'' = GStr v"
    and ip: "\<forall>t. parse_ip t \<noteq> None \<longrightarrow> CHR ''.'' \<in> set t \<or> CHR '':'' \<in> set t"
    and that: "typ = 64"
  shows "case IPtoHEX v of
           Ok h \<Rightarrow> refused (snmp_set quote c s params) (snd (send_begin n s))
         | Err e \<Rightarrow> refused (snmp_set quote c s params) s
         | Panic m \<Rightarrow> snmp_set quote c s params = (Panic m, s)"
proof -
  note eq = snmp_set_eq [OF assms(3-5), of quote c s]
  note g = gosnmp_Set_one [where oid_err = oid_err and ob = ob and t = IPAddress and x = "VStr h" and parse_ip = parse_ip and n = n and s = s
      and stack = stack for h, OF assms(2)]
  show ?thesis
  proof (cases "IPtoHEX v")
    case (Ok h)
    with IPtoHEX_no_sep ip have "parse_ip h = None" by blast
    then have "marshal_value parse_ip IPAddress (VStr h) = Panic ''slice bounds out of range''"
      by (simp add: marshal_value_def ber_defs ipv4toBytes_def)
    with that Ok g [of h] show ?thesis by (simp add: eq read_then_def set_value_def lib)
  qed (use that in \<open>simp_all add: eq read_then_def set_value_def refused_def\<close>)
qed

lemma set_other_refused:
  assumes lib: "cli_Set c = gosnmp_Set parse_ip oid_err stack n"
    and "Get params ''oid'' = GStr ob" and "getUint8 params ''type'' = Ok typ"
    and "Get params ''value'' = GStr v"
    and other: "typ \<notin> {4, 2, 66, 64}"
  shows "refused (snmp_set quote c s params) s"
proof (cases "set_value quote typ v")
  case (Ok x)
  obtain t y where x: "x = (t, y)" by fastforce
  with Ok other have "t \<notin> {Integer, OctetString, Gauge32, IPAddress}"
    by (auto simp: set_value_def set_uint_def go_simps ber_defs split: if_splits sum.splits)
  from gosnmp_Set_other [OF this, of parse_ip oid_err stack n ob y s] Ok x show ?thesis
    by (simp add: snmp_set_eq [OF assms(2-4)] read_then_def lib)
next
  case (Panic m)
  with other show ?thesis by (auto simp: set_value_def set_uint_def split: if_splits sum.splits)
qed (simp add: snmp_set_eq [OF assms(2-4)] read_then_def refused_def)

text \<open>C22: which sets reach the device, over the library's own code up to the exchange of the packet: strings as
  they are, integers of 32 bits with their value, gauges with their value modulo 2 to the 32. Every other
  set is never sent: one that does not parse, and one of a type the library does not set, which are most types
  the connector announces, is answered with an error at once; an integer that is too large and an address,
  whose hexadecimal text is none for the library, with an error after what precedes the values, which
  with version 3 is the discovery packet; an address of fewer than four parts panics the handler.\<close>

theorem set_reaches_device:
  assumes lib: "cli_Set c = gosnmp_Set parse_ip oid_err stack n" and "oid_err ob = None"
    and "Get params ''oid'' = GStr ob" and "getUint8 params ''type'' = Ok typ"
    and "Get params ''value'' = GStr v"
    and ip: "\<forall>t. parse_ip t \<noteq> None \<longrightarrow> CHR ''.'' \<in> set t \<or> CHR '':'' \<in> set t"
  shows "(typ = 4 \<longrightarrow> snmp_set quote c s params = sent_units stack n [(ob, 4, map of_char v)] s)
    \<and> (typ = 2 \<longrightarrow>
        (case parse_int v 64 of
           Inl _ \<Rightarrow> refused (snmp_set quote c s params) s
         | Inr i \<Rightarrow>
             if - (2 ^ 31) \<le> i \<and> i < 2 ^ 31
             then \<exists>bs. be_nat bs = nat (i mod 2 ^ 32)
               \<and> snmp_set quote c s params = sent_units stack n [(ob, 2, bs)] s
             else refused (snmp_set quote c s params) (snd (send_begin n s))))
    \<and> (typ = 66 \<longrightarrow>
        (case parse_uint v 64 of
           Inl _ \<Rightarrow> refused (snmp_set quote c s params) s
         | Inr k \<Rightarrow> \<exists>bs. be_nat bs = k mod 2 ^ 32
             \<and> snmp_set quote c s params = sent_units stack n [(ob, 66, bs)] s))
    \<and> (typ = 64 \<longrightarrow>
        (case IPtoHEX v of
           Ok h \<Rightarrow> refused (snmp_set quote c s params) (snd (send_begin n s))
         | Err e \<Rightarrow> refused (snmp_set quote c s params) s
         | Panic m \<Rightarrow> snmp_set quote c s params = (Panic m, s)))
    \<and> (typ \<notin> {4, 2, 66, 64} \<longrightarrow> refused (snmp_set quote c s params) s)"
proof -
  have "typ = 4 \<Longrightarrow> snmp_set quote c s params = sent_units stack n [(ob, 4, map of_char v)] s"
    using gosnmp_Set_one [where oid_err = oid_err and ob = ob and t = OctetString and x = "VStr v" and parse_ip = parse_ip and n = n and s = s
      and stack = stack, OF assms(2)]
    by (simp add: snmp_set_eq [OF assms(3-5)] read_then_def set_value_def lib marshal_value_def ber_defs)
  then show ?thesis
    using set_integer_sent [OF assms(1-5), of quote s] set_gauge_sent [OF assms(1-5), of quote s]
      set_address_refused [OF assms(1-6), of quote s] set_other_refused [OF assms(1,3-5), of quote s]
    by blast
qed

text \<open>A connection with version 3 that counts the packets it sends.\<close>

definition example_conn :: "((string \<times> byte \<times> byte list) list \<Rightarrow> nat snmp_op) \<Rightarrow> nat snmp_conn" where
  "example_conn net = \<lparr>sn_missing = (\<lambda>_. False), sn_v3 = True, sn_negotiate = (\<lambda>n. (None, Suc n)),
     sn_ready = (\<lambda>n. (None, n)), sn_exchange = net\<rparr>"

definition example_snmp ::
  "((string \<times> byte \<times> byte list) list \<Rightarrow> nat snmp_op) \<Rightarrow> nat snmp_cli" where
  "example_snmp net = \<lparr>cli_Get = (\<lambda>os n. (Ok \<lparr>pk_Error = 0, pk_Variables = []\<rparr>, n)),
     cli_GetNext = (\<lambda>os n. (Err ''timeout'', n)), cli_GetBulk = (\<lambda>os a b n. (Err ''timeout'', n)),
     cli_Walk = (\<lambda>r n. (([], None), n)), cli_BulkWalk = (\<lambda>r n. (([], None), n)),
     cli_Set = gosnmp_Set (\<lambda>_. None) (\<lambda>_. None) ''stack'' (example_conn net),
     cli_SendTrap = (\<lambda>t n. (Err ''timeout'', n))\<rparr>"

definition example_set :: "string \<Rightarrow> string \<Rightarrow> gval" where
  "example_set typ v = GMap [(''oid'', GStr ''1.3''), (''type'', GNum typ), (''value'', GStr v)]"

lemma example_address: "\<exists>h. IPtoHEX ''10.0.0.1'' = Ok h"
  by (simp add: IPtoHEX_def ip_part_def parse_uint_def digit_val_def)

lemma set_reaches_device_witness:
  "refused (snmp_set (\<lambda>s. s) (example_snmp (\<lambda>us n. (Err ''timeout'', Suc n))) 0 (example_set ''64'' ''10.0.0.1'')) 1
   \<and> snmp_set (\<lambda>s. s) (example_snmp (\<lambda>us n. (Err ''timeout'', Suc n))) 0 (example_set ''4'' ''on'')
       = packet_result (Err ''timeout'', 2)"
proof
  let ?c = "example_snmp (\<lambda>us n. (Err ''timeout'', Suc n))"
  note t = set_reaches_device [of ?c "\<lambda>_. None" "\<lambda>_. None" "''stack''" "example_conn (\<lambda>us n. (Err ''timeout'', Suc n))" "''1.3''"
      "example_set ty v" ty' v "\<lambda>s. s" 0 for ty ty' v]
  obtain h where "IPtoHEX ''10.0.0.1'' = Ok h" using example_address by blast
  then show "refused (snmp_set (\<lambda>s. s) ?c 0 (example_set ''64'' ''10.0.0.1'')) 1"
    using t [of "''64''" "''10.0.0.1''" 64]
    by (simp add: example_snmp_def example_conn_def example_set_def Get_key getUint8_def read_number send_begin_def)
  show "snmp_set (\<lambda>s. s) ?c 0 (example_set ''4'' ''on'') = packet_result (Err ''timeout'', 2)"
    using t [of "''4''" "''on''" 4]
    by (subst numeral_2_eq_2)
      (simp add: example_snmp_def example_conn_def example_set_def Get_key getUint8_def read_number send_begin_def sent_units_def)
qed

section \<open>Traps\<close>

text \<open>All units of a trap carry the type and the value at the top of the request, whatever the elements
  of \<open>variables\<close> hold: only the identifier is read from the element.\<close>

lemma pdu_list_shares:
  "pdu_list params vs = Ok ps \<Longrightarrow> ps = map (\<lambda>v. \<lparr>vb_Name = Str (Get v ''oid''),
     vb_Type = word_of_int (case parse_int (case Get params ''type'' of GNum n \<Rightarrow> n) 64 of Inr i \<Rightarrow> i),
     vb_Value = VAny (Get params ''value'')\<rparr>) vs"
  by (induction vs arbitrary: ps) (auto simp: go_simps getUint8_Ok split: if_splits)

text \<open>the units of a trap differ in their identifiers only: type and value are read from the request
  instead of the element, so a trap with different values per variable cannot be sent.\<close>

theorem trap_units_share_value:
  assumes "parsePDU params k = Ok ps" and "p \<in> set ps" and "q \<in> set ps"
  shows "vb_Type p = vb_Type q \<and> vb_Value p = vb_Value q \<and> vb_Value p = VAny (Get params ''value'')"
  using assms by (auto simp: parsePDU_def dest!: pdu_list_shares split: option.splits)

section \<open>Panics\<close>

definition sane_snmp :: "'s snmp_cli \<Rightarrow> bool" where
  "sane_snmp c \<longleftrightarrow> (\<forall>os s. \<not> is_panic (fst (cli_Get c os s)) \<and> \<not> is_panic (fst (cli_GetNext c os s)))
     \<and> (\<forall>os a b s. \<not> is_panic (fst (cli_GetBulk c os a b s)))
     \<and> (\<forall>ps s. \<not> is_panic (fst (cli_Set c ps s))) \<and> (\<forall>t s. \<not> is_panic (fst (cli_SendTrap c t s)))"

lemma set_value_panic: "is_panic (set_value quote typ v) \<longleftrightarrow> typ = 64 \<and> is_panic (IPtoHEX v)"
  by (auto simp: set_value_def set_uint_def split: sum.splits)

text \<open>over a library that does not panic, the only request that panics the connector is the set of
  an address with fewer than four parts.\<close>

theorem snmp_panics_only_on_short_address:
  assumes "sane_snmp c" and "is_panic (fst (snmp_Call quote c s req))"
  shows "Method req = ''snmp-set'' \<and> getUint8 (Params req) ''type'' = Ok 64
    \<and> length (split_on CHR ''.'' (Str (Get (Params req) ''value''))) < 4"
proof -
  from assms(2) obtain h where m: "snmp_method quote (Method req) = Some h"
    and p: "is_panic (fst (h c s (Params req)))"
    by (auto simp: snmp_Call_def split: option.splits prod.splits)
  have others: "\<not> is_panic (fst (snmp_get c s (Params req)))" "\<not> is_panic (fst (snmp_getNext c s (Params req)))"
    "\<not> is_panic (fst (snmp_getBulk c s (Params req)))" "\<not> is_panic (fst (snmp_walk c s (Params req)))"
    "\<not> is_panic (fst (snmp_sendTrap c s (Params req)))"
    using assms(1)
    by (auto simp: snmp_get_def snmp_getNext_def snmp_getBulk_def snmp_walk_def walk_with_def
        snmp_sendTrap_def snmp_simps sane_snmp_def Let_def split: prod.splits option.splits)
  with m p have s: "Method req = ''snmp-set''" "h = snmp_set quote"
    by (auto simp: snmp_method_def split: if_splits)
  with p assms(1) have "\<exists>typ. getUint8 (Params req) ''type'' = Ok typ
      \<and> is_panic (set_value quote typ (Str (Get (Params req) ''value'')))"
    by (auto simp: snmp_set_def snmp_simps sane_snmp_def Let_def split: if_splits)
  with s(1) show ?thesis by (auto simp: set_value_panic dest: IPtoHEX_panic)
qed

lemma snmp_panics_only_on_short_address_witness:
  "\<exists>req. is_panic (fst (snmp_Call (\<lambda>s. s) ((example_snmp (\<lambda>us n. (Err ''timeout'', n)))\<lparr>cli_Set := \<lambda>ps n. (Err '''', n)\<rparr>) 0 req))
     \<and> length (split_on CHR ''.'' (Str (Get (Params req) ''value''))) < 4"
proof -
  let ?c = "(example_snmp (\<lambda>us n. (Err ''timeout'', n)))\<lparr>cli_Set := \<lambda>ps n. (Err '''', n)\<rparr>"
  let ?r = "\<lparr>JSONRPC = ''2.0'', Method = ''snmp-set'', ID = ''1'', Params = example_set ''64'' ''10.1''\<rparr>"
  have c: "sane_snmp ?c" by (simp add: sane_snmp_def example_snmp_def)
  have p: "is_panic (fst (snmp_Call (\<lambda>s. s) ?c 0 ?r))"
    by (simp add: snmp_Call_def snmp_method_def snmp_set_def example_set_def Get_key getUint8_def
        read_number read_then_def set_value_def IPtoHEX_def ip_part_def)
  from snmp_panics_only_on_short_address [OF c p] p show ?thesis by blast
qed

lemma trap_units_share_value_witness:
  "\<exists>p q. parsePDU (GMap [(''type'', GNum ''2''), (''value'', GStr ''1''),
       (''vs'', GArr [GMap [(''oid'', GStr ''1.1'')], GMap [(''oid'', GStr ''1.2''), (''value'', GStr ''7'')]])]) ''vs''
     = Ok [p, q] \<and> vb_Value p = vb_Value q"
proof -
  let ?p = "GMap [(''type'', GNum ''2''), (''value'', GStr ''1''),
       (''vs'', GArr [GMap [(''oid'', GStr ''1.1'')], GMap [(''oid'', GStr ''1.2''), (''value'', GStr ''7'')]])]"
  obtain p q where e: "parsePDU ?p ''vs'' = Ok [p, q]"
    by (simp add: parsePDU_def Get_key is_GMap_def getUint8_def read_number)
  from trap_units_share_value [OF this, of p q] e show ?thesis by simp
qed

end
