(* ===== verification/Opcua_Handler.thy ===== *)
theory Opcua_Handler
  imports Jsonrpc Edge_Prelude
begin

text \<open>
  The OPC UA connector (\<open>internal/app/opcua/handler\<close>): construction, reading a value, writing a
  value in the type the node has, and the recursive listing of variables (\<open>browse.go\<close>). The library
  gopcua is the record \<open>ua_cli\<close>: parsing of node identifiers, the read and write services over a
  state of the connection, and the nodes a browse sees. The accessors of its \<open>Variant\<close> that the
  connector calls are modelled with their behaviour on a nil pointer.
\<close>

section \<open>Values\<close>

text \<open>\<open>va_length\<close> is the array length, \<open>va_node\<close> the number and the text of a node identifier.\<close>

record variant =
  va_type :: nat
  va_length :: int
  va_value :: gval
  va_node :: "(nat \<times> string) option"

record data_value =
  dv_Status :: "32 word"
  dv_Value :: "variant option"

definition StatusOK :: "32 word" where "StatusOK = 0"
definition StatusBadAttributeIDInvalid :: "32 word" where "StatusBadAttributeIDInvalid = 0x80350000"

text \<open>A method call on the value: a nil pointer is dereferenced.\<close>

definition on_value :: "data_value \<Rightarrow> (variant \<Rightarrow> 'a) \<Rightarrow> ('a, 'e) go" where
  "on_value d f = (case dv_Value d of None \<Rightarrow> Panic ''nil pointer dereference'' | Some v \<Rightarrow> Ok (f v))"

definition Variant_Int :: "variant \<Rightarrow> int" where
  "Variant_Int v =
     (if va_length v > 0 then 0
      else if va_type v \<in> {2, 4, 6, 8} then (case va_value v of GInt i \<Rightarrow> i | _ \<Rightarrow> 0)
      else 0)"

definition Variant_Uint :: "variant \<Rightarrow> int" where
  "Variant_Uint v =
     (if va_length v > 0 then 0
      else if va_type v \<in> {3, 5, 7, 9} then (case va_value v of GInt i \<Rightarrow> i | _ \<Rightarrow> 0)
      else 0)"

definition Variant_String :: "variant \<Rightarrow> string" where
  "Variant_String v =
     (if va_length v > 0 then ''''
      else if va_type v \<in> {12, 16} then Str (va_value v)
      else if va_type v = 21 then (case va_value v of GMap m \<Rightarrow> Str (look m ''Text'') | _ \<Rightarrow> '''')
      else if va_type v = 20 then (case va_value v of GMap m \<Rightarrow> Str (look m ''Name'') | _ \<Rightarrow> '''')
      else '''')"

definition Variant_NodeID :: "variant \<Rightarrow> (nat \<times> string) option" where
  "Variant_NodeID v = (if va_length v > 0 then None else if va_type v = 17 then va_node v else None)"

section \<open>The library\<close>

datatype ua_input =
    IBool bool
  | IInt32 "32 word"
  | IUint32 "32 word"
  | IInt64 "64 word"
  | IUint64 "64 word"
  | IFloat "32 word"
  | IDouble "64 word"
  | IString string
  | ITime string

text \<open>What the nodes of the server show: identifier text, the five attributes asked for, and the nodes
  referenced forward by a type of reference.\<close>

record 'n ua_view =
  node_text :: "'n \<Rightarrow> string"
  attributes :: "'n \<Rightarrow> (data_value list, string) go"
  referenced :: "'n \<Rightarrow> nat \<Rightarrow> ('n list, string) go"

record ('s, 'n) ua_cli =
  parse_node :: "string \<Rightarrow> string + 'n"
  ua_Read :: "'n \<Rightarrow> 's \<Rightarrow> (data_value list, string) go \<times> 's"
  ua_Write :: "'n \<Rightarrow> ua_input \<Rightarrow> 's \<Rightarrow> (32 word list, string) go \<times> 's"
  ua_nodes :: "'s \<Rightarrow> 'n ua_view"

text \<open>Conversions of the standard library and texts of the library.\<close>

record ua_env =
  parse_float :: "string \<Rightarrow> nat \<Rightarrow> num_error + 64 word"
  to_float32 :: "64 word \<Rightarrow> 32 word"
  parse_time :: "string \<Rightarrow> string + string"
  uquote :: "string \<Rightarrow> string"
  type_text :: "nat \<Rightarrow> string"
  status_text :: "32 word \<Rightarrow> string"

section \<open>Construction\<close>

datatype 'ep ua_option =
    SecurityModeString string
  | SecurityPolicy string
  | CertificateFile string
  | PrivateKeyFile string
  | AuthAnonymous
  | SecurityFromEndpoint 'ep

definition opcua_New ::
  "(string \<Rightarrow> string + 'ep list) \<Rightarrow> ('ep list \<Rightarrow> string \<Rightarrow> string \<Rightarrow> 'ep option)
     \<Rightarrow> (string \<Rightarrow> 'ep ua_option list \<Rightarrow> string option)
     \<Rightarrow> string \<Rightarrow> string \<Rightarrow> string \<Rightarrow> string \<Rightarrow> string \<Rightarrow> ('ep ua_option list, string) go" where
  "opcua_New getEndpoints select connect endpoint encryption mode serverCert serverKey =
     go_bind
       (if mode = ''None'' then Ok [SecurityModeString mode]
        else
          (case getEndpoints endpoint of
             Inl e \<Rightarrow> Err e
           | Inr eps \<Rightarrow>
               (case select eps encryption mode of
                  None \<Rightarrow> Err ''opcua.new: failed to find suitable endpoint''
                | Some ep \<Rightarrow>
                    Ok [SecurityPolicy encryption, SecurityModeString mode, CertificateFile serverCert,
                        PrivateKeyFile serverKey, AuthAnonymous, SecurityFromEndpoint ep])))
       (\<lambda>opts. case connect endpoint opts of Some e \<Rightarrow> Err e | None \<Rightarrow> Ok opts)"

section \<open>Reading\<close>

text \<open>The first result of a service; the slice may be empty.\<close>

definition first_result :: "'a list \<Rightarrow> ('a, 'e) go" where
  "first_result rs = (case rs of [] \<Rightarrow> Panic ''index out of range'' | r # _ \<Rightarrow> Ok r)"

definition status_error :: "32 word \<Rightarrow> string" where
  "status_error st = ''status not OK: '' @ dec_of_nat (unat st)"

definition opcua_read :: "('s, 'n) ua_cli \<Rightarrow> 's \<Rightarrow> gval \<Rightarrow> (gval, gerror) go \<times> 's" where
  "opcua_read c s params =
     (case parse_node c (Str (Get params ''node_id'')) of
        Inl e \<Rightarrow> (Err (GoErr (''invalid node id: '' @ e)), s)
      | Inr nodeID \<Rightarrow>
          (case ua_Read c nodeID s of
             (Err e, s') \<Rightarrow> (Err (GoErr (''read failed: '' @ e)), s')
           | (Panic m, s') \<Rightarrow> (Panic m, s')
           | (Ok results, s') \<Rightarrow>
               (go_bind (first_result results) (\<lambda>r.
                  if dv_Status r \<noteq> StatusOK then Err (GoErr (status_error (dv_Status r)))
                  else on_value r va_value), s')))"

section \<open>Writing\<close>

definition getType :: "('s, 'n) ua_cli \<Rightarrow> 's \<Rightarrow> 'n \<Rightarrow> (nat, gerror) go \<times> 's" where
  "getType c s nodeID =
     (case ua_Read c nodeID s of
        (Err e, s') \<Rightarrow> (Err (GoErr (''read while write failed: '' @ e)), s')
      | (Panic m, s') \<Rightarrow> (Panic m, s')
      | (Ok results, s') \<Rightarrow>
          (go_bind (first_result results) (\<lambda>r.
             if dv_Status r \<noteq> StatusOK then Err (GoErr (status_error (dv_Status r)))
             else on_value r va_type), s'))"

definition invalid_value :: "string \<Rightarrow> gerror" where
  "invalid_value e = GoErr (''invalid value: '' @ e)"

definition number :: "ua_env \<Rightarrow> string \<Rightarrow> string \<Rightarrow> num_error + 'a \<Rightarrow> ('a \<Rightarrow> ua_input) \<Rightarrow> (ua_input, gerror) go" where
  "number e fn v r f =
     (case r of
        Inl x \<Rightarrow> Err (invalid_value (num_error_text (uquote e) fn v x))
      | Inr y \<Rightarrow> Ok (f y))"

text \<open>The value to write, by the type the node has now.\<close>

definition string_input :: "string \<Rightarrow> (ua_input, gerror) go" where
  [simp]: "string_input v = Ok (IString v)"

definition time_input :: "ua_env \<Rightarrow> string \<Rightarrow> (ua_input, gerror) go" where
  [simp]: "time_input e v = (case parse_time e v of Inl x \<Rightarrow> Err (invalid_value x) | Inr y \<Rightarrow> Ok (ITime y))"

definition write_input :: "ua_env \<Rightarrow> nat \<Rightarrow> string \<Rightarrow> (ua_input, gerror) go" where
  "write_input e t v =
     (if t = 1 then number e ''ParseBool'' v (parse_bool v) IBool
      else if t = 6 then number e ''ParseInt'' v (parse_int v 32) (\<lambda>i. IInt32 (word_of_int i))
      else if t = 7 then number e ''ParseUint'' v (parse_uint v 32) (\<lambda>n. IUint32 (word_of_nat n))
      else if t = 8 then number e ''ParseInt'' v (parse_int v 64) (\<lambda>i. IInt64 (word_of_int i))
      else if t = 9 then number e ''ParseUint'' v (parse_uint v 64) (\<lambda>n. IUint64 (word_of_nat n))
      else if t = 10 then number e ''ParseFloat'' v (parse_float e v 32) (\<lambda>x. IFloat (to_float32 e x))
      else if t = 11 then number e ''ParseFloat'' v (parse_float e v 64) IDouble
      else if t = 12 then string_input v
      else if t = 13 then time_input e v
      else Err (GoErr (''write failed: unsupported type of node - '' @ type_text e t)))"

text \<open>The result is a pointer to the first status of the answer, whatever the status is.\<close>

definition opcua_write :: "ua_env \<Rightarrow> ('s, 'n) ua_cli \<Rightarrow> 's \<Rightarrow> gval \<Rightarrow> (gval, gerror) go \<times> 's" where
  "opcua_write e c s params =
     (case parse_node c (Str (Get params ''node_id'')) of
        Inl x \<Rightarrow> (Err (GoErr (''invalid node id: '' @ x)), s)
      | Inr nodeID \<Rightarrow>
          (case getType c s nodeID of
             (Err x, s1) \<Rightarrow> (Err x, s1)
           | (Panic m, s1) \<Rightarrow> (Panic m, s1)
           | (Ok t, s1) \<Rightarrow>
               (case write_input e t (Str (Get params ''value'')) of
                  Err x \<Rightarrow> (Err x, s1)
                | Panic m \<Rightarrow> (Panic m, s1)
                | Ok input \<Rightarrow>
                    (case ua_Write c nodeID input s1 of
                       (Err x, s2) \<Rightarrow> (Err (GoErr (''write failed: '' @ x)), s2)
                     | (Panic m, s2) \<Rightarrow> (Panic m, s2)
                     | (Ok results, s2) \<Rightarrow>
                         (go_map (\<lambda>st. GInt (uint st)) (first_result results), s2)))))"

section \<open>Browsing\<close>

record node_def =
  NodeID :: string
  NodeClass :: "32 word"
  AccessLevel :: byte
  Writable :: bool
  BrowseName :: string
  Description :: string
  Path :: string
  DataType :: string
  Unit :: string
  Scale :: string
  Min :: string
  Max :: string

definition new_def :: "string \<Rightarrow> node_def" where
  "new_def i = \<lparr>NodeID = i, NodeClass = 0, AccessLevel = 0, Writable = False, BrowseName = '''',
     Description = '''', Path = '''', DataType = '''', Unit = '''', Scale = '''', Min = '''', Max = ''''\<rparr>"

definition records :: "node_def \<Rightarrow> string list" where
  "records n = [BrowseName n, DataType n, NodeID n, Unit n, Scale n, Min n, Max n,
     (if Writable n then ''true'' else ''false''), Description n]"

definition node_json :: "node_def \<Rightarrow> gval" where
  "node_json n = GMap [(''node_id'', GStr (NodeID n)), (''node_class'', GInt (uint (NodeClass n))),
     (''access_level'', GInt (uint (AccessLevel n))), (''writable'', GBool (Writable n)),
     (''browse_name'', GStr (BrowseName n)), (''description'', GStr (Description n)),
     (''path'', GStr (Path n)), (''data_type'', GStr (DataType n)), (''unit'', GStr (Unit n)),
     (''scale'', GStr (Scale n)), (''min'', GStr (Min n)), (''max'', GStr (Max n))]"

definition join :: "string \<Rightarrow> string \<Rightarrow> string" where
  "join a b = (if a = '''' then b else a @ ''.'' @ b)"

text \<open>One attribute: its value goes into the definition, an attribute the node does not have is skipped
  when \<open>optional\<close>, any other status is the error.\<close>

definition fill_attr ::
  "(32 word \<Rightarrow> string) \<Rightarrow> data_value list \<Rightarrow> nat \<Rightarrow> bool \<Rightarrow> (data_value \<Rightarrow> node_def \<Rightarrow> (node_def, string) go)
     \<Rightarrow> node_def \<Rightarrow> (node_def, string) go" where
  "fill_attr text attrs i optional f d =
     (if i < length attrs then
        (let st = dv_Status (attrs ! i) in
         if st = StatusOK then f (attrs ! i) d
         else if optional \<and> st = StatusBadAttributeIDInvalid then Ok d
         else Err (text st))
      else Panic ''index out of range'')"

definition type_name :: "nat \<Rightarrow> string option" where
  "type_name v =
     (if v = 13 then Some ''time.Time'' else if v = 1 then Some ''bool'' else if v = 2 then Some ''int8''
      else if v = 4 then Some ''int16'' else if v = 6 then Some ''int32'' else if v = 8 then Some ''int64''
      else if v = 3 then Some ''byte'' else if v = 5 then Some ''uint16'' else if v = 7 then Some ''uint32''
      else if v = 9 then Some ''uint64'' else if v = 294 then Some ''time.Time''
      else if v = 12 then Some ''string'' else if v = 10 then Some ''float32''
      else if v = 11 then Some ''float64'' else None)"

definition fillDataType :: "(32 word \<Rightarrow> string) \<Rightarrow> data_value list \<Rightarrow> node_def \<Rightarrow> (node_def, string) go" where
  "fillDataType text attrs d =
     fill_attr text attrs 4 True (\<lambda>v d.
       go_bind (on_value v Variant_NodeID) (\<lambda>n.
         case n of
           None \<Rightarrow> Panic ''nil pointer dereference''
         | Some (i, t) \<Rightarrow> Ok (d\<lparr>DataType := (case type_name i of Some x \<Rightarrow> x | None \<Rightarrow> t)\<rparr>))) d"

definition fillStatus :: "(32 word \<Rightarrow> string) \<Rightarrow> data_value list \<Rightarrow> node_def \<Rightarrow> (node_def, string) go" where
  "fillStatus text attrs d =
     go_bind (fill_attr text attrs 0 False (\<lambda>v d.
       go_map (\<lambda>i. d\<lparr>NodeClass := word_of_int i\<rparr>) (on_value v Variant_Int)) d) (\<lambda>d.
     go_bind (fill_attr text attrs 1 False (\<lambda>v d.
       go_map (\<lambda>t. d\<lparr>BrowseName := t\<rparr>) (on_value v Variant_String)) d) (\<lambda>d.
     go_bind (fill_attr text attrs 2 True (\<lambda>v d.
       go_map (\<lambda>t. d\<lparr>Description := t\<rparr>) (on_value v Variant_String)) d) (\<lambda>d.
     go_bind (fill_attr text attrs 3 True (\<lambda>v d.
       go_map (\<lambda>i. d\<lparr>AccessLevel := word_of_int i, Writable := (word_of_int i AND (2 :: byte) = 2)\<rparr>)
         (on_value v Variant_Uint)) d) (\<lambda>d.
     fillDataType text attrs d))))"

text \<open>The references followed, in this order: components, organised nodes, properties.\<close>

definition HasComponent :: nat where "HasComponent = 47"
definition Organizes :: nat where "Organizes = 35"
definition HasProperty :: nat where "HasProperty = 46"

text \<open>The results of a function on a list, one after the other, until one fails.\<close>

fun collect :: "('a \<Rightarrow> ('b list, 'e) go) \<Rightarrow> 'a list \<Rightarrow> ('b list, 'e) go" where
  "collect f [] = Ok []"
| "collect f (x # xs) = go_bind (f x) (\<lambda>ys. go_map ((@) ys) (collect f xs))"

lemma collect_cong [fundef_cong]:
  "xs = ys \<Longrightarrow> (\<And>x. x \<in> set ys \<Longrightarrow> f x = g x) \<Longrightarrow> collect f xs = collect g ys"
  by (induction ys arbitrary: xs) auto

definition browseChildren ::
  "'n ua_view \<Rightarrow> ('n \<Rightarrow> (node_def list, string) go) \<Rightarrow> 'n \<Rightarrow> nat \<Rightarrow> (node_def list, string) go" where
  "browseChildren V rec n refType =
     (case referenced V n refType of
        Err e \<Rightarrow> Err (''references: '' @ dec_of_nat refType @ '': '' @ e)
      | Panic m \<Rightarrow> Panic m
      | Ok refs \<Rightarrow> collect (\<lambda>rn. map_err (\<lambda>e. ''browse children: '' @ e) (rec rn)) refs)"

definition buildNodeList ::
  "'n ua_view \<Rightarrow> ('n \<Rightarrow> (node_def list, string) go) \<Rightarrow> node_def \<Rightarrow> 'n \<Rightarrow> (node_def list, string) go" where
  "buildNodeList V rec d n =
     go_bind (browseChildren V rec n HasComponent) (\<lambda>a.
     go_bind (browseChildren V rec n Organizes) (\<lambda>b.
     go_map (\<lambda>c. (if NodeClass d = 2 then [d] else []) @ a @ b @ c)
       (browseChildren V rec n HasProperty)))"

lemma browseChildren_cong [fundef_cong]:
  "V = W \<Longrightarrow> n = m \<Longrightarrow> t = u \<Longrightarrow> (\<And>x. f x = g x) \<Longrightarrow> browseChildren V f n t = browseChildren W g m u"
  by (simp add: ext [of f g])

lemma buildNodeList_cong [fundef_cong]:
  "V = W \<Longrightarrow> d = d' \<Longrightarrow> n = m \<Longrightarrow> (\<And>x. f x = g x) \<Longrightarrow> buildNodeList V f d n = buildNodeList W g d' m"
  by (simp add: ext [of f g])

function browse ::
  "(32 word \<Rightarrow> string) \<Rightarrow> 'n ua_view \<Rightarrow> 'n \<Rightarrow> string \<Rightarrow> nat \<Rightarrow> (node_def list, string) go" where
  "browse text V n path level =
     (if level > 10 then Ok []
      else
        go_bind (attributes V n) (\<lambda>attrs.
        go_bind (fillStatus text attrs (new_def (node_text V n))) (\<lambda>d.
          let d = d\<lparr>Path := join path (BrowseName d)\<rparr> in
          buildNodeList V (\<lambda>rn. browse text V rn (Path d) (level + 1)) d n)))"
  by pat_completeness auto
termination
  by (relation "measure (\<lambda>(_, _, _, _, level). 11 - level)") auto

declare browse.simps [simp del]

text \<open>A nil slice, the result when no variable was found, is the JSON text \<open>null\<close>.\<close>

definition nodes_json :: "node_def list \<Rightarrow> gval" where
  "nodes_json ns = (if ns = [] then GRaw ''null'' else GArr (map node_json ns))"

definition opcua_browse :: "ua_env \<Rightarrow> ('s, 'n) ua_cli \<Rightarrow> 's \<Rightarrow> gval \<Rightarrow> (gval, gerror) go \<times> 's" where
  "opcua_browse e c s params =
     (case parse_node c (Str (Get params ''node_id'')) of
        Inl x \<Rightarrow> (Err (GoErr (''invalid node id: '' @ x)), s)
      | Inr nodeID \<Rightarrow>
          (map_err GoErr (go_map nodes_json (browse (status_text e) (ua_nodes c s) nodeID '''' 0)), s))"

section \<open>Dispatch\<close>

definition opcua_Call :: "ua_env \<Rightarrow> ('s, 'n) ua_cli \<Rightarrow> 's caller" where
  "opcua_Call e c s req =
     (if Method req = ''opcua-read'' then apfst (go_map RVal) (opcua_read c s (Params req))
      else if Method req = ''opcua-write'' then apfst (go_map RVal) (opcua_write e c s (Params req))
      else if Method req = ''opcua-browse'' then apfst (go_map RVal) (opcua_browse e c s (Params req))
      else (Err (method_not_found (Method req)), s))"

section \<open>What a browse lists\<close>

text \<open>
  The reference: the variables at the ends of chains of references. \<open>node_of\<close> is the definition
  of a node without its path, \<open>chain\<close> a list of nodes each referenced by the one before.
\<close>

definition node_of :: "(32 word \<Rightarrow> string) \<Rightarrow> 'n ua_view \<Rightarrow> 'n \<Rightarrow> (node_def, string) go" where
  "node_of text V n = go_bind (attributes V n) (\<lambda>attrs. fillStatus text attrs (new_def (node_text V n)))"

definition name_of :: "(32 word \<Rightarrow> string) \<Rightarrow> 'n ua_view \<Rightarrow> 'n \<Rightarrow> string" where
  "name_of text V n = (case node_of text V n of Ok d \<Rightarrow> BrowseName d | _ \<Rightarrow> '''')"

definition children :: "'n ua_view \<Rightarrow> 'n \<Rightarrow> 'n list" where
  "children V n = concat (map (\<lambda>t. case referenced V n t of Ok ms \<Rightarrow> ms | _ \<Rightarrow> [])
     [HasComponent, Organizes, HasProperty])"

fun chain :: "'n ua_view \<Rightarrow> 'n list \<Rightarrow> bool" where
  "chain V [] = False"
| "chain V [n] = True"
| "chain V (n # m # ns) = (m \<in> set (children V n) \<and> chain V (m # ns))"

definition listed :: "(32 word \<Rightarrow> string) \<Rightarrow> 'n ua_view \<Rightarrow> 'n \<Rightarrow> string \<Rightarrow> nat \<Rightarrow> node_def set" where
  "listed text V n path k =
     {d\<lparr>Path := foldl join path (map (name_of text V) ns)\<rparr> | ns d.
        chain V ns \<and> hd ns = n \<and> length ns \<le> k \<and> node_of text V (last ns) = Ok d \<and> NodeClass d = 2}"

lemma listed_0: "listed text V n path 0 = {}"
  by (auto simp: listed_def)

lemma listed_Suc:
  "listed text V n path (Suc k) =
     {d\<lparr>Path := join path (name_of text V n)\<rparr> | d. node_of text V n = Ok d \<and> NodeClass d = 2}
     \<union> (\<Union>m \<in> set (children V n). listed text V m (join path (name_of text V n)) k)"
  (is "?longer = ?steps")
proof (rule subset_antisym)
  show "?longer \<subseteq> ?steps"
  proof
    fix x assume "x \<in> ?longer"
    then obtain ns d where c: "chain V ns" "hd ns = n" "length ns \<le> Suc k"
      "node_of text V (last ns) = Ok d" "NodeClass d = 2"
      and x: "x = d\<lparr>Path := foldl join path (map (name_of text V) ns)\<rparr>"
      by (auto simp: listed_def)
    show "x \<in> ?steps"
    proof (cases "(V, ns)" rule: chain.cases)
      case (3 V' a m ms)
      with c have e: "ns = n # m # ms" "m \<in> set (children V n)" "chain V (m # ms)" "length (m # ms) \<le> k"
        by auto
      then have "x \<in> listed text V m (join path (name_of text V n)) k"
        unfolding listed_def x using c(4,5)
        by (intro CollectI exI [of _ "m # ms"] exI [of _ d]) auto
      with e(2) show ?thesis by blast
    qed (use c x in auto)
  qed
  show "?steps \<subseteq> ?longer"
  proof (intro Un_least UN_least subsetI)
    fix x assume "x \<in> {d\<lparr>Path := join path (name_of text V n)\<rparr> | d. node_of text V n = Ok d \<and> NodeClass d = 2}"
    then obtain d where "x = d\<lparr>Path := join path (name_of text V n)\<rparr>" "node_of text V n = Ok d" "NodeClass d = 2"
      by blast
    then show "x \<in> ?longer" unfolding listed_def
      by (intro CollectI exI [of _ "[n]"] exI [of _ d]) auto
  next
    fix m x assume m: "m \<in> set (children V n)" and "x \<in> listed text V m (join path (name_of text V n)) k"
    then obtain ns d where c: "chain V ns" "hd ns = m" "length ns \<le> k"
      "node_of text V (last ns) = Ok d" "NodeClass d = 2"
      and x: "x = d\<lparr>Path := foldl join (join path (name_of text V n)) (map (name_of text V) ns)\<rparr>"
      by (auto simp: listed_def)
    then have "chain V (n # ns)" "ns \<noteq> []" using m by (cases ns; auto)+
    with c x show "x \<in> ?longer" unfolding listed_def
      by (intro CollectI exI [of _ "n # ns"] exI [of _ d]) auto
  qed
qed

lemma collect_Ok:
  "collect f xs = Ok ys \<Longrightarrow>
     (\<forall>x \<in> set xs. \<exists>zs. f x = Ok zs) \<and> set ys = (\<Union>x \<in> set xs. {y. \<exists>zs. f x = Ok zs \<and> y \<in> set zs})"
  by (induction xs arbitrary: ys) (fastforce simp: go_simps)+

lemma browseChildren_Ok:
  assumes "browseChildren V rec n t = Ok ys"
  shows "\<exists>ms. referenced V n t = Ok ms \<and> (\<forall>m \<in> set ms. \<exists>zs. rec m = Ok zs)
    \<and> set ys = (\<Union>m \<in> set ms. {y. \<exists>zs. rec m = Ok zs \<and> y \<in> set zs})"
  using assms by (auto simp: browseChildren_def go_simps split: go.splits dest!: collect_Ok)

lemma buildNodeList_Ok:
  assumes "buildNodeList V rec d n = Ok ys"
  shows "(\<forall>m \<in> set (children V n). \<exists>zs. rec m = Ok zs)
    \<and> set ys = {x. x = d \<and> NodeClass d = 2}
      \<union> (\<Union>m \<in> set (children V n). {y. \<exists>zs. rec m = Ok zs \<and> y \<in> set zs})"
  using assms unfolding buildNodeList_def children_def
  by (auto simp: go_simps dest!: browseChildren_Ok split: if_splits)

lemma browse_listed:
  "browse stx V n path level = Ok ds \<Longrightarrow> set ds = listed stx V n path (11 - level)"
proof (induction stx V n path level arbitrary: ds rule: browse.induct)
  case (1 stx V n path level)
  show ?case
  proof (cases "level > 10")
    case True
    with "1.prems" show ?thesis by (simp add: browse.simps [of stx V n path level] listed_0)
  next
    case False
    then obtain attrs d0 where a: "attributes V n = Ok attrs"
      and f: "fillStatus stx attrs (new_def (node_text V n)) = Ok d0"
      and b: "buildNodeList V (\<lambda>rn. browse stx V rn (join path (BrowseName d0)) (level + 1))
          (d0\<lparr>Path := join path (BrowseName d0)\<rparr>) n = Ok ds"
      using "1.prems" by (auto simp: browse.simps [of stx V n path level] go_simps Let_def)
    from a f have n: "node_of stx V n = Ok d0" "name_of stx V n = BrowseName d0"
      by (simp_all add: node_of_def name_of_def)
    note ih = "1.IH" [OF False a f refl, unfolded simp_thms, simplified]
    from buildNodeList_Ok [OF b] have c: "\<forall>m \<in> set (children V n).
          \<exists>zs. browse stx V m (join path (BrowseName d0)) (level + 1) = Ok zs"
      and s: "set ds = {x. x = d0\<lparr>Path := join path (BrowseName d0)\<rparr> \<and> NodeClass d0 = 2}
        \<union> (\<Union>m \<in> set (children V n).
            {y. \<exists>zs. browse stx V m (join path (BrowseName d0)) (level + 1) = Ok zs \<and> y \<in> set zs})"
      by auto
    have "{y. \<exists>zs. browse stx V m (join path (BrowseName d0)) (level + 1) = Ok zs \<and> y \<in> set zs}
        = listed stx V m (join path (BrowseName d0)) (10 - level)" if m: "m \<in> set (children V n)" for m
    proof -
      from c m obtain zs where z: "browse stx V m (join path (BrowseName d0)) (level + 1) = Ok zs" by blast
      with ih [of m zs] show ?thesis by simp
    qed
    then have "set ds = {x. x = d0\<lparr>Path := join path (BrowseName d0)\<rparr> \<and> NodeClass d0 = 2}
        \<union> (\<Union>m \<in> set (children V n). listed stx V m (join path (BrowseName d0)) (10 - level))"
      using s by simp
    moreover have "11 - level = Suc (10 - level)" using False by simp
    ultimately show ?thesis
      by (simp only: listed_Suc n) auto
  qed
qed

section \<open>Properties\<close>

text \<open>C21: a browse ends on every server, cyclic references included, and lists exactly the variables at
  the end of a chain of at most ten forward references from the node, each under the path of the browse
  names along a chain.\<close>

theorem browse_lists_reachable_variables:
  assumes "browse text V n '''' 0 = Ok ds"
  shows "d \<in> set ds \<longleftrightarrow> (\<exists>ns d0. chain V ns \<and> hd ns = n \<and> length ns \<le> 11
    \<and> node_of text V (last ns) = Ok d0 \<and> NodeClass d0 = 2
    \<and> d = d0\<lparr>Path := foldl join '''' (map (name_of text V) ns)\<rparr>)"
  using browse_listed [OF assms] by (auto simp: listed_def)

definition example_attrs :: "int \<Rightarrow> string \<Rightarrow> data_value list" where
  "example_attrs cls name =
     [\<lparr>dv_Status = 0, dv_Value = Some \<lparr>va_type = 6, va_length = 0, va_value = GInt cls, va_node = None\<rparr>\<rparr>,
      \<lparr>dv_Status = 0, dv_Value = Some \<lparr>va_type = 20, va_length = 0,
         va_value = GMap [(''Name'', GStr name)], va_node = None\<rparr>\<rparr>,
      \<lparr>dv_Status = StatusBadAttributeIDInvalid, dv_Value = None\<rparr>,
      \<lparr>dv_Status = 0, dv_Value = Some \<lparr>va_type = 3, va_length = 0, va_value = GInt 3, va_node = None\<rparr>\<rparr>,
      \<lparr>dv_Status = 0, dv_Value = Some \<lparr>va_type = 17, va_length = 0, va_value = GNil,
         va_node = Some (11, ''i=11'')\<rparr>\<rparr>]"

text \<open>Two nodes: a folder and a variable under it.\<close>

definition example_view :: "nat ua_view" where
  "example_view = \<lparr>node_text = (\<lambda>n. if n = 0 then ''i=1'' else ''i=2''),
     attributes = (\<lambda>n. Ok (if n = 0 then example_attrs 1 ''plant'' else example_attrs 2 ''temp'')),
     referenced = (\<lambda>n t. Ok (if n = 0 \<and> t = HasComponent then [1] else []))\<rparr>"

lemma example_view_fields:
  "node_text example_view n = (if n = 0 then ''i=1'' else ''i=2'')"
  "attributes example_view n = Ok (if n = 0 then example_attrs 1 ''plant'' else example_attrs 2 ''temp'')"
  "referenced example_view n t = Ok (if n = 0 \<and> t = HasComponent then [1] else [])"
  by (simp_all add: example_view_def)

lemmas browse_eval = example_view_fields example_attrs_def fillStatus_def fill_attr_def fillDataType_def
  StatusOK_def StatusBadAttributeIDInvalid_def on_value_def Variant_Int_def Variant_Uint_def
  Variant_String_def Variant_NodeID_def new_def_def type_name_def buildNodeList_def browseChildren_def
  look_def HasComponent_def Organizes_def HasProperty_def

lemma example_leaf: "browse t example_view (Suc 0) p (Suc 0) = Ok
    [(new_def ''i=2'')\<lparr>NodeClass := 2, AccessLevel := 3, Writable := True, BrowseName := ''temp'',
       DataType := ''float64'', Path := join p ''temp''\<rparr>]"
  by (subst browse.simps) (simp add: browse_eval)

lemma example_root: "browse t example_view 0 '''' 0 = Ok
    [(new_def ''i=2'')\<lparr>NodeClass := 2, AccessLevel := 3, Writable := True, BrowseName := ''temp'',
       DataType := ''float64'', Path := ''plant.temp''\<rparr>]"
  by (subst browse.simps) (simp add: example_leaf browse_eval join_def)

lemma browse_lists_reachable_variables_witness:
  "\<exists>ns d0. chain example_view ns \<and> hd ns = 0 \<and> length ns \<le> 11
    \<and> node_of (\<lambda>_. ''bad'') example_view (last ns) = Ok d0 \<and> NodeClass d0 = 2
    \<and> ''plant.temp'' = foldl join '''' (map (name_of (\<lambda>_. ''bad'') example_view) ns)"
proof -
  let ?t = "\<lambda>_. ''bad''" and ?d = "(new_def ''i=2'')\<lparr>NodeClass := 2, AccessLevel := 3, Writable := True,
      BrowseName := ''temp'', DataType := ''float64'', Path := ''plant.temp''\<rparr>"
  obtain ns d0 where c: "chain example_view ns" "hd ns = 0" "length ns \<le> 11"
    "node_of ?t example_view (last ns) = Ok d0" "NodeClass d0 = 2"
    and e: "?d = d0\<lparr>Path := foldl join '''' (map (name_of ?t example_view) ns)\<rparr>"
    using browse_lists_reachable_variables [OF example_root [of ?t], of ?d] by auto
  from arg_cong [OF e, of Path] have "''plant.temp'' = foldl join '''' (map (name_of ?t example_view) ns)"
    by simp
  with c show ?thesis by blast
qed

section \<open>A null value\<close>

definition reads_null :: "('s, 'n) ua_cli \<Rightarrow> 's \<Rightarrow> request \<Rightarrow> bool" where
  "reads_null c s req \<longleftrightarrow> Method req = ''opcua-read'' \<and>
     (\<exists>n r rs s' v. parse_node c (Str (Get (Params req) ''node_id'')) = Inr n
        \<and> ua_Read c n s = (Ok (r # rs), s') \<and> dv_Status r = StatusOK
        \<and> dv_Value r = Some v \<and> va_value v = GNil)"

lemma opcua_read_nil:
  "fst (opcua_read c s p) = Ok GNil \<longleftrightarrow>
     (\<exists>n r rs s' v. parse_node c (Str (Get p ''node_id'')) = Inr n
        \<and> ua_Read c n s = (Ok (r # rs), s') \<and> dv_Status r = StatusOK
        \<and> dv_Value r = Some v \<and> va_value v = GNil)"
  by (auto simp: opcua_read_def go_simps first_result_def on_value_def
      split: sum.splits prod.splits go.splits list.splits option.splits if_splits)

lemma opcua_Call_nil: "fst (opcua_Call e c s req) = Ok (RVal GNil) \<longleftrightarrow> reads_null c s req"
proof -
  have w: "fst (opcua_write e c s p) \<noteq> Ok GNil" for p
    by (auto simp: opcua_write_def go_simps split: sum.splits prod.splits go.splits)
  have b: "fst (opcua_browse e c s p) \<noteq> Ok GNil" for p
    by (auto simp: opcua_browse_def go_simps nodes_json_def split: sum.splits)
  show ?thesis
    using w b by (auto simp: opcua_Call_def reads_null_def opcua_read_nil go_simps)
qed

lemma handleMessage_crash:
  "fst (handleMessage True st c s (Inr req)) = Inl m \<longleftrightarrow> m = ''result and error are nil''
     \<and> JSONRPC req = jsonRPCVersion \<and> Method req \<noteq> '''' \<and> fst (c s req) = Ok (RVal GNil)"
  by (cases "c s req"; cases "fst (c s req)")
    (auto simp: handleMessage_def call_service_def split: call_result.splits elim: IsNil.elims)

text \<open>reading a node whose value is null ends the connector, and no other request does: such a read
  gives neither a result nor an error, which the message handling does not survive.\<close>

theorem null_read_ends_connector:
  "(\<exists>m. fst (handleMessage True st (opcua_Call e c) s (Inr req)) = Inl m)
     \<longleftrightarrow> JSONRPC req = jsonRPCVersion \<and> reads_null c s req"
  by (auto simp: handleMessage_crash opcua_Call_nil) (simp add: reads_null_def)

section \<open>Writes\<close>

definition example_ua :: "nat \<Rightarrow> (nat \<Rightarrow> ua_input \<Rightarrow> ua_input list \<Rightarrow> (32 word list, string) go \<times> ua_input list)
    \<Rightarrow> (ua_input list, nat) ua_cli" where
  "example_ua t w = \<lparr>parse_node = (\<lambda>_. Inr 2),
     ua_Read = (\<lambda>n s. (Ok [\<lparr>dv_Status = 0, dv_Value = Some \<lparr>va_type = t, va_length = 0,
        va_value = GInt 0, va_node = None\<rparr>\<rparr>], s)),
     ua_Write = w, ua_nodes = (\<lambda>_. example_view)\<rparr>"

text \<open>What the input of a node's type is for a text; only the types the connector can write.\<close>

definition input_is :: "nat \<Rightarrow> string \<Rightarrow> ua_env \<Rightarrow> ua_input \<Rightarrow> bool" where
  "input_is t v e i =
     (case i of
        IBool b \<Rightarrow> t = 1 \<and> parse_bool v = Inr b
      | IInt32 w \<Rightarrow> t = 6 \<and> parse_int v 32 = Inr (sint w)
      | IUint32 w \<Rightarrow> t = 7 \<and> parse_uint v 32 = Inr (unat w)
      | IInt64 w \<Rightarrow> t = 8 \<and> parse_int v 64 = Inr (sint w)
      | IUint64 w \<Rightarrow> t = 9 \<and> parse_uint v 64 = Inr (unat w)
      | IFloat w \<Rightarrow> t = 10 \<and> (\<exists>x. parse_float e v 32 = Inr x \<and> w = to_float32 e x)
      | IDouble w \<Rightarrow> t = 11 \<and> parse_float e v 64 = Inr w
      | IString x \<Rightarrow> t = 12 \<and> x = v
      | ITime x \<Rightarrow> t = 13 \<and> parse_time e v = Inr x)"

lemma number_Ok: "number e fn v r f = Ok y \<longleftrightarrow> (\<exists>x. r = Inr x \<and> y = f x)"
  by (auto simp: number_def split: sum.splits)

lemma sint_parse_int:
  assumes "parse_int v bits = Inr i" and "LENGTH('a::len) = bits"
  shows "sint (word_of_int i :: 'a word) = i"
  using parse_int_bound [OF assms(1)] assms(2)
  by (simp add: signed_take_bit_int_eq_self signed_of_int)

lemma unat_parse_uint:
  assumes "parse_uint v bits = Inr n" and "LENGTH('a::len) = bits"
  shows "unat (word_of_nat n :: 'a word) = n"
  using parse_uint_bound [OF assms(1)] assms(2) by (simp add: unsigned_of_nat take_bit_nat_eq_self)

lemma write_input_is: "write_input e t v = Ok i \<Longrightarrow> input_is t v e i"
  by (auto simp: write_input_def number_Ok input_is_def sint_parse_int unat_parse_uint
      split: if_splits sum.splits)

lemma input_is_write: "input_is t v e i \<Longrightarrow> write_input e t v = Ok i"
  by (auto simp: write_input_def number_def input_is_def split: ua_input.splits)

text \<open>C23: a write succeeds exactly when the node's type is one of the nine it can write, the text parses
  to a value of that type, and the server answers; the value sent is the one the text denotes, at the
  width of the type. The result is the server's status, whatever it is: a refused write is a success.\<close>

theorem writes_denoted_value:
  "opcua_write e c s params = (Ok r, s') \<longleftrightarrow>
     (\<exists>n t s1 i st sts. parse_node c (Str (Get params ''node_id'')) = Inr n \<and> getType c s n = (Ok t, s1)
        \<and> input_is t (Str (Get params ''value'')) e i \<and> ua_Write c n i s1 = (Ok (st # sts), s')
        \<and> r = GInt (uint st))" (is "?l \<longleftrightarrow> ?r")
proof
  assume ?l
  then show ?r
    by (auto simp: opcua_write_def go_simps first_result_def
        split: sum.splits prod.splits go.splits list.splits dest!: write_input_is)
next
  assume ?r
  then show ?l
    by (auto simp: opcua_write_def first_result_def dest!: input_is_write)
qed

text \<open>the browse lists variables of types the write refuses: whatever the text, a node of type
  \<open>int8\<close>, \<open>byte\<close>, \<open>int16\<close> or \<open>uint16\<close> is never written.\<close>

theorem listed_types_not_writable:
  assumes "getType c s n = (Ok t, s1)" and "t \<in> {2, 3, 4, 5}"
    and "parse_node c (Str (Get params ''node_id'')) = Inr n"
  shows "type_name t \<noteq> None \<and> snd (opcua_write e c s params) = s1
    \<and> fst (opcua_write e c s params)
      = Err (GoErr (''write failed: unsupported type of node - '' @ type_text e t))"
  using assms by (auto simp: opcua_write_def write_input_def type_name_def)

lemma listed_types_not_writable_witness:
  "fst (opcua_write e (example_ua 4 (\<lambda>n i l. (Ok [0], i # l))) []
      (GMap [(''node_id'', GStr ''ns=2;i=2''), (''value'', GStr ''1'')]))
    = Err (GoErr (''write failed: unsupported type of node - '' @ type_text e 4))"
  using listed_types_not_writable [of "example_ua 4 (\<lambda>n i l. (Ok [0], i # l))" "[]" 2 4 "[]"
      "GMap [(''node_id'', GStr ''ns=2;i=2''), (''value'', GStr ''1'')]" e]
  by (simp add: example_ua_def getType_def first_result_def StatusOK_def on_value_def)

end
