(* ===== verification/Ble_Gatt.thy ===== *)
theory Ble_Gatt
  imports Jsonrpc
begin

text \<open>
  What the Bluetooth connector uses of its copy of go-ble (\<open>third_party/go-ble/ble\<close>): identifiers
  (\<open>uuid.go\<close>) and the GATT client of one connection (\<open>linux/gatt/client.go\<close>), which keeps what
  it has discovered and its subscriptions between calls. The exchange with the device (\<open>linux/att\<close>
  and below) is the record \<open>radio\<close> of its operations over a state of its own.
\<close>

section \<open>Identifiers\<close>

text \<open>A \<open>UUID\<close> is its bytes, the lowest first.\<close>

type_synonym uuid = string

text \<open>\<open>hex.DecodeString\<close>: pairs of digits; an invalid character is reported before an odd length.\<close>

datatype hex_error = InvalidByte char | OddLength

definition hex_val :: "char \<Rightarrow> nat option" where
  "hex_val c =
     (let n = (of_char c :: nat) in
      if 48 \<le> n \<and> n \<le> 57 then Some (n - 48)
      else if 97 \<le> n \<and> n \<le> 102 then Some (n - 87)
      else if 65 \<le> n \<and> n \<le> 70 then Some (n - 55)
      else None)"

fun hex_decode :: "string \<Rightarrow> hex_error + string" where
  "hex_decode [] = Inr []"
| "hex_decode [c] = Inl (if hex_val c = None then InvalidByte c else OddLength)"
| "hex_decode (c # d # r) =
     (case (hex_val c, hex_val d) of
        (None, _) \<Rightarrow> Inl (InvalidByte c)
      | (_, None) \<Rightarrow> Inl (InvalidByte d)
      | (Some a, Some b) \<Rightarrow>
          (case hex_decode r of Inl e \<Rightarrow> Inl e | Inr bs \<Rightarrow> Inr (char_of (a * 16 + b) # bs)))"

text \<open>\<open>rune\<close> renders a character as the verb \<open>%#U\<close> does.\<close>

fun hex_error_text :: "(char \<Rightarrow> string) \<Rightarrow> hex_error \<Rightarrow> string" where
  "hex_error_text rune (InvalidByte c) = ''encoding/hex: invalid byte: '' @ rune c"
| "hex_error_text rune OddLength = ''encoding/hex: odd length hex string''"

definition lenErr :: "nat \<Rightarrow> string option" where
  "lenErr n =
     (if n = 2 \<or> n = 16 then None
      else Some (''UUIDs must have length 2 or 16, got '' @ dec_of_nat n))"

definition uuid_Parse :: "(char \<Rightarrow> string) \<Rightarrow> string \<Rightarrow> string + uuid" where
  "uuid_Parse rune s =
     (case hex_decode (filter (\<lambda>c. c \<noteq> CHR ''-'') s) of
        Inl e \<Rightarrow> Inl (hex_error_text rune e)
      | Inr b \<Rightarrow> (case lenErr (length b) of Some e \<Rightarrow> Inl e | None \<Rightarrow> Inr (rev b)))"

definition uuid_String :: "uuid \<Rightarrow> string" where
  "uuid_String u = concat (map (\<lambda>c. hex2 (of_char c)) (rev u))"

lemma hex_val_char [simp]: "d < 16 \<Longrightarrow> hex_val (hex_char d) = Some d"
  by (auto simp: hex_val_def hex_char_def Let_def)

lemma hex_char_no_dash [simp]: "d < 16 \<Longrightarrow> hex_char d \<noteq> CHR ''-''"
proof
  assume "d < 16" "hex_char d = CHR ''-''"
  then show False using hex_val_char [of d] by (simp add: hex_val_def)
qed

lemma of_char_nibbles [simp]:
  "(of_char (c :: char) :: nat) div 16 < 16"
  using of_char_bound [of c] by linarith

lemma hex_decode_String: "hex_decode (concat (map (\<lambda>c. hex2 (of_char c)) u)) = Inr u"
  by (induction u) (simp_all add: hex2_def)

lemma hex_text_no_dash: "filter (\<lambda>c. c \<noteq> CHR ''-'') (concat (map (\<lambda>c. hex2 (of_char c)) u))
    = concat (map (\<lambda>c. hex2 (of_char c)) u)"
  by (induction u) (simp_all add: hex2_def)

text \<open>what the connector prints for an identifier is read back as the same identifier, for both
  lengths; the printed form has no dashes.\<close>

theorem uuid_roundtrip:
  "uuid_Parse rune (uuid_String u) =
     (if length u = 2 \<or> length u = 16 then Inr u
      else Inl (''UUIDs must have length 2 or 16, got '' @ dec_of_nat (length u)))"
  by (simp add: uuid_Parse_def uuid_String_def hex_text_no_dash hex_decode_String lenErr_def)

section \<open>The client of a connection\<close>

record gdescriptor =
  gd_UUID :: uuid
  gd_Handle :: u16

record gcharacteristic =
  gc_UUID :: uuid
  gc_Property :: nat
  gc_Descriptors :: "gdescriptor list"
  gc_CCCD :: "gdescriptor option"
  gc_Data :: "string option"
  gc_Handle :: u16
  gc_ValueHandle :: u16
  gc_EndHandle :: u16

record gservice =
  gs_UUID :: uuid
  gs_Characteristics :: "gcharacteristic list"
  gs_Handle :: u16
  gs_EndHandle :: u16

text \<open>A subscription: where it is configured, the configured bits, and the notification process behind
  each of the two handlers.\<close>

record gsub =
  sub_cccdh :: u16
  sub_ccc :: u16
  nHandler :: "string option"
  iHandler :: "string option"

record gclient =
  profile :: "gservice list"
  subs :: "(u16 \<times> gsub) list"

definition NewClient :: gclient where
  "NewClient = \<lparr>profile = [], subs = []\<rparr>"

text \<open>The exchanges of one connection. A sweep over handles reports what it found, in order, and the
  error it stopped at.\<close>

record 'a radio =
  att_services :: "'a \<Rightarrow> ((uuid \<times> u16 \<times> u16) list \<times> string option) \<times> 'a"
  att_characteristics :: "u16 \<Rightarrow> u16 \<Rightarrow> 'a \<Rightarrow> ((uuid \<times> nat \<times> u16 \<times> u16) list \<times> string option) \<times> 'a"
  att_information :: "u16 \<Rightarrow> u16 \<Rightarrow> 'a \<Rightarrow> ((u16 \<times> uuid) list \<times> string option) \<times> 'a"
  att_read :: "u16 \<Rightarrow> 'a \<Rightarrow> (string, string) go \<times> 'a"
  att_write :: "u16 \<Rightarrow> string \<Rightarrow> 'a \<Rightarrow> string option \<times> 'a"

definition in_filter :: "uuid list option \<Rightarrow> uuid \<Rightarrow> bool" where
  "in_filter f u = (case f of None \<Rightarrow> True | Some us \<Rightarrow> u \<in> set us)"

text \<open>What is found is added to the profile of the client, and the whole profile is returned.\<close>

definition gatt_result :: "string option \<Rightarrow> 'x \<Rightarrow> ('x, string) go" where
  "gatt_result e x = (case e of Some m \<Rightarrow> Err m | None \<Rightarrow> Ok x)"

definition DiscoverServices ::
  "'a radio \<Rightarrow> uuid list option \<Rightarrow> gclient \<times> 'a \<Rightarrow> (gservice list, string) go \<times> gclient \<times> 'a" where
  "DiscoverServices R f = (\<lambda>(p, a).
     (case att_services R a of
        ((found, e), a') \<Rightarrow>
          let ss = profile p @ [\<lparr>gs_UUID = u, gs_Characteristics = [], gs_Handle = h, gs_EndHandle = endh\<rparr>.
                                 (u, h, endh) \<leftarrow> found, in_filter f u]
          in (gatt_result e ss, p\<lparr>profile := ss\<rparr>, a')))"

text \<open>The end of a characteristic is the handle before the next one.\<close>

fun new_characteristics :: "u16 \<Rightarrow> (uuid \<times> nat \<times> u16 \<times> u16) list \<Rightarrow> gcharacteristic list" where
  "new_characteristics endh [] = []"
| "new_characteristics endh ((u, pr, h, vh) # found) =
     \<lparr>gc_UUID = u, gc_Property = pr, gc_Descriptors = [], gc_CCCD = None, gc_Data = None,
      gc_Handle = h, gc_ValueHandle = vh,
      gc_EndHandle = (case found of [] \<Rightarrow> endh | (_, _, h', _) # _ \<Rightarrow> h' - 1)\<rparr>
     # new_characteristics endh found"

definition DiscoverCharacteristics ::
  "'a radio \<Rightarrow> uuid list option \<Rightarrow> gservice \<times> 'a \<Rightarrow> (gcharacteristic list, string) go \<times> gservice \<times> 'a" where
  "DiscoverCharacteristics R f = (\<lambda>(s, a).
     (case att_characteristics R (gs_Handle s) (gs_EndHandle s) a of
        ((found, e), a') \<Rightarrow>
          let cs = gs_Characteristics s
                   @ filter (\<lambda>c. in_filter f (gc_UUID c)) (new_characteristics (gs_EndHandle s) found)
          in (gatt_result e cs, s\<lparr>gs_Characteristics := cs\<rparr>, a')))"

definition ClientCharacteristicConfigUUID :: uuid where
  "ClientCharacteristicConfigUUID = [CHR 0x02, CHR 0x29]"

definition DiscoverDescriptors ::
  "'a radio \<Rightarrow> uuid list option \<Rightarrow> gcharacteristic \<times> 'a \<Rightarrow> (gdescriptor list, string) go \<times> gcharacteristic \<times> 'a" where
  "DiscoverDescriptors R f = (\<lambda>(c, a).
     (case att_information R (gc_ValueHandle c + 1) (gc_EndHandle c) a of
        ((found, e), a') \<Rightarrow>
          let ds = map (\<lambda>(h, u). \<lparr>gd_UUID = u, gd_Handle = h\<rparr>) found;
              all = gc_Descriptors c @ filter (\<lambda>d. in_filter f (gd_UUID d)) ds;
              cccd = (case rev (filter (\<lambda>d. gd_UUID d = ClientCharacteristicConfigUUID) ds) of
                        [] \<Rightarrow> gc_CCCD c | d # _ \<Rightarrow> Some d)
          in (gatt_result e all, c\<lparr>gc_Descriptors := all, gc_CCCD := cccd\<rparr>, a')))"

definition ReadCharacteristic ::
  "'a radio \<Rightarrow> gcharacteristic \<times> 'a \<Rightarrow> (string, string) go \<times> gcharacteristic \<times> 'a" where
  "ReadCharacteristic R = (\<lambda>(c, a).
     (case att_read R (gc_ValueHandle c) a of
        (Ok v, a') \<Rightarrow> (Ok v, c\<lparr>gc_Data := Some v\<rparr>, a')
      | (r, a') \<Rightarrow> (r, c, a')))"

section \<open>Subscriptions\<close>

definition le16 :: "u16 \<Rightarrow> string" where
  "le16 w = [char_of (unat (lo8 w)), char_of (unat (hi8 w))]"

definition cccNotify :: u16 where "cccNotify = 1"
definition cccIndicate :: u16 where "cccIndicate = 2"

text \<open>\<open>setHandlers\<close> with a handler: nothing happens when the bit is set already, else the handler is
  stored and the bits are written.\<close>

definition setHandlers ::
  "'a radio \<Rightarrow> u16 \<Rightarrow> u16 \<Rightarrow> u16 \<Rightarrow> string \<Rightarrow> gclient \<times> 'a \<Rightarrow> (unit, string) go \<times> gclient \<times> 'a" where
  "setHandlers R cccdh vh flag pid = (\<lambda>(p, a).
     (let s = (case map_of (subs p) vh of
                 Some s \<Rightarrow> s
               | None \<Rightarrow> \<lparr>sub_cccdh = cccdh, sub_ccc = 0, nHandler = None, iHandler = None\<rparr>) in
      if sub_ccc s AND flag \<noteq> 0 then (Ok (), p\<lparr>subs := AList.update vh s (subs p)\<rparr>, a)
      else
        (let s1 = s\<lparr>sub_ccc := sub_ccc s OR flag\<rparr>;
             s2 = (if flag = cccNotify then s1\<lparr>nHandler := Some pid\<rparr> else s1\<lparr>iHandler := Some pid\<rparr>)
         in case att_write R (sub_cccdh s2) (le16 (sub_ccc s2)) a of
              (e, a') \<Rightarrow> (gatt_result e (), p\<lparr>subs := AList.update vh s2 (subs p)\<rparr>, a'))))"

definition gatt_Subscribe ::
  "'a radio \<Rightarrow> gcharacteristic \<Rightarrow> bool \<Rightarrow> string \<Rightarrow> gclient \<times> 'a \<Rightarrow> (unit, string) go \<times> gclient \<times> 'a" where
  "gatt_Subscribe R c ind pid pa =
     (case gc_CCCD c of
        None \<Rightarrow> (Err ''CCCD not found'', pa)
      | Some d \<Rightarrow> setHandlers R (gd_Handle d) (gc_ValueHandle c) (if ind then cccIndicate else cccNotify) pid pa)"

text \<open>The subscriptions are cleared one by one, in some order, up to the first that fails.\<close>

fun clear_subs :: "'a radio \<Rightarrow> (u16 \<times> gsub) list \<Rightarrow> 'a \<Rightarrow> (unit, string) go \<times> (u16 \<times> gsub) list \<times> 'a" where
  "clear_subs R [] a = (Ok (), [], a)"
| "clear_subs R ((vh, s) # ss) a =
     (case att_write R (sub_cccdh s) (le16 0) a of
        (Some e, a') \<Rightarrow> (Err e, (vh, s) # ss, a')
      | (None, a') \<Rightarrow> clear_subs R ss a')"

definition ClearSubscriptions :: "'a radio \<Rightarrow> gclient \<times> 'a \<Rightarrow> (unit, string) go \<times> gclient \<times> 'a" where
  "ClearSubscriptions R = (\<lambda>(p, a).
     (case clear_subs R (subs p) a of (r, ss, a') \<Rightarrow> (r, p\<lparr>subs := ss\<rparr>, a')))"

text \<open>\<open>HandleNotification\<close>: the process a value of a handle goes to.\<close>

definition notified :: "gclient \<Rightarrow> bool \<Rightarrow> u16 \<Rightarrow> string option" where
  "notified p indication vh =
     (case map_of (subs p) vh of
        None \<Rightarrow> None
      | Some s \<Rightarrow> if indication then iHandler s else nHandler s)"

section \<open>The whole hierarchy\<close>

text \<open>A step on every element of a list, updated in place, up to the first error.\<close>

fun each :: "('x \<times> 'a \<Rightarrow> ('y, string) go \<times> 'x \<times> 'a) \<Rightarrow> 'x list \<Rightarrow> 'a \<Rightarrow> (unit, string) go \<times> 'x list \<times> 'a" where
  "each f [] a = (Ok (), [], a)"
| "each f (x # xs) a =
     (case f (x, a) of
        (Err e, x', a') \<Rightarrow> (Err e, x' # xs, a')
      | (Panic m, x', a') \<Rightarrow> (Panic m, x' # xs, a')
      | (Ok _, x', a') \<Rightarrow> (case each f xs a' of (r, xs', a'') \<Rightarrow> (r, x' # xs', a'')))"

definition discover_service :: "'a radio \<Rightarrow> gservice \<times> 'a \<Rightarrow> (unit, string) go \<times> gservice \<times> 'a" where
  "discover_service R sa =
     (case DiscoverCharacteristics R None sa of
        (Ok cs, s, a) \<Rightarrow>
          (case each (DiscoverDescriptors R None) cs a of
             (r, cs', a') \<Rightarrow>
               (map_err (\<lambda>e. ''can't discover descriptors: '' @ e) r, s\<lparr>gs_Characteristics := cs'\<rparr>, a'))
      | (Err e, s, a) \<Rightarrow> (Err (''can't discover characteristics: '' @ e), s, a)
      | (Panic m, s, a) \<Rightarrow> (Panic m, s, a))"

definition DiscoverProfile :: "'a radio \<Rightarrow> gclient \<times> 'a \<Rightarrow> (gservice list, string) go \<times> gclient \<times> 'a" where
  "DiscoverProfile R pa =
     (case DiscoverServices R None pa of
        (Ok ss, p, a) \<Rightarrow>
          (case each (discover_service R) ss a of
             (r, ss', a') \<Rightarrow> (go_map (\<lambda>_. ss') r, p\<lparr>profile := ss'\<rparr>, a'))
      | (Err e, p, a) \<Rightarrow> (Err (''can't discover services: '' @ e), p, a)
      | (Panic m, p, a) \<Rightarrow> (Panic m, p, a))"

end
