(* ===== verification/Ble_Handler.thy ===== *)
theory Ble_Handler
  imports Ble_Gatt
begin

text \<open>
  The Bluetooth connector (\<open>internal/app/ble/handler\<close>): scanning with the beacons of \<open>beacon.go\<close>,
  and discover, read, write, subscribe and cancel over the GATT clients of \<open>Ble_Gatt\<close>. The state
  keeps the clients by a number, so a client stays the same object while the table \<open>conns\<close> holds it.
\<close>

section \<open>Beacons\<close>

definition preffixes :: "string list" where
  "preffixes = [''http://www.'', ''https://www.'', ''http://'', ''https://'']"

definition suffixes :: "string list" where
  "suffixes = [''.com/'', ''.org/'', ''.edu/'', ''.net/'', ''.info/'', ''.biz/'', ''.gov/'',
     ''.com'', ''.org'', ''.edu'', ''.net'', ''.info'', ''.biz'', ''.gov'']"

definition eddystoneService :: string where "eddystoneService = ''feaa''"

definition EddystoneURL :: nat where "EddystoneURL = 16"

record beacon =
  BeaconType :: string
  BeaconContent :: string

text \<open>Every packet of fewer than four bytes fails one of the slice expressions.\<close>

definition getEddystoneURLParams :: "string \<Rightarrow> (string, string) go" where
  "getEddystoneURLParams packet =
     (if length packet < 4 then Panic ''slice bounds out of range''
      else
        (let pre = of_char (packet ! 2);
             urlContent = drop 3 (butlast packet);
             suf = of_char (last packet) in
         if length preffixes \<le> pre then Panic ''index out of range''
         else if length suffixes \<le> suf then Panic ''index out of range''
         else Ok (preffixes ! pre @ urlContent @ suffixes ! suf)))"

text \<open>\<open>%x\<close> of a byte.\<close>

definition hex_byte :: "nat \<Rightarrow> string" where
  "hex_byte n = (if n < 16 then [hex_char n] else hex2 n)"

definition getEddystoneParams :: "(uuid \<times> string) list \<Rightarrow> (beacon option, string) go" where
  "getEddystoneParams serviceData =
     (case serviceData of
        [] \<Rightarrow> Ok None
      | _ # _ # _ \<Rightarrow> Panic (''Service data length is '' @ dec_of_nat (length serviceData))
      | [(_, d)] \<Rightarrow>
          (case d of
             [] \<Rightarrow> Panic ''index out of range''
           | c # _ \<Rightarrow>
               if of_char c = EddystoneURL
               then go_map (\<lambda>t. Some \<lparr>BeaconType = ''Eddystone URL'', BeaconContent = t\<rparr>)
                      (getEddystoneURLParams d)
               else Panic (''Unsupported format: '' @ hex_byte (of_char c))))"

section \<open>State\<close>

record adv =
  adv_Addr :: string
  adv_LocalName :: string
  adv_RSSI :: int
  adv_Connectable :: bool
  adv_Services :: "uuid list"
  adv_ServiceData :: "(uuid \<times> string) list"

record dev =
  dev_Addr :: string
  dev_RSSI :: int
  dev_Name :: string
  dev_Connectable :: bool
  dev_IsBeacon :: bool
  dev_Beacon :: "beacon option"

datatype scan_end = ScanDone | DeadlineExceeded | ScanFailed string

text \<open>The device, the connections it dials (by number), the identifiers of notification processes; the
  text of durations and characters; and the order in which a map is ranged over.\<close>

record 'd ble_lib =
  dev_Scan :: "int \<Rightarrow> 'd \<Rightarrow> (adv list \<times> scan_end) \<times> 'd"
  dev_Dial :: "string \<Rightarrow> 'd \<Rightarrow> (nat, string) go \<times> 'd"
  cli_radio :: "nat \<Rightarrow> 'd radio"
  cli_Close :: "nat \<Rightarrow> 'd \<Rightarrow> string option \<times> 'd"
  new_pid :: "'d \<Rightarrow> string \<times> 'd"
  parse_duration :: "string \<Rightarrow> string + int"
  rune_text :: "char \<Rightarrow> string"
  range_order :: "dev list \<Rightarrow> dev list"

text \<open>\<open>ble_rpc\<close>: the field \<open>rpc\<close>, nil or the service; \<open>dead\<close>: a panic outside the goroutine of the request ended the
  process.\<close>

record 'd ble_state =
  device :: 'd
  ble_rpc :: "unit option"
  clients :: "nat \<Rightarrow> gclient"
  conns :: "string \<Rightarrow> nat option"
  dead :: "string option"

text \<open>\<open>New\<close> of the handler returns a value. \<open>InjectRPC\<close> has a pointer receiver, so it is in the method set of
  a pointer to a service and not in that of a service.\<close>

datatype 's held = ByValue 's | ByPointer 's

fun held_state :: "'s held \<Rightarrow> 's" where
  "held_state (ByValue s) = s"
| "held_state (ByPointer s) = s"

definition ble_New :: "('d, string) go \<Rightarrow> ('d ble_state held, string) go" where
  "ble_New = go_map (\<lambda>d. ByValue
     \<lparr>device = d, ble_rpc = None, clients = (\<lambda>_. NewClient), conns = (\<lambda>_. None), dead = None\<rparr>)"

definition InjectRPC :: "'d ble_state \<Rightarrow> 'd ble_state" where
  "InjectRPC s = s\<lparr>ble_rpc := Some ()\<rparr>"

text \<open>The start of \<open>ServeWithReconnect\<close>: the type assertion that looks for \<open>InjectRPC\<close>.\<close>

fun inject_rpc :: "'d ble_state held \<Rightarrow> 'd ble_state held" where
  "inject_rpc (ByPointer s) = ByPointer (InjectRPC s)"
| "inject_rpc (ByValue s) = ByValue s"

definition ble_served :: "('d, string) go \<Rightarrow> ('d ble_state, string) go" where
  "ble_served newDevice = go_map (\<lambda>h. held_state (inject_rpc h)) (ble_New newDevice)"

type_synonym ('r, 'd) ble_op = "'d ble_state \<Rightarrow> ('r, gerror) go \<times> 'd ble_state"

definition seq :: "('x, 'e) go \<times> 's \<Rightarrow> ('x \<Rightarrow> 's \<Rightarrow> ('y, 'e) go \<times> 's) \<Rightarrow> ('y, 'e) go \<times> 's" where
  "seq m f =
     (case m of
        (Ok x, s) \<Rightarrow> f x s
      | (Err e, s) \<Rightarrow> (Err e, s)
      | (Panic p, s) \<Rightarrow> (Panic p, s))"

section \<open>Scanning\<close>

definition advHandler :: "adv \<Rightarrow> (string \<times> dev) list \<Rightarrow> ((string \<times> dev) list, string) go" where
  "advHandler a devices =
     (case map_of devices (adv_Addr a) of
        Some v \<Rightarrow>
          Ok (AList.update (adv_Addr a)
                (v\<lparr>dev_Name := adv_LocalName a, dev_RSSI := adv_RSSI a, dev_Connectable := adv_Connectable a\<rparr>)
                devices)
      | None \<Rightarrow>
          (let d = \<lparr>dev_Addr = adv_Addr a, dev_RSSI = adv_RSSI a, dev_Name = adv_LocalName a,
                    dev_Connectable = adv_Connectable a, dev_IsBeacon = False, dev_Beacon = None\<rparr> in
           if eddystoneService \<in> set (map uuid_String (adv_Services a)) then
             go_map (\<lambda>b. AList.update (adv_Addr a) (d\<lparr>dev_IsBeacon := True, dev_Beacon := b\<rparr>) devices)
               (getEddystoneParams (adv_ServiceData a))
           else Ok (AList.update (adv_Addr a) d devices)))"

fun handle_advs :: "adv list \<Rightarrow> (string \<times> dev) list \<Rightarrow> ((string \<times> dev) list, string) go" where
  "handle_advs [] devices = Ok devices"
| "handle_advs (a # as) devices = go_bind (advHandler a devices) (handle_advs as)"

definition dev_json :: "dev \<Rightarrow> gval" where
  "dev_json d =
     GMap ([(''addr'', GStr (dev_Addr d)), (''rssi'', GInt (dev_RSSI d)), (''name'', GStr (dev_Name d)),
            (''connectable'', GBool (dev_Connectable d)), (''isBeacon'', GBool (dev_IsBeacon d))]
           @ (case dev_Beacon d of
                None \<Rightarrow> []
              | Some b \<Rightarrow> [(''beacon'', GMap [(''beaconType'', GStr (BeaconType b)),
                                            (''beaconContent'', GStr (BeaconContent b))])]))"

definition mapToList :: "'d ble_lib \<Rightarrow> (string \<times> dev) list \<Rightarrow> dev list" where
  "mapToList L mp = range_order L (map snd mp)"

text \<open>The advertisements are handled by a goroutine of the library, so a panic there is not recovered.\<close>

definition ble_scan :: "'d ble_lib \<Rightarrow> gval \<Rightarrow> (gval, 'd) ble_op" where
  "ble_scan L params s =
     (case parse_duration L (Str_default (Get params ''timeout'') ''5s'') of
        Inl e \<Rightarrow> (Err (invalid_params e), s)
      | Inr timeout \<Rightarrow>
          (case dev_Scan L timeout (device s) of
             ((advs, e), a) \<Rightarrow>
               (case handle_advs advs [] of
                  Ok devices \<Rightarrow>
                    ((case e of
                        ScanFailed m \<Rightarrow> Err (GoErr m)
                      | _ \<Rightarrow> Ok (GArr (map dev_json (mapToList L devices)))), s\<lparr>device := a\<rparr>)
                | Err m \<Rightarrow> (Panic m, s\<lparr>device := a, dead := Some m\<rparr>)
                | Panic m \<Rightarrow> (Panic m, s\<lparr>device := a, dead := Some m\<rparr>))))"

section \<open>Clients\<close>

text \<open>\<open>ble.NewAddr\<close> lower-cases the address; the table is keyed by the text of the request.\<close>

definition lower_ascii :: "char \<Rightarrow> char" where
  "lower_ascii c = (if 65 \<le> (of_char c :: nat) \<and> of_char c \<le> (90 :: nat) then char_of (of_char c + 32 :: nat) else c)"

definition NewAddr :: "string \<Rightarrow> string" where
  "NewAddr s = map lower_ascii s"

text \<open>The client of an address: the kept one, or a new connection; and whether it was kept.\<close>

definition client_for :: "'d ble_lib \<Rightarrow> string \<Rightarrow> (nat \<times> bool, 'd) ble_op" where
  "client_for L address s =
     (case conns s address of
        Some n \<Rightarrow> (Ok (n, True), s)
      | None \<Rightarrow>
          (case dev_Dial L (NewAddr address) (device s) of
             (Ok n, a) \<Rightarrow> (Ok (n, False), s\<lparr>device := a, clients := (clients s)(n := NewClient)\<rparr>)
           | (Err e, a) \<Rightarrow> (Err (GoErr e), s\<lparr>device := a\<rparr>)
           | (Panic m, a) \<Rightarrow> (Panic m, s\<lparr>device := a\<rparr>)))"

text \<open>The deferred function: a connection dialled for the request is closed, also after a panic.\<close>

definition close_unless_kept :: "'d ble_lib \<Rightarrow> nat \<times> bool \<Rightarrow> ('r, gerror) go \<times> 'd ble_state \<Rightarrow> ('r, gerror) go \<times> 'd ble_state" where
  "close_unless_kept L cl r =
     (case cl of (n, kept) \<Rightarrow>
        if kept then r else (fst r, (snd r)\<lparr>device := snd (cli_Close L n (device (snd r)))\<rparr>))"

definition on_client :: "nat \<Rightarrow> (gclient \<times> 'd \<Rightarrow> ('r, string) go \<times> gclient \<times> 'd) \<Rightarrow> ('r, 'd) ble_op" where
  "on_client n f s =
     (case f (clients s n, device s) of
        (r, p, a) \<Rightarrow> (map_err GoErr r, s\<lparr>clients := (clients s)(n := p), device := a\<rparr>))"

text \<open>The handlers use the first service of the answer and its first characteristic.\<close>

definition on_first_service ::
  "(gservice \<times> 'd \<Rightarrow> ('r, string) go \<times> gservice \<times> 'd) \<Rightarrow> gclient \<times> 'd \<Rightarrow> ('r, string) go \<times> gclient \<times> 'd" where
  "on_first_service f = (\<lambda>(p, a).
     (case profile p of
        [] \<Rightarrow> (Panic ''index out of range'', p, a)
      | sv # rest \<Rightarrow> (case f (sv, a) of (r, sv', a') \<Rightarrow> (r, p\<lparr>profile := sv' # rest\<rparr>, a'))))"

definition on_first_char ::
  "(gcharacteristic \<times> 'd \<Rightarrow> ('r, string) go \<times> gcharacteristic \<times> 'd) \<Rightarrow> gservice \<times> 'd \<Rightarrow> ('r, string) go \<times> gservice \<times> 'd" where
  "on_first_char f = (\<lambda>(sv, a).
     (case gs_Characteristics sv of
        [] \<Rightarrow> (Panic ''index out of range'', sv, a)
      | c # rest \<Rightarrow> (case f (c, a) of (r, c', a') \<Rightarrow> (r, sv\<lparr>gs_Characteristics := c' # rest\<rparr>, a'))))"

definition find_characteristic :: "'d ble_lib \<Rightarrow> nat \<Rightarrow> uuid \<Rightarrow> uuid \<Rightarrow> (gcharacteristic list, 'd) ble_op" where
  "find_characteristic L n srvUUID chUUID s =
     seq (on_client n (DiscoverServices (cli_radio L n) (Some [srvUUID])) s) (\<lambda>srv.
       on_client n (on_first_service (DiscoverCharacteristics (cli_radio L n) (Some [chUUID]))))"

section \<open>Requests\<close>

definition parseRequest :: "'d ble_lib \<Rightarrow> gval \<Rightarrow> (string \<times> uuid \<times> uuid, gerror) go" where
  "parseRequest L params =
     (let a = Str (Get params ''device'') in
      if a = '''' then Err (invalid_params ''empty device'')
      else
        (case uuid_Parse (rune_text L) (Str (Get params ''service_uuid'')) of
           Inl e \<Rightarrow> Err (RpcErr (AddData (AddData ErrInvalidParams ''p'' (GStr ''service_uuid'')) ''msg'' (GStr e)))
         | Inr sv \<Rightarrow>
             (case uuid_Parse (rune_text L) (Str (Get params ''characteristic_uuid'')) of
                Inl e \<Rightarrow> Err (RpcErr (AddData (AddData ErrInvalidParams ''p'' (GStr ''characteristic_uuid'')) ''msg'' (GStr e)))
              | Inr ch \<Rightarrow> Ok (a, sv, ch))))"

definition null_or :: "gval list \<Rightarrow> gval" where
  "null_or vs = (if vs = [] then GRaw ''null'' else GArr vs)"

definition descriptor_json :: "gdescriptor \<Rightarrow> gval" where
  "descriptor_json d = GMap [(''uuid'', GStr (uuid_String (gd_UUID d))), (''property'', GInt 0),
     (''handle'', GInt (uint (gd_Handle d))), (''value'', GRaw ''null'')]"

definition characteristic_json :: "gcharacteristic \<Rightarrow> gval" where
  "characteristic_json c = GMap [(''uuid'', GStr (uuid_String (gc_UUID c))), (''property'', GInt (int (gc_Property c))),
     (''secure'', GInt 0), (''descriptors'', null_or (map descriptor_json (gc_Descriptors c))),
     (''cccd'', (case gc_CCCD c of None \<Rightarrow> GRaw ''null'' | Some d \<Rightarrow> descriptor_json d)),
     (''value'', (case gc_Data c of None \<Rightarrow> GRaw ''null'' | Some v \<Rightarrow> GBytes v)),
     (''handle'', GInt (uint (gc_Handle c))), (''value_handle'', GInt (uint (gc_ValueHandle c))),
     (''end_handle'', GInt (uint (gc_EndHandle c)))]"

definition service_json :: "gservice \<Rightarrow> gval" where
  "service_json sv = GMap [(''uuid'', GStr (uuid_String (gs_UUID sv))),
     (''characteristics'', null_or (map characteristic_json (gs_Characteristics sv))),
     (''handle'', GInt (uint (gs_Handle sv))), (''end_handle'', GInt (uint (gs_EndHandle sv)))]"

definition profile_json :: "gservice list \<Rightarrow> gval" where
  "profile_json ss = GMap [(''services'', null_or (map service_json ss))]"

definition ble_discover :: "'d ble_lib \<Rightarrow> gval \<Rightarrow> (gval, 'd) ble_op" where
  "ble_discover L params s =
     (let address = Str (Get params ''device'') in
      if address = '''' then (Err (invalid_params ''empty device''), s)
      else
        seq (client_for L address s) (\<lambda>cl s.
          close_unless_kept L cl
            (apfst (go_map profile_json) (on_client (fst cl) (DiscoverProfile (cli_radio L (fst cl))) s))))"

definition ble_read :: "'d ble_lib \<Rightarrow> gval \<Rightarrow> (gval, 'd) ble_op" where
  "ble_read L params s =
     seq (parseRequest L params, s) (\<lambda>(address, srvUUID, chUUID) s.
     seq (client_for L address s) (\<lambda>cl s.
       close_unless_kept L cl
         (seq (find_characteristic L (fst cl) srvUUID chUUID s) (\<lambda>ch s.
            apfst (go_map GBytes)
              (on_client (fst cl) (on_first_service (on_first_char (ReadCharacteristic (cli_radio L (fst cl))))) s)))))"

text \<open>The value is base64 when it can be read as such, else the text itself.\<close>

definition write_bytes :: "string \<Rightarrow> string" where
  "write_bytes vaL = (case b64_decode vaL of Some v \<Rightarrow> v | None \<Rightarrow> vaL)"

definition WriteCharacteristic ::
  "'d radio \<Rightarrow> string \<Rightarrow> gcharacteristic \<times> 'd \<Rightarrow> (unit, string) go \<times> gcharacteristic \<times> 'd" where
  "WriteCharacteristic R v = (\<lambda>(c, a).
     (case att_write R (gc_ValueHandle c) v a of (e, a') \<Rightarrow> (gatt_result e (), c, a')))"

definition ble_write :: "'d ble_lib \<Rightarrow> gval \<Rightarrow> (gval, 'd) ble_op" where
  "ble_write L params s =
     seq (parseRequest L params, s) (\<lambda>(address, srvUUID, chUUID) s.
     seq (client_for L address s) (\<lambda>cl s.
       close_unless_kept L cl
         (seq (find_characteristic L (fst cl) srvUUID chUUID s) (\<lambda>ch s.
            apfst (go_map (\<lambda>_. GBool True))
              (on_client (fst cl) (on_first_service (on_first_char
                 (WriteCharacteristic (cli_radio L (fst cl)) (write_bytes (Str (Get params ''value'')))))) s)))))"

definition subscribe_first ::
  "'d radio \<Rightarrow> bool \<Rightarrow> string \<Rightarrow> gclient \<times> 'd \<Rightarrow> (unit, string) go \<times> gclient \<times> 'd" where
  "subscribe_first R ind pid = (\<lambda>(p, a).
     (case profile p of
        sv # _ \<Rightarrow>
          (case gs_Characteristics sv of
             c # _ \<Rightarrow> gatt_Subscribe R c ind pid (p, a)
           | [] \<Rightarrow> (Panic ''index out of range'', p, a))
      | [] \<Rightarrow> (Panic ''index out of range'', p, a)))"

text \<open>The end of \<open>subscribe\<close>: a notification process is made, which needs the service that was injected, the
  characteristic is subscribed for it, and a connection dialled for the request is kept.\<close>

definition nil_dereference :: string where
  "nil_dereference = ''invalid memory address or nil pointer dereference''"

definition subscribe_process :: "'d ble_lib \<Rightarrow> gval \<Rightarrow> string \<Rightarrow> nat \<times> bool \<Rightarrow> (string, 'd) ble_op" where
  "subscribe_process L params address cl s =
     (if ble_rpc s = None then (Panic nil_dereference, s)
      else
        (case new_pid L (device s) of
           (pid, a) \<Rightarrow>
             seq (on_client (fst cl) (subscribe_first (cli_radio L (fst cl)) (Bool (Get params ''indicator'')) pid)
                    (s\<lparr>device := a\<rparr>)) (\<lambda>_ s.
               (Ok pid, if snd cl then s else s\<lparr>conns := (conns s)(address \<mapsto> fst cl)\<rparr>))))"

definition ble_subscribe :: "'d ble_lib \<Rightarrow> gval \<Rightarrow> (string, 'd) ble_op" where
  "ble_subscribe L params s =
     seq (parseRequest L params, s) (\<lambda>(address, srvUUID, chUUID) s.
     seq (client_for L address s) (\<lambda>cl s.
     seq (find_characteristic L (fst cl) srvUUID chUUID s) (\<lambda>ch s.
     seq (on_client (fst cl) (on_first_service (on_first_char
            (DiscoverDescriptors (cli_radio L (fst cl)) None))) s) (\<lambda>_ s.
       subscribe_process L params address cl s))))"

definition ble_subscribeCancel :: "'d ble_lib \<Rightarrow> gval \<Rightarrow> (gval, 'd) ble_op" where
  "ble_subscribeCancel L params s =
     (let address = Str (Get params ''device'') in
      case conns s address of
        None \<Rightarrow> (Err (RpcErr (AddData ErrInvalidRequest ''msg'' (GStr ''sub not found''))), s)
      | Some n \<Rightarrow>
          seq (on_client n (ClearSubscriptions (cli_radio L n)) s) (\<lambda>_ s.
            (case cli_Close L n (device s) of
               (Some e, a) \<Rightarrow> (Err (GoErr e), s\<lparr>device := a\<rparr>)
             | (None, a) \<Rightarrow> (Ok (GBool True), s\<lparr>device := a, conns := (conns s)(address := None)\<rparr>))))"

definition ble_Call :: "'d ble_lib \<Rightarrow> 'd ble_state caller" where
  "ble_Call L s req =
     (if Method req = ''ble-scan'' then apfst (go_map RVal) (ble_scan L (Params req) s)
      else if Method req = ''ble-discover'' then apfst (go_map RVal) (ble_discover L (Params req) s)
      else if Method req = ''ble-read'' then apfst (go_map RVal) (ble_read L (Params req) s)
      else if Method req = ''ble-write'' then apfst (go_map RVal) (ble_write L (Params req) s)
      else if Method req = ''ble-subscribe'' then apfst (go_map RNotify) (ble_subscribe L (Params req) s)
      else if Method req = ''ble-subscribe-cancel'' then apfst (go_map RVal) (ble_subscribeCancel L (Params req) s)
      else (Err (method_not_found (Method req)), s))"

section \<open>Laws\<close>

named_theorems ble_simps

lemma seq_eq_Ok [ble_simps]:
  "seq m f = (Ok y, s') \<longleftrightarrow> (\<exists>x s. m = (Ok x, s) \<and> f x s = (Ok y, s'))"
  by (cases m; cases "fst m") (auto simp: seq_def)

lemma seq_simps [simp]:
  "seq (Ok x, s) f = f x s" "seq (Err e, s) f = (Err e, s)" "seq (Panic p, s) f = (Panic p, s)"
  by (simp_all add: seq_def)

lemma on_client_eq_Ok [ble_simps]:
  "on_client n f s = (Ok r, s') \<longleftrightarrow>
     (\<exists>p a. f (clients s n, device s) = (Ok r, p, a)
        \<and> s' = s\<lparr>clients := (clients s)(n := p), device := a\<rparr>)"
  by (auto simp: on_client_def go_simps split: prod.splits)

lemma on_first_service_eq_Ok [ble_simps]:
  "on_first_service f (p, a) = (Ok r, p', a') \<longleftrightarrow>
     (\<exists>sv rest sv'. profile p = sv # rest \<and> f (sv, a) = (Ok r, sv', a') \<and> p' = p\<lparr>profile := sv' # rest\<rparr>)"
  by (auto simp: on_first_service_def split: list.splits prod.splits)

lemma on_first_char_eq_Ok [ble_simps]:
  "on_first_char f (sv, a) = (Ok r, sv', a') \<longleftrightarrow>
     (\<exists>c rest c'. gs_Characteristics sv = c # rest \<and> f (c, a) = (Ok r, c', a')
        \<and> sv' = sv\<lparr>gs_Characteristics := c' # rest\<rparr>)"
  by (auto simp: on_first_char_def split: list.splits prod.splits)

lemma gatt_result_Ok [ble_simps]: "gatt_result e x = Ok y \<longleftrightarrow> e = None \<and> y = x"
  by (auto simp: gatt_result_def split: option.splits)

lemma close_unless_kept_eq_Ok [ble_simps]:
  "close_unless_kept L (n, k) r = (Ok x, s') \<longleftrightarrow>
     (\<exists>s. r = (Ok x, s) \<and> s' = (if k then s else s\<lparr>device := snd (cli_Close L n (device s))\<rparr>))"
  by (cases r) (auto simp: close_unless_kept_def)

lemma apfst_eq_Ok [ble_simps]: "apfst (go_map f) r = (Ok x, s') \<longleftrightarrow> (\<exists>y. r = (Ok y, s') \<and> x = f y)"
  by (cases r) (auto simp: go_simps)

text \<open>A request answers with a value: the connector meets the contract of the message handling.\<close>

lemma ble_not_nil: "ble_Call L s req \<noteq> (Ok (RVal GNil), s')"
  by (auto simp: ble_Call_def ble_scan_def ble_discover_def ble_read_def ble_write_def ble_subscribeCancel_def
      profile_json_def Let_def ble_simps split: sum.splits prod.splits go.splits option.splits scan_end.splits)

interpretation ble: rpc_caller "ble_Call L" for L
  by unfold_locales (rule ble_not_nil)

section \<open>The table of connections\<close>

lemma seq_keeps:
  assumes "Q (snd m)" and "\<And>x s. m = (Ok x, s) \<Longrightarrow> Q (snd (f x s))"
  shows "Q (snd (seq m f))"
  using assms by (cases m; cases "fst m") auto

lemmas conns_seq = seq_keeps [where Q = "\<lambda>s. conns s = T" for T]

lemma conns_on_client [simp]: "conns (snd (on_client n f s)) = conns s"
  by (auto simp: on_client_def split: prod.splits)

lemma conns_client_for [simp]: "conns (snd (client_for L address s)) = conns s"
  by (auto simp: client_for_def split: option.splits prod.splits go.splits)

lemma conns_close [simp]: "conns (snd (close_unless_kept L cl r)) = conns (snd r)"
  by (auto simp: close_unless_kept_def split: prod.splits)

lemma conns_find [simp]: "conns (snd (find_characteristic L n sv ch s)) = conns s"
  unfolding find_characteristic_def
  by (rule conns_seq) (auto simp: on_client_def split: prod.splits)

lemma conns_after:
  "client_for L address s = (cl, s1) \<Longrightarrow> conns s1 = conns s"
  "find_characteristic L n sv ch s = (cs, s1) \<Longrightarrow> conns s1 = conns s"
  "on_client n f s = (r, s1) \<Longrightarrow> conns s1 = conns s"
  using conns_client_for [of L address s] conns_find [of L n sv ch s] conns_on_client [of n f s] by auto

lemma conns_read [simp]: "conns (snd (ble_read L params s)) = conns s"
  unfolding ble_read_def by (auto intro!: conns_seq dest!: conns_after split: prod.splits)

lemma conns_write [simp]: "conns (snd (ble_write L params s)) = conns s"
  unfolding ble_write_def by (auto intro!: conns_seq dest!: conns_after split: prod.splits)

lemma conns_discover [simp]: "conns (snd (ble_discover L params s)) = conns s"
  unfolding ble_discover_def Let_def
  by (auto intro!: conns_seq dest!: conns_after split: prod.splits)

lemma conns_scan [simp]: "conns (snd (ble_scan L params s)) = conns s"
  by (auto simp: ble_scan_def split: sum.splits prod.splits go.splits)

lemma conns_seq_failed:
  assumes "conns (snd m) = T"
    and "\<And>x s. m = (Ok x, s) \<Longrightarrow> \<forall>y. fst (f x s) \<noteq> Ok y \<Longrightarrow> conns (snd (f x s)) = T"
    and "\<forall>y. fst (seq m f) \<noteq> Ok y"
  shows "conns (snd (seq m f)) = T"
  using assms by (cases m; cases "fst m") auto

lemma subscribe_process_Ok:
  "subscribe_process L params address (n, kept) s = (Ok pid, s') \<longleftrightarrow>
     ble_rpc s \<noteq> None \<and> (\<exists>a s1. new_pid L (device s) = (pid, a)
       \<and> on_client n (subscribe_first (cli_radio L n) (Bool (Get params ''indicator'')) pid) (s\<lparr>device := a\<rparr>) = (Ok (), s1)
       \<and> s' = (if kept then s1 else s1\<lparr>conns := (conns s1)(address \<mapsto> n)\<rparr>))"
  by (cases "new_pid L (device s)") (auto simp: subscribe_process_def seq_eq_Ok)

lemma conns_subscribe_process:
  "\<forall>pid. fst (subscribe_process L params address cl s) \<noteq> Ok pid \<Longrightarrow>
     conns (snd (subscribe_process L params address cl s)) = conns s"
  "subscribe_process L params address (n, kept) s = (Ok pid, s') \<Longrightarrow>
     conns s' = (if kept then conns s else (conns s)(address \<mapsto> n))"
proof -
  show "conns (snd (subscribe_process L params address cl s)) = conns s"
    if "\<forall>pid. fst (subscribe_process L params address cl s) \<noteq> Ok pid"
    using that unfolding subscribe_process_def
    by (cases "new_pid L (device s)") (auto elim!: conns_seq_failed [rotated 2])
  show "conns s' = (if kept then conns s else (conns s)(address \<mapsto> n))"
    if "subscribe_process L params address (n, kept) s = (Ok pid, s')"
    using that by (auto simp: subscribe_process_Ok dest!: conns_after)
qed

lemma conns_failed_subscribe:
  "\<forall>pid. fst (ble_subscribe L params s) \<noteq> Ok pid \<Longrightarrow> conns (snd (ble_subscribe L params s)) = conns s"
  unfolding ble_subscribe_def
  by (erule conns_seq_failed [rotated 2];
      auto intro!: conns_seq_failed dest!: conns_after simp: conns_subscribe_process split: prod.splits)

lemma ble_subscribe_Ok:
  assumes "ble_subscribe L params s = (Ok pid, s')"
  obtains address sv ch n kept s1 cs s2 ds s3 where
    "parseRequest L params = Ok (address, sv, ch)"
    "client_for L address s = (Ok (n, kept), s1)"
    "find_characteristic L n sv ch s1 = (Ok cs, s2)"
    "on_client n (on_first_service (on_first_char (DiscoverDescriptors (cli_radio L n) None))) s2 = (Ok ds, s3)"
    "subscribe_process L params address (n, kept) s3 = (Ok pid, s')"
  using assms unfolding ble_subscribe_def by (fastforce simp: seq_eq_Ok)

lemma client_for_kept: "client_for L address s = (Ok (n, kept), s1) \<Longrightarrow> kept \<longleftrightarrow> conns s address \<noteq> None"
  by (auto simp: client_for_def split: option.splits prod.splits go.splits)

lemma parseRequest_device:
  "parseRequest L params = Ok (address, sv, ch) \<Longrightarrow> address = Str (Get params ''device'')"
  by (auto simp: parseRequest_def Let_def split: if_splits sum.splits)

lemma conns_subscribe:
  "(conns (snd (ble_subscribe L params s)) = conns s
      \<and> (\<forall>pid. fst (ble_subscribe L params s) = Ok pid \<longrightarrow> conns s (Str (Get params ''device'')) \<noteq> None))
   \<or> (\<exists>pid n. fst (ble_subscribe L params s) = Ok pid \<and> conns s (Str (Get params ''device'')) = None
        \<and> conns (snd (ble_subscribe L params s)) = (conns s)(Str (Get params ''device'') \<mapsto> n))"
proof (cases "\<exists>pid. fst (ble_subscribe L params s) = Ok pid")
  case True
  then obtain pid s' where r: "ble_subscribe L params s = (Ok pid, s')"
    by (cases "ble_subscribe L params s") auto
  show ?thesis
  proof (rule ble_subscribe_Ok [OF r])
    fix address sv ch n kept s1 cs s2 ds s3
    assume p: "parseRequest L params = Ok (address, sv, ch)"
      and cl: "client_for L address s = (Ok (n, kept), s1)"
      and f: "find_characteristic L n sv ch s1 = (Ok cs, s2)"
      and d: "on_client n (on_first_service (on_first_char (DiscoverDescriptors (cli_radio L n) None))) s2 = (Ok ds, s3)"
      and pr: "subscribe_process L params address (n, kept) s3 = (Ok pid, s')"
    have "conns s3 = conns s"
      using conns_after(1) [OF cl] conns_after(2) [OF f] conns_after(3) [OF d] by simp
    with conns_subscribe_process(2) [OF pr] client_for_kept [OF cl] parseRequest_device [OF p] r
    show ?thesis by auto
  qed
next
  case False
  with conns_failed_subscribe [of L params s] show ?thesis by simp
qed

lemma conns_cancel:
  "conns (snd (ble_subscribeCancel L params s)) = conns s
      \<and> (\<forall>v. fst (ble_subscribeCancel L params s) \<noteq> Ok v)
   \<or> (fst (ble_subscribeCancel L params s) = Ok (GBool True) \<and> conns s (Str (Get params ''device'')) \<noteq> None
        \<and> conns (snd (ble_subscribeCancel L params s)) = (conns s)(Str (Get params ''device'') := None))"
proof (cases "conns s (Str (Get params ''device''))")
  case None
  then show ?thesis by (simp add: ble_subscribeCancel_def)
next
  case (Some n)
  obtain r s1 where c: "on_client n (ClearSubscriptions (cli_radio L n)) s = (r, s1)"
    by (cases "on_client n (ClearSubscriptions (cli_radio L n)) s") auto
  with Some conns_after(3) [OF c] show ?thesis
    by (cases r) (auto simp: ble_subscribeCancel_def Let_def split: prod.split option.split)
qed

text \<open>Once the service is injected, a client is kept for an address from the first successful subscription to
  the first successful cancel, whatever happens in between: nothing else adds to the table or removes from
  it, not even the loss of the connection.\<close>

lemma client_kept_step:
  "let (r, s') = ble_Call L s req; address = Str (Get (Params req) ''device'') in
     conns s' = conns s
     \<or> (Method req = ''ble-subscribe'' \<and> (\<exists>pid. r = Ok (RNotify pid)) \<and> conns s address = None
        \<and> (\<exists>n. conns s' = (conns s)(address \<mapsto> n)))
     \<or> (Method req = ''ble-subscribe-cancel'' \<and> r = Ok (RVal (GBool True)) \<and> conns s address \<noteq> None
        \<and> conns s' = (conns s)(address := None))"
  using conns_subscribe [of L "Params req" s] conns_cancel [of L "Params req" s]
  by (auto simp: ble_Call_def Let_def case_prod_beta)

section \<open>The service that is never injected\<close>

text \<open>No operation sets the field.\<close>

lemma rpc_on_client [simp]: "ble_rpc (snd (on_client n f s)) = ble_rpc s"
  by (auto simp: on_client_def split: prod.splits)

lemma rpc_client_for [simp]: "ble_rpc (snd (client_for L address s)) = ble_rpc s"
  by (auto simp: client_for_def split: option.splits prod.splits go.splits)

lemma rpc_close [simp]: "ble_rpc (snd (close_unless_kept L cl r)) = ble_rpc (snd r)"
  by (auto simp: close_unless_kept_def split: prod.splits)

lemmas rpc_seq = seq_keeps [where Q = "\<lambda>s. ble_rpc s = b" for b]

lemma rpc_find [simp]: "ble_rpc (snd (find_characteristic L n sv ch s)) = ble_rpc s"
  unfolding find_characteristic_def
  by (rule rpc_seq) (auto simp: on_client_def split: prod.splits)

lemma rpc_after:
  "client_for L address s = (cl, s1) \<Longrightarrow> ble_rpc s1 = ble_rpc s"
  "find_characteristic L n sv ch s = (cs, s1) \<Longrightarrow> ble_rpc s1 = ble_rpc s"
  "on_client n f s = (r, s1) \<Longrightarrow> ble_rpc s1 = ble_rpc s"
  using rpc_client_for [of L address s] rpc_find [of L n sv ch s] rpc_on_client [of n f s] by auto

lemma rpc_subscribe_process [simp]: "ble_rpc (snd (subscribe_process L params address cl s)) = ble_rpc s"
  by (auto simp: subscribe_process_def intro!: rpc_seq dest!: rpc_after split: prod.splits)

lemma rpc_subscribe [simp]: "ble_rpc (snd (ble_subscribe L params s)) = ble_rpc s"
  unfolding ble_subscribe_def by (auto intro!: rpc_seq dest!: rpc_after split: prod.splits)

lemma rpc_requests [simp]:
  "ble_rpc (snd (ble_scan L params s)) = ble_rpc s"
  "ble_rpc (snd (ble_discover L params s)) = ble_rpc s"
  "ble_rpc (snd (ble_read L params s)) = ble_rpc s"
  "ble_rpc (snd (ble_write L params s)) = ble_rpc s"
  subgoal by (auto simp: ble_scan_def split: sum.splits prod.splits go.splits)
  subgoal unfolding ble_discover_def Let_def by (auto intro!: rpc_seq dest!: rpc_after split: prod.splits)
  subgoal unfolding ble_read_def by (auto intro!: rpc_seq dest!: rpc_after split: prod.splits)
  subgoal unfolding ble_write_def by (auto intro!: rpc_seq dest!: rpc_after split: prod.splits)
  done

lemma rpc_cancel [simp]: "ble_rpc (snd (ble_subscribeCancel L params s)) = ble_rpc s"
  unfolding ble_subscribeCancel_def Let_def
  by (auto split: option.split intro!: rpc_seq dest!: rpc_after split: prod.splits)

lemma rpc_Call [simp]: "ble_rpc (snd (ble_Call L s req)) = ble_rpc s"
  by (simp add: ble_Call_def)

text \<open>So a subscription cannot succeed, and no client is ever kept.\<close>

lemma subscribe_needs_rpc: "fst (ble_subscribe L params s) = Ok pid \<Longrightarrow> ble_rpc s \<noteq> None"
proof -
  assume "fst (ble_subscribe L params s) = Ok pid"
  then obtain s' where r: "ble_subscribe L params s = (Ok pid, s')" by (cases "ble_subscribe L params s") auto
  show "ble_rpc s \<noteq> None"
    by (rule ble_subscribe_Ok [OF r]) (auto simp: subscribe_process_Ok dest!: rpc_after)
qed

definition ble_after :: "'d ble_lib \<Rightarrow> request list \<Rightarrow> 'd ble_state \<Rightarrow> 'd ble_state" where
  "ble_after L reqs s = fold (\<lambda>req s. snd (ble_Call L s req)) reqs s"

lemma served_state: "ble_served newDevice = Ok s \<Longrightarrow> ble_rpc s = None \<and> conns s = Map.empty"
  by (cases newDevice) (auto simp: ble_served_def ble_New_def)

lemma no_subscription_step:
  assumes "ble_rpc s = None" and "conns s = Map.empty"
  shows "conns (snd (ble_Call L s req)) = Map.empty"
  using client_kept_step [of L s req] assms subscribe_needs_rpc [of L "Params req" s]
  by (auto simp: Let_def case_prod_beta go_simps ble_Call_def)

lemma no_subscription_after:
  assumes "ble_rpc s = None" and "conns s = Map.empty"
  shows "ble_rpc (ble_after L reqs s) = None \<and> conns (ble_after L reqs s) = Map.empty"
  using assms by (induction reqs arbitrary: s) (auto simp: ble_after_def no_subscription_step)

text \<open>C29: in the process as it is started the handler never gets the service it notifies with: after any
  requests no subscription succeeds, a cancel finds none, and no client is kept.\<close>

theorem subscription_never_succeeds:
  assumes "ble_served newDevice = Ok s0"
  shows "conns (ble_after L reqs s0) = Map.empty
    \<and> (\<forall>pid. fst (ble_subscribe L params (ble_after L reqs s0)) \<noteq> Ok pid)
    \<and> ble_subscribeCancel L params (ble_after L reqs s0)
      = (Err (RpcErr (AddData ErrInvalidRequest ''msg'' (GStr ''sub not found''))), ble_after L reqs s0)"
proof -
  have "ble_rpc (ble_after L reqs s0) = None \<and> conns (ble_after L reqs s0) = Map.empty"
    using served_state [OF assms] by (intro no_subscription_after) auto
  then show ?thesis
    by (auto simp: ble_subscribeCancel_def Let_def dest: subscribe_needs_rpc)
qed

section \<open>Which characteristic a request reaches\<close>

text \<open>Discovery adds to the profile of a client, so on a kept client the first service and the first
  characteristic stay the ones that were found first.\<close>

definition first_char :: "gclient \<Rightarrow> gcharacteristic option" where
  "first_char p =
     (case profile p of
        [] \<Rightarrow> None
      | sv # _ \<Rightarrow> (case gs_Characteristics sv of [] \<Rightarrow> None | c # _ \<Rightarrow> Some c))"

lemma first_char_found:
  assumes "find_characteristic L n sv ch s = (Ok cs, s')" and "first_char (clients s n) = Some c"
  shows "first_char (clients s' n) = Some c"
proof -
  from assms(2) obtain v rest cc where p: "profile (clients s n) = v # rest" "gs_Characteristics v = c # cc"
    by (auto simp: first_char_def split: list.splits)
  from assms(1) p show ?thesis
    by (auto simp: find_characteristic_def ble_simps DiscoverServices_def DiscoverCharacteristics_def
        first_char_def Let_def split: prod.splits)
qed

lemma ReadCharacteristic_Ok [ble_simps]:
  "ReadCharacteristic R (c, a) = (Ok v, c', a') \<longleftrightarrow>
     att_read R (gc_ValueHandle c) a = (Ok v, a') \<and> c' = c\<lparr>gc_Data := Some v\<rparr>"
  by (cases "att_read R (gc_ValueHandle c) a"; cases "fst (att_read R (gc_ValueHandle c) a)")
    (auto simp: ReadCharacteristic_def)

lemma WriteCharacteristic_Ok [ble_simps]:
  "WriteCharacteristic R b (c, a) = (Ok u, c', a') \<longleftrightarrow>
     att_write R (gc_ValueHandle c) b a = (None, a') \<and> c' = c"
  by (cases "att_write R (gc_ValueHandle c) b a") (auto simp: WriteCharacteristic_def gatt_result_Ok)

lemma read_first:
  assumes "on_client n (on_first_service (on_first_char (ReadCharacteristic R))) s = (Ok v, s')"
    and "first_char (clients s n) = Some c"
  shows "att_read R (gc_ValueHandle c) (device s) = (Ok v, device s')"
  using assms
  by (auto simp: ble_simps first_char_def split: list.splits)

lemma write_first:
  assumes "on_client n (on_first_service (on_first_char (WriteCharacteristic R b))) s = (Ok u, s')"
    and "first_char (clients s n) = Some c"
  shows "att_write R (gc_ValueHandle c) b (device s) = (None, device s')"
  using assms
  by (auto simp: ble_simps first_char_def split: list.splits)

lemma read_kept:
  assumes "conns s (Str (Get params ''device'')) = Some n" and "first_char (clients s n) = Some c"
    and "ble_read L params s = (Ok v, s')"
  shows "\<exists>a b. att_read (cli_radio L n) (gc_ValueHandle c) a = (Ok b, device s') \<and> v = GBytes b"
proof -
  from assms(1,3) obtain sv ch cs s1 b where
    f: "find_characteristic L n sv ch s = (Ok cs, s1)" and v: "v = GBytes b"
    and r: "on_client n (on_first_service (on_first_char (ReadCharacteristic (cli_radio L n)))) s1 = (Ok b, s')"
    by (auto simp: ble_read_def seq_eq_Ok client_for_def close_unless_kept_eq_Ok apfst_eq_Ok dest!: parseRequest_device)
  from read_first [OF r first_char_found [OF f assms(2)]] v show ?thesis by blast
qed

lemma write_kept:
  assumes "conns s (Str (Get params ''device'')) = Some n" and "first_char (clients s n) = Some c"
    and "ble_write L params s = (Ok v, s')"
  shows "\<exists>a. att_write (cli_radio L n) (gc_ValueHandle c) (write_bytes (Str (Get params ''value''))) a = (None, device s')"
proof -
  from assms(1,3) obtain sv ch cs s1 where
    f: "find_characteristic L n sv ch s = (Ok cs, s1)"
    and r: "on_client n (on_first_service (on_first_char (WriteCharacteristic (cli_radio L n)
          (write_bytes (Str (Get params ''value'')))))) s1 = (Ok (), s')"
    by (auto simp: ble_write_def seq_eq_Ok client_for_def close_unless_kept_eq_Ok apfst_eq_Ok dest!: parseRequest_device)
  from write_first [OF r first_char_found [OF f assms(2)]] show ?thesis by blast
qed

text \<open>While an address has a subscription, every read and write that succeeds on it reaches the
  characteristic that was subscribed, whatever service and characteristic the request names.\<close>

theorem subscribed_device_ignores_characteristic:
  assumes "conns s (Str (Get params ''device'')) = Some n" and "first_char (clients s n) = Some c"
  shows "(\<forall>v s'. ble_read L params s = (Ok v, s') \<longrightarrow>
      (\<exists>a b. att_read (cli_radio L n) (gc_ValueHandle c) a = (Ok b, device s') \<and> v = GBytes b))
    \<and> (\<forall>v s'. ble_write L params s = (Ok v, s') \<longrightarrow>
      (\<exists>a. att_write (cli_radio L n) (gc_ValueHandle c) (write_bytes (Str (Get params ''value''))) a = (None, device s')))"
  using read_kept [OF assms] write_kept [OF assms] by blast

lemma first_service_found:
  assumes "sv \<notin> fst ` set pre"
  shows "\<exists>rest. [\<lparr>gs_UUID = u, gs_Characteristics = [], gs_Handle = h, gs_EndHandle = endh\<rparr>.
      (u, h, endh) \<leftarrow> pre @ (sv, h0, e0) # post, in_filter (Some [sv]) u]
    = \<lparr>gs_UUID = sv, gs_Characteristics = [], gs_Handle = h0, gs_EndHandle = e0\<rparr> # rest"
  using assms by (induction pre) (auto simp: in_filter_def)

lemma first_char_listed:
  assumes "ch \<notin> fst ` set cpre"
  shows "\<exists>c rest. filter (\<lambda>c. in_filter (Some [ch]) (gc_UUID c))
      (new_characteristics e (cpre @ (ch, pr, h', vh) # cpost)) = c # rest \<and> gc_ValueHandle c = vh"
  using assms by (induction cpre) (auto simp: in_filter_def)

lemma find_fresh:
  assumes "clients s n = NewClient"
    and "att_services (cli_radio L n) (device s) = ((pre @ (sv, h, e) # post, None), a1)" and "sv \<notin> fst ` set pre"
    and "att_characteristics (cli_radio L n) h e a1 = ((cpre @ (ch, pr, h', vh) # cpost, None), a2)"
    and "ch \<notin> fst ` set cpre"
  shows "\<exists>cs s' c. find_characteristic L n sv ch s = (Ok cs, s') \<and> device s' = a2 \<and> conns s' = conns s
    \<and> first_char (clients s' n) = Some c \<and> gc_ValueHandle c = vh"
proof -
  obtain rest where ss: "[\<lparr>gs_UUID = u, gs_Characteristics = [], gs_Handle = h, gs_EndHandle = endh\<rparr>.
      (u, h, endh) \<leftarrow> pre @ (sv, h, e) # post, in_filter (Some [sv]) u]
    = \<lparr>gs_UUID = sv, gs_Characteristics = [], gs_Handle = h, gs_EndHandle = e\<rparr> # rest" (is "?ss = _")
    using first_service_found [OF assms(3)] by blast
  obtain c crest where cs: "filter (\<lambda>c. in_filter (Some [ch]) (gc_UUID c))
      (new_characteristics e (cpre @ (ch, pr, h', vh) # cpost)) = c # crest" "gc_ValueHandle c = vh"
    using first_char_listed [OF assms(5)] by blast
  let ?s1 = "s\<lparr>clients := (clients s)(n := NewClient\<lparr>profile := ?ss\<rparr>), device := a1\<rparr>"
  have "on_client n (DiscoverServices (cli_radio L n) (Some [sv])) s = (Ok ?ss, ?s1)"
    using assms(1,2) by (simp add: on_client_eq_Ok DiscoverServices_def Let_def gatt_result_def NewClient_def)
  moreover have "\<exists>s'. on_client n (on_first_service (DiscoverCharacteristics (cli_radio L n) (Some [ch]))) ?s1 = (Ok (c # crest), s')
      \<and> device s' = a2 \<and> conns s' = conns s \<and> first_char (clients s' n) = Some c"
    unfolding ss using assms(4) cs(1)
    by (simp add: on_client_def on_first_service_def DiscoverCharacteristics_def Let_def gatt_result_def first_char_def)
  ultimately show ?thesis using cs(2)
    by (auto simp: find_characteristic_def)
qed

lemma read_first_Ok:
  assumes "first_char (clients s n) = Some c" and "att_read R (gc_ValueHandle c) (device s) = (Ok b, a)"
  shows "\<exists>s'. on_client n (on_first_service (on_first_char (ReadCharacteristic R))) s = (Ok b, s')
    \<and> device s' = a \<and> conns s' = conns s"
  using assms
  by (auto simp: first_char_def on_client_def on_first_service_def on_first_char_def ReadCharacteristic_def
      split: list.splits)

text \<open>C28: without a subscription a read reaches the first characteristic of the identifier asked for in
  the first service asked for, and closes the connection it opened.\<close>

theorem fresh_read_reaches_requested:
  assumes "parseRequest L params = Ok (address, sv, ch)" and "conns s address = None"
    and "dev_Dial L (NewAddr address) (device s) = (Ok n, a0)"
    and "att_services (cli_radio L n) a0 = ((pre @ (sv, h, e) # post, None), a1)" and "sv \<notin> fst ` set pre"
    and "att_characteristics (cli_radio L n) h e a1 = ((cpre @ (ch, pr, h', vh) # cpost, None), a2)"
    and "ch \<notin> fst ` set cpre"
    and "att_read (cli_radio L n) vh a2 = (Ok b, a3)"
  shows "\<exists>s'. ble_read L params s = (Ok (GBytes b), s') \<and> device s' = snd (cli_Close L n a3) \<and> conns s' = conns s"
proof -
  let ?s0 = "s\<lparr>device := a0, clients := (clients s)(n := NewClient)\<rparr>"
  obtain cs s1 c where f: "find_characteristic L n sv ch ?s0 = (Ok cs, s1)" "device s1 = a2" "conns s1 = conns s"
    "first_char (clients s1 n) = Some c" "gc_ValueHandle c = vh"
    using find_fresh [of ?s0 n L pre sv h e post a1 cpre ch pr h' vh cpost a2] assms(4-7) by auto
  from read_first_Ok [OF f(4), of "cli_radio L n" b a3] f(2,5) assms(8) obtain s2 where
    "on_client n (on_first_service (on_first_char (ReadCharacteristic (cli_radio L n)))) s1 = (Ok b, s2)"
    "device s2 = a3" "conns s2 = conns s1"
    by auto
  with assms(1-3) f show ?thesis
    by (simp add: ble_read_def client_for_def close_unless_kept_def)
qed

section \<open>Subscribing again\<close>

lemma find_keeps_subs:
  "find_characteristic L n sv ch s = (Ok cs, s') \<Longrightarrow> subs (clients s' n) = subs (clients s n)"
  by (auto simp: find_characteristic_def ble_simps DiscoverServices_def Let_def split: prod.splits)

lemma descriptors_keep:
  assumes "on_client n (on_first_service (on_first_char (DiscoverDescriptors R f))) s = (Ok ds, s')"
    and "first_char (clients s n) = Some c"
  shows "subs (clients s' n) = subs (clients s n)
    \<and> (\<exists>c'. first_char (clients s' n) = Some c' \<and> gc_ValueHandle c' = gc_ValueHandle c)"
  using assms
  by (auto simp: ble_simps first_char_def DiscoverDescriptors_def Let_def split: list.splits prod.splits)

definition ccc_flag :: "bool \<Rightarrow> u16" where
  "ccc_flag ind = (if ind then cccIndicate else cccNotify)"

lemma subscribe_first_again:
  assumes "subscribe_first R ind pid (p, a) = (Ok u, p', a')" and "first_char p = Some c"
    and "map_of (subs p) (gc_ValueHandle c) = Some su" and "sub_ccc su AND ccc_flag ind \<noteq> 0"
  shows "a' = a \<and> map_of (subs p') = map_of (subs p)"
proof -
  from assms(2) obtain sv rest cs where p: "profile p = sv # rest" "gs_Characteristics sv = c # cs"
    by (auto simp: first_char_def split: list.splits)
  have "map_of (AList.update vh su xs) = map_of xs" if "map_of xs vh = Some su" for vh and xs :: "(u16 \<times> gsub) list"
    using that by (auto simp: update_conv')
  with assms p show ?thesis
    by (auto simp: subscribe_first_def gatt_Subscribe_def setHandlers_def Let_def ccc_flag_def split: option.splits)
qed

text \<open>a second subscription of a characteristic answers with a new process, but nothing is sent to the
  device and the values still go where they went before: the new process never gets one.\<close>

theorem second_subscription_silent:
  assumes "conns s (Str (Get params ''device'')) = Some n" and "first_char (clients s n) = Some c"
    and "map_of (subs (clients s n)) (gc_ValueHandle c) = Some su"
    and "sub_ccc su AND ccc_flag (Bool (Get params ''indicator'')) \<noteq> 0"
    and "ble_subscribe L params s = (Ok pid, s')"
  shows "notified (clients s' n) b vh = notified (clients s n) b vh"
proof (rule ble_subscribe_Ok [OF assms(5)])
  fix address sv ch m kept s1 cs s2 ds s3
  assume p: "parseRequest L params = Ok (address, sv, ch)"
    and cl: "client_for L address s = (Ok (m, kept), s1)"
    and f: "find_characteristic L m sv ch s1 = (Ok cs, s2)"
    and d: "on_client m (on_first_service (on_first_char (DiscoverDescriptors (cli_radio L m) None))) s2 = (Ok ds, s3)"
    and pr: "subscribe_process L params address (m, kept) s3 = (Ok pid, s')"
  from assms(1) parseRequest_device [OF p] cl have m: "m = n" "kept" "s1 = s" by (auto simp: client_for_def)
  from first_char_found [OF f] m assms(2) have c2: "first_char (clients s2 n) = Some c" by simp
  from descriptors_keep [OF d] m c2 obtain c3 where c3: "first_char (clients s3 n) = Some c3"
    "gc_ValueHandle c3 = gc_ValueHandle c" "subs (clients s3 n) = subs (clients s2 n)" by auto
  with find_keeps_subs [OF f] m have subs: "subs (clients s3 n) = subs (clients s n)" by simp
  from pr m obtain a s4 where "on_client n (subscribe_first (cli_radio L n) (Bool (Get params ''indicator'')) pid)
      (s3\<lparr>device := a\<rparr>) = (Ok (), s4)" "s' = s4"
    by (auto simp: subscribe_process_Ok)
  then obtain q a' where q: "subscribe_first (cli_radio L n) (Bool (Get params ''indicator'')) pid (clients s3 n, a) = (Ok (), q, a')"
    "clients s' n = q"
    by (auto simp: on_client_eq_Ok)
  from subscribe_first_again [OF q(1) c3(1)] c3(2) subs assms(3,4) have "map_of (subs q) = map_of (subs (clients s n))"
    by simp
  with q(2) show ?thesis by (simp add: notified_def)
qed

section \<open>Connections that nobody closes\<close>

text \<open>The connections that were dialled and not closed by a call are a function of the state of the device: a dial
  that succeeds adds one that is not among them, a close removes the one it names, and nothing else changes
  them.\<close>

definition keeps :: "('d \<Rightarrow> nat set) \<Rightarrow> ('x \<times> 'd \<Rightarrow> 'r \<times> 'x \<times> 'd) \<Rightarrow> bool" where
  "keeps opened f \<longleftrightarrow> (\<forall>x a. opened (snd (snd (f (x, a)))) = opened a)"

definition tracks :: "('d \<Rightarrow> nat set) \<Rightarrow> 'd ble_lib \<Rightarrow> bool" where
  "tracks opened L \<longleftrightarrow>
     (\<forall>addr a n a'. dev_Dial L addr a = (Ok n, a') \<longrightarrow> n \<notin> opened a \<and> opened a' = insert n (opened a))
     \<and> (\<forall>addr a r a'. dev_Dial L addr a = (r, a') \<longrightarrow> (\<forall>n. r \<noteq> Ok n) \<longrightarrow> opened a' = opened a)
     \<and> (\<forall>n a. opened (snd (cli_Close L n a)) = opened a - {n})
     \<and> (\<forall>d a. opened (snd (dev_Scan L d a)) = opened a)
     \<and> (\<forall>n h a. opened (snd (att_read (cli_radio L n) h a)) = opened a)
     \<and> (\<forall>n a. opened (snd (att_services (cli_radio L n) a)) = opened a)
     \<and> (\<forall>n x y a. opened (snd (att_characteristics (cli_radio L n) x y a)) = opened a)
     \<and> (\<forall>n x y a. opened (snd (att_information (cli_radio L n) x y a)) = opened a)
     \<and> (\<forall>n h v a. opened (snd (att_write (cli_radio L n) h v a)) = opened a)
     \<and> (\<forall>a. opened (snd (new_pid L a)) = opened a)"

lemma keeps_steps:
  assumes "tracks opened L"
  shows "keeps opened (DiscoverServices (cli_radio L n) f)"
    and "keeps opened (on_first_service (DiscoverCharacteristics (cli_radio L n) f))"
    and "keeps opened (on_first_service (on_first_char (DiscoverDescriptors (cli_radio L n) f)))"
    and "keeps opened (subscribe_first (cli_radio L n) ind pid)"
    and "keeps opened (on_first_service (on_first_char (ReadCharacteristic (cli_radio L n))))"
    and "keeps opened (on_first_service (on_first_char (WriteCharacteristic (cli_radio L n) v)))"
proof -
  have t: "opened a' = opened a" if "att_services (cli_radio L n) a = (r, a')" for a r a'
    using assms that by (metis tracks_def snd_conv)
  show "keeps opened (DiscoverServices (cli_radio L n) f)"
    by (auto simp: keeps_def DiscoverServices_def Let_def split: prod.splits dest: t)
  have t: "opened a' = opened a" if "att_characteristics (cli_radio L n) x y a = (r, a')" for a r a' x y
    using assms that by (metis tracks_def snd_conv)
  show "keeps opened (on_first_service (DiscoverCharacteristics (cli_radio L n) f))"
    by (auto simp: keeps_def on_first_service_def DiscoverCharacteristics_def Let_def split: prod.splits list.splits dest: t)
  have t: "opened a' = opened a" if "att_information (cli_radio L n) x y a = (r, a')" for a r a' x y
    using assms that by (metis tracks_def snd_conv)
  show "keeps opened (on_first_service (on_first_char (DiscoverDescriptors (cli_radio L n) f)))"
    by (auto simp: keeps_def on_first_service_def on_first_char_def DiscoverDescriptors_def Let_def
        split: prod.splits list.splits dest: t)
  have t: "opened a' = opened a" if "att_write (cli_radio L n) h v a = (r, a')" for a r a' h v
    using assms that by (metis tracks_def snd_conv)
  show "keeps opened (subscribe_first (cli_radio L n) ind pid)"
    by (auto simp: keeps_def subscribe_first_def gatt_Subscribe_def setHandlers_def Let_def
        split: prod.splits list.splits option.splits dest: t)
  show "keeps opened (on_first_service (on_first_char (WriteCharacteristic (cli_radio L n) v)))"
    by (auto simp: keeps_def on_first_service_def on_first_char_def WriteCharacteristic_def
        split: prod.splits list.splits dest: t)
  have t: "opened a' = opened a" if "att_read (cli_radio L n) h a = (r, a')" for r a' h a
    using assms that by (metis tracks_def snd_conv)
  show "keeps opened (on_first_service (on_first_char (ReadCharacteristic (cli_radio L n))))"
    by (auto simp: keeps_def on_first_service_def on_first_char_def ReadCharacteristic_def
        split: prod.splits list.splits go.splits dest: t)
qed

lemma keeps_each:
  assumes "keeps opened f"
  shows "opened (snd (snd (each f xs a))) = opened a"
proof (induction xs arbitrary: a)
  case (Cons x xs)
  obtain r x' a' where f: "f (x, a) = (r, x', a')" using prod_cases3 by blast
  from assms have "opened (snd (snd (f (x, a)))) = opened a" by (simp add: keeps_def)
  with f Cons.IH [of a'] show ?case by (cases r) (auto split: prod.splits)
qed simp

lemma keeps_discover_service:
  assumes "tracks opened L"
  shows "keeps opened (discover_service (cli_radio L n))"
proof -
  have d: "keeps opened (DiscoverDescriptors (cli_radio L n) None)"
    unfolding keeps_def DiscoverDescriptors_def Let_def
    using assms by (auto split: prod.splits simp: tracks_def) (metis snd_conv)+
  have c: "opened (snd (snd (DiscoverCharacteristics (cli_radio L n) None sa))) = opened (snd sa)" for sa
    unfolding DiscoverCharacteristics_def Let_def
    using assms by (auto split: prod.splits simp: tracks_def) (metis snd_conv)+
  show ?thesis
    unfolding keeps_def
  proof (intro allI)
    fix s a
    obtain r s' a' where r: "DiscoverCharacteristics (cli_radio L n) None (s, a) = (r, s', a')" using prod_cases3 by blast
    then have a: "opened a' = opened a" using c [of "(s, a)"] by simp
    show "opened (snd (snd (discover_service (cli_radio L n) (s, a)))) = opened a"
    proof (cases r)
      case (Ok cs)
      with r a keeps_each [OF d, of cs a'] show ?thesis
        by (auto simp: discover_service_def split: prod.splits)
    qed (use r a in \<open>auto simp: discover_service_def\<close>)
  qed
qed

lemma keeps_DiscoverProfile:
  assumes "tracks opened L"
  shows "keeps opened (DiscoverProfile (cli_radio L n))"
  unfolding keeps_def
proof (intro allI)
  fix p a
  obtain r p' a' where r: "DiscoverServices (cli_radio L n) None (p, a) = (r, p', a')" using prod_cases3 by blast
  have a: "opened a' = opened a"
    using keeps_steps(1) [OF assms, of n None] r unfolding keeps_def by (metis snd_conv)
  show "opened (snd (snd (DiscoverProfile (cli_radio L n) (p, a)))) = opened a"
  proof (cases r)
    case (Ok ss)
    with r a keeps_each [OF keeps_discover_service [OF assms], of n ss a'] show ?thesis
      by (auto simp: DiscoverProfile_def split: prod.splits)
  qed (use r a in \<open>auto simp: DiscoverProfile_def\<close>)
qed

lemma opened_on_client:
  assumes "keeps opened f"
  shows "opened (device (snd (on_client n f s))) = opened (device s)"
proof -
  obtain r p b where f: "f (clients s n, device s) = (r, p, b)" using prod_cases3 by blast
  from assms have "opened (snd (snd (f (clients s n, device s)))) = opened (device s)" by (simp add: keeps_def)
  with f show ?thesis by (simp add: on_client_def)
qed

lemma opened_seq:
  assumes "opened (device (snd m)) = opn" and "\<And>x s. opened (device s) = opn \<Longrightarrow> opened (device (snd (f x s))) = opn"
  shows "opened (device (snd (seq m f))) = opn"
  using assms by (cases m; cases "fst m") auto

lemma opened_find:
  assumes "tracks opened L"
  shows "opened (device (snd (find_characteristic L n sv ch s))) = opened (device s)"
  unfolding find_characteristic_def
  by (rule opened_seq) (simp_all add: opened_on_client keeps_steps [OF assms])

lemma opened_process:
  assumes "tracks opened L"
  shows "opened (device (snd (subscribe_process L params address cl s))) = opened (device s)"
proof -
  obtain pid a where n: "new_pid L (device s) = (pid, a)" by fastforce
  from assms have "opened (snd (new_pid L (device s))) = opened (device s)" by (simp add: tracks_def)
  with n have a: "opened a = opened (device s)" by simp
  show ?thesis
    unfolding subscribe_process_def n prod.case
    by (cases "ble_rpc s"; simp; rule opened_seq) (simp_all add: opened_on_client keeps_steps [OF assms] a)
qed

text \<open>A subscription that fails after its connection was opened leaves the connection open, and no
  later request can reach it: the table does not have it.\<close>

lemma failed_subscription_leaks:
  assumes "tracks opened L" and "parseRequest L params = Ok (address, sv, ch)"
    and "conns s address = None" and "dev_Dial L (NewAddr address) (device s) = (Ok n, a)"
    and "\<forall>pid. fst (ble_subscribe L params s) \<noteq> Ok pid"
  shows "opened (device (snd (ble_subscribe L params s))) = insert n (opened (device s))
    \<and> conns (snd (ble_subscribe L params s)) = conns s"
proof
  let ?s0 = "s\<lparr>device := a, clients := (clients s)(n := NewClient)\<rparr>"
  have a: "opened a = insert n (opened (device s))" using assms(1,4) by (simp add: tracks_def)
  have r: "ble_subscribe L params s =
      seq (find_characteristic L n sv ch ?s0) (\<lambda>ch s.
      seq (on_client n (on_first_service (on_first_char (DiscoverDescriptors (cli_radio L n) None))) s) (\<lambda>_ s.
        subscribe_process L params address (n, False) s))"
    using assms(2-4) by (simp add: ble_subscribe_def client_for_def)
  have "opened (device (snd (ble_subscribe L params s))) = opened a"
    unfolding r
  proof (rule opened_seq [where opened = opened])
    show "opened (device (snd (find_characteristic L n sv ch ?s0))) = opened a"
      by (simp add: opened_find [OF assms(1)])
    fix x and s1 :: "'a ble_state"
    assume s1: "opened (device s1) = opened a"
    show "opened (device (snd (seq (on_client n (on_first_service (on_first_char (DiscoverDescriptors (cli_radio L n) None))) s1)
        (\<lambda>_ s. subscribe_process L params address (n, False) s)))) = opened a"
      by (rule opened_seq [where opened = opened])
        (simp_all add: s1 opened_on_client keeps_steps [OF assms(1)] opened_process [OF assms(1)])
  qed
  with a show "opened (device (snd (ble_subscribe L params s))) = insert n (opened (device s))" by simp
  show "conns (snd (ble_subscribe L params s)) = conns s"
    by (rule conns_failed_subscribe [OF assms(5)])
qed

text \<open>A connection dialled for a request is closed at its end, and no other.\<close>

lemma opened_dialled_request:
  assumes "tracks opened L" and "conns s = Map.empty"
    and "\<And>cl s. opened (device (snd (g cl s))) = opened (device s)"
  shows "opened (device (snd (seq (client_for L address s) (\<lambda>cl s. close_unless_kept L cl (g cl s))))) = opened (device s)"
proof -
  obtain r a where d: "dev_Dial L (NewAddr address) (device s) = (r, a)" by fastforce
  show ?thesis
  proof (cases r)
    case (Ok n)
    let ?s = "s\<lparr>device := a, clients := (clients s)(n := NewClient)\<rparr>"
    have "n \<notin> opened (device s)" "opened a = insert n (opened (device s))"
      using assms(1) d Ok by (auto simp: tracks_def)
    moreover have "opened (snd (cli_Close L n x)) = opened x - {n}" for x
      using assms(1) by (simp add: tracks_def)
    ultimately show ?thesis
      using assms(2) assms(3) [of "(n, False)" ?s] d Ok
      by (simp add: client_for_def close_unless_kept_def)
  next
    case (Err e)
    then have "opened a = opened (device s)" using assms(1) d by (auto simp: tracks_def)
    with assms(2) d Err show ?thesis by (simp add: client_for_def)
  next
    case (Panic m)
    then have "opened a = opened (device s)" using assms(1) d by (auto simp: tracks_def)
    with assms(2) d Panic show ?thesis by (simp add: client_for_def)
  qed
qed

lemma device_apfst [simp]: "snd (apfst f r) = snd r"
  by (cases r) simp

lemma opened_read_write:
  assumes "tracks opened L" and "conns s = Map.empty"
  shows "opened (device (snd (ble_read L params s))) = opened (device s)"
    and "opened (device (snd (ble_write L params s))) = opened (device s)"
    and "opened (device (snd (ble_discover L params s))) = opened (device s)"
proof -
  have f: "opened (device (snd (seq (find_characteristic L n sv ch s) (\<lambda>c. h)))) = opened (device s)"
    if "\<And>s. opened (device (snd (h s))) = opened (device s)" for n sv ch s and h :: "'a ble_state \<Rightarrow> (gval, gerror) go \<times> 'a ble_state"
    by (rule opened_seq [where opened = opened]) (simp_all add: opened_find [OF assms(1)] that)
  have g: "opened (device (snd (seq (find_characteristic L (fst cl) sv ch s) (\<lambda>c s.
      apfst k (on_client (fst cl) (on_first_service (on_first_char w)) s))))) = opened (device s)"
    if "keeps opened (on_first_service (on_first_char w))"
    for cl sv ch s and k :: "('r, gerror) go \<Rightarrow> (gval, gerror) go" and w :: "gcharacteristic \<times> 'a \<Rightarrow> ('r, string) go \<times> gcharacteristic \<times> 'a"
    by (rule f) (simp add: opened_on_client [OF that])
  show "opened (device (snd (ble_read L params s))) = opened (device s)"
    unfolding ble_read_def
    by (cases "parseRequest L params") (auto simp: case_prod_beta
        intro!: opened_dialled_request [OF assms] g keeps_steps [OF assms(1)])
  show "opened (device (snd (ble_write L params s))) = opened (device s)"
    unfolding ble_write_def
    by (cases "parseRequest L params") (auto simp: case_prod_beta
        intro!: opened_dialled_request [OF assms] g keeps_steps [OF assms(1)])
  show "opened (device (snd (ble_discover L params s))) = opened (device s)"
    unfolding ble_discover_def Let_def
    by (auto intro!: opened_dialled_request [OF assms] simp: opened_on_client keeps_DiscoverProfile [OF assms(1)])
qed

lemma opened_subscribe:
  assumes "tracks opened L" and "conns s = Map.empty" and "\<forall>pid. fst (ble_subscribe L params s) \<noteq> Ok pid"
  shows "opened (device s) \<subseteq> opened (device (snd (ble_subscribe L params s)))"
proof (cases "parseRequest L params")
  case (Ok x)
  obtain address sv ch where x: "x = (address, sv, ch)" by (cases x) auto
  obtain r a where d: "dev_Dial L (NewAddr address) (device s) = (r, a)" by fastforce
  show ?thesis
  proof (cases r)
    case (Ok n)
    from failed_subscription_leaks [OF assms(1) _ _ _ assms(3)] d Ok assms(2) \<open>parseRequest L params = _\<close> x
    show ?thesis by auto
  next
    case (Err e)
    then have "opened a = opened (device s)" using assms(1) d by (auto simp: tracks_def)
    with Err d assms(2) Ok x show ?thesis by (simp add: ble_subscribe_def client_for_def)
  next
    case (Panic m)
    then have "opened a = opened (device s)" using assms(1) d by (auto simp: tracks_def)
    with Panic d assms(2) Ok x show ?thesis by (simp add: ble_subscribe_def client_for_def)
  qed
qed (simp_all add: ble_subscribe_def)

lemma opened_scan:
  assumes "tracks opened L"
  shows "opened (device (snd (ble_scan L params s))) = opened (device s)"
proof -
  have "opened a = opened (device s)" if "dev_Scan L d (device s) = (r, a)" for d r a
    using assms that by (metis tracks_def snd_conv)
  then show ?thesis by (auto simp: ble_scan_def split: sum.splits prod.splits go.splits)
qed

text \<open>No request closes a connection that is open before it, when no client is kept.\<close>

lemma opened_call:
  assumes "tracks opened L" and "ble_rpc s = None" and "conns s = Map.empty"
  shows "opened (device s) \<subseteq> opened (device (snd (ble_Call L s req)))"
proof -
  have "\<forall>pid. fst (ble_subscribe L (Params req) s) \<noteq> Ok pid"
    using subscribe_needs_rpc [of L "Params req" s] assms(2) by auto
  from opened_subscribe [OF assms(1,3) this] show ?thesis
    using opened_read_write [OF assms(1,3), of "Params req"] opened_scan [OF assms(1), of "Params req" s] assms(3)
    by (simp add: ble_Call_def ble_subscribeCancel_def Let_def)
qed

lemma opened_after:
  assumes "tracks opened L" and "ble_rpc s = None" and "conns s = Map.empty"
  shows "opened (device s) \<subseteq> opened (device (ble_after L reqs s))"
  using assms(2,3)
proof (induction reqs arbitrary: s)
  case (Cons req reqs)
  have "ble_rpc (snd (ble_Call L s req)) = None" "conns (snd (ble_Call L s req)) = Map.empty"
    using Cons.prems no_subscription_after [of s L "[req]"] by (simp_all add: ble_after_def)
  from Cons.IH [OF this] opened_call [OF assms(1) Cons.prems, of req] show ?case by (simp add: ble_after_def)
qed (simp add: ble_after_def)

text \<open>C30: in the process as it is started every subscription of a device that can be dialled opens one more
  connection, is not answered with a process, and the connection is never closed: it is open after the request
  and after any requests that follow.\<close>

theorem subscription_leaks_connection:
  assumes "ble_served newDevice = Ok s0" and "s = ble_after L reqs s0" and "tracks opened L"
    and "parseRequest L params = Ok (address, sv, ch)" and "dev_Dial L (NewAddr address) (device s) = (Ok n, a)"
  shows "n \<notin> opened (device s)
    \<and> opened (device (snd (ble_subscribe L params s))) = insert n (opened (device s))
    \<and> (\<forall>pid. fst (ble_subscribe L params s) \<noteq> Ok pid)
    \<and> (\<forall>later. n \<in> opened (device (ble_after L later (snd (ble_subscribe L params s)))))"
proof -
  have u: "ble_rpc s = None" "conns s = Map.empty"
    using served_state [OF assms(1)] no_subscription_after [of s0 L reqs] assms(2) by auto
  then have f: "\<forall>pid. fst (ble_subscribe L params s) \<noteq> Ok pid" by (auto dest: subscribe_needs_rpc)
  let ?req = "\<lparr>JSONRPC = ''2.0'', Method = ''ble-subscribe'', ID = '''', Params = params\<rparr>"
  have "ble_after L [?req] s = snd (ble_subscribe L params s)"
    by (simp add: ble_after_def ble_Call_def)
  with no_subscription_after [OF u, of L "[?req]"]
  have v: "ble_rpc (snd (ble_subscribe L params s)) = None" "conns (snd (ble_subscribe L params s)) = Map.empty"
    by simp_all
  have o: "opened (device (snd (ble_subscribe L params s))) = insert n (opened (device s))"
    using failed_subscription_leaks [OF assms(3,4) _ assms(5) f] u(2) by simp
  then have "n \<in> opened (device (ble_after L later (snd (ble_subscribe L params s))))" for later
    using opened_after [OF assms(3) v, of later] by auto
  with o f assms(3,5) show ?thesis by (auto simp: tracks_def)
qed

section \<open>Beacons in a scan\<close>

lemma getEddystoneURLParams_frame:
  "getEddystoneURLParams (ty # tx # p # mid @ [x]) =
     (if of_char p < (4 :: nat) \<and> of_char x < (14 :: nat)
      then Ok (preffixes ! of_char p @ mid @ suffixes ! of_char x)
      else Panic ''index out of range'')"
  by (simp add: getEddystoneURLParams_def preffixes_def suffixes_def Let_def butlast_append)

lemma four_bytes: "4 \<le> length d \<longleftrightarrow> (\<exists>ty tx p mid x. d = ty # tx # p # mid @ [x])"
proof
  assume "4 \<le> length d"
  then obtain ty tx p y ys where "d = ty # tx # p # y # ys"
    by (auto simp: numeral_eq_Suc Suc_le_length_iff)
  then obtain r where d: "d = ty # tx # p # r" "r \<noteq> []" by blast
  then have "d = ty # tx # p # butlast r @ [last r]" by simp
  then show "\<exists>ty tx p mid x. d = ty # tx # p # mid @ [x]" by blast
qed auto

definition url_frame :: "string \<Rightarrow> bool" where
  "url_frame d \<longleftrightarrow> (\<exists>ty tx p mid x. d = ty # tx # p # mid @ [x] \<and> of_char ty = EddystoneURL
     \<and> of_char p < (4 :: nat) \<and> of_char x < (14 :: nat))"

lemma url_frame_parts:
  "url_frame (ty # tx # p # mid @ [x]) \<longleftrightarrow>
     of_char ty = EddystoneURL \<and> of_char p < (4 :: nat) \<and> of_char x < (14 :: nat)"
  by (simp add: url_frame_def)

lemma URL_frame_panic:
  "of_char ty = EddystoneURL \<Longrightarrow>
     is_panic (getEddystoneURLParams (ty # tx # p # mid @ [x])) \<longleftrightarrow> \<not> url_frame (ty # tx # p # mid @ [x])"
  unfolding url_frame_parts getEddystoneURLParams_frame by (cases "of_char p < (4 :: nat) \<and> of_char x < (14 :: nat)") simp_all

lemma getEddystoneURLParams_panic:
  assumes "of_char (hd d) = EddystoneURL"
  shows "is_panic (getEddystoneURLParams d) \<longleftrightarrow> \<not> url_frame d"
proof (cases "4 \<le> length d")
  case True
  then obtain ty tx p mid x where d: "d = ty # tx # p # mid @ [x]" unfolding four_bytes by (elim exE)
  from assms show ?thesis unfolding d list.sel by (rule URL_frame_panic)
next
  case False
  then have "\<not> url_frame d" by (auto simp: url_frame_def)
  with False show ?thesis by (simp add: getEddystoneURLParams_def)
qed

text \<open>An advertisement the scan survives: without the beacon service, or with at most one frame, that of a
  URL that ends in a coded suffix.\<close>

definition harmless :: "adv \<Rightarrow> bool" where
  "harmless a \<longleftrightarrow> eddystoneService \<notin> set (map uuid_String (adv_Services a))
     \<or> adv_ServiceData a = [] \<or> (\<exists>u d. adv_ServiceData a = [(u, d)] \<and> url_frame d)"

lemma getEddystoneParams_panic:
  "is_panic (getEddystoneParams sd) \<longleftrightarrow> \<not> (sd = [] \<or> (\<exists>u d. sd = [(u, d)] \<and> url_frame d))"
proof -
  have "is_panic (getEddystoneParams [(u, d)]) \<longleftrightarrow> \<not> url_frame d" for u d
  proof (cases d)
    case Nil
    then show ?thesis by (simp add: getEddystoneParams_def url_frame_def)
  next
    case (Cons c r)
    show ?thesis
    proof (cases "of_char c = EddystoneURL")
      case True
      with Cons getEddystoneURLParams_panic [of d] show ?thesis by (simp add: getEddystoneParams_def)
    next
      case False
      with Cons show ?thesis by (simp add: getEddystoneParams_def url_frame_def)
    qed
  qed
  then show ?thesis
    by (cases sd rule: remdups_adj.cases) (auto simp: getEddystoneParams_def)
qed

lemma eddystone_never_Err: "getEddystoneParams sd \<noteq> Err e"
  by (auto simp: getEddystoneParams_def getEddystoneURLParams_def Let_def split: list.splits if_splits)

lemma advHandler_cases:
  "map_of devices (adv_Addr a) = None \<Longrightarrow> \<not> harmless a \<Longrightarrow> is_panic (advHandler a devices)"
  "map_of devices (adv_Addr a) \<noteq> None \<or> harmless a \<Longrightarrow>
     \<exists>devices'. advHandler a devices = Ok devices' \<and> dom (map_of devices') = insert (adv_Addr a) (dom (map_of devices))"
proof -
  show "is_panic (advHandler a devices)" if "map_of devices (adv_Addr a) = None" "\<not> harmless a"
    using that getEddystoneParams_panic [of "adv_ServiceData a"]
    by (auto simp: advHandler_def Let_def harmless_def)
  show "\<exists>devices'. advHandler a devices = Ok devices' \<and> dom (map_of devices') = insert (adv_Addr a) (dom (map_of devices))"
    if "map_of devices (adv_Addr a) \<noteq> None \<or> harmless a"
    using that getEddystoneParams_panic [of "adv_ServiceData a"] eddystone_never_Err [of "adv_ServiceData a"]
    by (cases "getEddystoneParams (adv_ServiceData a)")
      (auto simp: advHandler_def Let_def harmless_def update_conv' split: option.split)
qed

lemma handle_advs_panic:
  "(\<forall>ds. handle_advs as devices \<noteq> Ok ds) \<longleftrightarrow>
     (\<exists>pre a post. as = pre @ a # post \<and> adv_Addr a \<notin> dom (map_of devices) \<union> adv_Addr ` set pre \<and> \<not> harmless a)"
  (is "?bad as devices \<longleftrightarrow> ?first as (dom (map_of devices))")
proof (induction as arbitrary: devices)
  case Nil
  then show ?case by simp
next
  case (Cons a as)
  have first: "?first (a # as) D \<longleftrightarrow> (adv_Addr a \<notin> D \<and> \<not> harmless a) \<or> ?first as (insert (adv_Addr a) D)" for D
  proof
    assume "?first (a # as) D"
    then obtain pre b post where "a # as = pre @ b # post" "adv_Addr b \<notin> D \<union> adv_Addr ` set pre" "\<not> harmless b"
      by blast
    then show "(adv_Addr a \<notin> D \<and> \<not> harmless a) \<or> ?first as (insert (adv_Addr a) D)"
      by (cases pre) auto
  next
    assume "(adv_Addr a \<notin> D \<and> \<not> harmless a) \<or> ?first as (insert (adv_Addr a) D)"
    then show "?first (a # as) D"
    proof
      assume "adv_Addr a \<notin> D \<and> \<not> harmless a"
      then show ?thesis by (intro exI [of _ "[]"] exI [of _ a] exI [of _ as]) simp
    next
      assume "?first as (insert (adv_Addr a) D)"
      then obtain pre b post where "as = pre @ b # post" "adv_Addr b \<notin> insert (adv_Addr a) D \<union> adv_Addr ` set pre"
        "\<not> harmless b" by blast
      then show ?thesis by (intro exI [of _ "a # pre"] exI [of _ b] exI [of _ post]) simp
    qed
  qed
  show ?case
  proof (cases "adv_Addr a \<notin> dom (map_of devices) \<and> \<not> harmless a")
    case True
    then have "is_panic (advHandler a devices)" by (intro advHandler_cases) auto
    then have "?bad (a # as) devices" by (cases "advHandler a devices") auto
    with True first show ?thesis by blast
  next
    case False
    then obtain devices' where "advHandler a devices = Ok devices'"
      "dom (map_of devices') = insert (adv_Addr a) (dom (map_of devices))"
      using advHandler_cases(2) [of devices a] by blast
    with Cons.IH [of devices'] first [of "dom (map_of devices)"] False show ?thesis by simp
  qed
qed

text \<open>C31: a scan ends the process exactly when the first advertisement of some address carries a beacon that
  is not a URL frame with a coded suffix: the panic is raised outside the request.\<close>

theorem scan_dies_on_other_beacons:
  assumes "parse_duration L (Str_default (Get params ''timeout'') ''5s'') = Inr t"
    and "dev_Scan L t (device s) = ((advs, e), a)" and "dead s = None"
  shows "dead (snd (ble_scan L params s)) \<noteq> None \<longleftrightarrow>
    (\<exists>pre a post. advs = pre @ a # post \<and> adv_Addr a \<notin> adv_Addr ` set pre \<and> \<not> harmless a)"
  using assms handle_advs_panic [of advs "[]"]
  by (cases "handle_advs advs []") (auto simp: ble_scan_def)

section \<open>Witnesses\<close>

text \<open>A device with one service of two characteristics, and the connections open on it.\<close>

definition example_radio :: "nat list radio" where
  "example_radio = \<lparr>att_services = (\<lambda>d. (([([CHR 0x0D, CHR 0x18], 1, 9)], None), d)),
     att_characteristics = (\<lambda>x y d. (([([CHR 0x37, CHR 0x2A], 2, 2, 3), ([CHR 0x38, CHR 0x2A], 2, 5, 6)], None), d)),
     att_information = (\<lambda>x y d. (([(4, ClientCharacteristicConfigUUID)], None), d)),
     att_read = (\<lambda>h d. (Ok [char_of (unat h)], d)), att_write = (\<lambda>h v d. (None, d))\<rparr>"

definition example_ble :: "nat list radio \<Rightarrow> nat list ble_lib" where
  "example_ble R = \<lparr>dev_Scan = (\<lambda>t d. (([\<lparr>adv_Addr = ''d'', adv_LocalName = ''tag'', adv_RSSI = - 60,
       adv_Connectable = False, adv_Services = [[CHR 0xAA, CHR 0xFE]],
       adv_ServiceData = [([CHR 0xAA, CHR 0xFE], [CHR 0x20, CHR 0x00])]\<rparr>], DeadlineExceeded), d)),
     dev_Dial = (\<lambda>addr d. let n = (if d = [] then 0 else Suc (foldr max d 0)) in (Ok n, n # d)), cli_radio = (\<lambda>_. R),
     cli_Close = (\<lambda>n d. (None, removeAll n d)), new_pid = (\<lambda>d. (''p'', d)),
     parse_duration = (\<lambda>s. Inr 5), rune_text = (\<lambda>c. [c]), range_order = (\<lambda>ds. ds)\<rparr>"

definition example_first :: gcharacteristic where
  "example_first = \<lparr>gc_UUID = [CHR 0x37, CHR 0x2A], gc_Property = 2, gc_Descriptors = [],
     gc_CCCD = Some \<lparr>gd_UUID = ClientCharacteristicConfigUUID, gd_Handle = 4\<rparr>, gc_Data = None,
     gc_Handle = 2, gc_ValueHandle = 3, gc_EndHandle = 4\<rparr>"

definition example_sub :: gsub where
  "example_sub = \<lparr>sub_cccdh = 4, sub_ccc = 1, nHandler = Some ''old'', iHandler = None\<rparr>"

definition fresh_state :: "nat list ble_state" where
  "fresh_state = \<lparr>device = [], ble_rpc = Some (), clients = (\<lambda>_. NewClient), conns = (\<lambda>_. None), dead = None\<rparr>"

definition kept_state :: "nat list ble_state" where
  "kept_state = \<lparr>device = [0], ble_rpc = Some (), clients = (\<lambda>_. \<lparr>profile = [\<lparr>gs_UUID = [CHR 0x0D, CHR 0x18],
       gs_Characteristics = [example_first], gs_Handle = 1, gs_EndHandle = 9\<rparr>], subs = [(3, example_sub)]\<rparr>),
     conns = [''d'' \<mapsto> 0], dead = None\<rparr>"

definition ble_request :: gval where
  "ble_request = GMap [(''device'', GStr ''d''), (''service_uuid'', GStr ''180d''), (''characteristic_uuid'', GStr ''2a38'')]"

lemma example_parse: "parseRequest (example_ble R) ble_request = Ok (''d'', [CHR 0x0D, CHR 0x18], [CHR 0x38, CHR 0x2A])"
  by (simp add: parseRequest_def ble_request_def Get_key uuid_Parse_def hex_val_def lenErr_def
      char_of_eq_iff take_bit_eq_mod)

lemma example_kept: "conns kept_state ''d'' = Some 0" "first_char (clients kept_state 0) = Some example_first"
  "map_of (subs (clients kept_state 0)) 3 = Some example_sub" "gc_ValueHandle example_first = 3"
  by (simp_all add: kept_state_def first_char_def example_first_def)

lemma example_device: "Str (Get ble_request ''device'') = ''d''" "\<not> Bool (Get ble_request ''indicator'')"
  by (simp_all add: ble_request_def Get_key)

lemma example_fields [simp]:
  "cli_radio (example_ble R) n = R" "dev_Dial (example_ble R) addr [] = (Ok 0, [0])"
  "cli_Close (example_ble R) n d = (None, removeAll n d)" "new_pid (example_ble R) d = (''p'', d)"
  "att_services example_radio d = (([([CHR 0x0D, CHR 0x18], 1, 9)], None), d)"
  "att_characteristics example_radio x y d = (([([CHR 0x37, CHR 0x2A], 2, 2, 3), ([CHR 0x38, CHR 0x2A], 2, 5, 6)], None), d)"
  "att_information example_radio x y d = (([(4, ClientCharacteristicConfigUUID)], None), d)"
  "att_read example_radio h d = (Ok [char_of (unat h)], d)" "att_write example_radio h v d = (None, d)"
  by (simp_all add: example_ble_def example_radio_def)

lemmas ble_eval = ble_read_def ble_subscribe_def example_parse client_for_def close_unless_kept_def find_characteristic_def
  on_client_def DiscoverServices_def DiscoverCharacteristics_def DiscoverDescriptors_def in_filter_def Let_def
  gatt_result_def on_first_service_def on_first_char_def ReadCharacteristic_def NewClient_def

lemma subscribed_device_ignores_characteristic_witness:
  "\<exists>v s'. ble_read (example_ble example_radio) ble_request kept_state = (Ok v, s')
     \<and> (\<exists>a b. att_read example_radio 3 a = (Ok b, device s') \<and> v = GBytes b)"
proof -
  have "\<exists>v s'. ble_read (example_ble example_radio) ble_request kept_state = (Ok v, s')"
    by (simp add: ble_eval kept_state_def example_first_def)
  then show ?thesis
    using subscribed_device_ignores_characteristic [of kept_state ble_request 0 example_first "example_ble example_radio"]
    by (simp add: example_kept example_device) blast
qed

lemma fresh_read_reaches_requested_witness:
  "\<exists>s'. ble_read (example_ble example_radio) ble_request fresh_state = (Ok (GBytes [CHR 0x06]), s')
     \<and> device s' = [] \<and> conns s' = conns fresh_state"
  using fresh_read_reaches_requested [OF example_parse, of fresh_state example_radio 0 "[0]" "[]" 1 9 "[]" "[0]"
      "[([CHR 0x37, CHR 0x2A], 2, 2, 3)]" 2 5 6 "[]" "[0]" "[CHR 0x06]" "[0]"]
  by (simp add: fresh_state_def char_of_eq_iff take_bit_eq_mod)

lemma second_subscription_silent_witness:
  "\<exists>pid s'. ble_subscribe (example_ble example_radio) ble_request kept_state = (Ok pid, s')
     \<and> pid = ''p'' \<and> notified (clients s' 0) False 3 = Some ''old''"
proof -
  have "\<exists>s'. ble_subscribe (example_ble example_radio) ble_request kept_state = (Ok ''p'', s')"
    by (simp add: ble_eval kept_state_def example_first_def
        subscribe_process_def subscribe_first_def gatt_Subscribe_def setHandlers_def example_sub_def
        ClientCharacteristicConfigUUID_def cccNotify_def example_device)
  then obtain s' where s': "ble_subscribe (example_ble example_radio) ble_request kept_state = (Ok ''p'', s')" by blast
  have "notified (clients s' 0) False 3 = notified (clients kept_state 0) False 3"
    using second_subscription_silent [of kept_state ble_request 0 example_first example_sub "example_ble example_radio" "''p''" s' False 3]
    by (simp add: example_kept example_device s' ccc_flag_def cccNotify_def example_sub_def)
  with s' show ?thesis by (simp add: notified_def kept_state_def example_sub_def)
qed

lemma example_tracks: "tracks set (example_ble example_radio)"
proof -
  have "n \<le> foldr max d 0" if "n \<in> set d" for n :: nat and d
    using that by (induction d) auto
  then have f: "Suc (foldr max d 0) \<notin> set d" for d :: "nat list" by fastforce
  then show ?thesis
    by (auto simp: tracks_def) (auto simp: example_ble_def Let_def f split: if_splits)
qed

lemma subscription_leaks_connection_witness:
  "\<exists>s0 :: nat list ble_state. ble_served (Ok []) = Ok s0
    \<and> set (device (snd (ble_subscribe (example_ble example_radio) ble_request s0))) = {0}
    \<and> (\<forall>later. 0 \<in> set (device (ble_after (example_ble example_radio) later
         (snd (ble_subscribe (example_ble example_radio) ble_request s0)))))"
proof -
  obtain s0 :: "nat list ble_state" where s: "ble_served (Ok []) = Ok s0" "device s0 = []"
    by (simp add: ble_served_def ble_New_def)
  show ?thesis
    using subscription_leaks_connection [OF s(1) _ example_tracks example_parse, of s0 "[]" 0 "[0]"] s
    by (simp add: ble_after_def)
qed

lemma scan_dies_on_other_beacons_witness:
  "dead (snd (ble_scan (example_ble example_radio) (GMap []) fresh_state)) \<noteq> None"
proof -
  let ?a = "\<lparr>adv_Addr = ''d'', adv_LocalName = ''tag'', adv_RSSI = - 60,
       adv_Connectable = False, adv_Services = [[CHR 0xAA, CHR 0xFE]],
       adv_ServiceData = [([CHR 0xAA, CHR 0xFE], [CHR 0x20, CHR 0x00])]\<rparr>"
  have "uuid_String [CHR 0xAA, CHR 0xFE] = eddystoneService"
    by (simp add: uuid_String_def eddystoneService_def hex2_def hex_char_def char_of_eq_iff take_bit_eq_mod)
  then have "\<not> harmless ?a"
    by (simp add: harmless_def url_frame_def)
  then have "\<exists>pre a post. [?a] = pre @ a # post \<and> adv_Addr a \<notin> adv_Addr ` set pre \<and> \<not> harmless a"
    by (intro exI [of _ "[]"] exI [of _ ?a]) simp
  then show ?thesis
    using scan_dies_on_other_beacons [of "example_ble example_radio" "GMap []" 5 fresh_state "[?a]" DeadlineExceeded "[]"]

    by (simp add: example_ble_def fresh_state_def)
qed

definition example_reqs :: "request list" where
  "example_reqs = [\<lparr>JSONRPC = ''2.0'', Method = ''ble-subscribe'', ID = ''1'', Params = ble_request\<rparr>]"

lemma subscription_never_succeeds_witness:
  "\<exists>s0. ble_served (Ok []) = Ok s0
    \<and> conns (ble_after (example_ble example_radio) example_reqs s0) = Map.empty
    \<and> fst (ble_subscribe (example_ble example_radio) ble_request s0) = Panic nil_dereference"
proof -
  obtain s0 :: "nat list ble_state" where s: "ble_served (Ok []) = Ok s0" "device s0 = []" "ble_rpc s0 = None" "conns s0 = Map.empty"
    by (simp add: ble_served_def ble_New_def)
  have "fst (ble_subscribe (example_ble example_radio) ble_request s0) = Panic nil_dereference"
    by (simp add: ble_eval s subscribe_process_def)
  with s(1) subscription_never_succeeds [OF s(1), of "example_ble example_radio" example_reqs ble_request]
  show ?thesis by blast
qed

end
