(* ===== verification/Ble_Adv.thy ===== *)
theory Ble_Adv
  imports Ble_Handler
begin

text \<open>
  Advertising packets of the Bluetooth library (\<open>third_party/go-ble/ble/linux/adv/packet.go\<close>): building a
  packet from fields, and reading fields, service identifiers and service data out of one; then the handler
  of a scan over the packets themselves. A field is a length byte, a type byte and data. The loops that read
  identifiers need not end; they are partial functions whose value \<open>None\<close> is not ending, and the lemmas say
  for which packets they do not.
\<close>

section \<open>Building packets\<close>

type_synonym packet = string

definition MaxEIRPacketLength :: nat where "MaxEIRPacketLength = 31"

datatype adv_error = ErrInvalid | ErrNotFit

text \<open>\<open>append\<close>, with the length byte computed at eight bits.\<close>

definition adv_append :: "nat \<Rightarrow> string \<Rightarrow> packet \<Rightarrow> (packet, adv_error) go" where
  "adv_append typ b p =
     (if length p + 1 + 1 + length b > MaxEIRPacketLength then Err ErrNotFit
      else Ok (p @ char_of ((length b + 1) mod 256) # char_of typ # b))"

definition adv_Raw :: "string \<Rightarrow> packet \<Rightarrow> (packet, adv_error) go" where
  "adv_Raw b p = (if length p + length b > MaxEIRPacketLength then Err ErrNotFit else Ok (p @ b))"

definition adv_Flags :: "nat \<Rightarrow> packet \<Rightarrow> (packet, adv_error) go" where
  "adv_Flags f = adv_append 1 [char_of f]"

definition adv_ShortName :: "string \<Rightarrow> packet \<Rightarrow> (packet, adv_error) go" where
  "adv_ShortName = adv_append 8"

definition adv_CompleteName :: "string \<Rightarrow> packet \<Rightarrow> (packet, adv_error) go" where
  "adv_CompleteName = adv_append 9"

definition uuid16 :: "nat \<Rightarrow> uuid" where
  "uuid16 i = [char_of (i mod 256), char_of (i div 256)]"

definition adv_ManufacturerData :: "nat \<Rightarrow> string \<Rightarrow> packet \<Rightarrow> (packet, adv_error) go" where
  "adv_ManufacturerData i b = adv_append 0xFF (uuid16 i @ b)"

text \<open>\<open>AllUUID\<close> and \<open>SomeUUID\<close>: the list of the length of the identifier.\<close>

definition adv_AllUUID :: "uuid \<Rightarrow> packet \<Rightarrow> (packet, adv_error) go" where
  "adv_AllUUID u = adv_append (if length u = 2 then 3 else if length u = 4 then 5 else 7) u"

definition adv_SomeUUID :: "uuid \<Rightarrow> packet \<Rightarrow> (packet, adv_error) go" where
  "adv_SomeUUID u = adv_append (if length u = 2 then 2 else if length u = 4 then 4 else 6) u"

definition adv_ServiceData16 :: "nat \<Rightarrow> string \<Rightarrow> packet \<Rightarrow> (packet, adv_error) go" where
  "adv_ServiceData16 i b p =
     go_bind (adv_append 3 (uuid16 i) p) (adv_append 0x16 (uuid16 i @ b))"

definition adv_IBeacon :: "uuid \<Rightarrow> nat \<Rightarrow> nat \<Rightarrow> nat \<Rightarrow> packet \<Rightarrow> (packet, adv_error) go" where
  "adv_IBeacon u major minor pwr p =
     (if length u \<noteq> 16 then Err ErrInvalid
      else adv_ManufacturerData 0x4C
        ([char_of (2 :: nat), char_of (21 :: nat)] @ rev u @ rev (uuid16 major) @ rev (uuid16 minor) @ [char_of pwr]) p)"

fun NewPacket :: "(packet \<Rightarrow> (packet, adv_error) go) list \<Rightarrow> packet \<Rightarrow> (packet, adv_error) go" where
  "NewPacket [] p = Ok p"
| "NewPacket (f # fs) p = go_bind (f p) (NewPacket fs)"

section \<open>Reading packets\<close>

text \<open>\<open>b[i:j]\<close> of a slice that ends where its array ends, or later: \<open>j\<close> is within it unless the byte
  arithmetic of the caller has wrapped.\<close>

definition sub_slice :: "nat \<Rightarrow> nat \<Rightarrow> string \<Rightarrow> (string, string) go" where
  "sub_slice i j b = (if i \<le> j \<and> j \<le> length b then Ok (take (j - i) (drop i b)) else Panic ''slice bounds out of range'')"

text \<open>The length byte at the start, and the tests and steps the two readers share: \<open>1+l\<close> and \<open>2+l-1\<close> are
  computed at eight bits before they are made integers.\<close>

definition field_len :: "string \<Rightarrow> nat" where "field_len b = of_char (b ! 0)"
definition field_typ :: "string \<Rightarrow> nat" where "field_typ b = of_char (b ! 1)"

definition field_broken :: "string \<Rightarrow> bool" where
  "field_broken b \<longleftrightarrow> field_len b < 1 \<or> length b < (1 + field_len b) mod 256"

definition field_data :: "string \<Rightarrow> (string, string) go" where
  "field_data b = sub_slice 2 ((2 + field_len b - 1) mod 256) b"

definition next_field :: "string \<Rightarrow> string" where
  "next_field b = drop ((1 + field_len b) mod 256) b"

partial_function (option) adv_Field :: "nat \<Rightarrow> string \<Rightarrow> (string option, string) go option" where
  "adv_Field typ b =
     (if length b < 2 then Some (Ok None)
      else if field_broken b then Some (Ok None)
      else if field_typ b = typ then Some (go_map Some (field_data b))
      else adv_Field typ (next_field b))"

partial_function (option) fieldPos :: "nat \<Rightarrow> string \<Rightarrow> nat \<Rightarrow> (string option \<times> nat, string) go option" where
  "fieldPos typ b pos =
     (if field_broken b then Some (Ok (None, pos))
      else if field_typ b = typ then Some (go_map (\<lambda>r. (Some r, pos + 1 + field_len b)) (field_data b))
      else if length (next_field b) < 2 then Some (Ok (None, pos + 1 + field_len b))
      else fieldPos typ (next_field b) (pos + 1 + field_len b))"

text \<open>The method around the loop: the packet from \<open>offset\<close> on.\<close>

definition field_at :: "nat \<Rightarrow> packet \<Rightarrow> nat \<Rightarrow> (string option \<times> nat, string) go option" where
  "field_at typ p offset =
     (if offset \<ge> length p then Some (Ok (None, length p))
      else if length (drop offset p) < 2 then Some (Ok (None, offset + length (drop offset p)))
      else fieldPos typ (drop offset p) offset)"

text \<open>\<open>uuidList\<close> for a width that is not zero, as in all its calls.\<close>

function uuidList :: "nat \<Rightarrow> string \<Rightarrow> (uuid list, string) go" where
  "uuidList w d =
     (if d = [] then Ok []
      else if w = 0 \<or> length d < w then Panic ''slice bounds out of range''
      else go_map (\<lambda>us. take w d # us) (uuidList w (drop w d)))"
  by pat_completeness auto
termination by (relation "measure (\<lambda>(_, d). length d)") auto

declare uuidList.simps [simp del]

partial_function (option) getUUIDsByType ::
  "nat \<Rightarrow> nat \<Rightarrow> packet \<Rightarrow> nat \<Rightarrow> uuid list \<Rightarrow> (uuid list, string) go option" where
  "getUUIDsByType typ w p pos u =
     (if pos < length p then
        (case field_at typ p pos of
           None \<Rightarrow> None
         | Some (Err e) \<Rightarrow> Some (Err e)
         | Some (Panic m) \<Rightarrow> Some (Panic m)
         | Some (Ok (None, pos')) \<Rightarrow> getUUIDsByType typ w p pos' u
         | Some (Ok (Some b, pos')) \<Rightarrow>
             (case uuidList w b of
                Ok us \<Rightarrow> getUUIDsByType typ w p pos' (u @ us)
              | Err e \<Rightarrow> Some (Err e)
              | Panic m \<Rightarrow> Some (Panic m)))
      else Some (Ok u))"

text \<open>Calls in sequence, each of which may not end or may panic.\<close>

fun ends_bind :: "('a, 'e) go option \<Rightarrow> ('a \<Rightarrow> ('b, 'e) go option) \<Rightarrow> ('b, 'e) go option" where
  "ends_bind None f = None"
| "ends_bind (Some (Ok x)) f = f x"
| "ends_bind (Some (Err e)) f = Some (Err e)"
| "ends_bind (Some (Panic m)) f = Some (Panic m)"

definition packet_UUIDs :: "packet \<Rightarrow> (uuid list, string) go option" where
  "packet_UUIDs p =
     ends_bind (getUUIDsByType 2 2 p 0 []) (\<lambda>u.
     ends_bind (getUUIDsByType 3 2 p 0 u) (\<lambda>u.
     ends_bind (getUUIDsByType 4 4 p 0 u) (\<lambda>u.
     ends_bind (getUUIDsByType 5 4 p 0 u) (\<lambda>u.
     ends_bind (getUUIDsByType 6 16 p 0 u) (getUUIDsByType 7 16 p 0)))))"

definition packet_LocalName :: "packet \<Rightarrow> (string, string) go option" where
  "packet_LocalName p =
     ends_bind (adv_Field 8 p) (\<lambda>n. case n of
        Some b \<Rightarrow> Some (Ok b)
      | None \<Rightarrow> ends_bind (adv_Field 9 p) (\<lambda>n. Some (Ok (case n of Some b \<Rightarrow> b | None \<Rightarrow> []))))"

text \<open>The third byte of the data, where the library expects the value of these fields.\<close>

definition third_byte :: "nat \<Rightarrow> string option \<Rightarrow> (nat option, string) go" where
  "third_byte least d =
     (let b = (case d of Some b \<Rightarrow> b | None \<Rightarrow> []) in
      if length b < least then Ok None
      else if length b \<le> 2 then Panic ''index out of range''
      else Ok (Some (of_char (b ! 2))))"

definition packet_flags :: "packet \<Rightarrow> (nat option, string) go option" where
  "packet_flags p = ends_bind (adv_Field 1 p) (\<lambda>d. Some (third_byte 2 d))"

definition packet_TxPower :: "packet \<Rightarrow> (nat option, string) go option" where
  "packet_TxPower p = ends_bind (adv_Field 0xA p) (\<lambda>d. Some (third_byte 3 d))"

text \<open>\<open>serviceDataList\<close>: the data is copied from the third byte on, whatever the width of the identifier.\<close>

definition serviceDataList :: "nat \<Rightarrow> (uuid \<times> string) list \<Rightarrow> string \<Rightarrow> ((uuid \<times> string) list, string) go" where
  "serviceDataList w sd d =
     (if length d < w then Panic ''slice bounds out of range''
      else Ok (sd @ [(take w d, take (length d - w) (drop 2 d))]))"

definition with_field ::
  "nat \<Rightarrow> packet \<Rightarrow> ('a \<Rightarrow> string \<Rightarrow> ('a, string) go) \<Rightarrow> 'a \<Rightarrow> ('a, string) go option" where
  "with_field typ p f x = ends_bind (adv_Field typ p) (\<lambda>d. Some (case d of None \<Rightarrow> Ok x | Some b \<Rightarrow> f x b))"

definition packet_ServiceData :: "packet \<Rightarrow> ((uuid \<times> string) list, string) go option" where
  "packet_ServiceData p =
     ends_bind (with_field 0x16 p (serviceDataList 2) []) (\<lambda>s.
     ends_bind (with_field 0x20 p (serviceDataList 4) s) (with_field 0x21 p (serviceDataList 16)))"

definition packet_ServiceSol :: "packet \<Rightarrow> (uuid list, string) go option" where
  "packet_ServiceSol p =
     (let add = (\<lambda>w u d. go_map (\<lambda>us. u @ us) (uuidList w d)) in
      ends_bind (with_field 0x14 p (add 2) []) (\<lambda>u.
      ends_bind (with_field 0x1F p (add 16) u) (with_field 0x15 p (add 16))))"

definition packet_Manufacturer :: "packet \<Rightarrow> (string option, string) go option" where
  "packet_Manufacturer = adv_Field 0xFF"

section \<open>The handler of a scan over packets\<close>

text \<open>\<open>Advertisement\<close> of \<open>linux/hci/adv.go\<close>: the address, the strength and the type of the report, its data,
  and the data of the scan response that goes with it.\<close>

record raw_adv =
  ra_Addr :: string
  ra_RSSI :: int
  ra_EventType :: nat
  ra_Data :: string
  ra_sr :: "string option"

definition report_bytes :: "raw_adv \<Rightarrow> packet" where
  "report_bytes a = ra_Data a @ (case ra_sr a of None \<Rightarrow> [] | Some d \<Rightarrow> d)"

definition Connectable :: "raw_adv \<Rightarrow> bool" where
  "Connectable a \<longleftrightarrow> ra_EventType a = 1 \<or> ra_EventType a = 0"

definition raw_handler :: "raw_adv \<Rightarrow> (string \<times> dev) list \<Rightarrow> ((string \<times> dev) list, string) go option" where
  "raw_handler a devices =
     (case map_of devices (ra_Addr a) of
        Some v \<Rightarrow>
          ends_bind (packet_LocalName (report_bytes a)) (\<lambda>n.
            Some (Ok (AList.update (ra_Addr a)
              (v\<lparr>dev_Name := n, dev_RSSI := ra_RSSI a, dev_Connectable := Connectable a\<rparr>) devices)))
      | None \<Rightarrow>
          ends_bind (packet_LocalName (report_bytes a)) (\<lambda>n.
            let d = \<lparr>dev_Addr = ra_Addr a, dev_RSSI = ra_RSSI a, dev_Name = n,
                     dev_Connectable = Connectable a, dev_IsBeacon = False, dev_Beacon = None\<rparr> in
            ends_bind (packet_UUIDs (report_bytes a)) (\<lambda>us.
              if eddystoneService \<in> set (map uuid_String us) then
                ends_bind (packet_ServiceData (report_bytes a)) (\<lambda>sd.
                  Some (go_map (\<lambda>b. AList.update (ra_Addr a) (d\<lparr>dev_IsBeacon := True, dev_Beacon := b\<rparr>) devices)
                    (getEddystoneParams sd)))
              else Some (Ok (AList.update (ra_Addr a) d devices)))))"

text \<open>What the methods of an advertisement give, when all of them give something.\<close>

definition decoded :: "raw_adv \<Rightarrow> adv \<Rightarrow> bool" where
  "decoded a d \<longleftrightarrow> adv_Addr d = ra_Addr a \<and> adv_RSSI d = ra_RSSI a \<and> adv_Connectable d = Connectable a
     \<and> packet_LocalName (report_bytes a) = Some (Ok (adv_LocalName d)) \<and> packet_UUIDs (report_bytes a) = Some (Ok (adv_Services d))
     \<and> packet_ServiceData (report_bytes a) = Some (Ok (adv_ServiceData d))"

text \<open>On such advertisements the handler of the packets is the handler of the scan.\<close>

lemma raw_handler_refines:
  assumes "decoded a d"
  shows "raw_handler a devices = Some (advHandler d devices)"
  using assms by (auto simp: raw_handler_def advHandler_def decoded_def Let_def split: option.split)

section \<open>Packets as lists of fields\<close>

text \<open>A field that fits its length byte, and the bytes of a list of fields.\<close>

definition good_field :: "nat \<times> string \<Rightarrow> bool" where
  "good_field f \<longleftrightarrow> fst f < 256 \<and> length (snd f) \<le> 253"

definition enc_field :: "nat \<times> string \<Rightarrow> string" where
  "enc_field f = char_of (Suc (length (snd f))) # char_of (fst f) # snd f"

definition enc_fields :: "(nat \<times> string) list \<Rightarrow> packet" where
  "enc_fields fs = concat (map enc_field fs)"

lemma enc_fields_Cons [simp]: "enc_fields [] = []" "enc_fields (f # fs) = enc_field f @ enc_fields fs"
  by (simp_all add: enc_fields_def)

lemma enc_fields_append: "enc_fields (fs @ gs) = enc_fields fs @ enc_fields gs"
  by (simp add: enc_fields_def)

lemma length_enc_field [simp]: "length (enc_field f) = length (snd f) + 2"
  by (simp add: enc_field_def)

lemma of_char_small: "n < 256 \<Longrightarrow> of_char (char_of n :: char) = (n :: nat)"
  by simp

lemma field_step:
  assumes "good_field f"
  shows "field_len (enc_field f @ r) = Suc (length (snd f))" "field_typ (enc_field f @ r) = fst f"
    "\<not> field_broken (enc_field f @ r)" "field_data (enc_field f @ r) = Ok (snd f)" "next_field (enc_field f @ r) = r"
    "\<not> length (enc_field f @ r) < 2"
proof -
  have l: "Suc (length (snd f)) < 256" "fst f < 256" using assms by (auto simp: good_field_def)
  show a: "field_len (enc_field f @ r) = Suc (length (snd f))" "field_typ (enc_field f @ r) = fst f"
    using l by (simp_all add: field_len_def field_typ_def enc_field_def)
  show "\<not> field_broken (enc_field f @ r)" "field_data (enc_field f @ r) = Ok (snd f)" "next_field (enc_field f @ r) = r"
    using assms by (simp_all add: field_broken_def field_data_def next_field_def a good_field_def sub_slice_def,
      simp_all add: enc_field_def)
  show "\<not> length (enc_field f @ r) < 2" by simp
qed

text \<open>Where the fields of a packet end: at its end but for a byte, or at a field that is empty, goes past the
  end, or has a length that wraps.\<close>

definition ended :: "string \<Rightarrow> bool" where "ended r \<longleftrightarrow> length r < 2"
definition broken_off :: "string \<Rightarrow> bool" where "broken_off r \<longleftrightarrow> 2 \<le> length r \<and> field_broken r"
definition wraps :: "string \<Rightarrow> bool" where "wraps r \<longleftrightarrow> 2 \<le> length r \<and> field_len r = 255"

lemma field_len_bound: "field_len b < 256"
  by (simp add: field_len_def of_char_bound)

text \<open>Every packet is a list of good fields and one of the three ends.\<close>

lemma packet_fields: "\<exists>fs r. p = enc_fields fs @ r \<and> (\<forall>f \<in> set fs. good_field f) \<and> (ended r \<or> broken_off r \<or> wraps r)"
proof (induction p rule: length_induct)
  case (1 p)
  show ?case
  proof (cases "ended p \<or> broken_off p \<or> wraps p")
    case True
    then show ?thesis by (intro exI [of _ "[]"] exI [of _ p]) simp
  next
    case False
    then have p: "2 \<le> length p" "\<not> field_broken p" "field_len p \<noteq> 255" by (auto simp: ended_def broken_off_def wraps_def)
    then have l: "1 \<le> field_len p" "field_len p \<le> 254" "1 + field_len p \<le> length p"
      using field_len_bound [of p] by (auto simp: field_broken_def)
    let ?f = "(field_typ p, take (field_len p - 1) (drop 2 p))"
    obtain a b q where q: "p = a # b # q" using p(1) by (cases p; cases "tl p") auto
    have f: "good_field ?f" using l by (auto simp: good_field_def field_typ_def of_char_bound)
    have "Suc (length (snd ?f)) = of_char a" using l by (simp add: q field_len_def)
    then have "enc_field ?f = a # b # take (field_len p - 1) q"
      unfolding enc_field_def by (simp only: fst_conv snd_conv char_of_char) (simp add: q field_typ_def)
    then have "p = enc_field ?f @ drop (1 + field_len p) p"
      using l by (simp add: q drop_Cons')
    moreover obtain fs r where "drop (1 + field_len p) p = enc_fields fs @ r" "\<forall>f \<in> set fs. good_field f"
      "ended r \<or> broken_off r \<or> wraps r"
      using 1 [rule_format, of "drop (1 + field_len p) p"] p(1) l(3) by fastforce
    ultimately show ?thesis using f by (intro exI [of _ "?f # fs"] exI [of _ r]) auto
  qed
qed

section \<open>What the readers give\<close>

lemma wraps_step: "wraps r \<Longrightarrow> next_field r = r" "wraps r \<Longrightarrow> \<not> field_broken r" "wraps r \<Longrightarrow> is_panic (field_data r)"
  by (simp_all add: wraps_def next_field_def field_broken_def field_data_def sub_slice_def)

lemma Field_stuck: "wraps b \<Longrightarrow> field_typ b \<noteq> typ \<Longrightarrow> adv_Field typ b = None"
proof (rule ccontr)
  assume w: "wraps b" "field_typ b \<noteq> typ" and "adv_Field typ b \<noteq> None"
  then obtain r where "adv_Field typ b = Some r" by auto
  then have "\<not> (wraps b \<and> field_typ b \<noteq> typ)"
    by (rule adv_Field.raw_induct [where P = "\<lambda>typ b r. \<not> (wraps b \<and> field_typ b \<noteq> typ)", rotated])
      (auto simp: wraps_step wraps_def split: if_splits)
  with w show False by simp
qed

text \<open>A field is found by its type, the first one of that type; what follows the good fields matters only
  when there is none.\<close>

lemma Field_fields:
  assumes "\<forall>f \<in> set fs. good_field f"
  shows "adv_Field typ (enc_fields fs @ r) =
    (case map_of fs typ of Some d \<Rightarrow> Some (Ok (Some d)) | None \<Rightarrow> adv_Field typ r)"
  using assms
proof (induction fs)
  case (Cons f fs)
  then show ?case
    by (cases f) (subst adv_Field.simps, auto simp: field_step simp del: length_append)
qed simp

lemma Field_end: "ended r \<or> broken_off r \<Longrightarrow> adv_Field typ r = Some (Ok None)"
  by (subst adv_Field.simps) (auto simp: ended_def broken_off_def)

lemma field_at_field:
  assumes "good_field f" and "p = pre @ enc_field f @ r"
  shows "field_at (fst f) p (length pre) = Some (Ok (Some (snd f), length pre + length (enc_field f)))"
    and "fst f \<noteq> typ \<Longrightarrow> \<not> ended r \<Longrightarrow> field_at typ p (length pre) = field_at typ p (length pre + length (enc_field f))"
    and "fst f \<noteq> typ \<Longrightarrow> ended r \<Longrightarrow> field_at typ p (length pre) = Some (Ok (None, length pre + length (enc_field f)))"
proof -
  have d: "drop (length pre) p = enc_field f @ r" "drop (length pre + length (enc_field f)) p = r" by (simp_all add: assms(2))
  show "field_at (fst f) p (length pre) = Some (Ok (Some (snd f), length pre + length (enc_field f)))"
    unfolding field_at_def d by (subst fieldPos.simps) (simp add: assms(2) field_step [OF assms(1)])
  show "field_at typ p (length pre) = field_at typ p (length pre + length (enc_field f))" if "fst f \<noteq> typ" "\<not> ended r"
    using that unfolding field_at_def d
    by (subst fieldPos.simps) (auto simp: assms(2) field_step [OF assms(1)] ended_def)
  show "field_at typ p (length pre) = Some (Ok (None, length pre + length (enc_field f)))" if "fst f \<noteq> typ" "ended r"
    using that unfolding field_at_def d
    by (subst fieldPos.simps) (simp add: assms(2) field_step [OF assms(1)] ended_def)
qed

text \<open>The data of the fields of a type, and the identifiers in them.\<close>

definition of_type :: "nat \<Rightarrow> (nat \<times> string) list \<Rightarrow> string list" where
  "of_type typ fs = map snd (filter (\<lambda>f. fst f = typ) fs)"

fun all_lists :: "nat \<Rightarrow> string list \<Rightarrow> (uuid list, string) go" where
  "all_lists w [] = Ok []"
| "all_lists w (d # ds) = go_bind (uuidList w d) (\<lambda>a. go_map (\<lambda>b. a @ b) (all_lists w ds))"

lemma uuidList_never_Err: "uuidList w d \<noteq> Err e"
  by (induction w d rule: uuidList.induct) (subst uuidList.simps, auto simp: go_map_eq_Ok elim: go_map.elims)

lemma getUUIDs_stuck:
  assumes "pos < length p" and "field_at typ p pos = Some (Ok (None, pos))"
  shows "getUUIDsByType typ w p pos u = None"
proof (rule ccontr)
  assume "getUUIDsByType typ w p pos u \<noteq> None"
  then obtain x where "getUUIDsByType typ w p pos u = Some x" by auto
  then have "\<not> (pos < length p \<and> field_at typ p pos = Some (Ok (None, pos)))"
    by (rule getUUIDsByType.raw_induct [where P = "\<lambda>typ w p pos u x. \<not> (pos < length p \<and> field_at typ p pos = Some (Ok (None, pos)))", rotated])
      auto
  with assms show False by simp
qed

lemma getUUIDs_skip:
  assumes "good_field f" and "p = pre @ enc_field f @ r" and "fst f \<noteq> typ"
  shows "getUUIDsByType typ w p (length pre) u = getUUIDsByType typ w p (length pre + length (enc_field f)) u"
proof (cases "ended r")
  case True
  have "length pre < length p" by (simp add: assms(2))
  with field_at_field(3) [OF assms(1,2,3) True] show ?thesis by (subst getUUIDsByType.simps) simp
next
  case False
  have "length pre < length p" "length pre + length (enc_field f) < length p"
    using False by (auto simp: assms(2) ended_def)
  then show ?thesis
    using field_at_field(2) [OF assms(1,2,3) False] getUUIDsByType.simps [of "typ" w p "length pre" u]
      getUUIDsByType.simps [of "typ" w p "length pre + length (enc_field f)" u] by simp
qed

lemma getUUIDs_take:
  assumes "good_field f" and "p = pre @ enc_field f @ r"
  shows "getUUIDsByType (fst f) w p (length pre) u =
    (case uuidList w (snd f) of
       Ok us \<Rightarrow> getUUIDsByType (fst f) w p (length pre + length (enc_field f)) (u @ us)
     | Err e \<Rightarrow> Some (Err e) | Panic m \<Rightarrow> Some (Panic m))"
proof -
  have "length pre < length p" by (simp add: assms(2))
  with field_at_field(1) [OF assms] show ?thesis by (subst getUUIDsByType.simps) (simp split: go.split)
qed

lemma getUUIDs_fields:
  assumes "\<forall>f \<in> set fs. good_field f" and "p = pre @ enc_fields fs @ r" and "ended r \<or> broken_off r"
  shows "getUUIDsByType typ w p (length pre) u =
    (case all_lists w (of_type typ fs) of
       Ok us \<Rightarrow> (if ended r then Some (Ok (u @ us)) else None)
     | Err e \<Rightarrow> Some (Err e) | Panic m \<Rightarrow> Some (Panic m))"
  using assms(1,2)
proof (induction fs arbitrary: pre u)
  case Nil
  then have p: "p = pre @ r" by simp
  show ?case
  proof (cases "ended r")
    case True
    then show ?thesis
      using getUUIDsByType.simps [of "typ" w p "length pre" u] getUUIDsByType.simps [of "typ" w p "Suc (length pre)" u]
      by (cases r) (simp_all add: of_type_def field_at_def p ended_def)
  next
    case False
    then have b: "broken_off r" using assms(3) by simp
    then have "field_at typ p (length pre) = Some (Ok (None, length pre))" "length pre < length p"
      by (auto simp: field_at_def p broken_off_def fieldPos.simps)
    from getUUIDs_stuck [OF this(2,1)] False show ?thesis by (simp add: of_type_def)
  qed
next
  case (Cons f fs)
  have p: "p = pre @ enc_field f @ enc_fields fs @ r" "p = (pre @ enc_field f) @ enc_fields fs @ r"
    using Cons.prems(2) by simp_all
  have g: "good_field f" "\<forall>f \<in> set fs. good_field f" using Cons.prems(1) by simp_all
  note IH = Cons.IH [OF g(2) p(2)]
  show ?case
  proof (cases "fst f = typ")
    case False
    then have "of_type typ (f # fs) = of_type typ fs" by (simp add: of_type_def)
    then show ?thesis using IH getUUIDs_skip [OF g(1) p(1) False] by simp
  next
    case True
    then have "of_type typ (f # fs) = snd f # of_type typ fs" by (simp add: of_type_def)
    then show ?thesis
      using IH getUUIDs_take [OF g(1) p(1)] True
      by (cases "uuidList w (snd f)"; cases "all_lists w (of_type typ fs)") simp_all
  qed
qed

text \<open>The identifiers of a list: its pieces of the width.\<close>

definition cut :: "nat \<Rightarrow> string \<Rightarrow> uuid list" where
  "cut w d = map (\<lambda>i. take w (drop (i * w) d)) [0..<length d div w]"

lemma uuidList_cut: "0 < w \<Longrightarrow> w dvd length d \<Longrightarrow> uuidList w d = Ok (cut w d)"
proof (induction w d rule: uuidList.induct)
  case (1 w d)
  show ?case
  proof (cases "d = []")
    case False
    then have l: "w \<le> length d" using 1(3) by (simp add: dvd_imp_le)
    then have q: "length d div w = Suc (length (drop w d) div w)" using 1(2) le_div_geq [of w "length d"] by simp
    have "uuidList w (drop w d) = Ok (cut w (drop w d))"
      using 1 False l by simp
    moreover have "cut w d = take w d # cut w (drop w d)"
      unfolding cut_def q by (simp add: upt_conv_Cons map_Suc_upt [symmetric] add.commute del: upt_Suc)
    ultimately show ?thesis using False l 1(2) by (subst uuidList.simps) simp
  qed (simp add: cut_def uuidList.simps)
qed

lemma all_lists_cut: "0 < w \<Longrightarrow> \<forall>d \<in> set ds. w dvd length d \<Longrightarrow> all_lists w ds = Ok (concat (map (cut w) ds))"
  by (induction ds) (simp_all add: uuidList_cut)

text \<open>The lists of identifiers of a packet, in the order they are read, and those that are whole.\<close>

definition id_lists :: "(nat \<times> nat) list" where
  "id_lists = [(2, 2), (3, 2), (4, 4), (5, 4), (6, 16), (7, 16)]"

definition whole_lists :: "(nat \<times> string) list \<Rightarrow> bool" where
  "whole_lists fs \<longleftrightarrow> (\<forall>(t, w) \<in> set id_lists. \<forall>d \<in> set (of_type t fs). w dvd length d)"

definition services_of :: "(nat \<times> string) list \<Rightarrow> uuid list" where
  "services_of fs = concat (map (\<lambda>(t, w). concat (map (cut w) (of_type t fs))) id_lists)"

lemma UUIDs_fields:
  assumes "\<forall>f \<in> set fs. good_field f" and "p = enc_fields fs @ r" and "ended r \<or> broken_off r" and "whole_lists fs"
  shows "packet_UUIDs p = (if ended r then Some (Ok (services_of fs)) else None)"
proof -
  have w: "all_lists 2 (of_type 2 fs) = Ok (concat (map (cut 2) (of_type 2 fs)))"
    "all_lists 2 (of_type 3 fs) = Ok (concat (map (cut 2) (of_type 3 fs)))"
    "all_lists 4 (of_type 4 fs) = Ok (concat (map (cut 4) (of_type 4 fs)))"
    "all_lists 4 (of_type 5 fs) = Ok (concat (map (cut 4) (of_type 5 fs)))"
    "all_lists 16 (of_type 6 fs) = Ok (concat (map (cut 16) (of_type 6 fs)))"
    "all_lists 16 (of_type 7 fs) = Ok (concat (map (cut 16) (of_type 7 fs)))"
    using assms(4) by (simp_all add: whole_lists_def id_lists_def all_lists_cut)
  have "p = [] @ enc_fields fs @ r" using assms(2) by simp
  note g = getUUIDs_fields [OF assms(1) this assms(3), unfolded list.size(3)]
  show ?thesis by (simp add: packet_UUIDs_def g w services_of_def id_lists_def)
qed

lemma Field_ends:
  assumes "\<forall>f \<in> set fs. good_field f" and "p = enc_fields fs @ r" and "ended r \<or> broken_off r"
  shows "adv_Field typ p = Some (Ok (map_of fs typ))"
  using Field_fields [OF assms(1), of "typ" r] Field_end [OF assms(3)] assms(2) by (simp split: option.split)

lemma ends_bind_None: "ends_bind m f = None \<longleftrightarrow> m = None \<or> (\<exists>x. m = Some (Ok x) \<and> f x = None)"
proof (cases m)
  case (Some x)
  then show ?thesis by (cases x) auto
qed simp

fun raw_handle_advs :: "raw_adv list \<Rightarrow> (string \<times> dev) list \<Rightarrow> ((string \<times> dev) list, string) go option" where
  "raw_handle_advs [] devices = Some (Ok devices)"
| "raw_handle_advs (a # as) devices = ends_bind (raw_handler a devices) (raw_handle_advs as)"

text \<open>What is read from a list of fields.\<close>

definition named_by :: "(nat \<times> string) list \<Rightarrow> string" where
  "named_by fs = (case map_of fs 8 of Some n \<Rightarrow> n | None \<Rightarrow> (case map_of fs 9 of Some n \<Rightarrow> n | None \<Rightarrow> []))"

definition data_lists :: "(nat \<times> nat) list" where
  "data_lists = [(0x16, 2), (0x20, 4), (0x21, 16)]"

definition service_data_of :: "(nat \<times> string) list \<Rightarrow> (uuid \<times> string) list" where
  "service_data_of fs = concat (map (\<lambda>(t, w). case map_of fs t of
     None \<Rightarrow> [] | Some d \<Rightarrow> [(take w d, take (length d - w) (drop 2 d))]) data_lists)"

definition whole_data :: "(nat \<times> string) list \<Rightarrow> bool" where
  "whole_data fs \<longleftrightarrow> (\<forall>(t, w) \<in> set data_lists. \<forall>d. map_of fs t = Some d \<longrightarrow> w \<le> length d)"

definition advert_of :: "raw_adv \<Rightarrow> (nat \<times> string) list \<Rightarrow> adv" where
  "advert_of a fs = \<lparr>adv_Addr = ra_Addr a, adv_LocalName = named_by fs, adv_RSSI = ra_RSSI a,
     adv_Connectable = Connectable a, adv_Services = services_of fs, adv_ServiceData = service_data_of fs\<rparr>"

definition carries :: "raw_adv \<Rightarrow> (nat \<times> string) list \<Rightarrow> string \<Rightarrow> bool" where
  "carries a fs r \<longleftrightarrow> report_bytes a = enc_fields fs @ r \<and> (\<forall>f \<in> set fs. good_field f) \<and> (ended r \<or> broken_off r)
     \<and> whole_lists fs \<and> whole_data fs"

lemma with_field_list:
  assumes "adv_Field t p = Some (Ok (map_of fs t))" and "\<forall>d. map_of fs t = Some d \<longrightarrow> w \<le> length d"
  shows "with_field t p (serviceDataList w) sd = Some (Ok (sd @ (case map_of fs t of
     None \<Rightarrow> [] | Some d \<Rightarrow> [(take w d, take (length d - w) (drop 2 d))])))"
  using assms by (cases "map_of fs t") (simp_all add: with_field_def serviceDataList_def not_less)

lemma carried:
  assumes "carries a fs r"
  shows "packet_LocalName (report_bytes a) = Some (Ok (named_by fs))"
    and "packet_ServiceData (report_bytes a) = Some (Ok (service_data_of fs))"
    and "packet_UUIDs (report_bytes a) = (if ended r then Some (Ok (services_of fs)) else None)"
proof -
  note c = assms [unfolded carries_def]
  have f: "adv_Field t (report_bytes a) = Some (Ok (map_of fs t))" for t by (rule Field_ends) (use c in auto)
  show "packet_LocalName (report_bytes a) = Some (Ok (named_by fs))"
    by (simp add: packet_LocalName_def f named_by_def split: option.split)
  have "\<forall>d. map_of fs 22 = Some d \<longrightarrow> 2 \<le> length d" "\<forall>d. map_of fs 32 = Some d \<longrightarrow> 4 \<le> length d"
    "\<forall>d. map_of fs 33 = Some d \<longrightarrow> 16 \<le> length d"
    using c by (simp_all add: whole_data_def data_lists_def)
  note l = this [THEN with_field_list [OF f]]
  show "packet_ServiceData (report_bytes a) = Some (Ok (service_data_of fs))"
    by (simp add: packet_ServiceData_def l service_data_of_def data_lists_def)
  show "packet_UUIDs (report_bytes a) = (if ended r then Some (Ok (services_of fs)) else None)"
    by (rule UUIDs_fields) (use c in auto)
qed

lemma carried_decoded: "carries a fs r \<Longrightarrow> ended r \<Longrightarrow> decoded a (advert_of a fs)"
  using carried [of a fs r] by (simp add: decoded_def advert_of_def)

text \<open>C25: an advertisement whose fields reach the end of its packet (but for a byte). The handler of the
  scan does with the bytes what it does with the name, the services and the service data that the fields
  hold.\<close>

theorem scan_reads_the_fields:
  assumes "carries a fs r" and "ended r"
  shows "raw_handler a devices = Some (advHandler (advert_of a fs) devices)"
  by (rule raw_handler_refines [OF carried_decoded [OF assms]])

text \<open>C24: an advertisement from a new address whose fields stop before: at a zero byte, as in a packet that
  is padded, or at a field that is cut off. The loop over the services goes back to the same place for ever, so
  the handler, and with it the thread that receives all events of the adapter, never comes back; exactly these
  packets do so.\<close>

theorem scan_hangs_on_unfinished_fields:
  assumes "carries a fs r" and "ra_Addr a \<notin> dom (map_of devices)"
  shows "(raw_handler a devices = None \<longleftrightarrow> \<not> ended r)
    \<and> (\<not> ended r \<longrightarrow> raw_handle_advs (a # later) devices = None)"
proof (cases "ended r")
  case True
  then show ?thesis using raw_handler_refines [OF carried_decoded [OF assms(1) True]] by simp
next
  case False
  have "map_of devices (ra_Addr a) = None" using assms(2) by auto
  then have "raw_handler a devices = None" using False carried [OF assms(1)] by (simp add: raw_handler_def)
  then show ?thesis using False by simp
qed

section \<open>Packets that are built\<close>

lemma adv_append_fields:
  "adv_append t b p =
     (if length p + length b + 2 > 31 then Err ErrNotFit else Ok (p @ enc_field (t, b)))"
  by (auto simp: adv_append_def enc_field_def MaxEIRPacketLength_def)

lemma NewPacket_fields:
  "\<forall>f \<in> set fs. fst f < 256 \<Longrightarrow> length p \<le> 31 \<Longrightarrow> NewPacket (map (\<lambda>(t, b). adv_append t b) fs) p =
     (if length p + length (enc_fields fs) > 31 then Err ErrNotFit else Ok (p @ enc_fields fs))"
  by (induction fs arbitrary: p) (auto simp: adv_append_fields split: prod.split)

text \<open>a packet is built from fields exactly when they fit in 31 bytes, and then each type is read back as
  the data of the first field of that type.\<close>

theorem built_packet_read_back:
  assumes "\<forall>f \<in> set fs. fst f < 256"
  shows "case NewPacket (map (\<lambda>(t, b). adv_append t b) fs) [] of
     Ok p \<Rightarrow> length p = (\<Sum>f \<leftarrow> fs. length (snd f) + 2) \<and> length p \<le> 31 \<and> (\<forall>t. adv_Field t p = Some (Ok (map_of fs t)))
   | Err e \<Rightarrow> e = ErrNotFit \<and> 31 < (\<Sum>f \<leftarrow> fs. length (snd f) + 2)
   | Panic m \<Rightarrow> False"
proof -
  have l: "length (enc_fields fs) = (\<Sum>f \<leftarrow> fs. length (snd f) + 2)" by (induction fs) simp_all
  show ?thesis
  proof (cases "length (enc_fields fs) \<le> 31")
    case True
    have "\<forall>f \<in> set fs. length (snd f) + 2 \<le> 31"
      using True member_le_sum_list [of _ "map (\<lambda>f. length (snd f) + 2) fs"] unfolding l by fastforce
    then have "\<forall>f \<in> set fs. good_field f" using assms by (auto simp: good_field_def)
    then have "adv_Field t (enc_fields fs) = Some (Ok (map_of fs t))" for t
      by (rule Field_ends [where r = "[]"]) (simp_all add: ended_def)
    then show ?thesis using True l by (simp add: NewPacket_fields [OF assms])
  qed (use l in \<open>simp add: NewPacket_fields [OF assms]\<close>)
qed

text \<open>The flags and the power of a packet are never found: their data is one byte, and the code looks for a
  third.\<close>

lemma flags_never_found: "p = enc_fields fs \<Longrightarrow> \<forall>f \<in> set fs. good_field f \<Longrightarrow> map_of fs 1 = Some [c] \<Longrightarrow>
    packet_flags p = Some (Ok None)"
  using Field_ends [of fs p "[]" 1] by (simp add: packet_flags_def third_byte_def ended_def)

section \<open>Instances\<close>

text \<open>A tag that advertises flags, its name and a service, and the same tag with padding.\<close>

definition tag_fields :: "(nat \<times> string) list" where
  "tag_fields = [(1, [CHR 0x06]), (9, ''tag''), (3, [CHR 0x0F, CHR 0x18])]"

definition tag :: "string \<Rightarrow> raw_adv" where
  "tag padding = \<lparr>ra_Addr = ''c0:ff:ee:00:00:01'', ra_RSSI = -60, ra_EventType = 0,
     ra_Data = enc_fields tag_fields @ padding, ra_sr = None\<rparr>"

lemma tag_carries: "ended r \<or> broken_off r \<Longrightarrow> carries (tag r) tag_fields r"
  by (simp add: carries_def tag_def report_bytes_def tag_fields_def good_field_def whole_lists_def id_lists_def
      whole_data_def data_lists_def of_type_def)

lemma padding_breaks: "broken_off [CHR 0x00, CHR 0x00]" "\<not> ended [CHR 0x00, CHR 0x00]" "ended []"
  by (simp_all add: broken_off_def field_broken_def field_len_def ended_def)

lemma scan_reads_the_fields_witness:
  "raw_handler (tag []) [] = Some (advHandler (advert_of (tag []) tag_fields) [])"
  by (rule scan_reads_the_fields [OF tag_carries]) (simp_all add: padding_breaks)

lemma scan_hangs_on_unfinished_fields_witness:
  "raw_handle_advs [tag [CHR 0x00, CHR 0x00], tag []] [] = None"
  using scan_hangs_on_unfinished_fields [OF tag_carries, of "[CHR 0x00, CHR 0x00]" "[]" "[tag []]"]
  by (simp add: padding_breaks del: raw_handle_advs.simps)

lemma built_packet_read_back_witness:
  "case NewPacket (map (\<lambda>(t, b). adv_append t b) tag_fields) [] of
     Ok p \<Rightarrow> length p = (\<Sum>f \<leftarrow> tag_fields. length (snd f) + 2) \<and> length p \<le> 31
       \<and> (\<forall>t. adv_Field t p = Some (Ok (map_of tag_fields t)))
   | Err e \<Rightarrow> e = ErrNotFit \<and> 31 < (\<Sum>f \<leftarrow> tag_fields. length (snd f) + 2)
   | Panic m \<Rightarrow> False"
  by (rule built_packet_read_back) (simp add: tag_fields_def)

end
