(* ===== verification/Ble_Att.thy ===== *)
theory Ble_Att
  imports Ble_Handler
begin

text \<open>
  The client of the attribute protocol (\<open>third_party/go-ble/ble/linux/att/client.go\<close>) and the discovery of
  the GATT client over it (\<open>linux/gatt/client.go\<close>), byte by byte: requests are packets written to the link,
  answers are the packets its receiving loop hands over. The link below is the record \<open>l2cap\<close>. A request
  waits without a bound while the peer keeps asking in turn, and a sweep asks as long as it is answered, so
  both are partial functions whose value \<open>None\<close> is not ending. The last section says that these sweeps are
  the ones the record \<open>radio\<close> of \<open>Ble_Gatt\<close> reports, and what they find on a device that follows the
  protocol.
\<close>

section \<open>Packets\<close>

definition word_le :: "char \<Rightarrow> char \<Rightarrow> u16" where
  "word_le l h = word_of_nat (of_char l + 256 * of_char h)"

text \<open>\<open>binary.LittleEndian.Uint16\<close> at a position, where the slice has been checked.\<close>

definition get16 :: "nat \<Rightarrow> string \<Rightarrow> u16" where
  "get16 i b = word_le (b ! i) (b ! Suc i)"

definition att_code :: "string \<Rightarrow> nat" where
  "att_code r = of_char (r ! 0)"

lemma word_le_le16 [simp]: "word_le (char_of (unat (lo8 w))) (char_of (unat (hi8 w))) = w"
proof -
  have "unat (lo8 w) + 256 * unat (hi8 w) = unat w"
    using unsigned_less [of w, where ?'a = nat]
    by (simp add: lo8_def hi8_def unsigned_ucast_eq unsigned_drop_bit_eq drop_bit_eq_div take_bit_eq_mod unat_div_distrib)
  moreover have "(of_char (char_of (unat b) :: char) :: nat) = unat b" for b :: byte
    using unsigned_less [of b, where ?'a = nat] by (simp add: of_char_of take_bit_eq_mod)
  ultimately show ?thesis by (simp add: word_le_def del: of_char_of)
qed

lemma length_le16 [simp]: "length (le16 w) = 2" "le16 w \<noteq> []" by (simp_all add: le16_def)

lemma get16_le16 [simp]: "get16 0 (le16 w @ b) = w" "get16 (Suc (Suc 0)) (le16 v @ le16 w @ b) = w"
  by (simp_all add: get16_def le16_def)

section \<open>Errors\<close>

text \<open>\<open>ATTError\<close> of \<open>error.go\<close> and the other errors of a request by their text. The text of a code: the
  last entry of the table is not reached, its code falls between the cases.\<close>

datatype att_error = ATTError nat | AttFailed string

definition ErrInvalidArgument :: att_error where "ErrInvalidArgument = AttFailed ''invalid argument''"
definition ErrInvalidResponse :: att_error where "ErrInvalidResponse = AttFailed ''invalid response''"
definition ErrAttrNotFound :: att_error where "ErrAttrNotFound = ATTError 0x0A"

definition errName :: "string list" where
  "errName =
     [''success'', ''invalid handle'', ''read not permitted'', ''write not permitted'', ''invalid PDU'',
      ''insufficient authentication'', ''request not supported'', ''invalid offset'',
      ''insufficient authorization'', ''prepare queue full'', ''attribute not found'', ''attribute not long'',
      ''insufficient encryption key size'', ''invalid attribute value length'', ''unlikely error'',
      ''insufficient encryption'', ''unsupported group type'', ''insufficient resources'']"

definition hex_upper :: "nat \<Rightarrow> string" where
  "hex_upper n = (let d = (\<lambda>i. if i < 10 then char_of (i + 48) else char_of (i + 55)) in [d (n div 16), d (n mod 16)])"

fun att_Error :: "att_error \<Rightarrow> string" where
  "att_Error (AttFailed m) = m"
| "att_Error (ATTError i) =
     (if i < 0x11 then errName ! i
      else if 0x12 \<le> i \<and> i \<le> 0x7F then ''reserved error code (0x'' @ hex_upper i @ '')''
      else if 0x80 \<le> i \<and> i \<le> 0x9F then ''application error code (0x'' @ hex_upper i @ '')''
      else if 0xA0 \<le> i \<and> i \<le> 0xDF then ''reserved error code (0x'' @ hex_upper i @ '')''
      else if 0xE0 \<le> i \<and> i \<le> 0xFF then ''profile or service error''
      else ''unknown error'')"

section \<open>The link and its requests\<close>

text \<open>What reaches a request that waits, in order: packets from the receiving loop, thirty seconds without
  any, and the loss of the bearer.\<close>

datatype att_event = Rsp string | Silence | Lost string

text \<open>A write, and what it makes arrive.\<close>

record 'd l2cap =
  l2_write :: "string \<Rightarrow> 'd \<Rightarrow> (string + att_event list) \<times> 'd"

record 'd att =
  at_dev :: 'd
  at_queue :: "att_event list"
  at_txMTU :: nat
  at_rxMTU :: nat
  at_txBuf :: string

definition att_NewClient :: "'d \<Rightarrow> nat \<Rightarrow> nat \<Rightarrow> 'd att" where
  "att_NewClient d txMTU rxMTU =
     \<lparr>at_dev = d, at_queue = [], at_txMTU = txMTU, at_rxMTU = rxMTU, at_txBuf = replicate txMTU (CHR 0x00)\<rparr>"

type_synonym ('x, 'd) att_result = "(('x, att_error) go \<times> 'd att) option"

definition rspOfReq :: "nat \<Rightarrow> nat" where
  "rspOfReq op =
     (case map_of [(0x02, 0x03), (0x04, 0x05), (0x06, 0x07), (0x08, 0x09), (0x0A, 0x0B), (0x0C, 0x0D),
                   (0x0E, 0x0F), (0x10, 0x11), (0x12, 0x13), (0x16, 0x17), (0x18, 0x19), (0x1D, 0x1E)] op of
        Some c \<Rightarrow> c | None \<Rightarrow> 0)"

definition newErrorResponse :: "char \<Rightarrow> u16 \<Rightarrow> nat \<Rightarrow> string" where
  "newErrorResponse op h e = CHR 0x01 # op # le16 h @ [char_of e]"

text \<open>The loop of \<open>sendReq\<close>: an error response or a response of the awaited kind ends it; anything else is
  answered with an error and the wait starts again.\<close>

partial_function (option) wait_rsp :: "'d l2cap \<Rightarrow> nat \<Rightarrow> 'd att \<Rightarrow> (string, 'd) att_result" where
  "wait_rsp L op s =
     (case at_queue s of
        [] \<Rightarrow> Some (Err (AttFailed ''ATT request timeout: req timeout''), s)
      | Silence # q \<Rightarrow> Some (Err (AttFailed ''ATT request timeout: req timeout''), s\<lparr>at_queue := q\<rparr>)
      | Lost m # q \<Rightarrow> Some (Err (AttFailed (''ATT request failed: '' @ m)), s\<lparr>at_queue := q\<rparr>)
      | Rsp r # q \<Rightarrow>
          (if r = [] then Some (Panic ''index out of range'', s)
           else if att_code r = 0x01 \<or> att_code r = rspOfReq op then Some (Ok r, s\<lparr>at_queue := q\<rparr>)
           else
             (case l2_write L (newErrorResponse (r ! 0) 0 0x06) (at_dev s) of
                (Inl m, d) \<Rightarrow>
                  Some (Err (AttFailed (''unexpected ATT response received: '' @ m)), s\<lparr>at_queue := q, at_dev := d\<rparr>)
              | (Inr es, d) \<Rightarrow> wait_rsp L op (s\<lparr>at_queue := q @ es, at_dev := d\<rparr>))))"

definition sendReq :: "'d l2cap \<Rightarrow> string \<Rightarrow> 'd att \<Rightarrow> (string, 'd) att_result" where
  "sendReq L b s =
     (case l2_write L b (at_dev s) of
        (Inl m, d) \<Rightarrow> Some (Err (AttFailed (''send ATT request failed: '' @ m)), s\<lparr>at_dev := d\<rparr>)
      | (Inr es, d) \<Rightarrow> wait_rsp L (att_code b) (s\<lparr>at_queue := at_queue s @ es, at_dev := d\<rparr>))"

text \<open>A request is built at the start of the buffer, which is as long as the peer allows packets to be.\<close>

definition att_request :: "'d l2cap \<Rightarrow> string \<Rightarrow> 'd att \<Rightarrow> (string, 'd) att_result" where
  "att_request L b s =
     (if length (at_txBuf s) < length b then Some (Panic ''slice bounds out of range'', s)
      else sendReq L b (s\<lparr>at_txBuf := b @ drop (length b) (at_txBuf s)\<rparr>))"

text \<open>The first cases of every check of a response; the opcode itself is compared with itself.\<close>

definition att_answer :: "string \<Rightarrow> (string, att_error) go" where
  "att_answer r =
     (if att_code r = 0x01 then (if length r = 5 then Err (ATTError (of_char (r ! 4))) else Err ErrInvalidResponse)
      else Ok r)"

definition answered :: "(string, 'd) att_result \<Rightarrow> (string \<Rightarrow> ('x, att_error) go) \<Rightarrow> ('x, 'd) att_result" where
  "answered m f = map_option (\<lambda>(r, s). (go_bind (go_bind r att_answer) f, s)) m"

definition att_ExchangeMTU :: "'d l2cap \<Rightarrow> nat \<Rightarrow> 'd att \<Rightarrow> (nat, 'd) att_result" where
  "att_ExchangeMTU L n s =
     (if n < 23 \<or> 515 < n then Some (Err ErrInvalidArgument, s)
      else
        (case answered (att_request L (CHR 0x02 # le16 (word_of_nat n)) (s\<lparr>at_rxMTU := n\<rparr>))
                (\<lambda>r. if length r \<noteq> 3 then Err ErrInvalidResponse else Ok (unat (get16 1 r))) of
           Some (Ok m, s') \<Rightarrow>
             Some (Ok m, if length (at_txBuf s') = m then s'
                         else s'\<lparr>at_txMTU := m, at_txBuf := replicate m (CHR 0x00)\<rparr>)
         | r \<Rightarrow> r))"

definition att_FindInformation :: "'d l2cap \<Rightarrow> u16 \<Rightarrow> u16 \<Rightarrow> 'd att \<Rightarrow> (nat \<times> string, 'd) att_result" where
  "att_FindInformation L a z s =
     (if a = 0 \<or> z < a then Some (Err ErrInvalidArgument, s)
      else answered (att_request L (CHR 0x04 # le16 a @ le16 z) s) (\<lambda>r.
        if length r < 6 \<or> of_char (r ! 1) = (1 :: nat) \<and> (length r - 2) mod 4 \<noteq> 0
           \<or> of_char (r ! 1) = (2 :: nat) \<and> (length r - 2) mod 18 \<noteq> 0
        then Err ErrInvalidResponse else Ok (of_char (r ! 1), drop 2 r)))"

text \<open>The answer of the two requests that read by type: the data is a list of equal parts, whose length the
  answer gives.\<close>

definition data_list :: "string \<Rightarrow> (nat \<times> string, att_error) go" where
  "data_list r =
     (if length r < 4 then Err ErrInvalidResponse
      else if of_char (r ! 1) = (0 :: nat) then Panic ''integer divide by zero''
      else if (length r - 2) mod of_char (r ! 1) \<noteq> 0 then Err ErrInvalidResponse
      else Ok (of_char (r ! 1), drop 2 r))"

definition att_ReadByType :: "'d l2cap \<Rightarrow> u16 \<Rightarrow> u16 \<Rightarrow> uuid \<Rightarrow> 'd att \<Rightarrow> (nat \<times> string, 'd) att_result" where
  "att_ReadByType L a z u s =
     (if z < a \<or> length u \<noteq> 2 \<and> length u \<noteq> 16 then Some (Err ErrInvalidArgument, s)
      else answered (att_request L (CHR 0x08 # le16 a @ le16 z @ u) s) data_list)"

definition att_ReadByGroupType :: "'d l2cap \<Rightarrow> u16 \<Rightarrow> u16 \<Rightarrow> uuid \<Rightarrow> 'd att \<Rightarrow> (nat \<times> string, 'd) att_result" where
  "att_ReadByGroupType L a z u s =
     (if z < a \<or> length u \<noteq> 2 \<and> length u \<noteq> 16 then Some (Err ErrInvalidArgument, s)
      else answered (att_request L (CHR 0x10 # le16 a @ le16 z @ u) s) data_list)"

definition att_Read :: "'d l2cap \<Rightarrow> u16 \<Rightarrow> 'd att \<Rightarrow> (string, 'd) att_result" where
  "att_Read L h s = answered (att_request L (CHR 0x0A # le16 h) s) (\<lambda>r. Ok (drop 1 r))"

definition att_ReadBlob :: "'d l2cap \<Rightarrow> u16 \<Rightarrow> u16 \<Rightarrow> 'd att \<Rightarrow> (string, 'd) att_result" where
  "att_ReadBlob L h off s = answered (att_request L (CHR 0x0C # le16 h @ le16 off) s) (\<lambda>r. Ok (drop 1 r))"

definition att_ReadMultiple :: "'d l2cap \<Rightarrow> u16 list \<Rightarrow> 'd att \<Rightarrow> (string, 'd) att_result" where
  "att_ReadMultiple L hs s =
     (if length hs < 2 \<or> at_txMTU s < length hs * 2 + 1 then Some (Err ErrInvalidArgument, s)
      else answered (att_request L (CHR 0x0E # concat (map le16 hs)) s) (\<lambda>r. Ok (drop 1 r)))"

definition att_Write :: "'d l2cap \<Rightarrow> u16 \<Rightarrow> string \<Rightarrow> 'd att \<Rightarrow> (unit, 'd) att_result" where
  "att_Write L h v s =
     (if at_txMTU s < length v + 3 then Some (Err ErrInvalidArgument, s)
      else answered (att_request L (CHR 0x12 # le16 h @ v) s) (\<lambda>r. Ok ()))"

text \<open>The commands, which are not answered. A signed command puts the signature where the value begins, and the
  end of its packet is what the buffer held.\<close>

definition att_command :: "'d l2cap \<Rightarrow> string \<Rightarrow> 'd att \<Rightarrow> (unit, 'd) att_result" where
  "att_command L b s =
     (if length (at_txBuf s) < length b then Some (Panic ''slice bounds out of range'', s)
      else
        (case l2_write L b (at_dev s) of
           (Inl m, d) \<Rightarrow> Some (Err (AttFailed m), s\<lparr>at_txBuf := b @ drop (length b) (at_txBuf s), at_dev := d\<rparr>)
         | (Inr es, d) \<Rightarrow>
             Some (Ok (), s\<lparr>at_txBuf := b @ drop (length b) (at_txBuf s), at_queue := at_queue s @ es, at_dev := d\<rparr>)))"

definition att_WriteCommand :: "'d l2cap \<Rightarrow> u16 \<Rightarrow> string \<Rightarrow> 'd att \<Rightarrow> (unit, 'd) att_result" where
  "att_WriteCommand L h v s =
     (if at_txMTU s < length v + 3 then Some (Err ErrInvalidArgument, s)
      else att_command L (CHR 0x52 # le16 h @ v) s)"

definition att_SignedWrite :: "'d l2cap \<Rightarrow> u16 \<Rightarrow> string \<Rightarrow> string \<Rightarrow> 'd att \<Rightarrow> (unit, 'd) att_result" where
  "att_SignedWrite L h v sig s =
     (if at_txMTU s < length v + 15 then Some (Err ErrInvalidArgument, s)
      else if length (at_txBuf s) < 15 + length v then Some (Panic ''slice bounds out of range'', s)
      else att_command L (CHR 0xD2 # le16 h @ sig @ drop 12 v
             @ take (15 + length v - (3 + max 12 (length v))) (drop (3 + max 12 (length v)) (at_txBuf s))) s)"

text \<open>The value of a prepared write is not copied into its packet: what the buffer held is sent.\<close>

definition att_PrepareWrite ::
  "'d l2cap \<Rightarrow> u16 \<Rightarrow> u16 \<Rightarrow> string \<Rightarrow> 'd att \<Rightarrow> (u16 \<times> u16 \<times> string, 'd) att_result" where
  "att_PrepareWrite L h off v s =
     (if at_txMTU s < length v + 5 then Some (Err ErrInvalidArgument, s)
      else if length (at_txBuf s) < 5 + length v then Some (Panic ''slice bounds out of range'', s)
      else answered (att_request L (CHR 0x16 # le16 h @ le16 off @ take (length v) (drop 5 (at_txBuf s))) s) (\<lambda>r.
        if length r < 5 then Err ErrInvalidResponse else Ok (get16 1 r, get16 3 r, drop 5 r)))"

text \<open>The packet of the last step of a prepared write is cut to one byte before its second byte is set.\<close>

definition att_ExecuteWrite :: "'d l2cap \<Rightarrow> nat \<Rightarrow> 'd att \<Rightarrow> (unit, 'd) att_result" where
  "att_ExecuteWrite L flags s =
     Some (Panic (if at_txBuf s = [] then ''slice bounds out of range'' else ''index out of range''), s)"

section \<open>The receiving loop\<close>

text \<open>What \<open>Loop\<close> does with a packet: hand it to the request that waits, or to the handler of notifications,
  with a confirmation for an indication.\<close>

datatype received = Loop_panics | To_handler string "string option" | To_request string

definition loop_packet :: "string \<Rightarrow> received" where
  "loop_packet b =
     (if b = [] then Loop_panics
      else if att_code b = 0x1B then To_handler b None
      else if att_code b = 0x1D then To_handler b (Some [CHR 0x1E])
      else To_request b)"

text \<open>\<open>HandleNotification\<close> over the packet: the process and the value it is given.\<close>

definition HandleNotification :: "gclient \<Rightarrow> string \<Rightarrow> ((string \<times> string) option, string) go" where
  "HandleNotification p b =
     (if length b < 3 then Panic ''index out of range''
      else Ok (map_option (\<lambda>pid. (pid, drop 3 b)) (notified p (att_code b = 0x1D) (get16 1 b))))"

section \<open>The discovery of the GATT client\<close>

definition PrimaryServiceUUID :: uuid where "PrimaryServiceUUID = [CHR 0x00, CHR 0x28]"
definition CharacteristicUUID :: uuid where "CharacteristicUUID = [CHR 0x03, CHR 0x28]"

text \<open>The parts of one answer. \<open>None\<close> for the next handle says that the last one has been reached.\<close>

definition part_ok :: "nat \<Rightarrow> nat \<Rightarrow> string \<Rightarrow> bool" where
  "part_ok least len b \<longleftrightarrow> least \<le> len \<and> len \<le> length b"

function add_services ::
  "nat \<Rightarrow> uuid list option \<Rightarrow> string \<Rightarrow> gservice list \<Rightarrow> u16 \<Rightarrow> (gservice list \<times> u16 option, att_error) go" where
  "add_services len f b ss start =
     (if b = [] then Ok (ss, Some start)
      else if \<not> part_ok 4 len b then Panic ''slice bounds out of range''
      else
        (let h = get16 0 b; endh = get16 2 b; u = take (len - 4) (drop 4 b);
             ss' = (if in_filter f u
                    then ss @ [\<lparr>gs_UUID = u, gs_Characteristics = [], gs_Handle = h, gs_EndHandle = endh\<rparr>]
                    else ss)
         in if endh = 0xFFFF then Ok (ss', None) else add_services len f (drop len b) ss' (endh + 1)))"
  by pat_completeness auto
termination by (relation "measure (\<lambda>(_, _, b, _). length b)") (auto simp: part_ok_def)

declare add_services.simps [simp del]

partial_function (option) services_loop ::
  "'d l2cap \<Rightarrow> uuid list option \<Rightarrow> u16 \<Rightarrow> gservice list \<Rightarrow> 'd att \<Rightarrow> ((unit, att_error) go \<times> gservice list \<times> 'd att) option" where
  "services_loop L f start ss s =
     (case att_ReadByGroupType L start 0xFFFF PrimaryServiceUUID s of
        None \<Rightarrow> None
      | Some (Err e, s') \<Rightarrow> Some (if e = ErrAttrNotFound then Ok () else Err e, ss, s')
      | Some (Panic m, s') \<Rightarrow> Some (Panic m, ss, s')
      | Some (Ok (len, b), s') \<Rightarrow>
          (case add_services len f b ss start of
             Ok (ss', None) \<Rightarrow> Some (Ok (), ss', s')
           | Ok (ss', Some start') \<Rightarrow> services_loop L f start' ss' s'
           | Err e \<Rightarrow> Some (Err e, ss, s')
           | Panic m \<Rightarrow> Some (Panic m, ss, s')))"

definition gatt_ends :: "(unit, att_error) go \<Rightarrow> 'x \<Rightarrow> ('x, string) go" where
  "gatt_ends r x = (case r of Ok _ \<Rightarrow> Ok x | Err e \<Rightarrow> Err (att_Error e) | Panic m \<Rightarrow> Panic m)"

definition DiscoverServices_att ::
  "'d l2cap \<Rightarrow> uuid list option \<Rightarrow> gclient \<times> 'd att \<Rightarrow> ((gservice list, string) go \<times> gclient \<times> 'd att) option" where
  "DiscoverServices_att L f = (\<lambda>(p, s).
     map_option (\<lambda>(r, ss, s'). (gatt_ends r ss, p\<lparr>profile := ss\<rparr>, s')) (services_loop L f 1 (profile p) s))"

text \<open>Characteristics: the end of one is set when the next is seen, through the pointer \<open>lastChar\<close>, here its
  place in the list, if it is in the list at all.\<close>

function add_chars ::
  "nat \<Rightarrow> uuid list option \<Rightarrow> u16 \<Rightarrow> string \<Rightarrow> gcharacteristic list \<Rightarrow> nat option \<Rightarrow> u16
   \<Rightarrow> (gcharacteristic list \<times> nat option \<times> u16, att_error) go" where
  "add_chars len f endh b cs prev start =
     (if b = [] then Ok (cs, prev, start)
      else if \<not> part_ok 5 len b then
        Panic (if length b = 2 then ''index out of range'' else ''slice bounds out of range'')
      else
        (let h = get16 0 b; pr = of_char (b ! 2); vh = get16 3 b; u = take (len - 5) (drop 5 b);
             c = \<lparr>gc_UUID = u, gc_Property = pr, gc_Descriptors = [], gc_CCCD = None, gc_Data = None,
                  gc_Handle = h, gc_ValueHandle = vh, gc_EndHandle = endh\<rparr>;
             cs1 = (if in_filter f u then cs @ [c] else cs);
             cs2 = (case prev of None \<Rightarrow> cs1 | Some i \<Rightarrow> cs1[i := (cs1 ! i)\<lparr>gc_EndHandle := h - 1\<rparr>])
         in add_chars len f endh (drop len b) cs2 (if in_filter f u then Some (length cs) else None) (vh + 1)))"
  by pat_completeness auto
termination by (relation "measure (\<lambda>(_, _, _, b, _). length b)") (auto simp: part_ok_def)

declare add_chars.simps [simp del]

partial_function (option) chars_loop ::
  "'d l2cap \<Rightarrow> uuid list option \<Rightarrow> u16 \<Rightarrow> u16 \<Rightarrow> gcharacteristic list \<Rightarrow> nat option \<Rightarrow> 'd att
   \<Rightarrow> ((unit, att_error) go \<times> gcharacteristic list \<times> 'd att) option" where
  "chars_loop L f endh start cs prev s =
     (if endh < start then Some (Ok (), cs, s)
      else
        (case att_ReadByType L start endh CharacteristicUUID s of
           None \<Rightarrow> None
         | Some (Err e, s') \<Rightarrow> Some (if e = ErrAttrNotFound then Ok () else Err e, cs, s')
         | Some (Panic m, s') \<Rightarrow> Some (Panic m, cs, s')
         | Some (Ok (len, b), s') \<Rightarrow>
             (case add_chars len f endh b cs prev start of
                Ok (cs', prev', start') \<Rightarrow> chars_loop L f endh start' cs' prev' s'
              | Err e \<Rightarrow> Some (Err e, cs, s')
              | Panic m \<Rightarrow> Some (Panic m, cs, s'))))"

definition DiscoverCharacteristics_att ::
  "'d l2cap \<Rightarrow> uuid list option \<Rightarrow> gservice \<times> 'd att
   \<Rightarrow> ((gcharacteristic list, string) go \<times> gservice \<times> 'd att) option" where
  "DiscoverCharacteristics_att L f = (\<lambda>(sv, s).
     map_option (\<lambda>(r, cs, s'). (gatt_ends r cs, sv\<lparr>gs_Characteristics := cs\<rparr>, s'))
       (chars_loop L f (gs_EndHandle sv) (gs_Handle sv) (gs_Characteristics sv) None s))"

text \<open>Descriptors; the last one that configures notifications is kept aside, whatever the filter.\<close>

function add_descs ::
  "nat \<Rightarrow> uuid list option \<Rightarrow> string \<Rightarrow> gdescriptor list \<Rightarrow> gdescriptor option \<Rightarrow> u16
   \<Rightarrow> (gdescriptor list \<times> gdescriptor option \<times> u16, att_error) go" where
  "add_descs len f b ds cccd start =
     (if b = [] then Ok (ds, cccd, start)
      else if \<not> part_ok 2 len b then Panic ''slice bounds out of range''
      else
        (let h = get16 0 b; u = take (len - 2) (drop 2 b); d = \<lparr>gd_UUID = u, gd_Handle = h\<rparr>
         in add_descs len f (drop len b) (if in_filter f u then ds @ [d] else ds)
              (if u = ClientCharacteristicConfigUUID then Some d else cccd) (h + 1)))"
  by pat_completeness auto
termination by (relation "measure (\<lambda>(_, _, b, _). length b)") (auto simp: part_ok_def)

declare add_descs.simps [simp del]

partial_function (option) descs_loop ::
  "'d l2cap \<Rightarrow> uuid list option \<Rightarrow> u16 \<Rightarrow> u16 \<Rightarrow> gdescriptor list \<Rightarrow> gdescriptor option \<Rightarrow> 'd att
   \<Rightarrow> ((unit, att_error) go \<times> (gdescriptor list \<times> gdescriptor option) \<times> 'd att) option" where
  "descs_loop L f endh start ds cccd s =
     (if endh < start then Some (Ok (), (ds, cccd), s)
      else
        (case att_FindInformation L start endh s of
           None \<Rightarrow> None
         | Some (Err e, s') \<Rightarrow> Some (if e = ErrAttrNotFound then Ok () else Err e, (ds, cccd), s')
         | Some (Panic m, s') \<Rightarrow> Some (Panic m, (ds, cccd), s')
         | Some (Ok (fmt, b), s') \<Rightarrow>
             (case add_descs (if fmt = 2 then 18 else 4) f b ds cccd start of
                Ok (ds', cccd', start') \<Rightarrow> descs_loop L f endh start' ds' cccd' s'
              | Err e \<Rightarrow> Some (Err e, (ds, cccd), s')
              | Panic m \<Rightarrow> Some (Panic m, (ds, cccd), s'))))"

definition DiscoverDescriptors_att ::
  "'d l2cap \<Rightarrow> uuid list option \<Rightarrow> gcharacteristic \<times> 'd att
   \<Rightarrow> ((gdescriptor list, string) go \<times> gcharacteristic \<times> 'd att) option" where
  "DiscoverDescriptors_att L f = (\<lambda>(c, s).
     map_option (\<lambda>(r, (ds, cccd), s'). (gatt_ends r ds, c\<lparr>gc_Descriptors := ds, gc_CCCD := cccd\<rparr>, s'))
       (descs_loop L f (gc_EndHandle c) (gc_ValueHandle c + 1) (gc_Descriptors c) (gc_CCCD c) s))"

text \<open>Reads of values; a long one asks for the next part while the parts fill a packet.\<close>

definition ReadCharacteristic_att ::
  "'d l2cap \<Rightarrow> gcharacteristic \<times> 'd att \<Rightarrow> ((string, string) go \<times> gcharacteristic \<times> 'd att) option" where
  "ReadCharacteristic_att L = (\<lambda>(c, s).
     map_option (\<lambda>(r, s'). (map_err att_Error r, case r of Ok v \<Rightarrow> c\<lparr>gc_Data := Some v\<rparr> | _ \<Rightarrow> c, s'))
       (att_Read L (gc_ValueHandle c) s))"

partial_function (option) read_parts ::
  "'d l2cap \<Rightarrow> u16 \<Rightarrow> string \<Rightarrow> string \<Rightarrow> 'd att \<Rightarrow> (string, 'd) att_result" where
  "read_parts L h buffer part s =
     (if length part + 1 < at_txMTU s then Some (Ok buffer, s)
      else
        (case att_ReadBlob L h (word_of_nat (length buffer)) s of
           Some (Ok part', s') \<Rightarrow> read_parts L h (buffer @ part') part' s'
         | r \<Rightarrow> r))"

definition ReadLongCharacteristic_att ::
  "'d l2cap \<Rightarrow> gcharacteristic \<times> 'd att \<Rightarrow> ((string, string) go \<times> gcharacteristic \<times> 'd att) option" where
  "ReadLongCharacteristic_att L = (\<lambda>(c, s).
     map_option (\<lambda>(r, s'). (map_err att_Error r, case r of Ok v \<Rightarrow> c\<lparr>gc_Data := Some v\<rparr> | _ \<Rightarrow> c, s'))
       (case att_Read L (gc_ValueHandle c) s of
          Some (Ok part, s') \<Rightarrow> read_parts L (gc_ValueHandle c) part part s'
        | r \<Rightarrow> r))"

section \<open>Discovery as a sweep\<close>

text \<open>What a sweep finds, without the filter and the lists of the client: the parts of the answers in order.\<close>

function service_items :: "nat \<Rightarrow> string \<Rightarrow> ((uuid \<times> u16 \<times> u16) list, att_error) go" where
  "service_items len b =
     (if b = [] then Ok []
      else if \<not> part_ok 4 len b then Panic ''slice bounds out of range''
      else if get16 2 b = 0xFFFF then Ok [(take (len - 4) (drop 4 b), get16 0 b, get16 2 b)]
      else go_map (\<lambda>its. (take (len - 4) (drop 4 b), get16 0 b, get16 2 b) # its) (service_items len (drop len b)))"
  by pat_completeness auto
termination by (relation "measure (\<lambda>(_, b). length b)") (auto simp: part_ok_def)

declare service_items.simps [simp del]

definition next_service :: "u16 \<Rightarrow> (uuid \<times> u16 \<times> u16) list \<Rightarrow> u16 option" where
  "next_service start its =
     (if its = [] then Some start
      else if snd (snd (last its)) = 0xFFFF then None else Some (snd (snd (last its)) + 1))"

partial_function (option) services_sweep ::
  "'d l2cap \<Rightarrow> u16 \<Rightarrow> (uuid \<times> u16 \<times> u16) list \<Rightarrow> 'd att
   \<Rightarrow> ((unit, att_error) go \<times> (uuid \<times> u16 \<times> u16) list \<times> 'd att) option" where
  "services_sweep L start found s =
     (case att_ReadByGroupType L start 0xFFFF PrimaryServiceUUID s of
        None \<Rightarrow> None
      | Some (Err e, s') \<Rightarrow> Some (if e = ErrAttrNotFound then Ok () else Err e, found, s')
      | Some (Panic m, s') \<Rightarrow> Some (Panic m, found, s')
      | Some (Ok (len, b), s') \<Rightarrow>
          (case service_items len b of
             Ok its \<Rightarrow>
               (case next_service start its of
                  None \<Rightarrow> Some (Ok (), found @ its, s')
                | Some start' \<Rightarrow> services_sweep L start' (found @ its) s')
           | Err e \<Rightarrow> Some (Err e, found, s')
           | Panic m \<Rightarrow> Some (Panic m, found, s')))"

text \<open>The list the client makes of them.\<close>

definition found_services :: "uuid list option \<Rightarrow> (uuid \<times> u16 \<times> u16) list \<Rightarrow> gservice list" where
  "found_services f its =
     [\<lparr>gs_UUID = u, gs_Characteristics = [], gs_Handle = h, gs_EndHandle = endh\<rparr>. (u, h, endh) \<leftarrow> its, in_filter f u]"

lemma found_services_append: "found_services f (xs @ ys) = found_services f xs @ found_services f ys"
  by (simp add: found_services_def)

lemma found_services_Nil [simp]: "found_services f [] = []" by (simp add: found_services_def)

lemma add_services_items:
  "add_services len f b ss start =
     go_map (\<lambda>its. (ss @ found_services f its, next_service start its)) (service_items len b)"
proof (induction len f b ss start rule: add_services.induct)
  case (1 len f b ss start)
  show ?case
  proof (cases "b = [] \<or> \<not> part_ok 4 len b \<or> get16 2 b = 0xFFFF")
    case True
    then show ?thesis
      by (subst add_services.simps, subst service_items.simps)
        (auto simp: next_service_def found_services_def Let_def)
  next
    case False
    then have "add_services len f b ss start =
        go_map (\<lambda>its. (ss @ found_services f ((take (len - 4) (drop 4 b), get16 0 b, get16 2 b) # its),
                       next_service (get16 2 b + 1) its)) (service_items len (drop len b))"
      by (subst add_services.simps) (simp add: 1 Let_def found_services_def)
    moreover have "next_service (get16 2 b + 1) its =
        next_service start ((take (len - 4) (drop 4 b), get16 0 b, get16 2 b) # its)" for its
      using False by (cases its rule: rev_cases) (auto simp: next_service_def)
    ultimately show ?thesis
      using False by (subst service_items.simps) (cases "service_items len (drop len b)", simp_all)
  qed
qed

text \<open>The loop ends exactly when the sweep does, and with what the sweep found.\<close>

definition loop_services ::
  "uuid list option \<Rightarrow> gservice list \<Rightarrow> 'r \<times> (uuid \<times> u16 \<times> u16) list \<times> 's \<Rightarrow> 'r \<times> gservice list \<times> 's" where
  "loop_services f acc = (\<lambda>(r, its, s). (r, acc @ found_services f its, s))"

lemma services_loop_if_sweep:
  assumes "services_sweep L start found s = Some x"
  shows "services_loop L f start (acc @ found_services f found) s = Some (loop_services f acc x)"
  by (rule services_sweep.raw_induct [OF _ assms, where P = "\<lambda>L start found s x.
        services_loop L f start (acc @ found_services f found) s = Some (loop_services f acc x)"],
      subst services_loop.simps)
    (auto simp: loop_services_def add_services_items simp flip: found_services_append
      split: option.splits go.splits prod.splits if_splits)

lemma sweep_if_services_loop:
  assumes "services_loop L f start (acc @ found_services f found) s = Some y"
  shows "\<exists>x. services_sweep L start found s = Some x"
proof -
  have "f' = f \<longrightarrow> (\<forall>found. ss = acc @ found_services f found \<longrightarrow> services_sweep L start found s \<noteq> None)"
    if "services_loop L f' start ss s = Some y" for f' ss
    by (rule services_loop.raw_induct [OF _ that, where P = "\<lambda>L f' start ss s y. f' = f \<longrightarrow>
          (\<forall>found. ss = acc @ found_services f found \<longrightarrow> services_sweep L start found s \<noteq> None)"])
      (subst services_sweep.simps, auto simp: add_services_items simp flip: found_services_append
        split: option.splits go.splits prod.splits if_splits)
  from this [OF assms] show ?thesis by blast
qed

function char_items :: "nat \<Rightarrow> string \<Rightarrow> ((uuid \<times> nat \<times> u16 \<times> u16) list, att_error) go" where
  "char_items len b =
     (if b = [] then Ok []
      else if \<not> part_ok 5 len b then
        Panic (if length b = 2 then ''index out of range'' else ''slice bounds out of range'')
      else go_map (\<lambda>its. (take (len - 5) (drop 5 b), of_char (b ! 2), get16 0 b, get16 3 b) # its)
             (char_items len (drop len b)))"
  by pat_completeness auto
termination by (relation "measure (\<lambda>(_, b). length b)") (auto simp: part_ok_def)

declare char_items.simps [simp del]

definition next_char :: "u16 \<Rightarrow> (uuid \<times> nat \<times> u16 \<times> u16) list \<Rightarrow> u16" where
  "next_char start its = (if its = [] then start else snd (snd (snd (last its))) + 1)"

partial_function (option) chars_sweep ::
  "'d l2cap \<Rightarrow> u16 \<Rightarrow> u16 \<Rightarrow> (uuid \<times> nat \<times> u16 \<times> u16) list \<Rightarrow> 'd att
   \<Rightarrow> ((unit, att_error) go \<times> (uuid \<times> nat \<times> u16 \<times> u16) list \<times> 'd att) option" where
  "chars_sweep L endh start found s =
     (if endh < start then Some (Ok (), found, s)
      else
        (case att_ReadByType L start endh CharacteristicUUID s of
           None \<Rightarrow> None
         | Some (Err e, s') \<Rightarrow> Some (if e = ErrAttrNotFound then Ok () else Err e, found, s')
         | Some (Panic m, s') \<Rightarrow> Some (Panic m, found, s')
         | Some (Ok (len, b), s') \<Rightarrow>
             (case char_items len b of
                Ok its \<Rightarrow> chars_sweep L endh (next_char start its) (found @ its) s'
              | Err e \<Rightarrow> Some (Err e, found, s')
              | Panic m \<Rightarrow> Some (Panic m, found, s'))))"

text \<open>The list of the client and the place of the last characteristic in it.\<close>

definition listed_chars ::
  "uuid list option \<Rightarrow> gcharacteristic list \<Rightarrow> u16 \<Rightarrow> (uuid \<times> nat \<times> u16 \<times> u16) list \<Rightarrow> gcharacteristic list" where
  "listed_chars f acc endh found = acc @ filter (\<lambda>c. in_filter f (gc_UUID c)) (new_characteristics endh found)"

definition last_char ::
  "uuid list option \<Rightarrow> gcharacteristic list \<Rightarrow> u16 \<Rightarrow> (uuid \<times> nat \<times> u16 \<times> u16) list \<Rightarrow> nat option" where
  "last_char f acc endh found =
     (if found = [] \<or> \<not> in_filter f (fst (last found)) then None
      else Some (length (listed_chars f acc endh found) - 1))"

lemma new_characteristics_snoc:
  "new_characteristics endh (found @ [(u, pr, h, vh)]) =
     (if found = [] then [] else
        butlast (new_characteristics endh found) @ [(last (new_characteristics endh found))\<lparr>gc_EndHandle := h - 1\<rparr>])
     @ new_characteristics endh [(u, pr, h, vh)]"
  by (induction endh found rule: new_characteristics.induct) (auto split: list.splits prod.splits)

lemma new_characteristics_Nil_iff [simp]: "new_characteristics endh found = [] \<longleftrightarrow> found = []"
  by (cases found) auto

lemma last_new_characteristics [simp]:
  "found \<noteq> [] \<Longrightarrow> gc_UUID (last (new_characteristics endh found)) = fst (last found)"
  by (induction endh found rule: new_characteristics.induct) auto

lemma filter_snoc_last:
  "xs \<noteq> [] \<Longrightarrow> P (last xs) \<Longrightarrow> filter P xs = filter P (butlast xs) @ [last xs]"
  "xs \<noteq> [] \<Longrightarrow> \<not> P (last xs) \<Longrightarrow> filter P xs = filter P (butlast xs)"
  by (induction xs rule: rev_induct) auto

text \<open>One more characteristic, through the pointer.\<close>

lemma listed_chars_snoc:
  fixes u :: uuid and pr :: nat and h vh endh :: u16 and f acc found
  defines "c \<equiv> \<lparr>gc_UUID = u, gc_Property = pr, gc_Descriptors = [], gc_CCCD = None, gc_Data = None,
                gc_Handle = h, gc_ValueHandle = vh, gc_EndHandle = endh\<rparr>"
    and "cs \<equiv> listed_chars f acc endh found"
  defines "cs1 \<equiv> if in_filter f u then cs @ [c] else cs"
  shows "(case last_char f acc endh found of None \<Rightarrow> cs1 | Some i \<Rightarrow> cs1[i := (cs1 ! i)\<lparr>gc_EndHandle := h - 1\<rparr>])
      = listed_chars f acc endh (found @ [(u, pr, h, vh)])" (is ?list)
    and "(if in_filter f u then Some (length cs) else None) = last_char f acc endh (found @ [(u, pr, h, vh)])" (is ?last)
proof -
  let ?P = "\<lambda>c. in_filter f (gc_UUID c)" and ?n = "new_characteristics endh found"
  consider "found = []" | "found \<noteq> []" "in_filter f (fst (last found))" | "found \<noteq> []" "\<not> in_filter f (fst (last found))"
    by blast
  then have "?list \<and> ?last"
  proof cases
    case 1
    then show ?thesis by (simp add: last_char_def listed_chars_def cs1_def cs_def c_def)
  next
    case 2
    then have cs: "cs = acc @ filter ?P (butlast ?n) @ [last ?n]"
      by (simp add: cs_def listed_chars_def filter_snoc_last)
    from 2 cs show ?thesis
      by (simp add: last_char_def flip: cs_def)
        (simp add: listed_chars_def new_characteristics_snoc cs1_def c_def nth_append list_update_append)
  next
    case 3
    then have cs: "cs = acc @ filter ?P (butlast ?n)"
      by (simp add: cs_def listed_chars_def filter_snoc_last)
    from 3 cs show ?thesis
      by (simp add: last_char_def flip: cs_def) (simp add: listed_chars_def new_characteristics_snoc cs1_def c_def)
  qed
  then show ?list ?last by simp_all
qed

lemma add_chars_items:
  "add_chars len f endh b (listed_chars f acc endh found) (last_char f acc endh found) start =
     go_map (\<lambda>its. (listed_chars f acc endh (found @ its), last_char f acc endh (found @ its), next_char start its))
       (char_items len b)"
proof (induction len b arbitrary: found start rule: char_items.induct)
  case (1 len b)
  show ?case
  proof (cases "b = [] \<or> \<not> part_ok 5 len b")
    case True
    then show ?thesis
      by (subst add_chars.simps, subst char_items.simps) (auto simp: next_char_def)
  next
    case False
    let ?i = "(take (len - 5) (drop 5 b), of_char (b ! 2) :: nat, get16 0 b, get16 3 b)"
    from False have "add_chars len f endh b (listed_chars f acc endh found) (last_char f acc endh found) start =
        add_chars len f endh (drop len b) (listed_chars f acc endh (found @ [?i])) (last_char f acc endh (found @ [?i]))
          (get16 3 b + 1)"
      by (subst add_chars.simps)
        (simp only: Let_def listed_chars_snoc(1) listed_chars_snoc(2) [of f _ acc endh found "of_char (b ! 2)" "get16 0 b" "get16 3 b"]
          if_False de_Morgan_disj not_not not_True_eq_False simp_thms)
    also have "\<dots> = go_map (\<lambda>its. (listed_chars f acc endh (found @ ?i # its), last_char f acc endh (found @ ?i # its),
          next_char (get16 3 b + 1) its)) (char_items len (drop len b))"
      using 1 [of "found @ [?i]"] False by simp
    moreover have "next_char (get16 3 b + 1) its = next_char start (?i # its)" for its
      by (simp add: next_char_def)
    ultimately show ?thesis
      using False by (subst char_items.simps) (cases "char_items len (drop len b)", simp_all)
  qed
qed

definition loop_chars ::
  "uuid list option \<Rightarrow> gcharacteristic list \<Rightarrow> u16 \<Rightarrow> 'r \<times> (uuid \<times> nat \<times> u16 \<times> u16) list \<times> 's \<Rightarrow> 'r \<times> gcharacteristic list \<times> 's" where
  "loop_chars f acc endh = (\<lambda>(r, its, s). (r, listed_chars f acc endh its, s))"

lemma chars_loop_if_sweep:
  assumes "chars_sweep L endh start found s = Some x"
  shows "chars_loop L f endh start (listed_chars f acc endh found) (last_char f acc endh found) s = Some (loop_chars f acc endh x)"
  by (rule chars_sweep.raw_induct [OF _ assms, where P = "\<lambda>L endh start found s x.
        chars_loop L f endh start (listed_chars f acc endh found) (last_char f acc endh found) s = Some (loop_chars f acc endh x)"],
      subst chars_loop.simps)
    (auto simp: loop_chars_def add_chars_items split: option.splits go.splits prod.splits if_splits)

lemma sweep_if_chars_loop:
  assumes "chars_loop L f endh start (listed_chars f acc endh found) (last_char f acc endh found) s = Some y"
  shows "\<exists>x. chars_sweep L endh start found s = Some x"
proof -
  have "f' = f \<longrightarrow> (\<forall>found. cs = listed_chars f acc endh found \<longrightarrow> prev = last_char f acc endh found \<longrightarrow>
      chars_sweep L endh start found s \<noteq> None)"
    if "chars_loop L f' endh start cs prev s = Some y" for f' cs prev
    by (rule chars_loop.raw_induct [OF _ that, where P = "\<lambda>L f' endh start cs prev s y. f' = f \<longrightarrow>
          (\<forall>found. cs = listed_chars f acc endh found \<longrightarrow> prev = last_char f acc endh found \<longrightarrow>
            chars_sweep L endh start found s \<noteq> None)"])
      (subst chars_sweep.simps, auto simp: add_chars_items split: option.splits go.splits prod.splits if_splits)
  from this [OF assms] show ?thesis by blast
qed

function desc_items :: "nat \<Rightarrow> string \<Rightarrow> ((u16 \<times> uuid) list, att_error) go" where
  "desc_items len b =
     (if b = [] then Ok []
      else if \<not> part_ok 2 len b then Panic ''slice bounds out of range''
      else go_map (\<lambda>its. (get16 0 b, take (len - 2) (drop 2 b)) # its) (desc_items len (drop len b)))"
  by pat_completeness auto
termination by (relation "measure (\<lambda>(_, b). length b)") (auto simp: part_ok_def)

declare desc_items.simps [simp del]

definition next_desc :: "u16 \<Rightarrow> (u16 \<times> uuid) list \<Rightarrow> u16" where
  "next_desc start its = (if its = [] then start else fst (last its) + 1)"

partial_function (option) descs_sweep ::
  "'d l2cap \<Rightarrow> u16 \<Rightarrow> u16 \<Rightarrow> (u16 \<times> uuid) list \<Rightarrow> 'd att \<Rightarrow> ((unit, att_error) go \<times> (u16 \<times> uuid) list \<times> 'd att) option" where
  "descs_sweep L endh start found s =
     (if endh < start then Some (Ok (), found, s)
      else
        (case att_FindInformation L start endh s of
           None \<Rightarrow> None
         | Some (Err e, s') \<Rightarrow> Some (if e = ErrAttrNotFound then Ok () else Err e, found, s')
         | Some (Panic m, s') \<Rightarrow> Some (Panic m, found, s')
         | Some (Ok (fmt, b), s') \<Rightarrow>
             (case desc_items (if fmt = 2 then 18 else 4) b of
                Ok its \<Rightarrow> descs_sweep L endh (next_desc start its) (found @ its) s'
              | Err e \<Rightarrow> Some (Err e, found, s')
              | Panic m \<Rightarrow> Some (Panic m, found, s'))))"

definition listed_descs :: "uuid list option \<Rightarrow> gdescriptor list \<Rightarrow> (u16 \<times> uuid) list \<Rightarrow> gdescriptor list" where
  "listed_descs f acc found =
     acc @ filter (\<lambda>d. in_filter f (gd_UUID d)) (map (\<lambda>(h, u). \<lparr>gd_UUID = u, gd_Handle = h\<rparr>) found)"

definition last_cccd :: "gdescriptor option \<Rightarrow> (u16 \<times> uuid) list \<Rightarrow> gdescriptor option" where
  "last_cccd c found =
     (case rev (filter (\<lambda>d. gd_UUID d = ClientCharacteristicConfigUUID)
                  (map (\<lambda>(h, u). \<lparr>gd_UUID = u, gd_Handle = h\<rparr>) found)) of
        [] \<Rightarrow> c | d # _ \<Rightarrow> Some d)"

lemma listed_descs_snoc:
  "(if in_filter f u then listed_descs f acc found @ [\<lparr>gd_UUID = u, gd_Handle = h\<rparr>] else listed_descs f acc found)
     = listed_descs f acc (found @ [(h, u)])"
  "(if u = ClientCharacteristicConfigUUID then Some \<lparr>gd_UUID = u, gd_Handle = h\<rparr> else last_cccd c found)
     = last_cccd c (found @ [(h, u)])"
  by (simp_all add: listed_descs_def last_cccd_def)

lemma add_descs_items:
  "add_descs len f b (listed_descs f acc found) (last_cccd c found) start =
     go_map (\<lambda>its. (listed_descs f acc (found @ its), last_cccd c (found @ its), next_desc start its)) (desc_items len b)"
proof (induction len b arbitrary: found start rule: desc_items.induct)
  case (1 len b)
  show ?case
  proof (cases "b = [] \<or> \<not> part_ok 2 len b")
    case True
    then show ?thesis by (subst add_descs.simps, subst desc_items.simps) (auto simp: next_desc_def)
  next
    case False
    let ?i = "(get16 0 b, take (len - 2) (drop 2 b))"
    from False have "add_descs len f b (listed_descs f acc found) (last_cccd c found) start =
        add_descs len f (drop len b) (listed_descs f acc (found @ [?i])) (last_cccd c (found @ [?i])) (get16 0 b + 1)"
      by (subst add_descs.simps)
        (simp only: Let_def listed_descs_snoc if_False de_Morgan_disj not_not not_True_eq_False simp_thms)
    also have "\<dots> = go_map (\<lambda>its. (listed_descs f acc (found @ ?i # its), last_cccd c (found @ ?i # its),
          next_desc (get16 0 b + 1) its)) (desc_items len (drop len b))"
      using 1 [of "found @ [?i]"] False by simp
    moreover have "next_desc (get16 0 b + 1) its = next_desc start (?i # its)" for its
      by (simp add: next_desc_def)
    ultimately show ?thesis
      using False by (subst desc_items.simps) (cases "desc_items len (drop len b)", simp_all)
  qed
qed

definition loop_descs ::
  "uuid list option \<Rightarrow> gdescriptor list \<Rightarrow> gdescriptor option \<Rightarrow> 'r \<times> (u16 \<times> uuid) list \<times> 's
   \<Rightarrow> 'r \<times> (gdescriptor list \<times> gdescriptor option) \<times> 's" where
  "loop_descs f acc c = (\<lambda>(r, its, s). (r, (listed_descs f acc its, last_cccd c its), s))"

lemma descs_loop_if_sweep:
  assumes "descs_sweep L endh start found s = Some x"
  shows "descs_loop L f endh start (listed_descs f acc found) (last_cccd c found) s = Some (loop_descs f acc c x)"
  by (rule descs_sweep.raw_induct [OF _ assms, where P = "\<lambda>L endh start found s x.
        descs_loop L f endh start (listed_descs f acc found) (last_cccd c found) s = Some (loop_descs f acc c x)"],
      subst descs_loop.simps)
    (auto simp: loop_descs_def add_descs_items split: option.splits go.splits prod.splits if_splits)

lemma sweep_if_descs_loop:
  assumes "descs_loop L f endh start (listed_descs f acc found) (last_cccd c found) s = Some y"
  shows "\<exists>x. descs_sweep L endh start found s = Some x"
proof -
  have "f' = f \<longrightarrow> (\<forall>found. ds = listed_descs f acc found \<longrightarrow> cccd = last_cccd c found \<longrightarrow>
      descs_sweep L endh start found s \<noteq> None)"
    if "descs_loop L f' endh start ds cccd s = Some y" for f' ds cccd
    by (rule descs_loop.raw_induct [OF _ that, where P = "\<lambda>L f' endh start ds cccd s y. f' = f \<longrightarrow>
          (\<forall>found. ds = listed_descs f acc found \<longrightarrow> cccd = last_cccd c found \<longrightarrow>
            descs_sweep L endh start found s \<noteq> None)"])
      (subst descs_sweep.simps, auto simp: add_descs_items split: option.splits go.splits prod.splits if_splits)
  from this [OF assms] show ?thesis by blast
qed

section \<open>The exchanges of the GATT client\<close>

text \<open>The record the GATT client of \<open>Ble_Gatt\<close> works over, made of these requests. Where a request does not
  end or panics the record says nothing of use.\<close>

definition swept :: "((unit, att_error) go \<times> 'x list \<times> 'd att) option \<Rightarrow> 'd att \<Rightarrow> ('x list \<times> string option) \<times> 'd att" where
  "swept x s =
     (case x of
        Some (Ok _, its, s') \<Rightarrow> ((its, None), s')
      | Some (Err e, its, s') \<Rightarrow> ((its, Some (att_Error e)), s')
      | Some (Panic m, its, s') \<Rightarrow> ((its, Some m), s')
      | None \<Rightarrow> (([], None), s))"

definition att_radio :: "'d l2cap \<Rightarrow> 'd att radio" where
  "att_radio L =
     \<lparr>att_services = \<lambda>s. swept (services_sweep L 1 [] s) s,
      att_characteristics = \<lambda>h z s. swept (chars_sweep L z h [] s) s,
      att_information = \<lambda>h z s. swept (descs_sweep L z h [] s) s,
      att_read = \<lambda>h s. (case att_Read L h s of Some (r, s') \<Rightarrow> (map_err att_Error r, s') | None \<Rightarrow> (Ok [], s)),
      att_write = \<lambda>h v s. (case att_Write L h v s of
                             Some (Ok _, s') \<Rightarrow> (None, s')
                           | Some (Err e, s') \<Rightarrow> (Some (att_Error e), s')
                           | Some (Panic m, s') \<Rightarrow> (Some m, s')
                           | None \<Rightarrow> (None, s))\<rparr>"

text \<open>The discoveries, where they end without a panic.\<close>

lemma DiscoverServices_refines:
  assumes "DiscoverServices_att L f (p, s) = Some x" and "\<not> is_panic (fst x)"
  shows "x = DiscoverServices (att_radio L) f (p, s)"
proof -
  obtain y where y: "services_loop L f 1 (profile p @ found_services f []) s = Some y"
    using assms(1) by (auto simp: DiscoverServices_att_def)
  from sweep_if_services_loop [OF this] obtain r its s' where "services_sweep L 1 [] s = Some (r, its, s')"
    by (metis prod_cases3)
  with services_loop_if_sweep [OF this, of f "profile p"] assms show ?thesis
    by (auto simp: DiscoverServices_att_def DiscoverServices_def att_radio_def swept_def loop_services_def
        gatt_ends_def gatt_result_def found_services_def Let_def split: go.splits)
qed

lemma DiscoverCharacteristics_refines:
  assumes "DiscoverCharacteristics_att L f (sv, s) = Some x" and "\<not> is_panic (fst x)"
  shows "x = DiscoverCharacteristics (att_radio L) f (sv, s)"
proof -
  have i: "gs_Characteristics sv = listed_chars f (gs_Characteristics sv) (gs_EndHandle sv) []"
    "None = last_char f (gs_Characteristics sv) (gs_EndHandle sv) []"
    by (simp_all add: listed_chars_def last_char_def)
  obtain y where y: "chars_loop L f (gs_EndHandle sv) (gs_Handle sv)
      (listed_chars f (gs_Characteristics sv) (gs_EndHandle sv) [])
      (last_char f (gs_Characteristics sv) (gs_EndHandle sv) []) s = Some y"
    using assms(1) by (auto simp: DiscoverCharacteristics_att_def simp flip: i)
  from sweep_if_chars_loop [OF this] obtain r its s' where "chars_sweep L (gs_EndHandle sv) (gs_Handle sv) [] s = Some (r, its, s')"
    by (metis prod_cases3)
  with chars_loop_if_sweep [OF this, of f "gs_Characteristics sv", folded i] assms show ?thesis
    by (auto simp: DiscoverCharacteristics_att_def DiscoverCharacteristics_def att_radio_def swept_def loop_chars_def
        gatt_ends_def gatt_result_def listed_chars_def Let_def split: go.splits)
qed

lemma DiscoverDescriptors_refines:
  assumes "DiscoverDescriptors_att L f (c, s) = Some x" and "\<not> is_panic (fst x)"
  shows "x = DiscoverDescriptors (att_radio L) f (c, s)"
proof -
  have i: "gc_Descriptors c = listed_descs f (gc_Descriptors c) []" "gc_CCCD c = last_cccd (gc_CCCD c) []"
    by (simp_all add: listed_descs_def last_cccd_def)
  obtain y where y: "descs_loop L f (gc_EndHandle c) (gc_ValueHandle c + 1)
      (listed_descs f (gc_Descriptors c) []) (last_cccd (gc_CCCD c) []) s = Some y"
    using assms(1) by (auto simp: DiscoverDescriptors_att_def simp flip: i)
  from sweep_if_descs_loop [OF this] obtain r its s' where "descs_sweep L (gc_EndHandle c) (gc_ValueHandle c + 1) [] s = Some (r, its, s')"
    by (metis prod_cases3)
  with descs_loop_if_sweep [OF this, of f "gc_Descriptors c" "gc_CCCD c", folded i] assms show ?thesis
    by (auto simp: DiscoverDescriptors_att_def DiscoverDescriptors_def att_radio_def swept_def loop_descs_def
        gatt_ends_def gatt_result_def listed_descs_def last_cccd_def Let_def split: go.splits)
qed

section \<open>A device that follows the protocol\<close>

text \<open>The services of a device by their identifier, first and last handle, in ascending ranges that do not
  overlap; nothing comes after the last handle there is.\<close>

type_synonym service_db = "(uuid \<times> u16 \<times> u16) list"

fun service_db_ok :: "u16 \<Rightarrow> service_db \<Rightarrow> bool" where
  "service_db_ok lo [] = True"
| "service_db_ok lo ((u, h, z) # db) =
     (lo \<le> h \<and> h \<le> z \<and> (length u = 2 \<or> length u = 16) \<and> (if z = 0xFFFF then db = [] else service_db_ok (z + 1) db))"

text \<open>Its answer to a request for services from a handle on: the first of them, and at most \<open>k\<close> more whose
  identifiers have the same length; or the error that there is none.\<close>

definition group_packet :: "service_db \<Rightarrow> string" where
  "group_packet its =
     CHR 0x11 # char_of (4 + length (fst (hd its))) # concat (map (\<lambda>(u, h, z). le16 h @ le16 z @ u) its)"

definition batch :: "nat \<Rightarrow> service_db \<Rightarrow> service_db" where
  "batch k db = (case db of [] \<Rightarrow> [] | it # r \<Rightarrow> it # takeWhile (\<lambda>x. length (fst x) = length (fst it)) (take k r))"

definition group_reply :: "service_db \<Rightarrow> nat \<Rightarrow> u16 \<Rightarrow> string" where
  "group_reply db k start =
     (let suf = filter (\<lambda>(u, h, z). start \<le> h) db in
      if suf = [] then newErrorResponse (CHR 0x10) start 0x0A else group_packet (batch k suf))"

definition serves_groups :: "'d l2cap \<Rightarrow> service_db \<Rightarrow> bool" where
  "serves_groups L db \<longleftrightarrow> (\<forall>start d. \<exists>k d'.
     l2_write L (CHR 0x10 # le16 start @ le16 0xFFFF @ PrimaryServiceUUID) d = (Inr [Rsp (group_reply db k start)], d'))"

lemma word_max [simp]: "\<not> 0xFFFF < (w :: u16)"
  using unsigned_less [of w, where ?'a = nat] by (simp add: word_less_nat_alt)

lemma word_less_succ: "(z :: u16) \<noteq> 0xFFFF \<Longrightarrow> z < z + 1"
  using unsigned_less [of z, where ?'a = nat] by (simp add: word_less_nat_alt unat_word_ariths word_unat_eq_iff)

lemma service_db_ok_above: "service_db_ok lo db \<Longrightarrow> x \<in> set db \<Longrightarrow> lo \<le> fst (snd x)"
proof (induction lo db rule: service_db_ok.induct)
  case (2 lo u h z db)
  then show ?case
    by (auto split: if_splits dest: word_less_succ)
qed simp

lemma service_db_ok_split:
  assumes "service_db_ok lo (xs @ ys)" and "xs \<noteq> []"
  shows "(if snd (snd (last xs)) = 0xFFFF then ys = []
          else filter (\<lambda>(u, h, z). snd (snd (last xs)) + 1 \<le> h) (xs @ ys) = ys)
       \<and> (\<forall>x \<in> set xs. fst (snd x) \<le> snd (snd (last xs))) \<and> (\<forall>x \<in> set (butlast xs). snd (snd x) \<noteq> 0xFFFF)"
  using assms
proof (induction xs arbitrary: lo)
  case (Cons x xs)
  obtain u h z where x: "x = (u, h, z)" by (cases x)
  show ?case
  proof (cases "xs = []")
    case True
    have "z + 1 \<le> fst (snd y)" if "y \<in> set ys" "z \<noteq> 0xFFFF" for y
      using Cons.prems(1) that True service_db_ok_above [of "z + 1" ys y] by (simp add: x)
    moreover have "\<not> z + 1 \<le> h" if "z \<noteq> 0xFFFF"
      using Cons.prems(1) True word_less_succ [OF that] by (auto simp: x)
    ultimately show ?thesis
      using Cons.prems(1) True by (auto simp: x filter_id_conv)
  next
    case False
    with Cons.prems have z: "z \<noteq> 0xFFFF" "h \<le> z" "service_db_ok (z + 1) (xs @ ys)" by (auto simp: x split: if_splits)
    have "z + 1 \<le> fst (snd (last xs))" using service_db_ok_above [OF z(3), of "last xs"] False by simp
    moreover have "fst (snd (last xs)) \<le> snd (snd (last xs))"
      using Cons.IH [OF z(3) False] False by simp
    ultimately have "h \<le> snd (snd (last xs))" using word_less_succ [OF z(1)] z(2) by (meson le_less_trans less_imp_le less_le_trans)
    moreover have "\<not> snd (snd (last xs)) + 1 \<le> h" if "snd (snd (last xs)) \<noteq> 0xFFFF"
      using word_less_succ [OF that] calculation by auto
    ultimately show ?thesis
      using Cons.IH [OF z(3) False] False z(1) by (auto simp: x)
  qed
qed simp

text \<open>The client reads a packet of services back.\<close>

lemma service_items_packet:
  assumes "\<forall>x \<in> set its. length (fst x) = n" and "\<forall>x \<in> set (butlast its). snd (snd x) \<noteq> 0xFFFF"
  shows "service_items (4 + n) (concat (map (\<lambda>(u, h, z). le16 h @ le16 z @ u) its)) = Ok its"
  using assms
proof (induction its)
  case (Cons x its)
  obtain u h z where x: "x = (u, h, z)" "length u = n" using Cons.prems(1) by (cases x) auto
  let ?r = "concat (map (\<lambda>(u, h, z). le16 h @ le16 z @ u) its)"
  have p: "part_ok 4 (4 + n) (le16 h @ le16 z @ u @ ?r)" by (simp add: part_ok_def x)
  have g: "get16 2 (le16 h @ le16 z @ u @ ?r) = z"
    using get16_le16(2) [of h z "u @ ?r"] by (simp add: numeral_2_eq_2)
  have t: "take n (drop 4 (le16 h @ le16 z @ u @ ?r)) = u" "drop (4 + n) (le16 h @ le16 z @ u @ ?r) = ?r"
    by (simp_all add: x)
  show ?case
  proof (cases "its = []")
    case True
    have "service_items (4 + n) [] = Ok []" by (simp add: service_items.simps)
    then show ?thesis using p g t True by (subst service_items.simps) (auto simp: x)
  next
    case False
    with Cons have "service_items (4 + n) ?r = Ok its" "z \<noteq> 0xFFFF" by (simp_all add: x)
    then show ?thesis using p g t by (subst service_items.simps) (simp add: x)
  qed
qed (simp add: service_items.simps)

lemma service_db_ok_lengths: "service_db_ok lo db \<Longrightarrow> x \<in> set db \<Longrightarrow> length (fst x) = 2 \<or> length (fst x) = 16"
  by (induction lo db rule: service_db_ok.induct) (auto split: if_splits)

lemma batch_prefix:
  assumes "suf \<noteq> []"
  obtains its rest where "batch k suf = its" "suf = its @ rest" "its \<noteq> []" "\<forall>x \<in> set its. length (fst x) = length (fst (hd its))"
proof -
  obtain it r where suf: "suf = it # r" using assms by (cases suf) auto
  have "suf = batch k suf @ (dropWhile (\<lambda>x. length (fst x) = length (fst it)) (take k r) @ drop k r)"
    by (simp add: batch_def suf flip: append_assoc)
  moreover have "\<forall>x \<in> set (batch k suf). length (fst x) = length (fst (hd (batch k suf)))"
    by (auto simp: batch_def suf dest: set_takeWhileD)
  moreover have "batch k suf \<noteq> []" by (simp add: batch_def suf)
  ultimately show ?thesis using that by blast
qed

lemma length_parts:
  "\<forall>x \<in> set its. length (fst x) = n \<Longrightarrow>
   length (concat (map (\<lambda>(u, h, z). le16 h @ le16 z @ u) its)) = length its * (4 + n)"
  by (induction its) auto

text \<open>An exchange that finds nothing waiting is over with its answer.\<close>

lemma answered_at_once:
  assumes "l2_write L b (at_dev s) = (Inr [Rsp r], d)" and "at_queue s = []" and "length b \<le> length (at_txBuf s)"
    and "r \<noteq> []" and "att_code r = 0x01 \<or> att_code r = rspOfReq (att_code b)"
  shows "att_request L b s = Some (Ok r, s\<lparr>at_dev := d, at_txBuf := b @ drop (length b) (at_txBuf s)\<rparr>)"
  using assms by (subst att_request_def) (auto simp: sendReq_def wait_rsp.simps)

lemma group_request_answered:
  assumes "serves_groups L db" and "at_queue s = []" and "7 \<le> length (at_txBuf s)" and "service_db_ok lo db"
    and "filter (\<lambda>(u, h, z). start \<le> h) db = suf" and "db = pre @ suf"
  obtains (none) s' where "suf = []" "at_queue s' = []" "length (at_txBuf s') = length (at_txBuf s)"
      "att_ReadByGroupType L start 0xFFFF PrimaryServiceUUID s = Some (Err ErrAttrNotFound, s')"
    | (some) its rest n s' where "suf = its @ rest" "its \<noteq> []" "\<forall>x \<in> set its. length (fst x) = n"
      "at_queue s' = []" "length (at_txBuf s') = length (at_txBuf s)"
      "att_ReadByGroupType L start 0xFFFF PrimaryServiceUUID s =
        Some (Ok (4 + n, concat (map (\<lambda>(u, h, z). le16 h @ le16 z @ u) its)), s')"
proof -
  let ?b = "CHR 0x10 # le16 start @ le16 0xFFFF @ PrimaryServiceUUID"
  obtain k d' where w: "l2_write L ?b (at_dev s) = (Inr [Rsp (group_reply db k start)], d')"
    using assms(1) unfolding serves_groups_def by blast
  have b: "length ?b \<le> length (at_txBuf s)" "att_code ?b = 0x10" "rspOfReq 0x10 = 0x11"
    using assms(3) by (simp_all add: PrimaryServiceUUID_def att_code_def rspOfReq_def)
  let ?s = "s\<lparr>at_dev := d', at_txBuf := ?b @ drop (length ?b) (at_txBuf s)\<rparr>"
  have s: "at_queue ?s = []" "length (at_txBuf ?s) = length (at_txBuf s)" using assms(2) b(1) by simp_all
  show ?thesis
  proof (cases "suf = []")
    case True
    then have "group_reply db k start = newErrorResponse (CHR 0x10) start 0x0A" by (simp add: group_reply_def assms(5))
    with answered_at_once [OF w assms(2) b(1)] True s none [of ?s] show ?thesis
      by (simp add: att_ReadByGroupType_def answered_def newErrorResponse_def att_code_def att_answer_def le16_def
          ErrAttrNotFound_def PrimaryServiceUUID_def)
  next
    case False
    from batch_prefix [OF this, of k] obtain its rest where i: "batch k suf = its" "suf = its @ rest" "its \<noteq> []"
      "\<forall>x \<in> set its. length (fst x) = length (fst (hd its))" .
    let ?n = "length (fst (hd its))" and ?d = "concat (map (\<lambda>(u, h, z). le16 h @ le16 z @ u) its)"
    have r: "group_reply db k start = CHR 0x11 # char_of (4 + ?n) # ?d"
      using False i(1) by (simp add: group_reply_def assms(5) group_packet_def)
    have n: "?n = 2 \<or> ?n = 16"
      using service_db_ok_lengths [OF assms(4), of "hd its"] i(2,3) assms(6) by simp
    have l: "length ?d = length its * (4 + ?n)" by (rule length_parts [OF i(4)])
    have "length its \<noteq> 0" using i(3) by simp
    then have "2 \<le> length ?d" by (cases its) (use l in auto)
    moreover have "(of_char (char_of (4 + ?n) :: char) :: nat) = 4 + ?n" using n by auto
    ultimately have "data_list (CHR 0x11 # char_of (4 + ?n) # ?d) = Ok (4 + ?n, ?d)"
      using l by (simp add: data_list_def del: of_char_of)
    moreover have "att_request L ?b s = Some (Ok (CHR 0x11 # char_of (4 + ?n) # ?d), ?s)"
      by (rule answered_at_once [OF w [unfolded r] assms(2) b(1)]) (simp_all add: b att_code_def)
    ultimately have "att_ReadByGroupType L start 0xFFFF PrimaryServiceUUID s = Some (Ok (4 + ?n, ?d), ?s)"
      by (simp add: att_ReadByGroupType_def answered_def att_answer_def att_code_def PrimaryServiceUUID_def)
    then show ?thesis using some [OF i(2,3,4) s] by blast
  qed
qed

lemma sweep_finds_services:
  assumes "serves_groups L db" and "service_db_ok lo db"
    and "at_queue s = []" and "7 \<le> length (at_txBuf s)"
    and "filter (\<lambda>(u, h, z). start \<le> h) db = suf" and "db = pre @ suf"
  shows "\<exists>s'. services_sweep L start found s = Some (Ok (), found @ suf, s') \<and> at_queue s' = []
      \<and> length (at_txBuf s') = length (at_txBuf s)"
  using assms(3-)
proof (induction suf arbitrary: start found s pre rule: length_induct)
  case (1 suf)
  show ?case
  proof (cases rule: group_request_answered [OF assms(1) 1(2,3) assms(2) 1(4,5), case_names none some])
    case (none s')
    then show ?thesis by (subst services_sweep.simps) simp
  next
    case (some its rest n s')
    have sp: "service_db_ok lo ((pre @ its) @ rest)" using assms(2) 1(5) some(1) by simp
    have ne: "pre @ its \<noteq> []" and la: "last (pre @ its) = last its" using some(2) by simp_all
    note split = service_db_ok_split [OF sp ne, unfolded la]
    have "\<forall>x \<in> set (butlast its). snd (snd x) \<noteq> 0xFFFF"
      using split some(2) by (simp add: butlast_append)
    then have it: "service_items (4 + n) (concat (map (\<lambda>(u, h, z). le16 h @ le16 z @ u) its)) = Ok its"
      by (rule service_items_packet [OF some(3)])
    show ?thesis
    proof (cases "snd (snd (last its)) = 0xFFFF")
      case True
      with split have "rest = []" by simp
      then show ?thesis
        using some(1,2,4,5,6) it True by (subst services_sweep.simps) (simp add: next_service_def)
    next
      case False
      then have f: "filter (\<lambda>(u, h, z). snd (snd (last its)) + 1 \<le> h) db = rest"
        using split 1(5) some(1) by simp
      have "length rest < length suf" using some(1,2) by simp
      with 1(1) some(4,5) 1(3,5) f some(1) obtain s'' where
        "services_sweep L (snd (snd (last its)) + 1) (found @ its) s' = Some (Ok (), (found @ its) @ rest, s'')"
        "at_queue s'' = []" "length (at_txBuf s'') = length (at_txBuf s')"
        by (metis append.assoc)
      then show ?thesis
        using some(1,2,5,6) it False by (subst services_sweep.simps) (simp add: next_service_def)
    qed
  qed
qed

text \<open>C26: the services of a device that follows the protocol are found, all of them, in order and once, however
  few it puts in an answer; the search ends; the client keeps what passes the filter after what it had, and
  does what it does over the record of sweeps. Nothing is left waiting on the link.\<close>

theorem discovery_finds_services:
  assumes "serves_groups L db" and "service_db_ok 1 db"
    and "at_queue s = []" and "7 \<le> length (at_txBuf s)"
  shows "\<exists>s'. DiscoverServices_att L f (p, s)
        = Some (Ok (profile p @ found_services f db), p\<lparr>profile := profile p @ found_services f db\<rparr>, s')
      \<and> DiscoverServices (att_radio L) f (p, s)
        = (Ok (profile p @ found_services f db), p\<lparr>profile := profile p @ found_services f db\<rparr>, s')
      \<and> at_queue s' = [] \<and> length (at_txBuf s') = length (at_txBuf s)"
proof -
  have "filter (\<lambda>(u, h, z). 1 \<le> h) db = db"
    using service_db_ok_above [OF assms(2)] by (fastforce simp: filter_id_conv)
  from sweep_finds_services [OF assms this, of "[]" "[]"] obtain s' where
    s': "services_sweep L 1 [] s = Some (Ok (), db, s')" "at_queue s' = []" "length (at_txBuf s') = length (at_txBuf s)"
    by auto
  have "DiscoverServices_att L f (p, s)
      = Some (Ok (profile p @ found_services f db), p\<lparr>profile := profile p @ found_services f db\<rparr>, s')" (is "_ = Some ?x")
    using services_loop_if_sweep [OF s'(1), of f "profile p"]
    by (simp add: DiscoverServices_att_def loop_services_def gatt_ends_def)
  with DiscoverServices_refines [OF this, THEN sym] s'(2,3) show ?thesis by auto
qed

lemma get16_Cons [simp]: "get16 (Suc i) (c # b) = get16 i b"
  by (simp add: get16_def)

definition example_services :: service_db where
  "example_services = [([CHR 0x00, CHR 0x18], 1, 9), ([CHR 0x0F, CHR 0x18], 10, 0xFFFF)]"

definition example_gatt :: "unit l2cap" where
  "example_gatt =
     \<lparr>l2_write = \<lambda>b d. (Inr (if att_code b = 0x10 then [Rsp (group_reply example_services 0 (get16 1 b))] else []), d)\<rparr>"

lemma example_gatt_serves: "serves_groups example_gatt example_services"
  by (auto simp: serves_groups_def example_gatt_def att_code_def)

theorem discovery_finds_services_witness:
  "\<exists>s'. DiscoverServices_att example_gatt (Some [[CHR 0x0F, CHR 0x18]]) (NewClient, att_NewClient () 23 23)
       = Some (Ok (found_services None [([CHR 0x0F, CHR 0x18], 10, 0xFFFF)]),
               NewClient\<lparr>profile := found_services None [([CHR 0x0F, CHR 0x18], 10, 0xFFFF)]\<rparr>, s')"
proof -
  have "service_db_ok 1 example_services" by (simp add: example_services_def)
  from discovery_finds_services [OF example_gatt_serves this, of "att_NewClient () 23 23" "Some [[CHR 0x0F, CHR 0x18]]" NewClient]
  show ?thesis
    by (auto simp: att_NewClient_def NewClient_def found_services_def in_filter_def example_services_def)
qed






text \<open>An answer that comes after its request has given up waits for the next one. It is that request's answer
  when it is of the awaited kind or an error, and the real answer is left for the request after; else it is
  refused and the real answer is taken.\<close>

lemma late_answer:
  assumes "at_queue s = [Rsp r]" and "r \<noteq> []" and "length b \<le> length (at_txBuf s)"
    and "l2_write L b (at_dev s) = (Inr [Rsp a], d)" and "a \<noteq> []" and "att_code a = rspOfReq (att_code b)"
    and "l2_write L (newErrorResponse (r ! 0) 0 0x06) d = (Inr [], d')"
  shows "\<exists>s'. att_request L b s =
      Some (if att_code r = 0x01 \<or> att_code r = rspOfReq (att_code b) then (Ok r, s') else (Ok a, s'))
    \<and> at_queue s' = (if att_code r = 0x01 \<or> att_code r = rspOfReq (att_code b) then [Rsp a] else [])"
  using assms by (auto simp: att_request_def sendReq_def wait_rsp.simps)

text \<open>A request waits as long as the peer asks: the thirty seconds start again with each of its packets.\<close>

lemma waiting_never_ends:
  assumes "\<And>d. fst (l2_write L (newErrorResponse (r ! 0) 0 0x06) d) = Inr [Rsp r]"
    and "r \<noteq> []" and "att_code r \<noteq> 0x01" and "att_code r \<noteq> rspOfReq op" and "at_queue s = [Rsp r]"
  shows "wait_rsp L op s = None"
proof (rule ccontr)
  assume "wait_rsp L op s \<noteq> None"
  then obtain x where "wait_rsp L op s = Some x" by auto
  then have "(\<forall>d. fst (l2_write L (newErrorResponse (r ! 0) 0 0x06) d) = Inr [Rsp r]) \<longrightarrow>
      att_code r \<noteq> rspOfReq op \<longrightarrow> at_queue s \<noteq> [Rsp r]"
  proof (rule wait_rsp.raw_induct [where P = "\<lambda>L op s x.
          (\<forall>d. fst (l2_write L (newErrorResponse (r ! 0) 0 0x06) d) = Inr [Rsp r]) \<longrightarrow>
          att_code r \<noteq> rspOfReq op \<longrightarrow> at_queue s \<noteq> [Rsp r]", rotated], intro impI notI, goal_cases)
    case (1 wr L' op' s' y)
    obtain d where d: "l2_write L' (newErrorResponse (r ! 0) 0 0x06) (at_dev s') = (Inr [Rsp r], d)"
      using 1(4) by (metis prod.collapse)
    have "wr L' op' (s'\<lparr>at_queue := [Rsp r], at_dev := d\<rparr>) = Some y"
      using 1(2,5,6) d assms(2,3) by simp
    from 1(1) [OF this] 1(4,5) show ?case by simp
  qed
  with assms show False by blast
qed

text \<open>A peer that allows packets of two bytes makes the next request panic.\<close>

lemma small_MTU_panics:
  assumes "l2_write L (CHR 0x02 # le16 (word_of_nat n)) (at_dev s) = (Inr [Rsp (CHR 0x03 # le16 2)], d)"
    and "23 \<le> n" and "n \<le> 515" and "at_queue s = []" and "3 \<le> length (at_txBuf s)"
  shows "\<exists>s'. att_ExchangeMTU L n s = Some (Ok 2, s') \<and> length (at_txBuf s') = 2
    \<and> att_Read L h s' = Some (Panic ''slice bounds out of range'', s')"
proof -
  have "att_request L (CHR 0x02 # le16 (word_of_nat n)) (s\<lparr>at_rxMTU := n\<rparr>) =
    Some (Ok (CHR 0x03 # le16 2), s\<lparr>at_rxMTU := n, at_dev := d,
      at_txBuf := (CHR 0x02 # le16 (word_of_nat n)) @ drop 3 (at_txBuf s)\<rparr>)"
    using answered_at_once [of L "CHR 0x02 # le16 (word_of_nat n)" "s\<lparr>at_rxMTU := n\<rparr>" "CHR 0x03 # le16 2" d] assms
    by (simp add: att_code_def rspOfReq_def)
  moreover have "get16 1 (CHR 0x03 # le16 2) = 2" using get16_le16(1) [of 2 "[]"] by simp
  ultimately show ?thesis
    using assms(2,3,5) by (simp add: att_ExchangeMTU_def answered_def att_answer_def att_code_def att_Read_def att_request_def)
qed

section \<open>The rest of the client\<close>

definition WriteDescriptor_att :: "'d l2cap \<Rightarrow> gdescriptor \<Rightarrow> string \<Rightarrow> 'd att \<Rightarrow> (unit, 'd) att_result" where
  "WriteDescriptor_att L d v = att_Write L (gd_Handle d) v"

definition WriteCharacteristic_att ::
  "'d l2cap \<Rightarrow> gcharacteristic \<Rightarrow> string \<Rightarrow> bool \<Rightarrow> 'd att \<Rightarrow> (unit, 'd) att_result" where
  "WriteCharacteristic_att L c v noRsp =
     (if noRsp then att_WriteCommand L (gc_ValueHandle c) v else att_Write L (gc_ValueHandle c) v)"

definition DiscoverIncludedServices :: "uuid list \<Rightarrow> gservice \<Rightarrow> (gservice list, string) go" where
  "DiscoverIncludedServices ss s = Ok []"

definition ReadRSSI :: int where "ReadRSSI = 0"

text \<open>\<open>setHandlers\<close> without a handler: nothing happens when the bit is clear, else the handler is removed and
  the bits are written.\<close>

definition unsetHandlers :: "'a radio \<Rightarrow> u16 \<Rightarrow> u16 \<Rightarrow> u16 \<Rightarrow> gclient \<times> 'a \<Rightarrow> (unit, string) go \<times> gclient \<times> 'a" where
  "unsetHandlers R cccdh vh flag = (\<lambda>(p, a).
     (let s = (case map_of (subs p) vh of
                 Some s \<Rightarrow> s
               | None \<Rightarrow> \<lparr>sub_cccdh = cccdh, sub_ccc = 0, nHandler = None, iHandler = None\<rparr>) in
      if sub_ccc s AND flag = 0 then (Ok (), p\<lparr>subs := AList.update vh s (subs p)\<rparr>, a)
      else
        (let s1 = s\<lparr>sub_ccc := sub_ccc s AND NOT flag\<rparr>;
             s2 = (if flag = cccNotify then s1\<lparr>nHandler := None\<rparr> else s1\<lparr>iHandler := None\<rparr>)
         in case att_write R (sub_cccdh s2) (le16 (sub_ccc s2)) a of
              (e, a') \<Rightarrow> (gatt_result e (), p\<lparr>subs := AList.update vh s2 (subs p)\<rparr>, a'))))"

definition gatt_Unsubscribe ::
  "'a radio \<Rightarrow> gcharacteristic \<Rightarrow> bool \<Rightarrow> gclient \<times> 'a \<Rightarrow> (unit, string) go \<times> gclient \<times> 'a" where
  "gatt_Unsubscribe R c ind pa =
     (case gc_CCCD c of
        None \<Rightarrow> (Err ''CCCD not found'', pa)
      | Some d \<Rightarrow> unsetHandlers R (gd_Handle d) (gc_ValueHandle c) (if ind then cccIndicate else cccNotify) pa)"

text \<open>A subscription that was made is gone after it is taken back, whether or not the device took the write.\<close>

lemma unsubscribed_is_silent:
  assumes "map_of (subs p) (gc_ValueHandle c) = None" and "gc_CCCD c = Some d"
    and "gatt_Subscribe R c ind pid (p, a) = (r, p1, a1)"
    and "gatt_Unsubscribe R c ind (p1, a1) = (r2, p2, a2)"
  shows "notified p1 ind (gc_ValueHandle c) = Some pid" and "notified p2 ind (gc_ValueHandle c) = None"
  using assms
  by (auto simp: gatt_Subscribe_def gatt_Unsubscribe_def setHandlers_def unsetHandlers_def Let_def notified_def
      cccNotify_def cccIndicate_def update_conv' split: prod.splits if_splits)

end
