(* ===== verification/Connector.thy ===== *)
theory Connector
  imports Jsonrpc
begin

text \<open>
  The process of a connector: its websocket client (\<open>internal/pkg/ws/ws.go\<close>), the loop that serves
  requests and reconnects (\<open>pkg/jsonrpc/serve.go\<close> over \<open>Serve\<close>), and the start-up of the four
  connectors. The websocket library is a parameter: what a
  dial, a read and a write end with. \<open>'c\<close> is a connection.
\<close>

section \<open>The websocket client\<close>

text \<open>A refused dial has a response; its body is read, which may fail.\<close>

datatype 'c dialled = Dialled 'c | Refused string "string + string" | Unreachable string

text \<open>The address is the host and the path of the URL, whose scheme is \<open>ws\<close>.\<close>

record 'c ws_client =
  wc_host :: string
  wc_path :: string
  wc_ver :: string
  wc_done :: bool
  wc_ws :: "'c option"

definition client_Connect :: "'c dialled \<Rightarrow> 'c ws_client \<Rightarrow> string option \<times> 'c ws_client" where
  "client_Connect r s =
     (case r of
        Dialled c \<Rightarrow> (None, s\<lparr>wc_ws := Some c\<rparr>)
      | Refused e (Inl read_error) \<Rightarrow> (Some read_error, s)
      | Refused e (Inr body) \<Rightarrow> (Some e, s)
      | Unreachable e \<Rightarrow> (Some e, s))"

text \<open>\<open>dial\<close> gets host, path and the version header; the client is returned with an error as well.\<close>

definition client_New ::
  "(string \<Rightarrow> string \<Rightarrow> string \<Rightarrow> 'c dialled) \<Rightarrow> int \<Rightarrow> string \<Rightarrow> string \<Rightarrow> string option \<times> 'c ws_client option" where
  "client_New dial port version path =
     (if \<not> (1 \<le> port \<and> port \<le> 65535) then (Some ''ws.new: wrong port'', None)
      else
        (let s = \<lparr>wc_host = ''localhost:'' @ dec_of_int port, wc_path = path, wc_ver = version,
                  wc_done = False, wc_ws = None\<rparr>
         in apsnd Some (client_Connect (dial (wc_host s) path version) s)))"

text \<open>\<open>Close\<close>: what closing the connection ends with is \<open>e\<close>. Closing a closed channel panics, as does
  a client that never connected.\<close>

definition client_Close :: "string option \<Rightarrow> 'c ws_client \<Rightarrow> (unit, string) go \<times> 'c ws_client" where
  "client_Close e s =
     (if wc_done s then (Panic ''close of closed channel'', s)
      else
        (case wc_ws s of
           None \<Rightarrow> (Panic ''nil pointer dereference'', s\<lparr>wc_done := True\<rparr>)
         | Some _ \<Rightarrow> ((case e of None \<Rightarrow> Ok () | Some m \<Rightarrow> Err m), s\<lparr>wc_done := True\<rparr>)))"

text \<open>A frame, or the error of the read and whether it is the core's normal closure. The cases of an
  error differ in what is logged only.\<close>

datatype frame = Broken string bool | Frame int string

definition TextMessage :: int where "TextMessage = 1"

datatype client_log = GoingToShutdown | CoreShutdown | Disconnected string

definition client_NextReader :: "frame \<Rightarrow> 'c ws_client \<Rightarrow> (string, string) go \<times> client_log option" where
  "client_NextReader f s =
     (case f of
        Broken e normal \<Rightarrow>
          (Err e, Some (if wc_done s then GoingToShutdown else if normal then CoreShutdown else Disconnected e))
      | Frame mt r \<Rightarrow>
          if mt \<noteq> TextMessage then (Err (''unknown message type: '' @ dec_of_int mt), None)
          else (Ok r, None))"

section \<open>The process\<close>

text \<open>\<open>decode\<close> is the JSON decoder on the text of a message; \<open>None\<close> is the end of file it reports for
  an empty text. \<open>rc\<close> tells where \<open>ServeWithReconnect\<close> is; every response is listed with the connection
  it was written to.\<close>

record ('s, 'c) connector =
  cn_client :: "'c ws_client"
  cn_state :: 's
  cn_rc :: rc_state
  cn_out :: "('c \<times> response) list"
  cn_dead :: "string option"

definition to_incoming :: "(string \<Rightarrow> (string + request) option) \<Rightarrow> (string, string) go \<Rightarrow> incoming" where
  "to_incoming decode r =
     (case r of
        Ok txt \<Rightarrow> (case decode txt of None \<Rightarrow> ReadEOF | Some d \<Rightarrow> ReadMsg d)
      | Err e \<Rightarrow> ReadFail (GoErr e)
      | Panic m \<Rightarrow> ReadFail (GoErr m))"

datatype 'c cn_event =
    Cancel
  | Incoming frame "gerror option" "string option"
  | Ticked "'c dialled"

definition cn_serve ::
  "bool \<Rightarrow> string \<Rightarrow> (string \<Rightarrow> (string + request) option) \<Rightarrow> 's caller \<Rightarrow> frame \<Rightarrow> gerror option \<Rightarrow> string option
     \<Rightarrow> ('s, 'c) connector \<Rightarrow> ('s, 'c) connector" where
  "cn_serve cp stack decode call f w e cn =
     (case wc_ws (cn_client cn) of
        None \<Rightarrow> cn\<lparr>cn_dead := Some ''nil pointer dereference''\<rparr>
      | Some c \<Rightarrow>
          (case serve cp stack call (cn_state cn)
              [\<lparr>ctx_done = False, incoming = to_incoming decode (fst (client_NextReader f (cn_client cn))),
                writer_err = w, encoder_err = e\<rparr>] of
             (rs, q, s) \<Rightarrow>
               (let cn' = cn\<lparr>cn_state := s, cn_out := cn_out cn @ map (Pair c) rs\<rparr> in
                case q of
                  Blocked \<Rightarrow> cn'
                | Cancelled \<Rightarrow> cn'\<lparr>cn_rc := Stopped\<rparr>
                | Crashed m \<Rightarrow> cn'\<lparr>cn_dead := Some m\<rparr>
                | _ \<Rightarrow> cn'\<lparr>cn_rc := fst (rc_step (cn_rc cn) ServeErr)\<rparr>)))"

definition cn_step ::
  "bool \<Rightarrow> string \<Rightarrow> (string \<Rightarrow> (string + request) option) \<Rightarrow> 's caller \<Rightarrow> 'c cn_event \<Rightarrow> ('s, 'c) connector
     \<Rightarrow> ('s, 'c) connector" where
  "cn_step cp stack decode call ev cn =
     (if cn_dead cn \<noteq> None then cn
      else
        (case ev of
           Cancel \<Rightarrow> cn\<lparr>cn_rc := fst (rc_step (cn_rc cn) CtxDone)\<rparr>
         | Incoming f w e \<Rightarrow> if cn_rc cn = Serving then cn_serve cp stack decode call f w e cn else cn
         | Ticked r \<Rightarrow>
             (case cn_rc cn of
                Reconnecting n \<Rightarrow>
                  (case client_Connect r (cn_client cn) of
                     (err, cl) \<Rightarrow>
                       cn\<lparr>cn_client := cl, cn_rc := fst (rc_step (Reconnecting n) (Tick (err = None)))\<rparr>)
              | _ \<Rightarrow> cn)))"

fun cn_run ::
  "bool \<Rightarrow> string \<Rightarrow> (string \<Rightarrow> (string + request) option) \<Rightarrow> 's caller \<Rightarrow> 'c cn_event list \<Rightarrow> ('s, 'c) connector
     \<Rightarrow> ('s, 'c) connector" where
  "cn_run cp stack decode call [] cn = cn"
| "cn_run cp stack decode call (ev # evs) cn = cn_run cp stack decode call evs (cn_step cp stack decode call ev cn)"

section \<open>Start-up\<close>

text \<open>The connectors are built before the core is dialled; both must succeed once. \<open>Inr\<close> is a process
  that runs.\<close>

definition start_connector ::
  "(string \<Rightarrow> string \<Rightarrow> string \<Rightarrow> 'c dialled) \<Rightarrow> int \<Rightarrow> string \<Rightarrow> string \<Rightarrow> string + 's
     \<Rightarrow> string + ('s, 'c) connector" where
  "start_connector dial port version path hand =
     (case hand of
        Inl e \<Rightarrow> Inl e
      | Inr s \<Rightarrow>
          (case client_New dial port version path of
             (None, Some cl) \<Rightarrow>
               Inr \<lparr>cn_client = cl, cn_state = s, cn_rc = Serving, cn_out = [], cn_dead = None\<rparr>
           | (Some e, _) \<Rightarrow> Inl e
           | (None, None) \<Rightarrow> Inl ''''))"

text \<open>The Modbus connector chooses a transport and a packager by its mode.\<close>

datatype modbus_mode = ModeTCP | ModeRTU | ModeASCII

definition select_mode :: "string \<Rightarrow> string + modbus_mode" where
  "select_mode mode =
     (if mode = ''tcp'' then Inr ModeTCP
      else if mode = ''rtu'' then Inr ModeRTU
      else if mode = ''ascii'' then Inr ModeASCII
      else Inl (''modbus.mode should be tcp, rtu or ascii but '' @ mode @ '' given''))"

section \<open>Laws\<close>

text \<open>A connector that lives has a connection.\<close>

definition cn_ok :: "('s, 'c) connector \<Rightarrow> bool" where
  "cn_ok cn \<longleftrightarrow> wc_ws (cn_client cn) \<noteq> None"

lemma cn_ok_start:
  "start_connector dial port version path hand = Inr cn \<Longrightarrow> cn_ok cn \<and> cn_dead cn = None \<and> cn_rc cn = Serving"
  by (auto simp: start_connector_def client_New_def client_Connect_def cn_ok_def Let_def
      split: sum.splits if_splits dialled.splits)

lemma cn_client_serve [simp]: "cn_client (cn_serve cp stack decode call f w e cn) = cn_client cn"
  by (simp add: cn_serve_def Let_def split: option.split prod.split stop.split)

lemma cn_ok_step: "cn_ok cn \<Longrightarrow> cn_ok (cn_step cp stack decode call ev cn)"
  by (auto simp: cn_ok_def cn_step_def client_Connect_def split: cn_event.split rc_state.split dialled.split sum.split)

text \<open>A frame the loop survives: every event but a cancel, on a transport whose encoder does not fail.\<close>

definition calm :: "'c cn_event \<Rightarrow> bool" where
  "calm ev = (case ev of Cancel \<Rightarrow> False | Incoming f w e \<Rightarrow> e = None | Ticked r \<Rightarrow> True)"

context rpc_caller
begin

text \<open>One request never ends the process when panics are recovered, and a request that is read over a
  healthy transport is answered on the current connection.\<close>

lemma cn_step_survives:
  assumes "cn_ok cn" and "cn_dead cn = None" and "cn_rc cn \<noteq> Stopped" and "calm ev"
  shows "cn_dead (cn_step True stack decode call ev cn) = None
    \<and> cn_rc (cn_step True stack decode call ev cn) \<noteq> Stopped"
proof (cases ev)
  case (Incoming f w e)
  with assms(4) have e: "e = None" by (simp add: calm_def)
  from assms(1) obtain c where c: "wc_ws (cn_client cn) = Some c" by (auto simp: cn_ok_def)
  have "cn_dead (cn_serve True stack decode call f w None cn) = None
      \<and> cn_rc (cn_serve True stack decode call f w None cn) \<noteq> Stopped" if "cn_rc cn = Serving"
  proof (cases "to_incoming decode (fst (client_NextReader f (cn_client cn)))")
    case (ReadMsg d)
    obtain r s' where "handleMessage True stack call (cn_state cn) d = (Inr r, s')"
      using handleMessage_total by blast
    with ReadMsg c that assms(2) show ?thesis
      by (cases w) (auto simp: cn_serve_def)
  qed (use c that assms(2) in \<open>auto simp: cn_serve_def\<close>)
  with Incoming e assms(2,3) show ?thesis by (simp add: cn_step_def)
qed (use assms in \<open>auto simp: cn_step_def calm_def split: rc_state.split prod.split\<close>)

lemma cn_run_survives:
  assumes "cn_ok cn" and "cn_dead cn = None" and "cn_rc cn \<noteq> Stopped" and "\<forall>ev \<in> set evs. calm ev"
  shows "cn_ok (cn_run True stack decode call evs cn) \<and> cn_dead (cn_run True stack decode call evs cn) = None
    \<and> cn_rc (cn_run True stack decode call evs cn) \<noteq> Stopped"
  using assms
proof (induction evs arbitrary: cn)
  case (Cons ev evs)
  then show ?case using cn_step_survives [of cn ev stack decode] cn_ok_step [of cn True stack decode call ev] by simp
qed simp

text \<open>Whatever was received and however many dials failed, the first dial that succeeds makes the
  connector serve again, on the new connection.\<close>

lemma cn_serves_after_dial:
  assumes "start_connector dial port version path hand = Inr cn0" and "\<forall>ev \<in> set evs. calm ev"
  shows "let cn = cn_run True stack decode call evs cn0; cn' = cn_step True stack decode call (Ticked (Dialled c)) cn in
    cn_dead cn' = None \<and> cn_rc cn' = Serving
    \<and> wc_ws (cn_client cn') = (if cn_rc cn = Serving then wc_ws (cn_client cn) else Some c)"
proof -
  define cn where "cn = cn_run True stack decode call evs cn0"
  have "cn_dead cn = None" "cn_rc cn \<noteq> Stopped"
    using cn_run_survives [of cn0 evs stack decode] cn_ok_start [OF assms(1)] assms(2) by (simp_all add: cn_def)
  then have "cn_dead (cn_step True stack decode call (Ticked (Dialled c)) cn) = None
      \<and> cn_rc (cn_step True stack decode call (Ticked (Dialled c)) cn) = Serving
      \<and> wc_ws (cn_client (cn_step True stack decode call (Ticked (Dialled c)) cn))
        = (if cn_rc cn = Serving then wc_ws (cn_client cn) else Some c)"
    by (cases "cn_rc cn") (simp_all add: cn_step_def client_Connect_def)
  then show ?thesis by (simp add: cn_def [symmetric])
qed

end

end
