(* ===== verification/Ws_Server.thy ===== *)
theory Ws_Server
  imports Jsonrpc
begin

text \<open>
  The websocket server of the core (\<open>internal/pkg/core/ws\<close>): version constraint and port check,
  the HTTP front of \<open>handler\<close>, and the concurrent part (connection table, calls waiting for
  answers, listeners, shutdown) as a machine whose steps are the code between two points where
  another goroutine can run: taking a lock, network input and output.

  A \<open>conn\<close> is copied by value, but its socket, its mutexes and its request map are shared by
  all copies: the state keeps them per connection number. The library semver, the JSON lookups
  of json-iterator and the JSON emitter are parameters.
\<close>

section \<open>Construction and the HTTP front\<close>

definition versionToConstr :: "string \<Rightarrow> (string, string) go" where
  "versionToConstr v =
     (if v = [] then Panic ''index out of range''
      else
        let v = (if hd v = CHR ''v'' then tl v else v);
            tmp = split_on CHR ''.'' v
        in if length tmp < 2 then Err ''wrong version format''
           else
             let tmp = (if length tmp = 2 then tmp @ [''''] else tmp);
                 tmp = tmp[2 := ''0'']
             in Ok (''~'' @ join_with ''.'' tmp))"

text \<open>\<open>semver.NewConstraint\<close> is the parameter \<open>newConstraint\<close>.\<close>

definition ws_New ::
  "(string \<Rightarrow> string + 'c) \<Rightarrow> int \<Rightarrow> string \<Rightarrow> ('c \<times> string, string) go" where
  "ws_New newConstraint port version =
     (if \<not> (1 \<le> port \<and> port \<le> 65535) then Err ''ws.new: wrong port''
      else
        go_bind (versionToConstr version) (\<lambda>cs.
          case newConstraint cs of
            Inl e \<Rightarrow> Err e
          | Inr c \<Rightarrow> Ok (c, ''localhost:'' @ dec_of_int port)))"

text \<open>The object \<open>writeError\<close> marshals and the status it sends; the tag is made of the status text
  in lower case with underscores.\<close>

definition error_tag :: "string \<Rightarrow> string" where
  "error_tag status_text =
     ''error_'' @ map lower_char (replace_all status_text '' '' ''_'')"

definition writeError :: "string \<Rightarrow> nat \<Rightarrow> string \<Rightarrow> nat \<times> gval" where
  "writeError status_text n msg =
     (n, GMap [(''success'', GBool False), (''code'', GInt (int n)), (''message'', GStr msg),
               (''tags'', GArr [GStr (error_tag status_text)])])"

definition bad_request :: "string \<Rightarrow> nat \<times> gval" where
  "bad_request msg = writeError ''Bad Request'' 400 msg"

text \<open>\<open>checkVersion\<close>: the reply when the connector is refused.\<close>

definition checkVersion ::
  "(string \<Rightarrow> string + 'v) \<Rightarrow> ('c \<Rightarrow> 'v \<Rightarrow> bool) \<Rightarrow> 'c \<Rightarrow> string \<Rightarrow> (nat \<times> gval) option" where
  "checkVersion newVersion check verConstr header =
     (case newVersion header of
        Inl e \<Rightarrow> Some (bad_request (''broken connector version: '' @ e))
      | Inr v \<Rightarrow>
          if check verConstr v then None
          else Some (bad_request ''incompatible connector/core version''))"

text \<open>The part of \<open>handler\<close> before the upgrade, on the names in the connection table.\<close>

definition handler_front ::
  "(string \<Rightarrow> string + 'v) \<Rightarrow> ('c \<Rightarrow> 'v \<Rightarrow> bool) \<Rightarrow> 'c \<Rightarrow> (string \<Rightarrow> bool) \<Rightarrow> string \<Rightarrow> string
     \<Rightarrow> nat \<times> gval + string" where
  "handler_front newVersion check verConstr present header path =
     (case checkVersion newVersion check verConstr header of
        Some r \<Rightarrow> Inl r
      | None \<Rightarrow>
          let url = split_on CHR ''/'' path in
          if length url \<noteq> 2 then Inl (bad_request ''path should be /<connector_type>'')
          else if present (url ! 1) then Inl (bad_request ''connector already exists'')
          else Inr (url ! 1))"

section \<open>State\<close>

record sock =
  s_name :: string
  s_sid :: string
  s_open :: bool
  s_sent :: "string list"
  s_listening :: bool

text \<open>Where a \<open>Call\<close> stands: connection looked up and about to write; written and about to
  register its channel; returned.\<close>

datatype call_pc = CWrite nat | CRegister nat | CReturned

record call =
  cl_name :: string
  cl_id :: string
  cl_payload :: string
  cl_pc :: call_pc

text \<open>Channel \<open>k\<close> is the one call \<open>k\<close> returns; \<open>requests\<close> is what was sent to \<open>requestsCh\<close>.\<close>

record ws_state =
  conns :: "string \<rightharpoonup> nat"
  socks :: "sock list"
  reqs :: "nat \<Rightarrow> string \<rightharpoonup> nat"
  calls :: "call list"
  chans :: "nat \<Rightarrow> string list"
  upgrading :: "(string \<times> string) list"
  closing :: bool
  requests :: "string list"
  requests_closed :: bool
  crashed :: "string option"

definition ws_init :: ws_state where
  "ws_init = \<lparr>conns = Map.empty, socks = [], reqs = (\<lambda>_. Map.empty), calls = [],
     chans = (\<lambda>_. []), upgrading = [], closing = False, requests = [], requests_closed = False,
     crashed = None\<rparr>"

text \<open>JSON lookups on a raw message, and the emitter's parameters.\<close>

record ws_env =
  method_present :: "string \<Rightarrow> bool"
  id_text :: "string \<Rightarrow> string option"
  w_quote :: "string \<Rightarrow> string"
  w_enc :: "gval \<Rightarrow> string"

definition errNotFound :: rpc_error where
  "errNotFound = SetCode (AddData ErrServer ''msg'' (GStr ''connector not found'')) (-32000)"

definition errNotAvailable :: rpc_error where
  "errNotAvailable = SetCode (AddData ErrServer ''msg'' (GStr ''connector not available'')) (-32001)"

section \<open>Operations\<close>

text \<open>
  \<open>closeConnOnErr\<close>: \<open>conn.req = nil\<close> clears a field of the local copy only, so the shared
  request map keeps its entries; the table entry is deleted by name.
\<close>

definition closeConnOnErr :: "nat \<Rightarrow> ws_state \<Rightarrow> ws_state" where
  "closeConnOnErr c s =
     s\<lparr>socks := (socks s)[c := (socks s ! c)\<lparr>s_open := False\<rparr>],
       conns := (conns s)(s_name (socks s ! c) := None)\<rparr>"

definition send_chan :: "nat \<Rightarrow> string \<Rightarrow> ws_state \<Rightarrow> ws_state" where
  "send_chan k m s = s\<lparr>chans := (chans s)(k := chans s k @ [m])\<rparr>"

definition set_pc :: "nat \<Rightarrow> call_pc \<Rightarrow> ws_state \<Rightarrow> ws_state" where
  "set_pc k pc s = s\<lparr>calls := (calls s)[k := (calls s ! k)\<lparr>cl_pc := pc\<rparr>]\<rparr>"

definition new_call :: "string \<Rightarrow> string \<Rightarrow> string \<Rightarrow> call_pc \<Rightarrow> ws_state \<Rightarrow> ws_state" where
  "new_call name rid payload pc s =
     s\<lparr>calls := calls s @ [\<lparr>cl_name = name, cl_id = rid, cl_payload = payload, cl_pc = pc\<rparr>]\<rparr>"

definition crash :: "string \<Rightarrow> ws_state \<Rightarrow> ws_state" where
  "crash m s = s\<lparr>crashed := Some m\<rparr>"

text \<open>The handler: the test of the table, and later the entry made after the upgrade.\<close>

definition ws_connect :: "string \<Rightarrow> string \<Rightarrow> ws_state \<Rightarrow> ws_state" where
  "ws_connect name sid s =
     (if conns s name \<noteq> None then s else s\<lparr>upgrading := upgrading s @ [(name, sid)]\<rparr>)"

definition drop_nth :: "nat \<Rightarrow> 'a list \<Rightarrow> 'a list" where
  "drop_nth i xs = take i xs @ drop (Suc i) xs"

definition ws_upgraded :: "nat \<Rightarrow> bool \<Rightarrow> ws_state \<Rightarrow> ws_state" where
  "ws_upgraded i ok s =
     (let (name, sid) = upgrading s ! i; s = s\<lparr>upgrading := drop_nth i (upgrading s)\<rparr> in
      if ok then
        s\<lparr>socks := socks s @ [\<lparr>s_name = name, s_sid = sid, s_open = True, s_sent = [],
                               s_listening = True\<rparr>],
          conns := (conns s)(name \<mapsto> length (socks s))\<rparr>
      else s)"

text \<open>\<open>Service.Call\<close> up to the write, the write, and the registration after it.\<close>

definition ws_call :: "ws_env \<Rightarrow> string \<Rightarrow> string \<Rightarrow> string \<Rightarrow> ws_state \<Rightarrow> ws_state" where
  "ws_call e name rid payload s =
     (case conns s name of
        None \<Rightarrow>
          send_chan (length (calls s)) (BuildErrResp (w_quote e) (w_enc e) rid errNotFound)
            (new_call name rid payload CReturned s)
      | Some c \<Rightarrow> new_call name rid payload (CWrite c) s)"

definition ws_written :: "ws_env \<Rightarrow> nat \<Rightarrow> nat \<Rightarrow> bool \<Rightarrow> ws_state \<Rightarrow> ws_state" where
  "ws_written e k c ok s =
     (if ok then
        set_pc k (CRegister c)
          (s\<lparr>socks := (socks s)[c := (socks s ! c)
               \<lparr>s_sent := s_sent (socks s ! c) @ [cl_payload (calls s ! k)]\<rparr>]\<rparr>)
      else
        send_chan k
          (BuildErrResp (w_quote e) (w_enc e) (cl_id (calls s ! k))
             (AddData errNotAvailable ''sid'' (GStr (s_sid (socks s ! c)))))
          (set_pc k CReturned (closeConnOnErr c s)))"

definition ws_register :: "nat \<Rightarrow> nat \<Rightarrow> ws_state \<Rightarrow> ws_state" where
  "ws_register k c s =
     set_pc k CReturned (s\<lparr>reqs := (reqs s)(c := (reqs s c)(cl_id (calls s ! k) \<mapsto> k))\<rparr>)"

text \<open>One message or read error of \<open>listen\<close>.\<close>

definition ws_read :: "ws_env \<Rightarrow> nat \<Rightarrow> bool \<Rightarrow> string \<Rightarrow> ws_state \<Rightarrow> ws_state" where
  "ws_read e c is_text msg s =
     (if \<not> is_text then s
      else if method_present e msg then
        (if requests_closed s then crash ''send on closed channel'' s
         else s\<lparr>requests := requests s @ [msg]\<rparr>)
      else
        (case id_text e msg of
           None \<Rightarrow> s
         | Some rid \<Rightarrow>
             (case reqs s c rid of
                None \<Rightarrow> crash ''resp chan not found'' s
              | Some k \<Rightarrow>
                  send_chan k msg (s\<lparr>reqs := (reqs s)(c := (reqs s c)(rid := None))\<rparr>))))"

definition ws_read_error :: "nat \<Rightarrow> ws_state \<Rightarrow> ws_state" where
  "ws_read_error c s =
     (let s' = s\<lparr>socks := (socks s)[c := (socks s ! c)\<lparr>s_listening := False\<rparr>]\<rparr> in
      if closing s then
        (if requests_closed s then crash ''close of closed channel'' s'
         else s'\<lparr>requests_closed := True\<rparr>)
      else closeConnOnErr c s')"

definition close_socks :: "nat set \<Rightarrow> sock list \<Rightarrow> sock list" where
  "close_socks cs ss = map (\<lambda>(i, k). if i \<in> cs then k\<lparr>s_open := False\<rparr> else k) (enumerate 0 ss)"

definition ws_close :: "ws_state \<Rightarrow> ws_state" where
  "ws_close s = s\<lparr>closing := True, socks := close_socks (ran (conns s)) (socks s)\<rparr>"

section \<open>Steps\<close>

datatype ws_event =
    Connect string string
  | Upgraded nat bool
  | Calling string string string
  | Written nat bool
  | Register nat
  | Read nat bool string
  | ReadError nat
  | Closing

text \<open>An event that cannot happen in a state gives \<open>None\<close>: a write succeeds only on an open
  socket, a listener reads only while its socket is open, and nothing follows a crash.\<close>

fun ws_step :: "ws_env \<Rightarrow> ws_event \<Rightarrow> ws_state \<Rightarrow> ws_state option" where
  "ws_step e (Connect name sid) s =
     (if crashed s = None \<and> \<not> closing s then Some (ws_connect name sid s) else None)"
| "ws_step e (Upgraded i ok) s =
     (if crashed s = None \<and> i < length (upgrading s) then Some (ws_upgraded i ok s) else None)"
| "ws_step e (Calling name rid payload) s =
     (if crashed s = None then Some (ws_call e name rid payload s) else None)"
| "ws_step e (Written k ok) s =
     (if crashed s = None \<and> k < length (calls s) then
        (case cl_pc (calls s ! k) of
           CWrite c \<Rightarrow>
             if ok \<longrightarrow> s_open (socks s ! c) then Some (ws_written e k c ok s) else None
         | _ \<Rightarrow> None)
      else None)"
| "ws_step e (Register k) s =
     (if crashed s = None \<and> k < length (calls s) then
        (case cl_pc (calls s ! k) of CRegister c \<Rightarrow> Some (ws_register k c s) | _ \<Rightarrow> None)
      else None)"
| "ws_step e (Read c is_text msg) s =
     (if crashed s = None \<and> c < length (socks s) \<and> s_listening (socks s ! c)
         \<and> s_open (socks s ! c)
      then Some (ws_read e c is_text msg s) else None)"
| "ws_step e (ReadError c) s =
     (if crashed s = None \<and> c < length (socks s) \<and> s_listening (socks s ! c)
      then Some (ws_read_error c s) else None)"
| "ws_step e Closing s =
     (if crashed s = None \<and> \<not> closing s then Some (ws_close s) else None)"

fun ws_run :: "ws_env \<Rightarrow> ws_event list \<Rightarrow> ws_state \<Rightarrow> ws_state option" where
  "ws_run e [] s = Some s"
| "ws_run e (x # xs) s = (case ws_step e x s of None \<Rightarrow> None | Some s' \<Rightarrow> ws_run e xs s')"

inductive ws_reach :: "ws_env \<Rightarrow> ws_state \<Rightarrow> bool" for e where
  reach_init: "ws_reach e ws_init"
| reach_step: "ws_reach e s \<Longrightarrow> ws_step e x s = Some s' \<Longrightarrow> ws_reach e s'"

section \<open>Invariant\<close>

definition own :: "ws_state \<Rightarrow> nat \<Rightarrow> nat \<Rightarrow> bool" where
  "own s k c \<longleftrightarrow> c < length (socks s) \<and> s_name (socks s ! c) = cl_name (calls s ! k)"

text \<open>What may arrive on the channel of call \<open>k\<close>: a message with its id, or an error built for it.\<close>

definition answer_for :: "ws_env \<Rightarrow> ws_state \<Rightarrow> nat \<Rightarrow> string \<Rightarrow> bool" where
  "answer_for e s k m \<longleftrightarrow> id_text e m = Some (cl_id (calls s ! k))
     \<or> (\<exists>err. m = BuildErrResp (w_quote e) (w_enc e) (cl_id (calls s ! k)) err)"

definition call_ok :: "ws_env \<Rightarrow> ws_state \<Rightarrow> nat \<Rightarrow> bool" where
  "call_ok e s k \<longleftrightarrow>
     (case cl_pc (calls s ! k) of
        CWrite c \<Rightarrow> own s k c \<and> chans s k = []
      | CRegister c \<Rightarrow> own s k c \<and> chans s k = []
      | CReturned \<Rightarrow> chans s k = [] \<or> (\<exists>m. chans s k = [m] \<and> answer_for e s k m))"

definition req_ok :: "ws_state \<Rightarrow> nat \<Rightarrow> string \<Rightarrow> nat \<Rightarrow> bool" where
  "req_ok s c i k \<longleftrightarrow> k < length (calls s) \<and> cl_pc (calls s ! k) = CReturned \<and> chans s k = []
     \<and> cl_id (calls s ! k) = i \<and> own s k c"

definition ws_inv :: "ws_env \<Rightarrow> ws_state \<Rightarrow> bool" where
  "ws_inv e s \<longleftrightarrow>
     (\<forall>n c. conns s n = Some c \<longrightarrow> c < length (socks s) \<and> s_name (socks s ! c) = n) \<and>
     (\<forall>k < length (calls s). call_ok e s k) \<and>
     (\<forall>k \<ge> length (calls s). chans s k = []) \<and>
     (\<forall>c i k. reqs s c i = Some k \<longrightarrow> req_ok s c i k) \<and>
     (\<forall>c i c' i' k. reqs s c i = Some k \<longrightarrow> reqs s c' i' = Some k \<longrightarrow> c = c' \<and> i = i')"

lemmas ws_inv_defs = ws_inv_def call_ok_def req_ok_def own_def answer_for_def

lemma ws_invI:
  assumes "\<And>n c. conns s n = Some c \<Longrightarrow> c < length (socks s) \<and> s_name (socks s ! c) = n"
    and "\<And>k. k < length (calls s) \<Longrightarrow> call_ok e s k"
    and "\<And>k. length (calls s) \<le> k \<Longrightarrow> chans s k = []"
    and "\<And>c i k. reqs s c i = Some k \<Longrightarrow> req_ok s c i k"
    and "\<And>c i c' i' k. reqs s c i = Some k \<Longrightarrow> reqs s c' i' = Some k \<Longrightarrow> c = c' \<and> i = i'"
  shows "ws_inv e s"
  using assms unfolding ws_inv_def by blast

lemma ws_inv_call: "ws_inv e s \<Longrightarrow> k < length (calls s) \<Longrightarrow> call_ok e s k"
  by (simp add: ws_inv_def)

lemma ws_inv_req: "ws_inv e s \<Longrightarrow> reqs s c i = Some k \<Longrightarrow> req_ok s c i k"
  by (simp add: ws_inv_def)

lemma ws_inv_uniq:
  "ws_inv e s \<Longrightarrow> reqs s c i = Some k \<Longrightarrow> reqs s c' i' = Some k \<Longrightarrow> c = c' \<and> i = i'"
  unfolding ws_inv_def by blast

text \<open>Steps that touch neither calls, channels nor registrations only need the sockets to keep
  their names.\<close>

lemma ws_inv_same:
  assumes "ws_inv e s"
    and "calls s' = calls s" "chans s' = chans s" "reqs s' = reqs s"
    and "length (socks s) \<le> length (socks s')"
    and "\<And>c. c < length (socks s) \<Longrightarrow> s_name (socks s' ! c) = s_name (socks s ! c)"
    and "\<And>n c. conns s' n = Some c \<Longrightarrow> c < length (socks s') \<and> s_name (socks s' ! c) = n"
  shows "ws_inv e s'"
proof (rule ws_invI)
  have o: "own s k c \<Longrightarrow> own s' k c" for k c using assms by (auto simp: own_def)
  have a: "answer_for e s' k m = answer_for e s k m" for k m
    using assms(2) by (simp add: answer_for_def)
  show "\<And>n c. conns s' n = Some c \<Longrightarrow> c < length (socks s') \<and> s_name (socks s' ! c) = n"
    by (rule assms(7))
  show "call_ok e s' k" if "k < length (calls s')" for k
  proof -
    from that assms(1,2) have "call_ok e s k" by (simp add: ws_inv_def)
    then show ?thesis using o a assms(2,3) by (auto simp: call_ok_def split: call_pc.splits)
  qed
  show "\<And>k. length (calls s') \<le> k \<Longrightarrow> chans s' k = []"
    using assms(1-3) by (simp add: ws_inv_def)
  show "\<And>c i k. reqs s' c i = Some k \<Longrightarrow> req_ok s' c i k"
    using assms(1-4) o by (auto simp: ws_inv_def req_ok_def)
  show "\<And>c i c' i' k. reqs s' c i = Some k \<Longrightarrow> reqs s' c' i' = Some k \<Longrightarrow> c = c' \<and> i = i'"
    using ws_inv_uniq [OF assms(1)] by (simp add: assms(4))
qed

lemma call_ok_cong:
  assumes "calls s' = calls s" "chans s' = chans s" "socks s' = socks s"
  shows "call_ok e s' k = call_ok e s k"
  using assms by (auto simp: call_ok_def own_def answer_for_def split: call_pc.splits)

lemma ws_inv_conns: "ws_inv e s \<Longrightarrow> conns s n = Some c \<Longrightarrow> c < length (socks s) \<and> s_name (socks s ! c) = n"
  by (simp add: ws_inv_def)

lemma inv_init: "ws_inv e ws_init"
  by (rule ws_invI) (simp_all add: ws_init_def)

lemma inv_connect: "ws_inv e s \<Longrightarrow> ws_inv e (ws_connect name sid s)"
  by (rule ws_inv_same [of e s]) (auto simp: ws_connect_def dest: ws_inv_conns)

lemma inv_upgraded:
  assumes "ws_inv e s" shows "ws_inv e (ws_upgraded i ok s)"
  by (rule ws_inv_same [OF assms])
    (auto simp: ws_upgraded_def Let_def nth_append split: prod.splits if_splits
      dest: ws_inv_conns [OF assms])

lemma name_upd [simp]:
  "s_name x = s_name (ss ! c) \<Longrightarrow> s_name (ss[c := x] ! d) = s_name (ss ! d)"
  by (cases "c = d"; cases "c < length ss") (auto simp: list_update_beyond)

lemma inv_closeConnOnErr:
  assumes "ws_inv e s" shows "ws_inv e (closeConnOnErr c s)"
  by (rule ws_inv_same [OF assms])
    (auto simp: closeConnOnErr_def split: if_splits dest: ws_inv_conns [OF assms])

lemma inv_close:
  assumes "ws_inv e s" shows "ws_inv e (ws_close s)"
  by (rule ws_inv_same [OF assms])
    (auto simp: ws_close_def close_socks_def nth_enumerate_eq dest: ws_inv_conns [OF assms])

lemma inv_read_error:
  assumes "ws_inv e s" shows "ws_inv e (ws_read_error c s)"
proof -
  have i: "ws_inv e (s\<lparr>socks := (socks s)[c := (socks s ! c)\<lparr>s_listening := False\<rparr>]\<rparr>)"
    by (rule ws_inv_same [OF assms]) (auto dest: ws_inv_conns [OF assms])
  have "ws_inv e (t\<lparr>requests_closed := b\<rparr>)" "ws_inv e (crash m t)" if "ws_inv e t" for t b m
    by (rule ws_inv_same [OF that]; use that in \<open>auto simp: crash_def dest: ws_inv_conns\<close>)+
  with i show ?thesis by (simp add: ws_read_error_def Let_def inv_closeConnOnErr)
qed

lemma new_call_reqs: "reqs (new_call name rid payload pc s) = reqs s"
  by (simp add: new_call_def)

lemma inv_new_call:
  assumes "ws_inv e s" and "\<And>c. pc = CRegister c \<Longrightarrow> False"
    and "\<And>c. pc = CWrite c \<Longrightarrow> conns s name = Some c"
  shows "ws_inv e (new_call name rid payload pc s)"
proof (rule ws_invI)
  let ?s = "new_call name rid payload pc s"
  have old: "calls ?s ! k = calls s ! k" if "k < length (calls s)" for k
    using that by (simp add: new_call_def nth_append)
  show "\<And>n c. conns ?s n = Some c \<Longrightarrow> c < length (socks ?s) \<and> s_name (socks ?s ! c) = n"
    using assms(1) by (simp add: new_call_def ws_inv_def)
  show "call_ok e ?s k" if "k < length (calls ?s)" for k
  proof (cases "k < length (calls s)")
    case True
    then have "call_ok e s k" using assms(1) by (simp add: ws_inv_def)
    then show ?thesis using old [OF True]
      by (auto simp: call_ok_def own_def answer_for_def new_call_def split: call_pc.splits)
  next
    case False
    then have k: "k = length (calls s)" using that by (simp add: new_call_def)
    then have "chans s k = []" using assms(1) by (simp add: ws_inv_def)
    then show ?thesis using k assms(2,3) ws_inv_conns [OF assms(1)]
      by (auto simp: call_ok_def own_def new_call_def split: call_pc.splits)
  qed
  show "\<And>k. length (calls ?s) \<le> k \<Longrightarrow> chans ?s k = []"
    using assms(1) by (simp add: new_call_def ws_inv_def)
  show "req_ok ?s c i k" if "reqs ?s c i = Some k" for c i k
  proof -
    from that have "req_ok s c i k" using assms(1) by (simp add: new_call_def ws_inv_def)
    then show ?thesis using old [of k]
      by (auto simp: req_ok_def own_def new_call_def)
  qed
  show "\<And>c i c' i' k. reqs ?s c i = Some k \<Longrightarrow> reqs ?s c' i' = Some k \<Longrightarrow> c = c' \<and> i = i'"
    using ws_inv_uniq [OF assms(1)] by (simp add: new_call_reqs)
qed

lemma inv_set_pc:
  assumes "ws_inv e s" and "k < length (calls s)"
    and "chans s k = []" and "\<And>c. pc = CWrite c \<or> pc = CRegister c \<Longrightarrow> own s k c"
    and "\<And>c i. reqs s c i \<noteq> Some k"
  shows "ws_inv e (set_pc k pc s)"
proof (rule ws_invI)
  let ?s = "set_pc k pc s"
  have f: "cl_name (calls ?s ! j) = cl_name (calls s ! j)" "cl_id (calls ?s ! j) = cl_id (calls s ! j)"
    "j \<noteq> k \<Longrightarrow> cl_pc (calls ?s ! j) = cl_pc (calls s ! j)" "cl_pc (calls ?s ! k) = pc" for j
    using assms(2) by (auto simp: set_pc_def nth_list_update)
  have g: "conns ?s = conns s" "socks ?s = socks s" "length (calls ?s) = length (calls s)"
    "chans ?s = chans s" "reqs ?s = reqs s"
    by (simp_all add: set_pc_def)
  show "\<And>n c. conns ?s n = Some c \<Longrightarrow> c < length (socks ?s) \<and> s_name (socks ?s ! c) = n"
    using ws_inv_conns [OF assms(1)] by (simp add: g)
  show "call_ok e ?s j" if "j < length (calls ?s)" for j
  proof (cases "j = k")
    case True
    then show ?thesis using assms(2-4)
      by (auto simp: call_ok_def own_def set_pc_def split: call_pc.splits)
  next
    case False
    from that assms(1) have "call_ok e s j" by (simp add: g ws_inv_def)
    with False show ?thesis by (auto simp: call_ok_def own_def answer_for_def f g split: call_pc.splits)
  qed
  show "\<And>k. length (calls ?s) \<le> k \<Longrightarrow> chans ?s k = []"
    using assms(1) by (simp add: g ws_inv_def)
  show "req_ok ?s c i j" if "reqs ?s c i = Some j" for c i j
  proof -
    from that have r: "reqs s c i = Some j" by (simp add: g)
    with assms(5) have "j \<noteq> k" by auto
    with ws_inv_req [OF assms(1) r] show ?thesis by (simp add: req_ok_def own_def f g)
  qed
  show "\<And>c i c' i' k. reqs ?s c i = Some k \<Longrightarrow> reqs ?s c' i' = Some k \<Longrightarrow> c = c' \<and> i = i'"
    using ws_inv_uniq [OF assms(1)] by (simp add: g)
qed

lemma inv_send_chan:
  assumes "ws_inv e s" and "k < length (calls s)" and "cl_pc (calls s ! k) = CReturned"
    and "chans s k = []" and "answer_for e s k m" and "\<And>c i. reqs s c i \<noteq> Some k"
  shows "ws_inv e (send_chan k m s)"
proof (rule ws_invI)
  let ?s = "send_chan k m s"
  have g: "conns ?s = conns s" "socks ?s = socks s" "calls ?s = calls s" "reqs ?s = reqs s"
    "j \<noteq> k \<Longrightarrow> chans ?s j = chans s j" "chans ?s k = [m]" for j
    using assms(4) by (simp_all add: send_chan_def)
  show "\<And>n c. conns ?s n = Some c \<Longrightarrow> c < length (socks ?s) \<and> s_name (socks ?s ! c) = n"
    using ws_inv_conns [OF assms(1)] by (simp add: g)
  show "call_ok e ?s j" if "j < length (calls ?s)" for j
  proof (cases "j = k")
    case True
    then show ?thesis using assms(3,5) by (simp add: call_ok_def answer_for_def g)
  next
    case False
    from that assms(1) have "call_ok e s j" by (simp add: g ws_inv_def)
    with False show ?thesis by (auto simp: call_ok_def own_def answer_for_def g split: call_pc.splits)
  qed
  show "\<And>j. length (calls ?s) \<le> j \<Longrightarrow> chans ?s j = []"
    using assms(1,2) by (simp add: send_chan_def ws_inv_def)
  show "req_ok ?s c i j" if "reqs ?s c i = Some j" for c i j
  proof -
    from that have r: "reqs s c i = Some j" by (simp add: g)
    with assms(6) have "j \<noteq> k" by auto
    with ws_inv_req [OF assms(1) r] show ?thesis by (simp add: req_ok_def own_def g)
  qed
  show "\<And>c i c' i' k. reqs ?s c i = Some k \<Longrightarrow> reqs ?s c' i' = Some k \<Longrightarrow> c = c' \<and> i = i'"
    using ws_inv_uniq [OF assms(1)] by (simp add: g)
qed

lemma not_registered:
  assumes "ws_inv e s" and "k < length (calls s) \<Longrightarrow> cl_pc (calls s ! k) \<noteq> CReturned"
  shows "reqs s c i \<noteq> Some k"
  using ws_inv_req [OF assms(1)] assms(2) by (fastforce simp: req_ok_def)

lemma inv_call:
  assumes "ws_inv e s" shows "ws_inv e (ws_call e name rid payload s)"
proof (cases "conns s name")
  case None
  let ?t = "new_call name rid payload CReturned s"
  have t: "ws_inv e ?t" by (rule inv_new_call [OF assms]) simp_all
  have k: "length (calls s) < length (calls ?t)" "calls ?t ! length (calls s)
      = \<lparr>cl_name = name, cl_id = rid, cl_payload = payload, cl_pc = CReturned\<rparr>"
    "chans ?t (length (calls s)) = []" "reqs ?t = reqs s"
    using assms by (simp_all add: new_call_def ws_inv_def)
  have "reqs ?t c i \<noteq> Some (length (calls s))" for c i
    using not_registered [OF assms, of "length (calls s)"] by (simp add: k)
  then have "ws_inv e (send_chan (length (calls s))
      (BuildErrResp (w_quote e) (w_enc e) rid errNotFound) ?t)"
    using t k by (intro inv_send_chan) (auto simp: answer_for_def)
  then show ?thesis by (simp add: ws_call_def None)
next
  case (Some c)
  then show ?thesis using assms by (auto simp: ws_call_def intro: inv_new_call)
qed

lemma inv_written:
  assumes "ws_inv e s" and "k < length (calls s)" and "cl_pc (calls s ! k) = CWrite c"
  shows "ws_inv e (ws_written e k c ok s)"
proof (cases ok)
  case True
  let ?t = "s\<lparr>socks := (socks s)[c := (socks s ! c)
      \<lparr>s_sent := s_sent (socks s ! c) @ [cl_payload (calls s ! k)]\<rparr>]\<rparr>"
  have "ws_inv e ?t"
    by (rule ws_inv_same [OF assms(1)]) (auto dest: ws_inv_conns [OF assms(1)])
  moreover have "own s k c" "chans s k = []"
    using ws_inv_call [OF assms(1,2)] assms(3) by (simp_all add: call_ok_def)
  ultimately have "ws_inv e (set_pc k (CRegister c) ?t)"
    using assms not_registered [OF assms(1), of k]
    by (intro inv_set_pc) (auto simp: own_def)
  then show ?thesis using True by (simp add: ws_written_def)
next
  case False
  let ?t = "set_pc k CReturned (closeConnOnErr c s)"
  have ch: "chans s k = []" "\<And>c i. reqs s c i \<noteq> Some k"
    using ws_inv_call [OF assms(1,2)] assms(3) not_registered [OF assms(1), of k]
    by (simp_all add: call_ok_def)
  have "ws_inv e ?t"
    using inv_closeConnOnErr [OF assms(1)] assms ch
    by (intro inv_set_pc) (simp_all add: closeConnOnErr_def)
  then have "ws_inv e (send_chan k (BuildErrResp (w_quote e) (w_enc e) (cl_id (calls s ! k))
             (AddData errNotAvailable ''sid'' (GStr (s_sid (socks s ! c))))) ?t)"
    using assms(2,3) ch
    by (intro inv_send_chan) (auto simp: answer_for_def set_pc_def closeConnOnErr_def)
  then show ?thesis using False by (simp add: ws_written_def)
qed

lemma inv_register:
  assumes "ws_inv e s" and "k < length (calls s)" and "cl_pc (calls s ! k) = CRegister c"
  shows "ws_inv e (ws_register k c s)"
proof -
  have ch: "own s k c" "chans s k = []" "\<And>c i. reqs s c i \<noteq> Some k"
    using ws_inv_call [OF assms(1,2)] assms(3) not_registered [OF assms(1), of k]
    by (simp_all add: call_ok_def)
  have t: "ws_inv e (set_pc k CReturned s)"
    using assms ch by (intro inv_set_pc) simp_all
  let ?t = "set_pc k CReturned s"
  let ?i = "cl_id (calls s ! k)"
  have eq: "ws_register k c s = ?t\<lparr>reqs := (reqs s)(c := (reqs s c)(?i \<mapsto> k))\<rparr>"
    by (simp add: ws_register_def set_pc_def)
  have new: "req_ok ?t c ?i k"
    using ch assms(2) by (simp add: req_ok_def own_def set_pc_def)
  have r: "reqs (ws_register k c s) d i = Some j \<Longrightarrow> (d = c \<and> i = ?i \<and> j = k) \<or> reqs ?t d i = Some j"
    for d i j
    by (auto simp: eq set_pc_def split: if_splits)
  have sm: "conns (ws_register k c s) = conns ?t" "socks (ws_register k c s) = socks ?t"
    "calls (ws_register k c s) = calls ?t" "chans (ws_register k c s) = chans ?t"
    by (simp_all add: eq)
  have tk: "reqs ?t d i \<noteq> Some k" for d i using ch(3) by (simp add: set_pc_def)
  show ?thesis
  proof (rule ws_invI)
    show "\<And>n d. conns (ws_register k c s) n = Some d \<Longrightarrow>
        d < length (socks (ws_register k c s)) \<and> s_name (socks (ws_register k c s) ! d) = n"
      using ws_inv_conns [OF t] by (simp add: sm)
    show "\<And>j. j < length (calls (ws_register k c s)) \<Longrightarrow> call_ok e (ws_register k c s) j"
      using ws_inv_call [OF t] call_ok_cong [OF sm(3,4,2)] by (simp add: sm(3))
    show "\<And>j. length (calls (ws_register k c s)) \<le> j \<Longrightarrow> chans (ws_register k c s) j = []"
      using t by (simp add: sm ws_inv_def)
    show "\<And>d i j. reqs (ws_register k c s) d i = Some j \<Longrightarrow> req_ok (ws_register k c s) d i j"
      using r new ws_inv_req [OF t] by (fastforce simp: req_ok_def own_def sm)
    show "\<And>d i d' i' j. reqs (ws_register k c s) d i = Some j \<Longrightarrow>
        reqs (ws_register k c s) d' i' = Some j \<Longrightarrow> d = d' \<and> i = i'"
      using r tk ws_inv_uniq [OF t] by metis
  qed
qed

lemma inv_read:
  assumes "ws_inv e s" shows "ws_inv e (ws_read e c is_text msg s)"
proof -
  have r: "ws_inv e (s\<lparr>requests := requests s @ [msg]\<rparr>)" "ws_inv e (crash m s)" for m
    by (rule ws_inv_same [OF assms]; auto simp: crash_def dest: ws_inv_conns [OF assms])+
  have d: "ws_inv e (send_chan k msg (s\<lparr>reqs := (reqs s)(c := (reqs s c)(rid := None))\<rparr>))"
    if "reqs s c rid = Some k" "id_text e msg = Some rid" for k rid
  proof (rule inv_send_chan)
    let ?t = "s\<lparr>reqs := (reqs s)(c := (reqs s c)(rid := None))\<rparr>"
    note k = ws_inv_req [OF assms that(1), unfolded req_ok_def]
    have sub: "reqs ?t d i = Some j \<Longrightarrow> reqs s d i = Some j" for d i j
      by (auto split: if_splits)
    show "reqs ?t d i \<noteq> Some k" for d i
      using ws_inv_uniq [OF assms that(1), of d i] by (auto split: if_splits)
    show "ws_inv e ?t"
    proof (rule ws_invI)
      show "\<And>n d. conns ?t n = Some d \<Longrightarrow> d < length (socks ?t) \<and> s_name (socks ?t ! d) = n"
        using ws_inv_conns [OF assms] by simp
      show "\<And>j. j < length (calls ?t) \<Longrightarrow> call_ok e ?t j"
        using ws_inv_call [OF assms] call_ok_cong [of ?t s] by simp
      show "\<And>j. length (calls ?t) \<le> j \<Longrightarrow> chans ?t j = []"
        using assms by (simp add: ws_inv_def)
      show "\<And>d i j. reqs ?t d i = Some j \<Longrightarrow> req_ok ?t d i j"
        using ws_inv_req [OF assms sub] by (simp add: req_ok_def own_def)
      show "\<And>d i d' i' j. reqs ?t d i = Some j \<Longrightarrow> reqs ?t d' i' = Some j \<Longrightarrow> d = d' \<and> i = i'"
        by (rule ws_inv_uniq [OF assms sub sub])
    qed
    show "answer_for e ?t k msg" using k that(2) by (simp add: answer_for_def)
  qed (use ws_inv_req [OF assms that(1)] in \<open>simp_all add: req_ok_def\<close>)
  show ?thesis using assms r d by (auto simp: ws_read_def split: option.split)
qed

lemma inv_step:
  assumes "ws_inv e s" and "ws_step e x s = Some s'"
  shows "ws_inv e s'"
  using assms
  by (cases x)
    (auto simp: inv_connect inv_upgraded inv_call inv_written inv_register inv_read inv_read_error
      inv_close split: if_splits call_pc.splits)

lemma inv_reach: "ws_reach e s \<Longrightarrow> ws_inv e s"
  by (induction rule: ws_reach.induct) (auto intro: inv_init inv_step)

lemma run_reach: "ws_reach e s \<Longrightarrow> ws_run e xs s = Some s' \<Longrightarrow> ws_reach e s'"
  by (induction xs arbitrary: s) (auto intro: reach_step split: option.splits)

lemma ws_run_append:
  "ws_run e (xs @ ys) s = (case ws_run e xs s of None \<Rightarrow> None | Some t \<Rightarrow> ws_run e ys t)"
  by (induction xs arbitrary: s) (auto split: option.split)

lemmas ws_ops_defs =
  ws_connect_def ws_upgraded_def ws_call_def ws_written_def ws_register_def ws_read_def
  ws_read_error_def ws_close_def closeConnOnErr_def send_chan_def set_pc_def new_call_def crash_def
  drop_nth_def close_socks_def

section \<open>Calls lost on a disconnect\<close>

text \<open>Nobody is left to answer call \<open>k\<close>: where it is registered, the listener has ended.\<close>

definition stopped :: "ws_state \<Rightarrow> nat \<Rightarrow> bool" where
  "stopped s c \<longleftrightarrow> c < length (socks s) \<and> \<not> s_listening (socks s ! c)"

definition lost :: "ws_state \<Rightarrow> nat \<Rightarrow> bool" where
  "lost s k \<longleftrightarrow> k < length (calls s) \<and> cl_pc (calls s ! k) = CReturned \<and> chans s k = [] \<and>
     (\<forall>c i. reqs s c i = Some k \<longrightarrow> stopped s c)"

lemma lost_transfer:
  assumes "lost s k" and "k < length (calls s) \<Longrightarrow> cl_pc (calls s ! k) = CReturned \<Longrightarrow>
      k < length (calls s') \<and> cl_pc (calls s' ! k) = CReturned"
    and "k < length (calls s) \<Longrightarrow> cl_pc (calls s ! k) = CReturned \<Longrightarrow> chans s k = [] \<Longrightarrow> chans s' k = []"
    and "\<And>c. stopped s c \<Longrightarrow> stopped s' c"
    and "\<And>c i. reqs s' c i = Some k \<Longrightarrow> cl_pc (calls s ! k) = CReturned \<Longrightarrow> reqs s c i = Some k"
  shows "lost s' k"
  using assms unfolding lost_def by blast

lemma listening_upd [simp]:
  "s_listening x = s_listening (ss ! c) \<Longrightarrow> s_listening (ss[c := x] ! d) = s_listening (ss ! d)"
  by (cases "c = d"; cases "c < length ss") (auto simp: list_update_beyond)

lemma stopped_upd [simp]:
  "\<not> s_listening x \<Longrightarrow> \<not> s_listening (ss ! d) \<Longrightarrow> \<not> s_listening (ss[c := x] ! d)"
  by (cases "c = d"; cases "c < length ss") (auto simp: list_update_beyond)

lemma lost_step:
  assumes "lost s k" and "ws_step e x s = Some s'"
  shows "lost s' k"
proof (cases x)
  case (Read c t m)
  with assms(2) have l: "\<not> stopped s c" and s': "s' = ws_read e c t m s"
    by (auto simp: stopped_def split: if_splits)
  then have "reqs s c i \<noteq> Some k" for i using assms(1) by (auto simp: lost_def)
  then show ?thesis
    unfolding s' by (intro lost_transfer [OF assms(1)])
      (auto simp: ws_read_def crash_def send_chan_def stopped_def split: option.splits if_splits)
qed (use assms(2) in \<open>intro lost_transfer [OF assms(1)];
  auto simp: ws_connect_def ws_upgraded_def ws_call_def ws_written_def ws_register_def
    ws_read_error_def ws_close_def closeConnOnErr_def send_chan_def set_pc_def new_call_def
    crash_def close_socks_def stopped_def nth_append nth_list_update nth_enumerate_eq Let_def
    split: if_splits option.splits call_pc.splits prod.splits\<close>)+

lemma lost_run:
  "lost s k \<Longrightarrow> ws_run e xs s = Some s' \<Longrightarrow> lost s' k"
  by (induction xs arbitrary: s) (auto dest: lost_step split: option.splits)

section \<open>Properties\<close>

text \<open>C8: in every reachable state the channel a \<open>Call\<close> returned has received at most one message,
  so its buffer of one never blocks a listener, and that message belongs to the call: it carries
  the call's id or is an error built for that id.\<close>

theorem call_answered_at_most_once:
  assumes "ws_reach e s" and "k < length (calls s)"
  shows "length (chans s k) \<le> 1 \<and>
    (\<forall>m \<in> set (chans s k). id_text e m = Some (cl_id (calls s ! k))
       \<or> (\<exists>err. m = BuildErrResp (w_quote e) (w_enc e) (cl_id (calls s ! k)) err))"
  using ws_inv_call [OF inv_reach [OF assms(1)] assms(2)]
  by (auto simp: call_ok_def answer_for_def split: call_pc.splits)

definition ws_example_env :: ws_env where
  "ws_example_env = \<lparr>method_present = (\<lambda>m. hd m = CHR ''q''), id_text = (\<lambda>m. Some (tl m)),
     w_quote = (\<lambda>m. m), w_enc = (\<lambda>_. '''')\<rparr>"

definition ws_example_call :: "ws_event list" where
  "ws_example_call = [Connect ''snmp'' ''s1'', Upgraded 0 True, Calling ''snmp'' ''7'' ''get'',
     Written 0 True]"

lemma ws_example_run:
  "ws_run ws_example_env ws_example_call ws_init
   = Some \<lparr>conns = Map.empty(''snmp'' \<mapsto> 0),
       socks = [\<lparr>s_name = ''snmp'', s_sid = ''s1'', s_open = True, s_sent = [''get''], s_listening = True\<rparr>],
       reqs = (\<lambda>_. Map.empty),
       calls = [\<lparr>cl_name = ''snmp'', cl_id = ''7'', cl_payload = ''get'', cl_pc = CRegister 0\<rparr>],
       chans = (\<lambda>_. []), upgrading = [], closing = False, requests = [], requests_closed = False,
       crashed = None\<rparr>"
  by (simp add: ws_example_call_def ws_ops_defs ws_init_def)

lemma call_answered_at_most_once_witness:
  "\<exists>s. ws_run ws_example_env (ws_example_call @ [Register 0, Read 0 True ''r7'']) ws_init = Some s
     \<and> chans s 0 = [''r7''] \<and> length (chans s 0) \<le> 1"
proof -
  obtain s where s: "ws_run ws_example_env (ws_example_call @ [Register 0, Read 0 True ''r7'']) ws_init
      = Some s" and c: "chans s 0 = [''r7'']" "0 < length (calls s)"
    by (simp add: ws_example_call_def ws_ops_defs ws_init_def ws_example_env_def)
  from call_answered_at_most_once [OF run_reach [OF reach_init s] c(2)] s c(1) show ?thesis by blast
qed

lemma answer_delivered:
  assumes "ws_reach e s" and "crashed s = None" and "reqs s c i = Some k"
    and "s_open (socks s ! c)" and "s_listening (socks s ! c)"
    and "\<not> method_present e m" and "id_text e m = Some i"
  shows "\<exists>s'. ws_step e (Read c True m) s = Some s' \<and> chans s' k = [m] \<and> crashed s' = None
     \<and> reqs s' c i = None \<and> (\<forall>j. j \<noteq> k \<longrightarrow> chans s' j = chans s j)"
  using ws_inv_req [OF inv_reach [OF assms(1)] assms(3)] assms
  by (auto simp: req_ok_def own_def ws_read_def send_chan_def)

text \<open>once a call is registered, the answer of its connector is delivered on its channel and
  to no other.\<close>

theorem registered_answer_delivered:
  assumes "ws_reach e s" and "crashed s = None" and "reqs s c i = Some k"
    and "s_open (socks s ! c)" and "s_listening (socks s ! c)"
    and "\<not> method_present e m" and "id_text e m = Some i"
  shows "\<exists>s'. ws_step e (Read c True m) s = Some s' \<and> chans s' k = [m] \<and> crashed s' = None
     \<and> reqs s' c i = None \<and> (\<forall>j. j \<noteq> k \<longrightarrow> chans s' j = chans s j)"
  by (rule answer_delivered [OF assms])

lemma registered_answer_delivered_witness:
  "\<exists>s s'. ws_run ws_example_env (ws_example_call @ [Register 0]) ws_init = Some s
     \<and> ws_step ws_example_env (Read 0 True ''r7'') s = Some s' \<and> chans s' 0 = [''r7'']"
proof -
  obtain s where s: "ws_run ws_example_env (ws_example_call @ [Register 0]) ws_init = Some s"
    and c: "crashed s = None" "reqs s 0 ''7'' = Some 0" "s_open (socks s ! 0)" "s_listening (socks s ! 0)"
    by (simp add: ws_example_call_def ws_ops_defs ws_init_def)
  have "\<not> method_present ws_example_env ''r7''" "id_text ws_example_env ''r7'' = Some ''7''"
    by (simp_all add: ws_example_env_def)
  from registered_answer_delivered [OF run_reach [OF reach_init s] c this] s show ?thesis by blast
qed

text \<open>a call registers its channel only after writing the request, so a connector that answers
  at once makes the listener panic: the process ends with \<open>resp chan not found\<close>.\<close>

theorem early_answer_crashes:
  assumes "\<not> method_present e m" and "id_text e m = Some i"
  shows "\<exists>s. ws_run e [Connect n sid, Upgraded 0 True, Calling n i p, Written 0 True, Read 0 True m]
     ws_init = Some s \<and> crashed s = Some ''resp chan not found'' \<and> s_sent (socks s ! 0) = [p]"
  using assms by (simp add: ws_ops_defs ws_init_def)

lemma early_answer_crashes_witness:
  "\<exists>s. ws_run ws_example_env [Connect ''snmp'' ''s'', Upgraded 0 True, Calling ''snmp'' ''7'' ''get'',
      Written 0 True, Read 0 True ''r7''] ws_init = Some s
    \<and> crashed s = Some ''resp chan not found'' \<and> s_sent (socks s ! 0) = [''get'']"
  by (rule early_answer_crashes) (simp_all add: ws_example_env_def)

text \<open>C39: a call whose connector disconnects before answering is never answered, whatever happens
  later: closing the connection clears only a local copy of the request map.\<close>

theorem disconnect_loses_waiting_calls:
  assumes "ws_reach e s" and "reqs s c i = Some k" and "ws_step e (ReadError c) s = Some s'"
    and "ws_run e xs s' = Some s''"
  shows "chans s'' k = []"
proof -
  have inv: "ws_inv e s" by (rule inv_reach [OF assms(1)])
  note k = ws_inv_req [OF inv assms(2), unfolded req_ok_def own_def]
  have u: "reqs s d j = Some k \<Longrightarrow> d = c" for d j using ws_inv_uniq [OF inv assms(2)] by blast
  have "lost s' k"
    using k u assms(3)
    by (auto simp: lost_def stopped_def ws_read_error_def closeConnOnErr_def crash_def Let_def
        split: if_splits)
  from lost_run [OF this assms(4)] show ?thesis by (simp add: lost_def)
qed

lemma disconnect_loses_waiting_calls_witness:
  "\<exists>s. ws_run ws_example_env (ws_example_call @ [Register 0, ReadError 0]) ws_init = Some s
     \<and> chans s 0 = []"
proof -
  obtain s where s: "ws_run ws_example_env (ws_example_call @ [Register 0]) ws_init = Some s"
    and r: "reqs s 0 ''7'' = Some 0" and l: "s_listening (socks s ! 0)" "0 < length (socks s)" "crashed s = None"
    by (simp add: ws_example_call_def ws_ops_defs ws_init_def)
  then obtain s' where s': "ws_step ws_example_env (ReadError 0) s = Some s'" by simp
  have "ws_run ws_example_env [] s' = Some s'" by simp
  from disconnect_loses_waiting_calls [OF run_reach [OF reach_init s] r s' this]
  have "chans s' 0 = []" .
  moreover have "ws_run ws_example_env ((ws_example_call @ [Register 0]) @ [ReadError 0]) ws_init = Some s'"
    by (subst ws_run_append) (use s s' in simp)
  ultimately show ?thesis by (metis append_assoc append_Cons append_Nil)
qed

text \<open>shutting the server down with two connectors connected makes the second listener close
  the request channel again, a panic.\<close>

theorem shutdown_with_two_connectors_crashes:
  assumes "a \<noteq> b"
  shows "\<exists>s. ws_run e [Connect a i, Upgraded 0 True, Connect b j, Upgraded 0 True, Closing,
      ReadError 0, ReadError 1] ws_init = Some s \<and> crashed s = Some ''close of closed channel''"
  using assms by (simp add: ws_ops_defs ws_init_def enumerate_eq_zip Let_def)

lemma shutdown_with_two_connectors_crashes_witness:
  "\<exists>s. ws_run ws_example_env [Connect ''ble'' ''1'', Upgraded 0 True, Connect ''snmp'' ''2'', Upgraded 0 True,
      Closing, ReadError 0, ReadError 1] ws_init = Some s
    \<and> crashed s = Some ''close of closed channel''"
  by (rule shutdown_with_two_connectors_crashes) simp

text \<open>entries are deleted by name. After a failed write the connector may reconnect before the
  listener of the dead connection notices; the listener then deletes the entry of the new
  connection, which stays open but is not found by any call.\<close>

theorem stale_listener_unregisters_new_connection:
  "\<exists>s. ws_run e [Connect n a, Upgraded 0 True, Calling n i p, Written 0 False,
      Connect n b, Upgraded 0 True, ReadError 0] ws_init = Some s
    \<and> conns s n = None \<and> s_name (socks s ! 1) = n \<and> s_open (socks s ! 1)
    \<and> s_listening (socks s ! 1) \<and> crashed s = None"
  by (simp add: ws_ops_defs ws_init_def Let_def)

text \<open>the core accepts patch releases of its own minor version: for a version of three parts,
  with or without the leading v, the constraint is the minor version with patch 0.\<close>

theorem version_constraint:
  assumes "\<forall>w \<in> {a, b, c}. CHR ''.'' \<notin> set w" and "a \<noteq> [] \<and> hd a \<noteq> CHR ''v''"
  shows "versionToConstr (a @ ''.'' @ b @ ''.'' @ c) = Ok (''~'' @ a @ ''.'' @ b @ ''.0'')
    \<and> versionToConstr (''v'' @ a @ ''.'' @ b @ ''.'' @ c) = Ok (''~'' @ a @ ''.'' @ b @ ''.0'')
    \<and> versionToConstr (a @ ''.'' @ b) = Ok (''~'' @ a @ ''.'' @ b @ ''.0'')"
proof -
  have s3: "split_on CHR ''.'' (a @ ''.'' @ b @ ''.'' @ c) = [a, b, c]"
    using assms by (simp add: split_on_append_sep)
  have s2: "split_on CHR ''.'' (a @ ''.'' @ b) = [a, b]"
    using assms by (simp add: split_on_append_sep)
  show ?thesis using assms(2) s2 s3 by (simp add: versionToConstr_def)
qed

lemma version_constraint_witness:
  "versionToConstr (''1'' @ ''.'' @ ''4'' @ ''.'' @ ''2'') = Ok (''~'' @ ''1'' @ ''.'' @ ''4'' @ ''.0'')
    \<and> versionToConstr (''v'' @ ''1'' @ ''.'' @ ''4'' @ ''.'' @ ''2'') = Ok (''~'' @ ''1'' @ ''.'' @ ''4'' @ ''.0'')
    \<and> versionToConstr (''1'' @ ''.'' @ ''4'') = Ok (''~'' @ ''1'' @ ''.'' @ ''4'' @ ''.0'')"
  by (rule version_constraint) simp_all

end
