(* ===== verification/Kv_Store.thy ===== *)
theory Kv_Store
  imports Go_Text "HOL-Library.List_Lexorder" "HOL-Library.Char_ord"
begin

text \<open>
  The database file the core opens (bbolt): buckets of byte-string keys and values, read and
  written in transactions. A bucket is a list of entries with strictly increasing keys, the
  order in which \<open>ForEach\<close> visits them. \<open>Update\<close> commits what its function did when the
  function returns no error and the commit succeeds, and otherwise leaves the database as it
  was. The interface the stores rely on is the locale \<open>kv_bucket\<close>.
\<close>

section \<open>Buckets\<close>

type_synonym bucket = "(string \<times> string) list"

fun kv_insert :: "string \<Rightarrow> string \<Rightarrow> bucket \<Rightarrow> bucket" where
  "kv_insert k v [] = [(k, v)]"
| "kv_insert k v ((a, x) # b) =
     (if k < a then (k, v) # (a, x) # b
      else if k = a then (k, v) # b
      else (a, x) # kv_insert k v b)"

definition bk_Get :: "bucket \<Rightarrow> string \<Rightarrow> string option" where
  "bk_Get b k = map_of b k"

text \<open>\<open>Bucket.Put\<close> refuses an empty key and a key over 32768 bytes.\<close>

definition bk_Put :: "bucket \<Rightarrow> string \<Rightarrow> string \<Rightarrow> (bucket, string) go" where
  "bk_Put b k v =
     (if k = [] then Err ''key required''
      else if length k > 32768 then Err ''key too large''
      else Ok (kv_insert k v b))"

definition bk_Delete :: "bucket \<Rightarrow> string \<Rightarrow> bucket" where
  "bk_Delete b k = filter (\<lambda>e. fst e \<noteq> k) b"

definition bk_keys :: "bucket \<Rightarrow> string list" where
  "bk_keys b = map fst b"

definition bk_ok :: "bucket \<Rightarrow> bool" where
  "bk_ok b \<longleftrightarrow> sorted_wrt (<) (map fst b)"

section \<open>The interface\<close>

locale kv_bucket =
  fixes empty :: 'b
    and get :: "'b \<Rightarrow> string \<Rightarrow> string option"
    and put :: "'b \<Rightarrow> string \<Rightarrow> string \<Rightarrow> ('b, string) go"
    and del :: "'b \<Rightarrow> string \<Rightarrow> 'b"
    and keys :: "'b \<Rightarrow> string list"
    and ok :: "'b \<Rightarrow> bool"
  assumes ok_empty: "ok empty" and get_empty: "get empty k = None"
    and put_ok: "put b k v = Ok b' \<Longrightarrow> ok b \<Longrightarrow> ok b'"
    and put_total: "k \<noteq> [] \<Longrightarrow> length k \<le> 32768 \<Longrightarrow> \<exists>b'. put b k v = Ok b'"
    and put_no_panic: "\<not> is_panic (put b k v)"
    and get_put: "put b k v = Ok b' \<Longrightarrow> ok b \<Longrightarrow> get b' j = (if j = k then Some v else get b j)"
    and del_ok: "ok b \<Longrightarrow> ok (del b k)"
    and get_del: "ok b \<Longrightarrow> get (del b k) j = (if j = k then None else get b j)"
    and set_keys: "ok b \<Longrightarrow> set (keys b) = {k. get b k \<noteq> None}"
    and sorted_keys: "ok b \<Longrightarrow> sorted_wrt (<) (keys b)"
begin

text \<open>The keys come in order, each once; they are the keys of the abstract map.\<close>

lemma keys_distinct: "ok b \<Longrightarrow> distinct (keys b)"
  using sorted_keys strict_sorted_iff by blast

lemma put_put:
  assumes "ok b" "put b k v = Ok b1" "put b1 j w = Ok b2" "k \<noteq> j"
  shows "get b2 k = Some v" "get b2 j = Some w"
  using assms get_put [OF assms(3) put_ok [OF assms(2,1)]] get_put [OF assms(2,1)] by auto

lemma keys_determined:
  assumes "ok a" "ok b" "\<And>k. get a k = get b k"
  shows "keys a = keys b"
proof -
  have "set (keys a) = set (keys b)" using assms by (simp add: set_keys)
  with sorted_keys [OF assms(1)] sorted_keys [OF assms(2)] show ?thesis
    by (metis strict_sorted_equal)
qed

end

lemma map_of_kv_insert:
  "bk_ok b \<Longrightarrow> map_of (kv_insert k v b) j = (if j = k then Some v else map_of b j)"
proof (induction k v b rule: kv_insert.induct)
  case (1 k v)
  then show ?case by simp
next
  case (2 k v a x b)
  then show ?case by (auto simp: bk_ok_def)
qed

lemma keys_kv_insert: "set (map fst (kv_insert k v b)) = insert k (set (map fst b))"
  by (induction k v b rule: kv_insert.induct) auto

lemma bk_ok_insert: "bk_ok b \<Longrightarrow> bk_ok (kv_insert k v b)"
proof (induction k v b rule: kv_insert.induct)
  case (1 k v)
  then show ?case by (simp add: bk_ok_def)
next
  case (2 k v a x b)
  show ?case
  proof (cases "k < a \<or> k = a")
    case True
    with "2.prems" show ?thesis by (auto simp: bk_ok_def)
  next
    case False
    then have "bk_ok (kv_insert k v b)" using 2 by (auto simp: bk_ok_def)
    moreover have "\<forall>y \<in> set (map fst (kv_insert k v b)). a < y"
      using "2.prems" False unfolding keys_kv_insert by (auto simp: bk_ok_def)
    ultimately show ?thesis using False by (auto simp: bk_ok_def)
  qed
qed

lemma bk_ok_filter: "bk_ok b \<Longrightarrow> bk_ok (bk_Delete b k)"
  unfolding bk_ok_def bk_Delete_def sorted_wrt_map by (rule sorted_wrt_filter)

interpretation bolt: kv_bucket "[]" bk_Get bk_Put bk_Delete bk_keys bk_ok
proof unfold_locales
  show "bk_ok b \<Longrightarrow> set (bk_keys b) = {k. bk_Get b k \<noteq> None}" for b
    by (auto simp: bk_keys_def bk_Get_def map_of_eq_None_iff)
  show "bk_Get (bk_Delete b k) j = (if j = k then None else bk_Get b j)" if "bk_ok b" for b k j
    by (induction b) (auto simp: bk_Get_def bk_Delete_def)
qed (auto simp: bk_ok_def bk_Get_def bk_Put_def bk_keys_def
    intro: bk_ok_insert [unfolded bk_ok_def] bk_ok_filter [unfolded bk_ok_def]
    simp: map_of_kv_insert [unfolded bk_ok_def] split: if_splits)

section \<open>Transactions\<close>

type_synonym db = "string \<rightharpoonup> bucket"

text \<open>The function run in a transaction returns a value and the changed buckets; \<open>io\<close> is the
  error of the commit, if any.\<close>

definition db_Update :: "string option \<Rightarrow> (db \<Rightarrow> ('a \<times> db, string) go) \<Rightarrow> db \<Rightarrow> ('a, string) go \<times> db" where
  "db_Update io f d =
     (case f d of
        Ok (x, d') \<Rightarrow> (case io of None \<Rightarrow> (Ok x, d') | Some e \<Rightarrow> (Err e, d))
      | Err e \<Rightarrow> (Err e, d)
      | Panic m \<Rightarrow> (Panic m, d))"

definition db_View :: "(db \<Rightarrow> ('a, string) go) \<Rightarrow> db \<Rightarrow> ('a, string) go" where
  "db_View f d = f d"

definition ErrBucketNotFound :: string where
  "ErrBucketNotFound = ''bucket not found''"

definition tx_DeleteBucket :: "string \<Rightarrow> db \<Rightarrow> (db, string) go" where
  "tx_DeleteBucket n d =
     (if d n = None then Err ErrBucketNotFound else Ok (d(n := None)))"

definition tx_CreateBucket :: "string \<Rightarrow> db \<Rightarrow> (db, string) go" where
  "tx_CreateBucket n d =
     (if d n \<noteq> None then Err ''bucket already exists'' else Ok (d(n \<mapsto> [])))"

definition tx_CreateBucketIfNotExists :: "string \<Rightarrow> db \<Rightarrow> db" where
  "tx_CreateBucketIfNotExists n d = (if d n = None then d(n \<mapsto> []) else d)"

text \<open>\<open>tx.Bucket\<close> returns nil for a missing bucket; using it then panics.\<close>

definition with_bucket :: "string \<Rightarrow> db \<Rightarrow> (bucket \<Rightarrow> ('a, string) go) \<Rightarrow> ('a, string) go" where
  "with_bucket n d f =
     (case d n of
        None \<Rightarrow> Panic ''invalid memory address or nil pointer dereference''
      | Some b \<Rightarrow> f b)"

lemma db_Update_unchanged:
  "\<forall>x. fst (db_Update io f d) \<noteq> Ok x \<Longrightarrow> snd (db_Update io f d) = d"
  by (auto simp: db_Update_def split: go.splits option.splits)

end
