(* ===== verification/Mqtt_Store.thy ===== *)
theory Mqtt_Store
  imports Kv_Store
begin

text \<open>
  The message store of the MQTT client (\<open>pkg/store/mqtt/mqtt.go\<close>): control packets in the bucket
  \<open>mqtt\<close>. Packet coding is the library paho's (parameters \<open>wr\<close> and \<open>rd\<close>). The operations
  return nothing to their caller on an error, they log it: \<open>Err\<close> is the logged error. The
  refinement says the bucket is a map from keys to packets.
\<close>

definition mqtt_bucket :: string where
  "mqtt_bucket = ''mqtt''"

text \<open>\<open>check\<close> is what \<open>tx.Check\<close> reports; the first report aborts the transaction.\<close>

definition mq_Open :: "string option \<Rightarrow> string list \<Rightarrow> db \<Rightarrow> (unit, string) go \<times> db" where
  "mq_Open io check d =
     db_Update io (\<lambda>d.
       case check of
         e # _ \<Rightarrow> Err e
       | [] \<Rightarrow> Ok ((), tx_CreateBucketIfNotExists mqtt_bucket d)) d"

definition mq_Put ::
  "('p \<Rightarrow> string + string) \<Rightarrow> string option \<Rightarrow> db \<Rightarrow> string \<Rightarrow> 'p \<Rightarrow> (unit, string) go \<times> db" where
  "mq_Put wr io d key message =
     db_Update io (\<lambda>d. with_bucket mqtt_bucket d (\<lambda>bk.
       case wr message of
         Inl e \<Rightarrow> Err e
       | Inr bs \<Rightarrow> go_map (\<lambda>bk'. ((), d(mqtt_bucket \<mapsto> bk'))) (bk_Put bk key bs))) d"

text \<open>A missing key reads as nil, an empty byte slice, which the packet reader then refuses.\<close>

definition mq_Get :: "(string \<Rightarrow> string + 'p) \<Rightarrow> db \<Rightarrow> string \<Rightarrow> ('p, string) go" where
  "mq_Get rd d key =
     db_View (\<lambda>d. with_bucket mqtt_bucket d (\<lambda>bk.
       case rd (case bk_Get bk key of None \<Rightarrow> [] | Some v \<Rightarrow> v) of
         Inl e \<Rightarrow> Err e
       | Inr p \<Rightarrow> Ok p)) d"

definition mq_All :: "db \<Rightarrow> (string list, string) go" where
  "mq_All d = db_View (\<lambda>d. with_bucket mqtt_bucket d (\<lambda>bk. Ok (bk_keys bk))) d"

definition mq_Del :: "string option \<Rightarrow> db \<Rightarrow> string \<Rightarrow> (unit, string) go \<times> db" where
  "mq_Del io d key =
     db_Update io (\<lambda>d. with_bucket mqtt_bucket d (\<lambda>bk.
       Ok ((), d(mqtt_bucket \<mapsto> bk_Delete bk key)))) d"

definition mq_Reset :: "string option \<Rightarrow> db \<Rightarrow> (unit, string) go \<times> db" where
  "mq_Reset io d =
     db_Update io (\<lambda>d. go_bind (tx_DeleteBucket mqtt_bucket d) (\<lambda>d'.
       go_map (\<lambda>d''. ((), d'')) (tx_CreateBucket mqtt_bucket d'))) d"

section \<open>The map of packets\<close>

text \<open>The bucket is there, in order, and holds only packets that can be read back.\<close>

definition mq_inv :: "(string \<Rightarrow> string + 'p) \<Rightarrow> db \<Rightarrow> bool" where
  "mq_inv rd d \<longleftrightarrow>
     (\<exists>b. d mqtt_bucket = Some b \<and> bk_ok b \<and> (\<forall>k x. bk_Get b k = Some x \<longrightarrow> (\<exists>p. rd x = Inr p)))"

definition packets :: "(string \<Rightarrow> string + 'p) \<Rightarrow> db \<Rightarrow> string \<rightharpoonup> 'p" where
  "packets rd d k =
     (case d mqtt_bucket of
        None \<Rightarrow> None
      | Some b \<Rightarrow>
          (case bk_Get b k of
             None \<Rightarrow> None
           | Some x \<Rightarrow> (case rd x of Inl _ \<Rightarrow> None | Inr p \<Rightarrow> Some p)))"

lemma mq_Open_inv:
  assumes "d mqtt_bucket = None \<or> mq_inv rd d"
  shows "fst (mq_Open None [] d) = Ok ()" and "mq_inv rd (snd (mq_Open None [] d))"
    and "packets rd (snd (mq_Open None [] d)) = packets rd d"
  using assms
  by (auto simp: mq_Open_def db_Update_def tx_CreateBucketIfNotExists_def mq_inv_def packets_def
      bolt.ok_empty bk_Get_def)

lemma mq_invE:
  assumes "mq_inv rd d"
  obtains b where "d mqtt_bucket = Some b" "bk_ok b" "\<forall>k x. bk_Get b k = Some x \<longrightarrow> (\<exists>p. rd x = Inr p)"
  using assms by (auto simp: mq_inv_def)

lemma put_refines:
  assumes "mq_inv rd d" and "wr p = Inr x" and "rd x = Inr p" and "k \<noteq> []" and "length k \<le> 32768"
  shows "fst (mq_Put wr None d k p) = Ok ()" and "mq_inv rd (snd (mq_Put wr None d k p))"
    and "packets rd (snd (mq_Put wr None d k p)) = (packets rd d)(k \<mapsto> p)"
proof -
  obtain b where b: "d mqtt_bucket = Some b" "bk_ok b" "\<forall>k x. bk_Get b k = Some x \<longrightarrow> (\<exists>p. rd x = Inr p)"
    using assms(1) by (rule mq_invE)
  obtain b' where b': "bk_Put b k x = Ok b'" using bolt.put_total [OF assms(4,5)] by blast
  note g = bolt.get_put [OF b' b(2)] and o = bolt.put_ok [OF b' b(2)]
  show "fst (mq_Put wr None d k p) = Ok ()" "mq_inv rd (snd (mq_Put wr None d k p))"
    using b b' g o assms(2,3) by (auto simp: mq_Put_def db_Update_def with_bucket_def mq_inv_def)
  show "packets rd (snd (mq_Put wr None d k p)) = (packets rd d)(k \<mapsto> p)"
    using b b' g assms(2,3) by (auto simp: mq_Put_def db_Update_def with_bucket_def packets_def)
qed

lemma del_refines:
  assumes "mq_inv rd d"
  shows "fst (mq_Del None d k) = Ok ()" and "mq_inv rd (snd (mq_Del None d k))"
    and "packets rd (snd (mq_Del None d k)) = (packets rd d)(k := None)"
proof -
  obtain b where b: "d mqtt_bucket = Some b" "bk_ok b" "\<forall>k x. bk_Get b k = Some x \<longrightarrow> (\<exists>p. rd x = Inr p)"
    using assms(1) by (rule mq_invE)
  show "fst (mq_Del None d k) = Ok ()" "mq_inv rd (snd (mq_Del None d k))"
    using b bolt.del_ok [OF b(2)] bolt.get_del [OF b(2)]
    by (auto simp: mq_Del_def db_Update_def with_bucket_def mq_inv_def split: if_splits)
  show "packets rd (snd (mq_Del None d k)) = (packets rd d)(k := None)"
    using b bolt.get_del [OF b(2)] by (auto simp: mq_Del_def db_Update_def with_bucket_def packets_def)
qed

lemma reset_refines:
  assumes "mq_inv rd d"
  shows "fst (mq_Reset None d) = Ok ()" and "mq_inv rd (snd (mq_Reset None d))"
    and "packets rd (snd (mq_Reset None d)) = Map.empty"
  using assms bolt.ok_empty
  by (auto simp: mq_Reset_def db_Update_def tx_DeleteBucket_def tx_CreateBucket_def packets_def mq_inv_def bk_Get_def
      elim: mq_invE)

lemma reads_refine:
  assumes "mq_inv rd d" and "rd [] = Inl eof"
  shows "mq_Get rd d k = (case packets rd d k of Some p \<Rightarrow> Ok p | None \<Rightarrow> Err eof)"
    and "\<exists>ks. mq_All d = Ok ks \<and> sorted_wrt (<) ks \<and> set ks = dom (packets rd d)"
proof -
  obtain b where b: "d mqtt_bucket = Some b" "bk_ok b" "\<forall>k x. bk_Get b k = Some x \<longrightarrow> (\<exists>p. rd x = Inr p)"
    using assms(1) by (rule mq_invE)
  show "mq_Get rd d k = (case packets rd d k of Some p \<Rightarrow> Ok p | None \<Rightarrow> Err eof)"
    using b(1) assms(2) spec [OF b(3), of k]
    by (cases "bk_Get b k") (auto simp: mq_Get_def db_View_def with_bucket_def packets_def)
  have "mq_All d = Ok (bk_keys b)" using b(1) by (simp add: mq_All_def db_View_def with_bucket_def)
  moreover have "set (bk_keys b) = dom (packets rd d)"
    using b by (fastforce simp: bolt.set_keys packets_def dom_def split: option.splits)
  ultimately show "\<exists>ks. mq_All d = Ok ks \<and> sorted_wrt (<) ks \<and> set ks = dom (packets rd d)"
    using bolt.sorted_keys [OF b(2)] by blast
qed

section \<open>The store as the client uses it\<close>

text \<open>What the client does with the store, with the error of the commit of each change, and what it sees:
  a packet or the logged error of a read, the list of keys, or the outcome of a change.\<close>

datatype 'p store_op = Put "string option" string 'p | Del "string option" string | Reset "string option" | Fetch string | Keys

datatype 'p store_view = Changed "(unit, string) go" | Fetched "('p, string) go" | Listed "(string list, string) go"

fun store_step ::
  "('p \<Rightarrow> string + string) \<Rightarrow> (string \<Rightarrow> string + 'p) \<Rightarrow> 'p store_op \<Rightarrow> db \<Rightarrow> 'p store_view \<times> db" where
  "store_step wr rd (Put io k p) d = map_prod Changed id (mq_Put wr io d k p)"
| "store_step wr rd (Del io k) d = map_prod Changed id (mq_Del io d k)"
| "store_step wr rd (Reset io) d = map_prod Changed id (mq_Reset io d)"
| "store_step wr rd (Fetch k) d = (Fetched (mq_Get rd d k), d)"
| "store_step wr rd Keys d = (Listed (mq_All d), d)"

fun store_run ::
  "('p \<Rightarrow> string + string) \<Rightarrow> (string \<Rightarrow> string + 'p) \<Rightarrow> 'p store_op list \<Rightarrow> db \<Rightarrow> 'p store_view list \<times> db" where
  "store_run wr rd [] d = ([], d)"
| "store_run wr rd (op # ops) d =
     (case store_step wr rd op d of
        (v, d') \<Rightarrow> (case store_run wr rd ops d' of (vs, d'') \<Rightarrow> (v # vs, d'')))"

text \<open>The same over a map. A change that cannot be committed, and a key the database refuses, change nothing.\<close>

fun map_step :: "string \<Rightarrow> 'p store_op \<Rightarrow> (string \<rightharpoonup> 'p) \<Rightarrow> 'p store_view \<times> (string \<rightharpoonup> 'p)" where
  "map_step eof (Put io k p) m =
     (if k = [] then (Changed (Err ''key required''), m)
      else if length k > 32768 then (Changed (Err ''key too large''), m)
      else (case io of Some e \<Rightarrow> (Changed (Err e), m) | None \<Rightarrow> (Changed (Ok ()), m(k \<mapsto> p))))"
| "map_step eof (Del io k) m = (case io of Some e \<Rightarrow> (Changed (Err e), m) | None \<Rightarrow> (Changed (Ok ()), m(k := None)))"
| "map_step eof (Reset io) m = (case io of Some e \<Rightarrow> (Changed (Err e), m) | None \<Rightarrow> (Changed (Ok ()), Map.empty))"
| "map_step eof (Fetch k) m = (Fetched (case m k of Some p \<Rightarrow> Ok p | None \<Rightarrow> Err eof), m)"
| "map_step eof Keys m = (Listed (Ok (sorted_list_of_set (dom m))), m)"

fun map_run :: "string \<Rightarrow> 'p store_op list \<Rightarrow> (string \<rightharpoonup> 'p) \<Rightarrow> 'p store_view list \<times> (string \<rightharpoonup> 'p)" where
  "map_run eof [] m = ([], m)"
| "map_run eof (op # ops) m =
     (case map_step eof op m of
        (v, m') \<Rightarrow> (case map_run eof ops m' of (vs, m'') \<Rightarrow> (v # vs, m'')))"

text \<open>A packet the codec writes is read back.\<close>

definition coded :: "('p \<Rightarrow> string + string) \<Rightarrow> (string \<Rightarrow> string + 'p) \<Rightarrow> 'p store_op \<Rightarrow> bool" where
  "coded wr rd op = (case op of Put _ _ p \<Rightarrow> (case wr p of Inr x \<Rightarrow> rd x = Inr p | Inl _ \<Rightarrow> False) | _ \<Rightarrow> True)"

lemma failed_commit:
  assumes "mq_inv rd d"
  shows "mq_Del (Some e) d k = (Err e, d)" and "mq_Reset (Some e) d = (Err e, d)"
    and "wr p = Inr x \<Longrightarrow> k \<noteq> [] \<Longrightarrow> length k \<le> 32768 \<Longrightarrow> mq_Put wr (Some e) d k p = (Err e, d)"
    and "wr p = Inr x \<Longrightarrow> mq_Put wr io d [] p = (Err ''key required'', d)"
    and "wr p = Inr x \<Longrightarrow> length k > 32768 \<Longrightarrow> mq_Put wr io d k p = (Err ''key too large'', d)"
  using assms
  by (auto simp: mq_Del_def mq_Reset_def mq_Put_def db_Update_def with_bucket_def tx_DeleteBucket_def
      tx_CreateBucket_def bk_Put_def elim!: mq_invE)

lemma store_step_refines:
  assumes "mq_inv rd d" and "rd [] = Inl eof" and "coded wr rd op"
  shows "mq_inv rd (snd (store_step wr rd op d))
    \<and> map_step eof op (packets rd d) = (fst (store_step wr rd op d), packets rd (snd (store_step wr rd op d)))"
proof (cases op)
  case (Put io k p)
  with assms(3) obtain x where x: "wr p = Inr x" "rd x = Inr p" by (auto simp: coded_def split: sum.splits)
  consider "k = []" | "length k > 32768" | e where "io = Some e" "k \<noteq> []" "length k \<le> 32768"
    | "io = None" "k \<noteq> []" "length k \<le> 32768" by (cases io) force+
  then show ?thesis
    using put_refines [where wr = wr, OF assms(1) x, of k] failed_commit(3-5) [where wr = wr, OF assms(1) x(1)] assms(1)
    by cases (auto simp: Put prod_eq_iff)
next
  case (Del io k)
  then show ?thesis
    using del_refines [OF assms(1), of k] failed_commit [OF assms(1)] assms(1) by (cases io) (auto simp: prod_eq_iff)
next
  case (Reset io)
  then show ?thesis
    using reset_refines [OF assms(1)] failed_commit [OF assms(1)] assms(1) by (cases io) (auto simp: prod_eq_iff)
next
  case (Fetch k)
  then show ?thesis using reads_refine(1) [OF assms(1,2)] assms(1) by simp
next
  case Keys
  obtain ks where "mq_All d = Ok ks" "sorted_wrt (<) ks" "set ks = dom (packets rd d)"
    using reads_refine(2) [OF assms(1,2)] by blast
  then show ?thesis
    using Keys assms(1) sorted_list_of_set.idem_if_sorted_distinct [of ks] by (auto simp: strict_sorted_iff)
qed

section \<open>Properties\<close>

text \<open>C34: the message store is a map from keys to packets: whatever the client does with it after it was
  opened, it sees what it would see of a map, a put replacing one entry, a delete removing one, a read giving
  the entry or the error of an empty packet, the listing giving exactly the keys, in order, a reset emptying
  it; a change that is not committed and a key that is refused change nothing, and the store is ready for the
  next operation.\<close>

theorem mqtt_store_refines_map:
  assumes "mq_inv rd d" and "rd [] = Inl eof" and "\<forall>op \<in> set ops. coded wr rd op"
  shows "mq_inv rd (snd (store_run wr rd ops d))
    \<and> map_run eof ops (packets rd d) = (fst (store_run wr rd ops d), packets rd (snd (store_run wr rd ops d)))"
  using assms(1,3)
proof (induction ops arbitrary: d)
  case (Cons op ops)
  from Cons.prems(2) have c: "coded wr rd op" by simp
  from store_step_refines [OF Cons.prems(1) assms(2) c] Cons.IH [of "snd (store_step wr rd op d)"] Cons.prems(2)
  show ?case by (auto split: prod.split)
qed simp

lemma mqtt_store_refines_map_witness:
  "let d = [mqtt_bucket \<mapsto> [(''a'', ''x'')]]; rd = (\<lambda>s. if s = [] then Inl ''EOF'' else Inr s);
       ops = [Put None ''b'' ''y'', Fetch ''c'', Reset None, Put None ''k'' ''z'', Keys, Fetch ''k''] in
     fst (store_run Inr rd ops d) = [Changed (Ok ()), Fetched (Err ''EOF''), Changed (Ok ()), Changed (Ok ()), Listed (Ok [''k'']), Fetched (Ok ''z'')]"
proof -
  let ?d = "[mqtt_bucket \<mapsto> [(''a'', ''x'')]]" and ?rd = "\<lambda>s :: string. if s = [] then Inl ''EOF'' else Inr s"
    and ?ops = "[Put None ''b'' ''y'', Fetch ''c'', Reset None, Put None ''k'' ''z'', Keys, Fetch ''k'']"
  have i: "mq_inv ?rd ?d" by (auto simp: mq_inv_def bk_ok_def bk_Get_def split: if_splits)
  have c: "\<forall>op \<in> set ?ops. coded Inr ?rd op" by (simp add: coded_def)
  from mqtt_store_refines_map [OF i _ c, of "''EOF''"] show ?thesis
    by (simp add: packets_def bk_Get_def mqtt_bucket_def)
qed

end
