(* ===== verification/Mqtt_Link.thy ===== *)
theory Mqtt_Link
  imports Go_Text
begin

text \<open>
  The link of the core to the cloud (\<open>internal/pkg/core/mqtt/mqtt.go\<close>): the broker's address, TLS, the
  set-up of the client, commands and their responses, and the publishing of the state. The MQTT
  library is a parameter; the core's \<open>Call\<close> is the argument \<open>rpc\<close>, over a state of the core. What is
  handed to the library is a list of the calls made, each with its outcome.
\<close>

section \<open>Address and TLS\<close>

text \<open>The parts of a parsed URL the code touches.\<close>

record url =
  Scheme :: string
  Host :: string
  Opaque :: string
  u_rest :: string

definition prepareURL :: "url \<Rightarrow> bool \<Rightarrow> url" where
  "prepareURL u tls =
     (let u1 = (if Host u = '''' then u\<lparr>Host := Scheme u @ '':'' @ Opaque u, Opaque := ''''\<rparr> else u)
      in u1\<lparr>Scheme := (if tls then ''tls'' else ''tcp'')\<rparr>)"

text \<open>\<open>load\<close> is \<open>tls.LoadX509KeyPair\<close>; the configuration keeps the pair and does not verify the broker.\<close>

record 'k tls_config =
  Certificates :: "'k list"
  InsecureSkipVerify :: bool

definition setupTLS :: "(string \<Rightarrow> string \<Rightarrow> string + 'k) \<Rightarrow> string \<Rightarrow> string \<Rightarrow> string + 'k tls_config option" where
  "setupTLS load cert key =
     (if cert = '''' \<or> key = '''' then Inr None
      else
        (case load cert key of
           Inl e \<Rightarrow> Inl e
         | Inr pair \<Rightarrow> Inr (Some \<lparr>Certificates = [pair], InsecureSkipVerify = True\<rparr>)))"

section \<open>Set-up\<close>

definition requestTopic :: string where "requestTopic = ''ric-edge/+/command''"
definition stateTopic :: string where "stateTopic = ''ric-edge/sys/state''"

definition response_topic :: "string \<Rightarrow> string" where
  "response_topic connector = ''ric-edge/'' @ connector @ ''/response''"

record 'k mqtt_options =
  o_ClientID :: string
  o_TLS :: "'k tls_config option"
  o_Broker :: url
  o_AutoReconnect :: bool
  o_CleanSession :: bool
  o_OrderMatters :: bool

text \<open>The outcomes of the library: connecting with the options, and subscribing to a topic.\<close>

definition mqtt_New ::
  "(string \<Rightarrow> string + url) \<Rightarrow> (string \<Rightarrow> string \<Rightarrow> string + 'k) \<Rightarrow> ('k mqtt_options \<Rightarrow> string option)
     \<Rightarrow> (string \<Rightarrow> string option) \<Rightarrow> string \<Rightarrow> string \<Rightarrow> string \<Rightarrow> string \<Rightarrow> string + 'k mqtt_options" where
  "mqtt_New parse load connect subscribe u clientID cert key =
     (case parse u of
        Inl e \<Rightarrow> Inl e
      | Inr parsedURL \<Rightarrow>
          (case setupTLS load cert key of
             Inl e \<Rightarrow> Inl e
           | Inr tls \<Rightarrow>
               (let opts = \<lparr>o_ClientID = clientID, o_TLS = tls, o_Broker = prepareURL parsedURL (tls \<noteq> None),
                            o_AutoReconnect = True, o_CleanSession = False, o_OrderMatters = False\<rparr> in
                case connect opts of
                  Some e \<Rightarrow> Inl e
                | None \<Rightarrow> (case subscribe requestTopic of Some e \<Rightarrow> Inl e | None \<Rightarrow> Inr opts))))"

section \<open>Messages\<close>

text \<open>A publish is done, done with an error, or not done within a minute.\<close>

datatype token = Completed | Failed string | Pending

definition publish_error :: "token \<Rightarrow> string option" where
  "publish_error t = (case t of Failed e \<Rightarrow> Some e | _ \<Rightarrow> None)"

text \<open>\<open>publishListener\<close>: every payload is published once, in order, whatever becomes of it; the errors are
  logged. \<open>token\<close> is the outcome of a publish.\<close>

fun publishListener :: "(string \<Rightarrow> string \<Rightarrow> token) \<Rightarrow> string list \<Rightarrow> (string \<times> string) list \<times> (string \<times> string) list" where
  "publishListener token [] = ([], [])"
| "publishListener token (p # ps) =
     (case publishListener token ps of
        (sent, failed) \<Rightarrow>
          ((stateTopic, p) # sent,
           (case publish_error (token stateTopic p) of None \<Rightarrow> failed | Some e \<Rightarrow> (p, e) # failed)))"

text \<open>\<open>rpcCallback\<close>: the answer of the core to a message, and where it is published. The core may not
  answer, when \<open>rpc\<close> is \<open>None\<close>, or panic.\<close>

definition rpcCallback ::
  "('s \<Rightarrow> string \<Rightarrow> string \<Rightarrow> ((string, 'e) go \<times> 's) option) \<Rightarrow> (string \<Rightarrow> string \<Rightarrow> token) \<Rightarrow> 's \<Rightarrow> string \<Rightarrow> string
     \<Rightarrow> (((string \<times> string) \<times> string option, 'e) go \<times> 's) option" where
  "rpcCallback rpc token s topic payload =
     (let parts = split_on CHR ''/'' topic in
      if length parts < 2 then Some (Panic ''index out of range'', s)
      else
        (case rpc s (parts ! 1) payload of
           None \<Rightarrow> None
         | Some (r, s') \<Rightarrow>
             (let t = response_topic (parts ! 1)
              in Some (go_map (\<lambda>resp. ((t, resp), publish_error (token t resp))) r, s'))))"

section \<open>Laws\<close>

text \<open>The match of a topic with a filter whose wildcards are single levels, as the broker does it.\<close>

fun levels_match :: "string list \<Rightarrow> string list \<Rightarrow> bool" where
  "levels_match [] [] = True"
| "levels_match (f # fs) (t # ts) = ((f = ''+'' \<or> f = t) \<and> levels_match fs ts)"
| "levels_match _ _ = False"

definition topic_match :: "string \<Rightarrow> string \<Rightarrow> bool" where
  "topic_match filt topic = levels_match (split_on CHR ''/'' filt) (split_on CHR ''/'' topic)"

lemma requestTopic_levels: "split_on CHR ''/'' requestTopic = [''ric-edge'', ''+'', ''command'']"
  by (simp add: requestTopic_def)

lemma request_topic_iff: "topic_match requestTopic topic \<longleftrightarrow>
    (\<exists>c. CHR ''/'' \<notin> set c \<and> topic = ''ric-edge/'' @ c @ ''/command'')"
proof
  assume "topic_match requestTopic topic"
  then obtain c where s: "split_on CHR ''/'' topic = [''ric-edge'', c, ''command'']"
    by (auto simp: topic_match_def requestTopic_levels elim!: levels_match.elims)
  then have "topic = join_with [CHR ''/''] [''ric-edge'', c, ''command'']"
    using join_split_on [of "CHR ''/''" topic] by simp
  moreover have "CHR ''/'' \<notin> set c" using split_on_parts [of c "CHR ''/''" topic] s by simp
  ultimately show "\<exists>c. CHR ''/'' \<notin> set c \<and> topic = ''ric-edge/'' @ c @ ''/command''" by auto
next
  assume "\<exists>c. CHR ''/'' \<notin> set c \<and> topic = ''ric-edge/'' @ c @ ''/command''"
  then obtain c where c: "CHR ''/'' \<notin> set c" "topic = ''ric-edge/'' @ c @ ''/command''" by blast
  have "split_on CHR ''/'' (c @ ''/command'') = [c, ''command'']"
    using split_on_append_sep [of "CHR ''/''" c "''command''"] c(1) by simp
  with c show "topic_match requestTopic topic"
    by (simp add: topic_match_def requestTopic_levels)
qed

lemma callback_topic:
  assumes "CHR ''/'' \<notin> set c" and "topic = ''ric-edge/'' @ c @ ''/command''"
  shows "rpcCallback rpc token s topic payload =
      (case rpc s c payload of
         None \<Rightarrow> None
       | Some (r, s') \<Rightarrow>
           Some (go_map (\<lambda>resp. ((''ric-edge/'' @ c @ ''/response'', resp),
             publish_error (token (''ric-edge/'' @ c @ ''/response'') resp))) r, s'))"
proof -
  have "split_on CHR ''/'' topic = [''ric-edge'', c, ''command'']"
    using split_on_append_sep [of "CHR ''/''" c "''command''"] assms by simp
  then show ?thesis by (simp add: rpcCallback_def response_topic_def Let_def split: option.split prod.split)
qed

text \<open>every command the broker delivers on the subscribed topic is put to the connector its topic
  names, and the core's answer, whatever it is, is published on the response topic of that connector.\<close>

theorem command_answered_on_its_topic:
  assumes "topic_match requestTopic topic"
  shows "\<exists>c. CHR ''/'' \<notin> set c \<and> topic = ''ric-edge/'' @ c @ ''/command'' \<and>
    rpcCallback rpc token s topic payload =
      (case rpc s c payload of
         None \<Rightarrow> None
       | Some (r, s') \<Rightarrow>
           Some (go_map (\<lambda>resp. ((''ric-edge/'' @ c @ ''/response'', resp),
             publish_error (token (''ric-edge/'' @ c @ ''/response'') resp))) r, s'))"
proof -
  obtain c where c: "CHR ''/'' \<notin> set c" "topic = ''ric-edge/'' @ c @ ''/command''"
    using assms by (auto simp: request_topic_iff)
  from c callback_topic [OF c] show ?thesis by (intro exI conjI)
qed

lemma command_answered_on_its_topic_witness:
  "rpcCallback (\<lambda>s c p. Some (Ok (c @ p) :: (string, unit) go, Suc s)) (\<lambda>_ _. Completed) 0 ''ric-edge/snmp/command'' ''{}''
     = Some (Ok ((''ric-edge/snmp/response'', ''snmp{}''), None), 1)"
proof -
  have m: "topic_match requestTopic ''ric-edge/snmp/command''"
    by (simp add: topic_match_def requestTopic_def)
  obtain c where "''ric-edge/snmp/command'' = ''ric-edge/'' @ c @ ''/command''"
    and r: "rpcCallback (\<lambda>s c p. Some (Ok (c @ p) :: (string, unit) go, Suc s)) (\<lambda>_ _. Completed) 0 ''ric-edge/snmp/command'' ''{}'' =
      (case Some (Ok (c @ ''{}'') :: (string, unit) go, Suc 0) of
         None \<Rightarrow> None
       | Some (r, s') \<Rightarrow> Some (go_map (\<lambda>resp. ((''ric-edge/'' @ c @ ''/response'', resp),
           publish_error ((\<lambda>_ _. Completed) (''ric-edge/'' @ c @ ''/response'') resp))) r, s'))"
    using command_answered_on_its_topic [OF m, of "\<lambda>s c p. Some (Ok (c @ p) :: (string, unit) go, Suc s)"
        "\<lambda>_ _. Completed" 0 "''{}''"] by blast
  then have "c = ''snmp''" using append_same_eq [of "''snmp''" "''/command''" c] by auto
  with r show ?thesis by (simp add: publish_error_def)
qed

text \<open>an address written without a scheme names the same broker as one with a scheme.\<close>

theorem broker_without_scheme:
  "prepareURL \<lparr>Scheme = host, Host = '''', Opaque = port, u_rest = r\<rparr> tls
    = prepareURL \<lparr>Scheme = scheme, Host = host @ '':'' @ port, Opaque = '''', u_rest = r\<rparr> tls"
  by (simp add: prepareURL_def)

text \<open>every state of the core is published once and in order, and an error of one publish does not
  keep the later ones back.\<close>

theorem states_published_in_order:
  "fst (publishListener token ps) = map (Pair stateTopic) ps
    \<and> map fst (snd (publishListener token ps)) = filter (\<lambda>p. publish_error (token stateTopic p) \<noteq> None) ps"
  by (induction ps) (auto split: prod.splits option.splits)

text \<open>with a certificate and a key the link is encrypted but the certificate of the broker is not
  verified; without either of them it is not encrypted.\<close>

theorem encrypted_link_unverified:
  assumes "mqtt_New parse load connect subscribe u clientID cert key = Inr opts"
  shows "(cert = '''' \<or> key = '''' \<longrightarrow> o_TLS opts = None \<and> Scheme (o_Broker opts) = ''tcp'')
    \<and> (cert \<noteq> '''' \<and> key \<noteq> '''' \<longrightarrow>
        (\<exists>t. o_TLS opts = Some t \<and> InsecureSkipVerify t) \<and> Scheme (o_Broker opts) = ''tls'')"
  using assms
  by (auto simp: mqtt_New_def setupTLS_def prepareURL_def Let_def split: sum.splits option.splits if_splits)

lemma encrypted_link_unverified_witness:
  "\<exists>opts. mqtt_New (\<lambda>s. Inr \<lparr>Scheme = ''mqtt'', Host = s, Opaque = '''', u_rest = ''''\<rparr>) (\<lambda>c k. Inr (c, k))
      (\<lambda>_. None) (\<lambda>_. None) ''h:8883'' ''edge'' ''c.pem'' ''k.pem'' = Inr opts
    \<and> (\<exists>t. o_TLS opts = Some t \<and> InsecureSkipVerify t)"
proof -
  let ?new = "mqtt_New (\<lambda>s. Inr \<lparr>Scheme = ''mqtt'', Host = s, Opaque = '''', u_rest = ''''\<rparr>) (\<lambda>c k. Inr (c, k))
      (\<lambda>_. None) (\<lambda>_. None) ''h:8883'' ''edge'' ''c.pem'' ''k.pem''"
  obtain opts where "?new = Inr opts" by (simp add: mqtt_New_def setupTLS_def)
  with encrypted_link_unverified [OF this] show ?thesis by simp
qed

end
