(* ===== verification/Jsonrpc_Writers.thy ===== *)
theory Jsonrpc_Writers
  imports Jsonrpc
begin

text \<open>
  Who writes to the transport of a connector (\<open>pkg/jsonrpc/jsonrpc.go\<close>): the serve loop with an answer, and
  one goroutine per value of a subscription with a notification. Each takes the mutex \<open>mx\<close> of the
  service around \<open>NextWriter\<close>, the encoder and \<open>Close\<close>; a notification also takes \<open>sendL\<close> of its
  process. A step lies between two points where another goroutine can run; the writers of the
  connection are those of the vendored websocket library, where a second \<open>NextWriter\<close> ends the message
  of the first and a writer that was ended fails.
\<close>

section \<open>The service\<close>

text \<open>\<open>New\<close> with its options: panics are recovered unless an option says otherwise, and the last option
  decides.\<close>

record ('c, 't) json_service =
  js_caller :: 'c
  js_catchPanic :: bool
  js_transport :: 't

type_synonym ('c, 't) js_option = "('c, 't) json_service \<Rightarrow> ('c, 't) json_service"

definition CatchPanic :: "bool \<Rightarrow> ('c, 't) js_option" where
  "CatchPanic v s = s\<lparr>js_catchPanic := v\<rparr>"

definition js_New :: "'t \<Rightarrow> 'c \<Rightarrow> ('c, 't) js_option list \<Rightarrow> ('c, 't) json_service" where
  "js_New tr c os = fold (\<lambda>f s. f s) os \<lparr>js_caller = c, js_catchPanic = True, js_transport = tr\<rparr>"

text \<open>\<open>NewNotification\<close>: the process of a subscription, with the parameters it was asked for with; its lock
  \<open>sendL\<close> is in the state below.\<close>

record ('c, 't) notification_service =
  ns_service :: "('c, 't) json_service"
  ns_id :: string
  ns_params :: gval

definition NewNotification :: "('c, 't) json_service \<Rightarrow> string \<Rightarrow> gval \<Rightarrow> ('c, 't) notification_service" where
  "NewNotification s new_id params = \<lparr>ns_service = s, ns_id = new_id, ns_params = params\<rparr>"

definition ns_request :: "('c, 't) notification_service \<Rightarrow> gval \<Rightarrow> request" where
  "ns_request n = notification_request (ns_params n) (ns_id n)"

lemma panics_recovered_unless_told:
  "js_catchPanic (js_New tr c [])"
  "js_catchPanic (js_New tr c (os @ [CatchPanic v])) = v"
  by (simp_all add: js_New_def CatchPanic_def)

section \<open>State\<close>

datatype write_job = Answer string | Notification string string

fun job_text :: "write_job \<Rightarrow> string" where
  "job_text (Answer m) = m"
| "job_text (Notification pid m) = m"

text \<open>Where a goroutine is. \<open>Writing\<close> has the connection its writer belongs to, what is still to be written
  and whether the encoder has an error.\<close>

datatype wpc =
    Idle
  | Entering write_job
  | Locking write_job
  | Encoding write_job
  | Writing write_job nat string bool
  | Unlocking write_job bool

text \<open>Connections are numbered in the order they are dialled. \<open>broken\<close>: the library keeps the first error of
  a write or that a close frame was sent. \<open>frames\<close>: the messages the peer has got in full.\<close>

record wstate =
  mx :: "nat option"
  wpc_of :: "nat \<Rightarrow> wpc"
  sendL :: "string \<Rightarrow> nat option"
  current :: nat
  writer :: "nat \<Rightarrow> nat option"
  buffer :: "nat \<Rightarrow> string"
  broken :: "nat \<Rightarrow> bool"
  frames :: "nat \<Rightarrow> string list"
  w_dead :: bool

definition w_init :: wstate where
  "w_init = \<lparr>mx = None, wpc_of = (\<lambda>_. Idle), sendL = (\<lambda>_. None), current = 0, writer = (\<lambda>_. None),
     buffer = (\<lambda>_. ''''), broken = (\<lambda>_. False), frames = (\<lambda>_. []), w_dead = False\<rparr>"

text \<open>\<open>Chunk\<close> and \<open>Close\<close> say whether what they send on the network is sent; \<open>Breaks\<close> is the close frame of
  a shutdown, \<open>Dialled_again\<close> a reconnect.\<close>

datatype wevent =
    Begin nat write_job
  | Enter nat
  | Lock nat
  | Open nat
  | Chunk nat nat bool
  | Close nat bool
  | Unlock nat
  | Breaks nat
  | Dialled_again

section \<open>Steps\<close>

abbreviation at :: "nat \<Rightarrow> wpc \<Rightarrow> wstate \<Rightarrow> wstate" where
  "at t pc s \<equiv> s\<lparr>wpc_of := (wpc_of s)(t := pc)\<rparr>"

text \<open>\<open>Conn.beginMessage\<close>: the message of the previous writer is ended.\<close>

definition end_previous :: "nat \<Rightarrow> wstate \<Rightarrow> wstate" where
  "end_previous k s =
     (if writer s k = None then s
      else s\<lparr>writer := (writer s)(k := None),
             frames := (frames s)(k := frames s k @ (if broken s k then [] else [buffer s k]))\<rparr>)"

text \<open>\<open>newEncoder\<close>: on an error an answer is given up, a notification waits and tries again.\<close>

definition open_writer :: "nat \<Rightarrow> write_job \<Rightarrow> wstate \<Rightarrow> wstate" where
  "open_writer t j s =
     (let k = current s; s1 = end_previous k s in
      if broken s1 k then
        at t (case j of Answer m \<Rightarrow> Idle | Notification pid m \<Rightarrow> Locking j) (s1\<lparr>mx := None\<rparr>)
      else
        at t (Writing j k (job_text j) False)
          (s1\<lparr>writer := (writer s1)(k := Some t), buffer := (buffer s1)(k := '''')\<rparr>))"

definition write_chunk :: "nat \<Rightarrow> write_job \<Rightarrow> nat \<Rightarrow> string \<Rightarrow> nat \<Rightarrow> bool \<Rightarrow> wstate \<Rightarrow> wstate" where
  "write_chunk t j k rest n sent s =
     (if writer s k \<noteq> Some t then at t (Writing j k rest True) s
      else if sent then
        at t (Writing j k (drop n rest) False) (s\<lparr>buffer := (buffer s)(k := buffer s k @ take n rest)\<rparr>)
      else at t (Writing j k rest True) (s\<lparr>writer := (writer s)(k := None), broken := (broken s)(k := True)\<rparr>))"

text \<open>The error of \<open>closer.Close()\<close> is dropped.\<close>

definition close_writer :: "nat \<Rightarrow> write_job \<Rightarrow> nat \<Rightarrow> bool \<Rightarrow> bool \<Rightarrow> wstate \<Rightarrow> wstate" where
  "close_writer t j k err sent s =
     at t (Unlocking j err)
       (if writer s k \<noteq> Some t then s
        else if sent \<and> \<not> broken s k then
          s\<lparr>writer := (writer s)(k := None), frames := (frames s)(k := frames s k @ [buffer s k])\<rparr>
        else s\<lparr>writer := (writer s)(k := None), broken := (broken s)(k := True)\<rparr>)"

definition leave :: "write_job \<Rightarrow> wstate \<Rightarrow> wstate" where
  "leave j s = (case j of Answer m \<Rightarrow> s | Notification pid m \<Rightarrow> s\<lparr>sendL := (sendL s)(pid := None)\<rparr>)"

fun w_step :: "wevent \<Rightarrow> wstate \<Rightarrow> wstate option" where
  "w_step (Begin t j) s = (if wpc_of s t = Idle then Some (at t (Entering j) s) else None)"
| "w_step (Enter t) s =
     (case wpc_of s t of
        Entering (Answer m) \<Rightarrow> Some (at t (Locking (Answer m)) s)
      | Entering (Notification pid m) \<Rightarrow>
          if sendL s pid = None
          then Some (at t (Locking (Notification pid m)) (s\<lparr>sendL := (sendL s)(pid := Some t)\<rparr>)) else None
      | _ \<Rightarrow> None)"
| "w_step (Lock t) s =
     (case wpc_of s t of
        Locking j \<Rightarrow> if mx s = None then Some (at t (Encoding j) (s\<lparr>mx := Some t\<rparr>)) else None
      | _ \<Rightarrow> None)"
| "w_step (Open t) s = (case wpc_of s t of Encoding j \<Rightarrow> Some (open_writer t j s) | _ \<Rightarrow> None)"
| "w_step (Chunk t n sent) s =
     (case wpc_of s t of
        Writing j k rest err \<Rightarrow>
          if \<not> err \<and> rest \<noteq> '''' \<and> 0 < n then Some (write_chunk t j k rest n sent s) else None
      | _ \<Rightarrow> None)"
| "w_step (Close t sent) s =
     (case wpc_of s t of
        Writing j k rest err \<Rightarrow> if err \<or> rest = '''' then Some (close_writer t j k err sent s) else None
      | _ \<Rightarrow> None)"
| "w_step (Unlock t) s =
     (case wpc_of s t of
        Unlocking j err \<Rightarrow> Some (at t Idle (leave j (s\<lparr>mx := None, w_dead := err\<rparr>)))
      | _ \<Rightarrow> None)"
| "w_step (Breaks k) s = Some (s\<lparr>broken := (broken s)(k := True)\<rparr>)"
| "w_step Dialled_again s = Some (s\<lparr>current := Suc (current s)\<rparr>)"

text \<open>A panic ends the process.\<close>

fun w_run :: "wevent list \<Rightarrow> wstate \<Rightarrow> wstate option" where
  "w_run [] s = Some s"
| "w_run (e # es) s = (if w_dead s then None else Option.bind (w_step e s) (w_run es))"

section \<open>Invariant\<close>

fun holds_mx :: "wpc \<Rightarrow> bool" where
  "holds_mx (Encoding j) = True"
| "holds_mx (Writing j k rest err) = True"
| "holds_mx (Unlocking j err) = True"
| "holds_mx _ = False"

fun job_of :: "wpc \<Rightarrow> write_job option" where
  "job_of (Locking j) = Some j"
| "job_of (Encoding j) = Some j"
| "job_of (Writing j k rest err) = Some j"
| "job_of (Unlocking j err) = Some j"
| "job_of _ = None"

definition sends_for :: "string \<Rightarrow> wpc \<Rightarrow> bool" where
  "sends_for pid pc \<longleftrightarrow> (\<exists>m. job_of pc = Some (Notification pid m))"

text \<open>What holds of one goroutine and what it shares: the mutex is held exactly between taking and giving it
  back, a writer belongs to the goroutine that writes with it, a message being written has only its own
  bytes, and an encoder has an error only when its connection broke.\<close>

fun writes_well :: "wstate \<Rightarrow> wpc \<Rightarrow> bool" where
  "writes_well s (Writing j k rest err) =
     (if err then writer s k = None \<and> broken s k else buffer s k @ rest = job_text j)"
| "writes_well s (Unlocking j err) = (err \<longrightarrow> (\<exists>k. broken s k))"
| "writes_well s _ = True"

definition writes_on :: "nat \<Rightarrow> wpc \<Rightarrow> bool" where
  "writes_on k pc \<longleftrightarrow> (\<exists>j rest. pc = Writing j k rest False)"

definition pc_ok :: "wstate \<Rightarrow> nat \<Rightarrow> wpc \<Rightarrow> bool" where
  "pc_ok s t pc \<longleftrightarrow>
     (holds_mx pc \<longleftrightarrow> mx s = Some t)
   \<and> (\<forall>pid. sends_for pid pc \<longleftrightarrow> sendL s pid = Some t)
   \<and> (\<forall>k. writes_on k pc \<longleftrightarrow> writer s k = Some t)
   \<and> writes_well s pc"

definition w_inv :: "wstate \<Rightarrow> bool" where
  "w_inv s \<longleftrightarrow> (\<forall>t. pc_ok s t (wpc_of s t)) \<and> (w_dead s \<longrightarrow> (\<exists>k. broken s k))"

lemma sends_for_simps [simp]:
  "\<not> sends_for pid Idle" "\<not> sends_for pid (Entering j)"
  "sends_for pid (Locking j) \<longleftrightarrow> (\<exists>m. j = Notification pid m)"
  "sends_for pid (Encoding j) \<longleftrightarrow> (\<exists>m. j = Notification pid m)"
  "sends_for pid (Writing j k rest err) \<longleftrightarrow> (\<exists>m. j = Notification pid m)"
  "sends_for pid (Unlocking j err) \<longleftrightarrow> (\<exists>m. j = Notification pid m)"
  by (auto simp: sends_for_def)

lemma writes_on_simps [simp]:
  "\<not> writes_on k Idle" "\<not> writes_on k (Entering j)" "\<not> writes_on k (Locking j)" "\<not> writes_on k (Encoding j)"
  "writes_on k (Writing j k' rest err) \<longleftrightarrow> k' = k \<and> \<not> err" "\<not> writes_on k (Unlocking j err)"
  by (auto simp: writes_on_def)

lemma w_inv_init: "w_inv w_init"
  by (simp add: w_inv_def w_init_def pc_ok_def)

lemma w_inv_pc: "w_inv s \<Longrightarrow> wpc_of s t = pc \<Longrightarrow> pc_ok s t pc"
  by (auto simp: w_inv_def)

lemma pc_ok_elsewhere [simp]: "pc_ok (s\<lparr>wpc_of := f\<rparr>) u p = pc_ok s u p"
  by (cases p) (simp_all add: pc_ok_def)

lemma w_inv_at:
  assumes "w_inv s" and "pc_ok s' t pc"
    and "\<And>u. u \<noteq> t \<Longrightarrow> pc_ok s u (wpc_of s u) \<Longrightarrow> pc_ok s' u (wpc_of s u)"
    and "wpc_of s' = wpc_of s" and "w_dead s' \<Longrightarrow> \<exists>k. broken s' k"
  shows "w_inv (at t pc s')"
  using assms by (simp add: w_inv_def)

lemma w_inv_dead: "w_inv s \<Longrightarrow> w_dead s \<Longrightarrow> \<exists>k. broken s k"
  by (simp add: w_inv_def)

text \<open>While a goroutine holds the mutex, the others neither hold it nor write.\<close>

lemma others_idle:
  assumes "mx s = Some t" and "u \<noteq> t" and "pc_ok s u pc"
  shows "\<not> holds_mx pc" and "writes_well s' pc" and "writes_on k pc = False" and "writer s k \<noteq> Some u"
  using assms by (cases pc; auto simp: pc_ok_def)+

lemma no_writer:
  assumes "w_inv s" and "mx s = Some t" and "\<not> writes_on k (wpc_of s t)"
  shows "writer s k = None"
proof (cases "writer s k")
  case (Some u)
  with w_inv_pc [OF assms(1) refl, of u] assms(3) have "u \<noteq> t" by (auto simp: pc_ok_def)
  with others_idle(4) [OF assms(2) this w_inv_pc [OF assms(1) refl]] Some show ?thesis by blast
qed

lemma w_inv_begin: "w_inv s \<Longrightarrow> wpc_of s t = Idle \<Longrightarrow> w_inv (at t (Entering j) s)"
  by (rule w_inv_at) (auto simp: pc_ok_def dest: w_inv_pc w_inv_dead)

lemma w_inv_lock:
  assumes "w_inv s" and "wpc_of s t = Locking j" and "mx s = None"
  shows "w_inv (at t (Encoding j) (s\<lparr>mx := Some t\<rparr>))"
proof (rule w_inv_at [OF assms(1)])
  show "pc_ok (s\<lparr>mx := Some t\<rparr>) t (Encoding j)"
    using w_inv_pc [OF assms(1,2)] by (simp add: pc_ok_def)
  show "pc_ok (s\<lparr>mx := Some t\<rparr>) u (wpc_of s u)" if "u \<noteq> t" "pc_ok s u (wpc_of s u)" for u
    using that assms(3) by (cases "wpc_of s u") (auto simp: pc_ok_def)
qed (use w_inv_dead [OF assms(1)] in simp_all)

lemma w_inv_answer_enters:
  "w_inv s \<Longrightarrow> wpc_of s t = Entering (Answer m) \<Longrightarrow> w_inv (at t (Locking (Answer m)) s)"
  by (rule w_inv_at) (auto simp: pc_ok_def dest: w_inv_pc w_inv_dead)

lemma w_inv_notification_enters:
  assumes "w_inv s" and "wpc_of s t = Entering (Notification pid m)" and "sendL s pid = None"
  shows "w_inv (at t (Locking (Notification pid m)) (s\<lparr>sendL := (sendL s)(pid := Some t)\<rparr>))"
proof (rule w_inv_at [OF assms(1)])
  let ?s = "s\<lparr>sendL := (sendL s)(pid := Some t)\<rparr>"
  show "pc_ok ?s t (Locking (Notification pid m))"
    using w_inv_pc [OF assms(1,2)] by (simp add: pc_ok_def)
  show "pc_ok ?s u (wpc_of s u)" if "u \<noteq> t" "pc_ok s u (wpc_of s u)" for u
    using that assms(3) by (cases "wpc_of s u") (auto simp: pc_ok_def)
qed (use w_inv_dead [OF assms(1)] in simp_all)

text \<open>A step of the holder that leaves the locks alone.\<close>

lemma w_inv_holder:
  assumes "w_inv s" and "mx s = Some t" and "mx s' = Some t" and "sendL s' = sendL s" and "pc_ok s' t pc"
    and "\<And>k u. u \<noteq> t \<Longrightarrow> writer s' k \<noteq> Some u"
    and "wpc_of s' = wpc_of s" and "w_dead s' \<Longrightarrow> \<exists>k. broken s' k"
  shows "w_inv (at t pc s')"
proof (rule w_inv_at [OF assms(1,5) _ assms(7,8)])
  fix u
  assume u: "u \<noteq> t" "pc_ok s u (wpc_of s u)"
  with others_idle [OF assms(2) u] assms(3,4,6) show "pc_ok s' u (wpc_of s u)"
    by (simp add: pc_ok_def)
qed auto

lemma holder:
  "w_inv s \<Longrightarrow> wpc_of s t = pc \<Longrightarrow> holds_mx pc \<Longrightarrow> mx s = Some t"
  by (auto simp: pc_ok_def dest: w_inv_pc)

lemma end_previous_holder:
  assumes "w_inv s" and "wpc_of s t = Encoding j"
  shows "end_previous k s = s"
  using no_writer [OF assms(1) holder [OF assms]] assms(2) by (simp add: end_previous_def)

lemma w_inv_release:
  assumes "w_inv s" and "mx s = Some t" and "mx s' = None" and "sendL s' = sendL s" and "pc_ok s' t pc"
    and "writer s' = (\<lambda>_. None)" and "wpc_of s' = wpc_of s" and "w_dead s' \<Longrightarrow> \<exists>k. broken s' k"
  shows "w_inv (at t pc s')"
proof (rule w_inv_at [OF assms(1,5) _ assms(7,8)])
  fix u
  assume u: "u \<noteq> t" "pc_ok s u (wpc_of s u)"
  with others_idle [OF assms(2) u] assms(3,4,6) show "pc_ok s' u (wpc_of s u)"
    by (simp add: pc_ok_def)
qed auto

lemma w_inv_open:
  assumes "w_inv s" and "wpc_of s t = Encoding j"
  shows "w_inv (open_writer t j s)"
proof -
  have t: "mx s = Some t" using holder [OF assms] by simp
  have w: "writer s = (\<lambda>_. None)" using no_writer [OF assms(1) t] assms(2) by auto
  note pc = w_inv_pc [OF assms]
  show ?thesis
  proof (cases "broken s (current s)")
    case True
    show ?thesis
      unfolding open_writer_def Let_def end_previous_holder [OF assms] if_P [OF True]
      by (rule w_inv_release [OF assms(1) t]; cases j)
        (use pc t w w_inv_dead [OF assms(1)] in \<open>auto simp: pc_ok_def\<close>)
  next
    case False
    show ?thesis
      unfolding open_writer_def Let_def end_previous_holder [OF assms] if_not_P [OF False]
      by (rule w_inv_holder [OF assms(1) t])
        (use pc t w w_inv_dead [OF assms(1)] in \<open>auto simp: pc_ok_def\<close>)
  qed
qed

lemma w_inv_chunk:
  assumes "w_inv s" and "wpc_of s t = Writing j k rest False"
  shows "w_inv (write_chunk t j k rest n sent s)"
proof -
  have t: "mx s = Some t" using holder [OF assms] by simp
  note pc = w_inv_pc [OF assms]
  then have w: "writer s k' = Some u \<longleftrightarrow> k' = k \<and> u = t" for k' u
    using others_idle(4) [OF t _ w_inv_pc [OF assms(1) refl], of u k'] by (cases "u = t") (auto simp: pc_ok_def)
  then have w': "k' \<noteq> k \<Longrightarrow> writer s k' = None" for k' by (metis not_Some_eq)
  have k: "writer s k = Some t" by (simp add: w)
  show ?thesis
  proof (cases sent)
    case True
    then have "write_chunk t j k rest n sent s
        = at t (Writing j k (drop n rest) False) (s\<lparr>buffer := (buffer s)(k := buffer s k @ take n rest)\<rparr>)"
      by (simp add: write_chunk_def k)
    also have "w_inv \<dots>"
      by (rule w_inv_holder [OF assms(1) t])
        (use pc t w w_inv_dead [OF assms(1)] in \<open>auto simp: pc_ok_def\<close>)
    finally show ?thesis .
  next
    case False
    then have "write_chunk t j k rest n sent s
        = at t (Writing j k rest True) (s\<lparr>writer := (writer s)(k := None), broken := (broken s)(k := True)\<rparr>)"
      by (simp add: write_chunk_def k)
    also have "w_inv \<dots>"
      by (rule w_inv_holder [OF assms(1) t]) (use pc t w w' in \<open>auto simp: pc_ok_def\<close>)
    finally show ?thesis .
  qed
qed

lemma w_inv_close:
  assumes "w_inv s" and "wpc_of s t = Writing j k rest err"
  shows "w_inv (close_writer t j k err sent s)"
proof -
  have t: "mx s = Some t" using holder [OF assms] by simp
  note pc = w_inv_pc [OF assms]
  then have w: "writer s k' = Some u \<longleftrightarrow> k' = k \<and> u = t \<and> \<not> err" for k' u
    using others_idle(4) [OF t _ w_inv_pc [OF assms(1) refl], of u k'] by (cases "u = t") (auto simp: pc_ok_def)
  then have w': "k' \<noteq> k \<Longrightarrow> writer s k' = None" for k' by (metis not_Some_eq)
  have k: "writer s k = (if err then None else Some t)" using w by (metis not_Some_eq)
  obtain f b where c: "close_writer t j k err sent s
      = at t (Unlocking j err) (s\<lparr>writer := (writer s)(k := None), frames := f, broken := b\<rparr>)"
    "\<And>k'. broken s k' \<Longrightarrow> b k'"
  proof (cases err)
    case True
    then have "s\<lparr>writer := (writer s)(k := None), frames := frames s, broken := broken s\<rparr> = s"
      by (simp add: k fun_upd_idem)
    with True that [of "broken s" "frames s"] show ?thesis by (simp add: close_writer_def k)
  next
    case False
    then show ?thesis
      using that [of "broken s" "(frames s)(k := frames s k @ [buffer s k])"]
        that [of "(broken s)(k := True)" "frames s"]
      by (cases "sent \<and> \<not> broken s k") (simp_all add: close_writer_def k)
  qed
  have b: "broken s k' \<Longrightarrow> Ex b" for k' using c(2) by blast
  show ?thesis
    unfolding c(1)
    by (rule w_inv_holder [OF assms(1) t])
      (use pc t w w' c(2) w_inv_dead [OF assms(1)] in \<open>auto simp: pc_ok_def intro: b\<close>)
qed

lemma w_inv_unlock:
  assumes "w_inv s" and "wpc_of s t = Unlocking j err"
  shows "w_inv (at t Idle (leave j (s\<lparr>mx := None, w_dead := err\<rparr>)))"
proof -
  have t: "mx s = Some t" using holder [OF assms] by simp
  have w: "writer s = (\<lambda>_. None)" using no_writer [OF assms(1) t] assms(2) by auto
  note pc = w_inv_pc [OF assms]
  then have l: "sendL s pid = Some t \<longleftrightarrow> (\<exists>m. j = Notification pid m)" for pid
    by (simp add: pc_ok_def)
  let ?s = "leave j (s\<lparr>mx := None, w_dead := err\<rparr>)"
  have f: "mx ?s = None" "writer ?s = (\<lambda>_. None)" "wpc_of ?s = wpc_of s" "broken ?s = broken s" "w_dead ?s = err"
    using w by (cases j; simp add: leave_def)+
  have sl: "sendL ?s pid = Some u \<longleftrightarrow> u \<noteq> t \<and> sendL s pid = Some u" for pid u
    using l [of pid] by (cases j) (auto simp: leave_def)
  show ?thesis
  proof (rule w_inv_at [OF assms(1)])
    show "pc_ok ?s t Idle"
      by (simp add: pc_ok_def f sl)
    fix u
    assume u: "u \<noteq> t" "pc_ok s u (wpc_of s u)"
    with others_idle(1,2,3) [OF t u] show "pc_ok ?s u (wpc_of s u)"
      by (simp add: pc_ok_def f sl)
  next
    show "\<exists>k. broken ?s k" if "w_dead ?s"
      using pc that unfolding f by (simp add: pc_ok_def)
  qed (rule f)
qed

lemma w_inv_breaks:
  assumes "w_inv s"
  shows "w_inv (s\<lparr>broken := (broken s)(k := True)\<rparr>)"
proof -
  have "pc_ok (s\<lparr>broken := (broken s)(k := True)\<rparr>) t p" if "pc_ok s t p" for t p
    using that by (cases p) (auto simp: pc_ok_def)
  with assms show ?thesis by (auto simp: w_inv_def)
qed

lemma w_inv_redial: "w_inv s \<Longrightarrow> w_inv (s\<lparr>current := n\<rparr>)"
proof -
  have "pc_ok (s\<lparr>current := n\<rparr>) t p = pc_ok s t p" for t p
    by (cases p) (simp_all add: pc_ok_def)
  then show "w_inv s \<Longrightarrow> w_inv (s\<lparr>current := n\<rparr>)" by (simp add: w_inv_def)
qed

lemma w_inv_step: "w_inv s \<Longrightarrow> w_step e s = Some s' \<Longrightarrow> w_inv s'"
  by (cases e)
    (auto split: wpc.splits write_job.splits if_splits intro: w_inv_begin w_inv_answer_enters w_inv_notification_enters [simplified]
      w_inv_lock [simplified] w_inv_open w_inv_chunk w_inv_close w_inv_unlock [simplified] w_inv_breaks w_inv_redial)

lemma w_inv_run: "w_inv s \<Longrightarrow> w_run es s = Some s' \<Longrightarrow> w_inv s'"
  by (induction es arbitrary: s) (auto simp: bind_eq_Some_conv split: if_splits dest: w_inv_step)

section \<open>What the peer gets\<close>

text \<open>The abstract sender: a message goes to the peer in one step, whole, when its goroutine ends it.\<close>

definition step_sends :: "wevent \<Rightarrow> wstate \<Rightarrow> nat \<Rightarrow> string list" where
  "step_sends e s k =
     (case e of
        Close t sent \<Rightarrow>
          (case wpc_of s t of
             Writing j k' rest err \<Rightarrow> if k' = k \<and> \<not> err \<and> sent \<and> \<not> broken s k then [job_text j] else []
           | _ \<Rightarrow> [])
      | _ \<Rightarrow> [])"

fun delivered :: "wevent list \<Rightarrow> wstate \<Rightarrow> nat \<Rightarrow> string list" where
  "delivered [] s k = []"
| "delivered (e # es) s k =
     step_sends e s k @ (case w_step e s of None \<Rightarrow> [] | Some s' \<Rightarrow> delivered es s' k)"

lemma frames_write_chunk [simp]: "frames (write_chunk t j k rest n sent s) = frames s"
  by (simp add: write_chunk_def)

lemma frames_open:
  "w_inv s \<Longrightarrow> wpc_of s t = Encoding j \<Longrightarrow> frames (open_writer t j s) = frames s"
  by (simp add: open_writer_def Let_def end_previous_holder)

lemma frames_leave [simp]: "frames (leave j s) = frames s"
  by (cases j) (simp_all add: leave_def)

lemma frames_close:
  assumes "w_inv s" and "wpc_of s t = Writing j k rest err" and "err \<or> rest = ''''"
  shows "frames (close_writer t j k err sent s) k' = frames s k' @ step_sends (Close t sent) s k'"
  using w_inv_pc [OF assms(1,2)] assms(2,3)
  by (auto simp: close_writer_def step_sends_def pc_ok_def)

lemma frames_step:
  assumes "w_inv s" and "w_step e s = Some s'"
  shows "frames s' k = frames s k @ step_sends e s k"
proof (cases e)
  case (Close t sent)
  with assms(2) obtain j k' rest err where "wpc_of s t = Writing j k' rest err" "err \<or> rest = ''''"
    "s' = close_writer t j k' err sent s"
    by (auto split: wpc.splits if_splits)
  with frames_close [OF assms(1), of t j k' rest err sent k] Close show ?thesis by blast
qed (use assms in \<open>auto simp: step_sends_def frames_open split: wpc.splits write_job.splits if_splits\<close>)

lemma frames_run: "w_inv s \<Longrightarrow> w_run es s = Some s' \<Longrightarrow> frames s' k = frames s k @ delivered es s k"
proof (induction es arbitrary: s)
  case (Cons e es)
  then obtain s1 where s1: "w_step e s = Some s1" "w_run es s1 = Some s'"
    by (auto simp: bind_eq_Some_conv split: if_splits)
  with Cons.IH [OF w_inv_step [OF Cons.prems(1) s1(1)] s1(2)] frames_step [OF Cons.prems(1) s1(1)]
  show ?case by simp
qed simp

text \<open>A goroutine only ever works on a message it began with.\<close>

fun works_on :: "wpc \<Rightarrow> write_job option" where
  "works_on (Entering j) = Some j"
| "works_on pc = job_of pc"

lemma works_on_step:
  assumes "w_step e s = Some s'" and "works_on (wpc_of s' t) = Some j"
  shows "e = Begin t j \<or> works_on (wpc_of s t) = Some j"
  using assms
  by (cases e) (auto simp: open_writer_def Let_def end_previous_def write_chunk_def close_writer_def leave_def
      split: wpc.splits write_job.splits if_splits)

lemma works_on_run:
  "w_run es s = Some s' \<Longrightarrow> works_on (wpc_of s' t) = Some j \<Longrightarrow> Begin t j \<in> set es \<or> works_on (wpc_of s t) = Some j"
  by (induction es arbitrary: s) (auto simp: bind_eq_Some_conv split: if_splits dest: works_on_step)

lemma delivered_begun:
  "m \<in> set (delivered es s k) \<Longrightarrow> \<exists>t j. job_text j = m \<and> (Begin t j \<in> set es \<or> works_on (wpc_of s t) = Some j)"
proof (induction es arbitrary: s)
  case (Cons e es)
  show ?case
  proof (cases "m \<in> set (step_sends e s k)")
    case True
    then obtain t j k' rest where "wpc_of s t = Writing j k' rest False" "m = job_text j"
      by (auto simp: step_sends_def split: wevent.splits wpc.splits if_splits dest: sym [of "Writing j k r x" for j k r x])
    then show ?thesis by (intro exI [of _ t] exI [of _ j]) simp
  next
    case False
    with Cons.prems obtain s' where s': "w_step e s = Some s'" "m \<in> set (delivered es s' k)"
      by (cases "w_step e s") auto
    from Cons.IH [OF s'(2)] obtain t j where "job_text j = m"
      "Begin t j \<in> set es \<or> works_on (wpc_of s' t) = Some j" by blast
    with works_on_step [OF s'(1)] show ?thesis by fastforce
  qed
qed simp

text \<open>C9: Whatever the goroutines of a connector do and however they are interleaved, what the peer gets on a
  connection are whole messages, each ended by the goroutine that began it, in the order they were ended;
  and a writer fails only on a connection that broke, never because another goroutine ended its message.\<close>

theorem concurrent_messages_whole:
  assumes "w_run es w_init = Some s"
  shows "frames s k = delivered es w_init k
    \<and> (\<forall>m. m \<in> set (frames s k) \<longrightarrow> (\<exists>t j. Begin t j \<in> set es \<and> job_text j = m))
    \<and> (w_dead s \<longrightarrow> (\<exists>k. broken s k))"
proof -
  have f: "frames s k = delivered es w_init k"
    using frames_run [OF w_inv_init assms] by (simp add: w_init_def)
  have "\<exists>t j. Begin t j \<in> set es \<and> job_text j = m" if "m \<in> set (frames s k)" for m
    using delivered_begun [of m es w_init k] that by (auto simp: f w_init_def)
  with f w_inv_dead [OF w_inv_run [OF w_inv_init assms]] show ?thesis by blast
qed

section \<open>The mutex is given back\<close>

fun goroutine :: "wevent \<Rightarrow> nat option" where
  "goroutine (Begin t j) = Some t"
| "goroutine (Enter t) = Some t"
| "goroutine (Lock t) = Some t"
| "goroutine (Open t) = Some t"
| "goroutine (Chunk t n sent) = Some t"
| "goroutine (Close t sent) = Some t"
| "goroutine (Unlock t) = Some t"
| "goroutine (Breaks k) = None"
| "goroutine Dialled_again = None"

definition gives_back :: "nat \<Rightarrow> wstate \<Rightarrow> bool" where
  "gives_back t s \<longleftrightarrow> (\<exists>es s'. w_run es s = Some s' \<and> mx s' = None \<and> (\<forall>e \<in> set es. goroutine e = Some t))"

lemma gives_back_step:
  assumes "\<not> w_dead s" and "w_step e s = Some s1" and "goroutine e = Some t" and "gives_back t s1"
  shows "gives_back t s"
proof -
  from assms(4) obtain es s' where "w_run es s1 = Some s'" "mx s' = None" "\<forall>e \<in> set es. goroutine e = Some t"
    by (auto simp: gives_back_def)
  with assms(1-3) show ?thesis unfolding gives_back_def
    by (intro exI [of _ "e # es"] exI [of _ s']) auto
qed

lemma unlocking_gives_back:
  assumes "\<not> w_dead s" and "wpc_of s t = Unlocking j err"
  shows "gives_back t s"
proof -
  have "mx (at t Idle (leave j (s\<lparr>mx := None, w_dead := err\<rparr>))) = None"
    by (cases j) (simp_all add: leave_def)
  with assms show ?thesis unfolding gives_back_def
    by (intro exI [of _ "[Unlock t]"]) auto
qed

lemma writing_gives_back:
  assumes "\<not> w_dead s" and "wpc_of s t = Writing j k rest err"
  shows "gives_back t s"
proof -
  have closing: "gives_back t u" if "\<not> w_dead u" "wpc_of u t = Writing j k r x" "x \<or> r = ''''" for u r x
  proof (rule gives_back_step [OF that(1)])
    show "w_step (Close t True) u = Some (close_writer t j k x True u)" using that by simp
    show "gives_back t (close_writer t j k x True u)"
      by (rule unlocking_gives_back [where j = j and err = x])
        (use that(1) in \<open>simp_all add: close_writer_def\<close>)
  qed simp
  show ?thesis
  proof (cases "err \<or> rest = ''''")
    case True
    with closing [OF assms] show ?thesis by blast
  next
    case False
    show ?thesis
    proof (rule gives_back_step [OF assms(1)])
      show "w_step (Chunk t (length rest) True) s = Some (write_chunk t j k rest (length rest) True s)"
        using False assms(2) by simp
      show "gives_back t (write_chunk t j k rest (length rest) True s)"
        by (cases "writer s k = Some t"; rule closing)
          (use assms(1) in \<open>auto simp: write_chunk_def\<close>)
    qed simp
  qed
qed

text \<open>Whoever holds the mutex can give it back by its own steps, without waiting for anybody: neither a
  connection that broke nor a goroutine that waits for its process keeps the others from writing.\<close>

theorem mutex_given_back:
  assumes "w_run es w_init = Some s" and "mx s = Some t" and "\<not> w_dead s"
  shows "\<exists>es' s'. w_run es' s = Some s' \<and> mx s' = None \<and> (\<forall>e \<in> set es'. goroutine e = Some t)"
proof -
  have i: "w_inv s" by (rule w_inv_run [OF w_inv_init assms(1)])
  have h: "holds_mx (wpc_of s t)" using w_inv_pc [OF i refl, of t] assms(2) by (simp add: pc_ok_def)
  have "gives_back t s"
  proof (cases "wpc_of s t")
    case (Encoding j)
    show ?thesis
    proof (rule gives_back_step [OF assms(3)])
      show "w_step (Open t) s = Some (open_writer t j s)" using Encoding by simp
      show "gives_back t (open_writer t j s)"
      proof (cases "broken s (current s)")
        case True
        then show ?thesis unfolding gives_back_def
          by (intro exI [of _ "[]"]) (simp add: open_writer_def Let_def end_previous_holder [OF i Encoding])
      next
        case False
        show ?thesis
          by (rule writing_gives_back [where j = j and k = "current s" and rest = "job_text j" and err = False])
            (use False assms(3) in \<open>simp_all add: open_writer_def Let_def end_previous_holder [OF i Encoding]\<close>)
      qed
    qed simp
  qed (use h assms(3) in \<open>auto intro: writing_gives_back unlocking_gives_back\<close>)
  then show ?thesis by (simp add: gives_back_def)
qed

text \<open>The error of the last frame is dropped: a notification whose text is in the buffer when the connection
  is lost is not sent again, although \<open>Send\<close> retries, and its sender goes on as if it were sent.\<close>

theorem close_error_loses_notification:
  assumes "w_run es w_init = Some s" and "\<not> w_dead s"
    and "wpc_of s t = Writing (Notification pid m) k '''' False"
  shows "\<exists>s'. w_run [Close t False, Unlock t] s = Some s' \<and> frames s' = frames s \<and> wpc_of s' t = Idle
    \<and> sendL s' pid = None \<and> \<not> w_dead s'"
proof -
  have "writer s k = Some t"
    using w_inv_pc [OF w_inv_run [OF w_inv_init assms(1)] assms(3)] by (auto simp: pc_ok_def)
  with assms(2,3) show ?thesis by (simp add: close_writer_def leave_def)
qed

section \<open>Witnesses\<close>

text \<open>An answer and a notification: the second waits until the first has given the mutex back.\<close>

definition example_writers :: "wevent list" where
  "example_writers = [Begin 0 (Answer ''ab''), Begin 1 (Notification ''p'' ''xy''), Enter 0, Enter 1, Lock 0,
     Open 0, Chunk 0 1 True, Chunk 0 9 True, Close 0 True, Unlock 0, Lock 1, Open 1, Chunk 1 2 True]"

lemma example_writers_run:
  "\<exists>s. w_run example_writers w_init = Some s \<and> mx s = Some 1 \<and> \<not> w_dead s \<and> frames s 0 = [''ab'']
    \<and> wpc_of s 1 = Writing (Notification ''p'' ''xy'') 0 '''' False"
  by (simp add: example_writers_def w_init_def open_writer_def end_previous_def write_chunk_def close_writer_def
      leave_def Let_def)

lemma concurrent_messages_whole_witness:
  "\<exists>s. w_run example_writers w_init = Some s \<and> frames s 0 = [''ab''] \<and> delivered example_writers w_init 0 = [''ab'']
    \<and> (w_run (example_writers @ [Lock 0]) w_init = None)"
proof -
  obtain s where s: "w_run example_writers w_init = Some s" "frames s 0 = [''ab'']"
    using example_writers_run by blast
  moreover have "delivered example_writers w_init 0 = [''ab'']"
    using concurrent_messages_whole [OF s(1), of 0] s(2) by simp
  moreover have "w_run (example_writers @ [Lock 0]) w_init = None"
    by (simp add: example_writers_def w_init_def open_writer_def end_previous_def write_chunk_def close_writer_def
        leave_def Let_def)
  ultimately show ?thesis by blast
qed

lemma mutex_given_back_witness:
  "\<exists>s es' s'. w_run example_writers w_init = Some s \<and> mx s = Some 1 \<and> w_run es' s = Some s' \<and> mx s' = None"
proof -
  obtain s where s: "w_run example_writers w_init = Some s" "mx s = Some 1" "\<not> w_dead s"
    using example_writers_run by blast
  with mutex_given_back [OF s] show ?thesis by blast
qed

lemma close_error_loses_notification_witness:
  "\<exists>s s'. w_run example_writers w_init = Some s \<and> w_run [Close 1 False, Unlock 1] s = Some s'
    \<and> frames s' 0 = [''ab''] \<and> wpc_of s' 1 = Idle"
proof -
  obtain s where s: "w_run example_writers w_init = Some s" "\<not> w_dead s" "frames s 0 = [''ab'']"
    "wpc_of s 1 = Writing (Notification ''p'' ''xy'') 0 '''' False"
    using example_writers_run by blast
  with close_error_loses_notification [OF s(1,2,4)] show ?thesis by fastforce
qed

end
