(* ===== verification/Rpc_Template.thy ===== *)
theory Rpc_Template
  imports Objx Edge_Prelude
begin

text \<open>
  The payload template of the core (\<open>fillTemplate\<close> in \<open>internal/app/core/rpc/interceptor.go\<close>):
  every \<open>{{ object.config.x }}\<close> is replaced by the configured string. The code works in
  place on a byte slice: its array, which the caller keeps, is part of the model. \<open>newcap\<close> gives
  the capacity \<open>append\<close> allocates when an array is full. The recursion scans the whole text again
  after each replacement and need not end, so the function is partial.
\<close>

section \<open>The lookup of a placeholder\<close>

definition template_value :: "gval \<Rightarrow> string \<Rightarrow> string" where
  "template_value cfg name =
     Str (Get cfg (replace_all (trim_set name '' {}'') ''object.config.'' ''''))"

section \<open>Arrays\<close>

text \<open>\<open>copy\<close> of a text into an array at a position, and \<open>append\<close> to the slice of length \<open>n\<close>: in
  place while the capacity lasts. The flag says that a new array was made.\<close>

definition overwrite :: "string \<Rightarrow> nat \<Rightarrow> string \<Rightarrow> string" where
  "overwrite buf i xs = take i buf @ xs @ drop (i + length xs) buf"

definition append_bytes :: "(nat \<Rightarrow> nat \<Rightarrow> nat) \<Rightarrow> string \<Rightarrow> nat \<Rightarrow> string \<Rightarrow> string \<times> bool" where
  "append_bytes newcap buf n xs =
     (if n + length xs \<le> length buf then (overwrite buf n xs, False)
      else (take n buf @ xs @ replicate (newcap (length buf) (n + length xs) - (n + length xs)) (CHR 0x00),
            True))"

definition sub :: "nat \<Rightarrow> nat \<Rightarrow> string \<Rightarrow> string" where
  "sub i j buf = take (j - i) (drop i buf)"

section \<open>The function\<close>

text \<open>\<open>orig\<close> is the caller's array, \<open>moved\<close> the array the slice lies in once it was reallocated,
  \<open>n\<close> the length of the slice. The result is the text or an error, whether a placeholder was
  found, and the caller's array afterwards.\<close>

type_synonym template_result = "(string, string) go \<times> bool \<times> string"

text \<open>The body up to the recursive call: a result, or the arguments of the call.\<close>

datatype template_step = Done template_result | Next string "string option" nat

definition template_step ::
  "gval \<Rightarrow> (nat \<Rightarrow> nat \<Rightarrow> nat) \<Rightarrow> string \<Rightarrow> string option \<Rightarrow> nat \<Rightarrow> template_step" where
  "template_step cfg newcap orig moved n =
     (let buf = (case moved of None \<Rightarrow> orig | Some b \<Rightarrow> b); data = take n buf in
      case index_of data ''{{'' of
        None \<Rightarrow> Done (Ok data, False, orig)
      | Some begin \<Rightarrow>
          (case index_of (drop begin data) ''}}'' of
             None \<Rightarrow> Done (Err ''begin found but end not found'', False, orig)
           | Some e \<Rightarrow>
               let end = begin + e + 2; beforeLen = e + 2;
                   name = template_value cfg (sub begin end data); finLen = length name in
               if finLen \<le> beforeLen then
                 let buf1 = overwrite buf begin name;
                     buf2 = overwrite buf1 (begin + finLen) (sub end n buf1);
                     n' = n - (beforeLen - finLen)
                 in (case moved of None \<Rightarrow> Next buf2 None n' | Some _ \<Rightarrow> Next orig (Some buf2) n')
               else
                 let (buf1, new1) = append_bytes newcap buf begin name;
                     own1 = (moved = None \<and> \<not> new1);
                     orig1 = (if own1 then buf1 else orig);
                     after = sub end n (if new1 then buf else buf1);
                     n1 = begin + finLen;
                     (buf2, new2) = append_bytes newcap buf1 n1 after
                 in if own1 \<and> \<not> new2 then Next buf2 None (n1 + length after)
                    else Next orig1 (Some buf2) (n1 + length after)))"

partial_function (option) template_loop ::
  "gval \<Rightarrow> (nat \<Rightarrow> nat \<Rightarrow> nat) \<Rightarrow> string \<Rightarrow> string option \<Rightarrow> nat \<Rightarrow> template_result option" where
  "template_loop cfg newcap orig moved n =
     (case template_step cfg newcap orig moved n of
        Done r \<Rightarrow> Some r
      | Next orig' moved' n' \<Rightarrow>
          Option.bind (template_loop cfg newcap orig' moved' n') (\<lambda>r. Some (fst r, True, snd (snd r))))"

text \<open>\<open>fillTemplate\<close> on a slice of length \<open>n\<close> at the start of the array \<open>arr\<close>.\<close>

definition fillTemplate ::
  "gval \<Rightarrow> (nat \<Rightarrow> nat \<Rightarrow> nat) \<Rightarrow> string \<Rightarrow> nat \<Rightarrow> template_result option" where
  "fillTemplate cfg newcap arr n = template_loop cfg newcap arr None n"

section \<open>Substitution on texts\<close>

text \<open>What the function is for: the same replacement on texts, without arrays.\<close>

definition subst_step :: "gval \<Rightarrow> string \<Rightarrow> (string, string) go + string" where
  "subst_step cfg s =
     (case index_of s ''{{'' of
        None \<Rightarrow> Inl (Ok s)
      | Some begin \<Rightarrow>
          (case index_of (drop begin s) ''}}'' of
             None \<Rightarrow> Inl (Err ''begin found but end not found'')
           | Some e \<Rightarrow>
               Inr (take begin s @ template_value cfg (sub begin (begin + e + 2) s)
                    @ drop (begin + e + 2) s)))"

partial_function (option) subst_all :: "gval \<Rightarrow> string \<Rightarrow> (string, string) go option" where
  "subst_all cfg s =
     (case subst_step cfg s of Inl r \<Rightarrow> Some r | Inr s' \<Rightarrow> subst_all cfg s')"

lemma index_of_bound: "index_of s p = Some i \<Longrightarrow> i + length p \<le> length s"
  using index_of_prefix_eq by blast

lemma take_overwrite [simp]:
  "i \<le> length buf \<Longrightarrow> take i (overwrite buf i xs) = take i buf"
  by (simp add: overwrite_def)

lemma take_overwrite_end: "i \<le> length buf \<Longrightarrow> take (i + length xs) (overwrite buf i xs) = take i buf @ xs"
  by (simp add: overwrite_def)

lemma length_overwrite [simp]:
  "i + length xs \<le> length buf \<Longrightarrow> length (overwrite buf i xs) = length buf"
  by (simp add: overwrite_def)

text \<open>The shrinking step on the array is the replacement on the text.\<close>

lemma shrink_step:
  assumes "n \<le> length buf" and "b + e + 2 \<le> n" and "length v \<le> e + 2"
  shows "take (n - (e + 2 - length v))
      (overwrite (overwrite buf b v) (b + length v) (sub (b + e + 2) n (overwrite buf b v)))
    = take b (take n buf) @ v @ drop (b + e + 2) (take n buf)"
proof -
  have s: "sub (b + e + 2) n (overwrite buf b v) = drop (b + e + 2) (take n buf)"
  proof -
    have "drop (b + e + 2) (overwrite buf b v) = drop (b + e + 2) buf"
      using assms by (simp add: overwrite_def drop_append add.commute)
    then show ?thesis by (simp add: sub_def drop_take)
  qed
  have l: "n - (e + 2 - length v) = b + length v + length (drop (b + e + 2) (take n buf))"
    using assms by simp
  have "b + length v \<le> length (overwrite buf b v)" using assms by (simp add: overwrite_def)
  from take_overwrite_end [OF this, of "drop (b + e + 2) (take n buf)"] assms
  show ?thesis unfolding s l by (simp add: overwrite_def)
qed

section \<open>Simulation\<close>

text \<open>Configured strings that hold no opening brace, and that fit into their placeholders.\<close>

definition plain_values :: "gval \<Rightarrow> bool" where
  "plain_values cfg \<longleftrightarrow> (\<forall>p. CHR ''{'' \<notin> set (template_value cfg p))"

definition short_values :: "gval \<Rightarrow> bool" where
  "short_values cfg \<longleftrightarrow> (\<forall>p. has_prefix p ''{{'' \<longrightarrow> length (template_value cfg p) \<le> length p)"

definition braces :: "string \<Rightarrow> nat" where
  "braces s = length (filter (\<lambda>c. c = CHR ''{'') s)"

lemma braces_append [simp]: "braces (a @ b) = braces a + braces b"
  by (simp add: braces_def)

lemma braces_zero: "CHR ''{'' \<notin> set s \<Longrightarrow> braces s = 0"
  by (auto simp: braces_def filter_empty_conv)

lemma found:
  assumes "index_of s ''{{'' = Some b" and "index_of (drop b s) ''}}'' = Some e"
  shows "b + e + 2 \<le> length s" and "has_prefix (sub b (b + e + 2) s) ''{{''"
    and "length (sub b (b + e + 2) s) = e + 2" and "2 \<le> braces (sub b (b + e + 2) s)"
    and "s = take b s @ sub b (b + e + 2) s @ drop (b + e + 2) s"
proof -
  have b: "b + 2 \<le> length s" "take 2 (drop b s) = ''{{''"
    using index_of_prefix_eq [OF assms(1)] by (simp_all add: numeral_2_eq_2)
  have e: "e + 2 \<le> length (drop b s)" "take 2 (drop e (drop b s)) = ''}}''"
    using index_of_prefix_eq [OF assms(2)] by (simp_all add: numeral_2_eq_2)
  show l: "b + e + 2 \<le> length s" using e(1) b(1) by simp
  have t: "take 2 (sub b (b + e + 2) s) = ''{{''"
    using b(2) by (simp add: sub_def min_def)
  then show "has_prefix (sub b (b + e + 2) s) ''{{''"
    by (simp add: has_prefix_def numeral_2_eq_2)
  show "length (sub b (b + e + 2) s) = e + 2" using l by (simp add: sub_def)
  have "sub b (b + e + 2) s = ''{{'' @ drop 2 (sub b (b + e + 2) s)"
    using t append_take_drop_id [of 2 "sub b (b + e + 2) s"] by simp
  then have "braces (sub b (b + e + 2) s) = braces ''{{'' + braces (drop 2 (sub b (b + e + 2) s))"
    by (metis braces_append)
  then show "2 \<le> braces (sub b (b + e + 2) s)" by (simp add: braces_def)
  have "sub b (b + e + 2) s = take (e + 2) (drop b s)" by (simp add: sub_def)
  then have "drop b s = sub b (b + e + 2) s @ drop (e + 2) (drop b s)"
    by (simp only: append_take_drop_id)
  then show "s = take b s @ sub b (b + e + 2) s @ drop (b + e + 2) s"
    by (metis append_take_drop_id drop_drop add.commute add.assoc)
qed

lemma subst_step_braces:
  assumes "plain_values cfg" and "subst_step cfg s = Inr s'"
  shows "braces s' < braces s"
proof -
  obtain b e where f: "index_of s ''{{'' = Some b" "index_of (drop b s) ''}}'' = Some e"
    and s': "s' = take b s @ template_value cfg (sub b (b + e + 2) s) @ drop (b + e + 2) s"
    using assms(2) by (auto simp: subst_step_def split: option.splits)
  have "braces s = braces (take b s) + braces (sub b (b + e + 2) s) + braces (drop (b + e + 2) s)"
    using found(5) [OF f] by (metis braces_append add.assoc)
  moreover have "braces (template_value cfg (sub b (b + e + 2) s)) = 0"
    using assms(1) by (simp add: plain_values_def braces_zero)
  ultimately show ?thesis using found(4) [OF f] by (simp add: s')
qed

lemma subst_all_total:
  assumes "plain_values cfg"
  shows "\<exists>r. subst_all cfg s = Some r \<and> (\<forall>t. r = Ok t \<longrightarrow> index_of t ''{{'' = None)"
proof (induction "braces s" arbitrary: s rule: less_induct)
  case less
  show ?case
  proof (cases "subst_step cfg s")
    case (Inl r)
    then have "\<forall>t. r = Ok t \<longrightarrow> index_of t ''{{'' = None"
      by (auto simp: subst_step_def split: option.splits)
    with Inl show ?thesis by (subst subst_all.simps) simp
  next
    case (Inr s')
    from less [OF subst_step_braces [OF assms Inr]] Inr show ?thesis
      by (subst subst_all.simps) simp
  qed
qed

lemma template_step_sim:
  assumes "short_values cfg" and "n \<le> length buf"
  shows "case subst_step cfg (take n buf) of
      Inl r \<Rightarrow> template_step cfg newcap buf None n = Done (r, False, buf)
    | Inr s' \<Rightarrow> \<exists>buf' n'. template_step cfg newcap buf None n = Next buf' None n'
         \<and> take n' buf' = s' \<and> n' \<le> length buf' \<and> length buf' = length buf"
proof (cases "index_of (take n buf) ''{{''")
  case None
  then show ?thesis by (simp add: subst_step_def template_step_def Let_def)
next
  case (Some b)
  note b = Some
  show ?thesis
  proof (cases "index_of (drop b (take n buf)) ''}}''")
    case None
    then show ?thesis using b by (simp add: subst_step_def template_step_def Let_def)
  next
    case (Some e)
    let ?v = "template_value cfg (sub b (b + e + 2) (take n buf))"
    note f = found [OF b Some]
    have fit: "length ?v \<le> e + 2"
      using assms(1) f(2,3) by (metis short_values_def)
    have le: "b + e + 2 \<le> n" using f(1) by simp
    let ?b1 = "overwrite buf b ?v"
    let ?b2 = "overwrite ?b1 (b + length ?v) (sub (b + e + 2) n ?b1)"
    have st: "template_step cfg newcap buf None n = Next ?b2 None (n - (e + 2 - length ?v))"
      using b Some fit by (simp add: template_step_def Let_def)
    have ss: "subst_step cfg (take n buf)
        = Inr (take b (take n buf) @ ?v @ drop (b + e + 2) (take n buf))"
      using b Some by (simp add: subst_step_def)
    have l1: "length ?b1 = length buf" using assms(2) le fit by simp
    have l2: "length ?b2 = length buf"
      using l1 le fit assms(2) by (subst length_overwrite) (auto simp: sub_def)
    have "take (n - (e + 2 - length ?v)) ?b2 = take b (take n buf) @ ?v @ drop (b + e + 2) (take n buf)"
      by (rule shrink_step [OF assms(2) le fit])
    with st ss l2 assms(2) show ?thesis by auto
  qed
qed

lemma template_loop_sim:
  assumes "plain_values cfg" and "short_values cfg" and "n \<le> length buf"
  shows "\<exists>r c buf'. template_loop cfg newcap buf None n = Some (r, c, buf')
     \<and> subst_all cfg (take n buf) = Some r \<and> length buf' = length buf"
  using assms(3)
proof (induction "braces (take n buf)" arbitrary: n buf rule: less_induct)
  case less
  note sim = template_step_sim [OF assms(2) less.prems, of newcap]
  show ?case
  proof (cases "subst_step cfg (take n buf)")
    case (Inl r)
    then have "template_loop cfg newcap buf None n = Some (r, False, buf)"
      using sim by (subst template_loop.simps) simp
    moreover have "subst_all cfg (take n buf) = Some r"
      using Inl by (subst subst_all.simps) simp
    ultimately show ?thesis by blast
  next
    case (Inr s')
    then obtain buf' n' where st: "template_step cfg newcap buf None n = Next buf' None n'"
      and t: "take n' buf' = s'" and l: "n' \<le> length buf'" "length buf' = length buf"
      using sim by auto
    have "braces (take n' buf') < braces (take n buf)"
      using subst_step_braces [OF assms(1) Inr] t by simp
    from less.hyps [OF this l(1)] obtain r c b where
      "template_loop cfg newcap buf' None n' = Some (r, c, b)" "subst_all cfg s' = Some r"
      "length b = length buf'"
      using t by auto
    moreover from this have "template_loop cfg newcap buf None n = Some (r, True, b)"
      using st by (subst template_loop.simps) simp
    moreover have "subst_all cfg (take n buf) = Some r"
      using Inr calculation(2) by (subst subst_all.simps) simp
    ultimately show ?thesis using l by auto
  qed
qed

section \<open>One placeholder\<close>

text \<open>A text that starts with a placeholder for the key \<open>k\<close>, and what is looked up for it.\<close>

definition placeholder :: "string \<Rightarrow> string" where
  "placeholder k = ''{{'' @ k @ ''}}''"

definition plain_key :: "string \<Rightarrow> bool" where
  "plain_key k \<longleftrightarrow> k \<noteq> [] \<and> (\<forall>c \<in> set k. c \<noteq> CHR '' '' \<and> c \<noteq> CHR ''{'' \<and> c \<noteq> CHR ''}'')"

lemma length_placeholder [simp]: "length (placeholder k) = length k + 4"
  by (simp add: placeholder_def)

lemma trim_placeholder:
  assumes "plain_key k"
  shows "trim_set (placeholder k) '' {}'' = k"
proof -
  have d: "dropWhile (\<lambda>c. c \<in> set '' {}'') (k @ r) = k @ r" for r
    using assms by (cases k) (auto simp: plain_key_def)
  have e: "dropWhile (\<lambda>c. c \<in> set '' {}'') (rev k) = rev k"
    using assms by (cases k rule: rev_cases) (auto simp: plain_key_def)
  have "dropWhile (\<lambda>c. c \<in> set '' {}'') (placeholder k) = k @ ''}}''"
    using d [of "''}}''"] by (simp add: placeholder_def)
  then show ?thesis using e by (simp add: trim_set_def)
qed

lemma index_of_close: "CHR ''}'' \<notin> set a \<Longrightarrow> index_of (a @ ''}}'' @ r) ''}}'' = Some (length a)"
  by (induction a) (auto simp: has_prefix_def)

lemma index_of_no_brace: "CHR ''{'' \<notin> set s \<Longrightarrow> index_of s ''{{'' = None"
  by (auto simp: index_of_None_iff)

lemma placeholder_found:
  assumes "plain_key k"
  shows "index_of (placeholder k @ r) ''{{'' = Some 0"
    and "index_of (placeholder k @ r) ''}}'' = Some (length k + 2)"
proof -
  show "index_of (placeholder k @ r) ''{{'' = Some 0"
    by (simp add: placeholder_def has_prefix_def)
  have "CHR ''}'' \<notin> set (''{{'' @ k)" using assms by (auto simp: plain_key_def)
  from index_of_close [OF this, of r]
  show "index_of (placeholder k @ r) ''}}'' = Some (length k + 2)" by (simp add: placeholder_def)
qed

lemma template_value_key:
  assumes "plain_key k" and "Get cfg (replace_all k ''object.config.'' '''') = GStr v"
  shows "template_value cfg (placeholder k) = v"
  using assms by (simp add: template_value_def trim_placeholder)

lemma sub_placeholder:
  "sub 0 (Suc (Suc (Suc (Suc (length k))))) (placeholder k @ r) = placeholder k"
  by (simp add: sub_def placeholder_def)

text \<open>The step on such a text, for a value that fits and for one that does not.\<close>

lemma step_found:
  assumes "plain_key k" and "Get cfg (replace_all k ''object.config.'' '''') = GStr v"
  shows "template_step cfg newcap (placeholder k @ r) None (length (placeholder k @ r)) =
    (let n = length (placeholder k @ r); beforeLen = length k + 4; buf = placeholder k @ r in
     if length v \<le> beforeLen then
       Next (overwrite (overwrite buf 0 v) (length v) (sub beforeLen n (overwrite buf 0 v))) None
         (n - (beforeLen - length v))
     else
       let (buf1, new1) = append_bytes newcap buf 0 v;
           own1 = (\<not> new1);
           orig1 = (if own1 then buf1 else buf);
           after = sub beforeLen n (if new1 then buf else buf1);
           (buf2, new2) = append_bytes newcap buf1 (length v) after
       in if own1 \<and> \<not> new2 then Next buf2 None (length v + length after)
          else Next orig1 (Some buf2) (length v + length after))"
proof -
  have four: "length k + 4 = Suc (Suc (Suc (Suc (length k))))" by simp
  show ?thesis
    unfolding template_step_def
    using placeholder_found [OF assms(1), of r] template_value_key [OF assms]
    by (simp add: Let_def sub_placeholder four del: add_Suc_right)
qed

lemma step_fits:
  assumes "plain_key k" and "Get cfg (replace_all k ''object.config.'' '''') = GStr v"
    and "length v \<le> length k + 4"
  shows "template_step cfg newcap (placeholder k @ r) None (length (placeholder k @ r))
    = Next (v @ r @ drop (length v + length r) (placeholder k @ r)) None (length v + length r)"
proof -
  have b: "overwrite (overwrite (placeholder k @ r) 0 v) (length v)
      (sub (length k + 4) (length (placeholder k @ r)) (overwrite (placeholder k @ r) 0 v))
    = v @ r @ drop (length v + length r) (placeholder k @ r)"
    using assms(3) by (simp add: overwrite_def sub_def add.commute)
  show ?thesis
    unfolding step_found [OF assms(1,2)] Let_def b using assms(3) by simp
qed

lemma step_grows:
  assumes "plain_key k" and "Get cfg (replace_all k ''object.config.'' '''') = GStr v"
    and "length k + 4 < length v" and "length v \<le> length k + 4 + length r"
  shows "\<exists>pad. template_step cfg newcap (placeholder k @ r) None (length (placeholder k @ r))
    = Next (v @ drop (length v) (placeholder k @ r))
        (Some ((v @ drop (length k + 4) v @ drop (length v - (length k + 4)) r) @ pad))
        (length v + length r)"
  unfolding step_found [OF assms(1,2)] Let_def
  using assms(3,4)
  by (auto simp: append_bytes_def overwrite_def sub_def)

section \<open>Properties\<close>

text \<open>C10: when no configured string holds an opening brace and each fits into the placeholders it
  replaces, \<open>fillTemplate\<close> ends, gives exactly the text in which every placeholder is replaced,
  and leaves none behind.\<close>

theorem fillTemplate_substitutes:
  assumes "plain_values cfg" and "short_values cfg" and "n \<le> length arr"
  shows "\<exists>r c arr'. fillTemplate cfg newcap arr n = Some (r, c, arr')
     \<and> subst_all cfg (take n arr) = Some r \<and> (\<forall>t. r = Ok t \<longrightarrow> index_of t ''{{'' = None)"
  using template_loop_sim [OF assms] subst_all_total [OF assms(1), of "take n arr"]
  by (fastforce simp: fillTemplate_def)

lemma fillTemplate_substitutes_witness:
  "\<exists>r c arr'. fillTemplate (GMap []) (\<lambda>c n. n) ''{{x}}'' 5 = Some (r, c, arr')
     \<and> subst_all (GMap []) (take 5 ''{{x}}'') = Some r \<and> (\<forall>t. r = Ok t \<longrightarrow> index_of t ''{{'' = None)"
proof (rule fillTemplate_substitutes)
  have "c = GNil \<or> c = GMap [] \<Longrightarrow> access_get c s = GNil" for c s
  proof (induction "length s" arbitrary: c s rule: less_induct)
    case less
    then show ?case
      by (subst access_get.simps)
        (auto simp: at_index_def interSlice_def split: prod.splits option.splits)
  qed
  then have "template_value (GMap []) p = []" for p by (simp add: template_value_def Get_def)
  then show "plain_values (GMap [])" "short_values (GMap [])"
    by (simp_all add: plain_values_def short_values_def)
qed simp

text \<open>a value longer than its placeholder, but not longer than the text from there on, is written
  over the following text before that is moved: the result begins with the value, then repeats its
  tail in place of the first characters that should follow.\<close>

theorem long_value_overwrites_text:
  assumes "plain_key k" and "Get cfg (replace_all k ''object.config.'' '''') = GStr v"
    and "length k + 4 < length v" and "length v \<le> length k + 4 + length r"
    and "CHR ''{'' \<notin> set v" and "CHR ''{'' \<notin> set r"
  shows "\<exists>arr'. fillTemplate cfg newcap (placeholder k @ r) (length (placeholder k @ r))
      = Some (Ok (v @ drop (length k + 4) v @ drop (length v - (length k + 4)) r), True, arr')
    \<and> subst_all cfg (placeholder k @ r) = Some (Ok (v @ r))"
proof -
  let ?t = "v @ drop (length k + 4) v @ drop (length v - (length k + 4)) r"
  obtain pad where st: "template_step cfg newcap (placeholder k @ r) None (length (placeholder k @ r))
    = Next (v @ drop (length v) (placeholder k @ r)) (Some (?t @ pad)) (length v + length r)"
    using step_grows [OF assms(1-4)] by blast
  have l: "length ?t = length v + length r" using assms(3,4) by simp
  have nb: "index_of ?t ''{{'' = None"
    using assms(5,6) by (intro index_of_no_brace) (auto dest: in_set_dropD)
  have "template_loop cfg newcap o1 (Some (?t @ pad)) (length v + length r) = Some (Ok ?t, False, o1)" for o1
    using nb l by (subst template_loop.simps) (simp add: template_step_def Let_def)
  then have "fillTemplate cfg newcap (placeholder k @ r) (length (placeholder k @ r))
      = Some (Ok ?t, True, v @ drop (length v) (placeholder k @ r))"
    unfolding fillTemplate_def by (subst template_loop.simps) (simp only: st template_step.case, simp)
  moreover have "subst_all cfg (placeholder k @ r) = Some (Ok (v @ r))"
  proof -
    have "subst_step cfg (placeholder k @ r) = Inr (v @ r)"
      using placeholder_found [OF assms(1), of r] template_value_key [OF assms(1,2)]
      by (simp add: subst_step_def sub_placeholder)
    moreover have "subst_step cfg (v @ r) = Inl (Ok (v @ r))"
      using assms(5,6) by (simp add: subst_step_def index_of_no_brace)
    ultimately show ?thesis by (subst subst_all.simps, simp, subst subst_all.simps, simp)
  qed
  ultimately show ?thesis by blast
qed

lemma long_value_overwrites_text_witness:
  "\<exists>arr'. fillTemplate (GMap [(''x'', GStr ''longer'')]) (\<lambda>c n. n) (placeholder ''x'' @ '' tail'') 10
      = Some (Ok ''longerrtail'', True, arr')
    \<and> subst_all (GMap [(''x'', GStr ''longer'')]) (placeholder ''x'' @ '' tail'')
      = Some (Ok ''longer tail'')"
  using long_value_overwrites_text [of "''x''" "GMap [(''x'', GStr ''longer'')]" "''longer''" "'' tail''"
    "\<lambda>c n. n"]
  by (simp add: plain_key_def Get_key has_prefix_def)

text \<open>the replacement happens in the array of the caller. When a value is shorter than its
  placeholder, the array of a scheduled action keeps the moved text followed by a leftover of the old
  one, so the second run of the same action sends the leftover too.\<close>

theorem second_run_sends_leftover:
  assumes "plain_key k" and "Get cfg (replace_all k ''object.config.'' '''') = GStr v"
    and "length v < length k + 4" and "CHR ''{'' \<notin> set v" and "CHR ''{'' \<notin> set r"
    and "length k + 2 \<le> length v + length r"
  shows "\<exists>arr'. fillTemplate cfg newcap (placeholder k @ r) (length (placeholder k @ r))
        = Some (Ok (v @ r), True, arr')
      \<and> fillTemplate cfg newcap arr' (length (placeholder k @ r))
        = Some (Ok (v @ r @ drop (length v + length r) (placeholder k @ r)), False, arr')
      \<and> drop (length v + length r) (placeholder k @ r) \<noteq> []"
proof -
  let ?a = "placeholder k @ r"
  let ?l = "drop (length v + length r) ?a"
  have st: "template_step cfg newcap ?a None (length ?a) = Next (v @ r @ ?l) None (length v + length r)"
    using step_fits [OF assms(1,2)] assms(3) by simp
  have "set ?l \<subseteq> set (''}}'') \<union> set r"
  proof -
    have "placeholder k @ r = (''{{'' @ k) @ (''}}'' @ r)" by (simp add: placeholder_def)
    then have "?l = drop (length v + length r - length (''{{'' @ k)) (''}}'' @ r)"
      using assms(6) by (simp only: drop_append) simp
    then show ?thesis using set_drop_subset [of _ "''}}'' @ r"] by (metis set_append)
  qed
  then have nb: "CHR ''{'' \<notin> set (v @ r @ ?l)" using assms(4,5) by auto
  have l: "length (v @ r @ ?l) = length ?a" using assms(3) by simp
  have "template_loop cfg newcap (v @ r @ ?l) None (length v + length r)
      = Some (Ok (v @ r), False, v @ r @ ?l)"
    using nb by (subst template_loop.simps) (simp add: template_step_def Let_def index_of_no_brace)
  then have one: "fillTemplate cfg newcap ?a (length ?a) = Some (Ok (v @ r), True, v @ r @ ?l)"
    unfolding fillTemplate_def by (subst template_loop.simps) (simp only: st template_step.case, simp)
  have "index_of (v @ r @ ?l) ''{{'' = None" using nb by (rule index_of_no_brace)
  then have two: "fillTemplate cfg newcap (v @ r @ ?l) (length ?a) = Some (Ok (v @ r @ ?l), False, v @ r @ ?l)"
    unfolding fillTemplate_def l [symmetric]
    by (subst template_loop.simps) (simp add: template_step_def Let_def del: drop_append)
  have "length v + length r < length ?a" using assms(3) by simp
  then have "?l \<noteq> []" unfolding drop_eq_Nil by linarith
  with one two show ?thesis by blast
qed

lemma second_run_sends_leftover_witness:
  "\<exists>arr'. fillTemplate (GMap [(''x'', GStr ''v'')]) (\<lambda>c n. n) (placeholder ''x'' @ ''/abcd'')
          (length (placeholder ''x'' @ ''/abcd'')) = Some (Ok ''v/abcd'', True, arr')
      \<and> fillTemplate (GMap [(''x'', GStr ''v'')]) (\<lambda>c n. n) arr'
          (length (placeholder ''x'' @ ''/abcd'')) = Some (Ok ''v/abcdabcd'', False, arr')"
  using second_run_sends_leftover [of "''x''" "GMap [(''x'', GStr ''v'')]" "''v''" "''/abcd''" "\<lambda>c n. n"]
  by (simp add: plain_key_def Get_key has_prefix_def placeholder_def)

text \<open>a configured string that is its own placeholder makes the recursion endless.\<close>

theorem self_reference_never_ends:
  assumes "plain_key k" and "Get cfg (replace_all k ''object.config.'' '''') = GStr (placeholder k)"
  shows "fillTemplate cfg newcap (placeholder k @ r) (length (placeholder k @ r)) = None"
proof (rule ccontr)
  assume "\<not> ?thesis"
  then obtain res where "template_loop cfg newcap (placeholder k @ r) None (length (placeholder k @ r)) = Some res"
    by (auto simp: fillTemplate_def)
  moreover have "\<And>c nc a m n res. template_loop c nc a m n = Some res \<Longrightarrow>
      \<not> (c = cfg \<and> nc = newcap \<and> a = placeholder k @ r \<and> m = None \<and> n = length (placeholder k @ r))"
  proof -
    fix c nc a m n res'
    assume "template_loop c nc a m n = Some res'"
    then show "\<not> (c = cfg \<and> nc = newcap \<and> a = placeholder k @ r \<and> m = None \<and> n = length (placeholder k @ r))"
    proof (rule template_loop.raw_induct [rotated])
      fix loop c nc a m n x
      assume ih: "\<And>c nc a m n y. loop c nc a m n = Some y \<Longrightarrow>
          \<not> (c = cfg \<and> nc = newcap \<and> a = placeholder k @ r \<and> m = None \<and> n = length (placeholder k @ r))"
        and run: "(case template_step c nc a m n of Done r \<Rightarrow> Some r
          | Next orig' moved' n' \<Rightarrow>
              Option.bind (loop c nc orig' moved' n') (\<lambda>r. Some (fst r, True, snd (snd r)))) = Some x"
      show "\<not> (c = cfg \<and> nc = newcap \<and> a = placeholder k @ r \<and> m = None \<and> n = length (placeholder k @ r))"
      proof
        assume eq: "c = cfg \<and> nc = newcap \<and> a = placeholder k @ r \<and> m = None \<and> n = length (placeholder k @ r)"
        with step_fits [OF assms, of newcap r]
        have "template_step c nc a m n = Next a m n" by simp
        with run obtain y where "loop c nc a m n = Some y" by (auto simp: bind_eq_Some_conv)
        with ih eq show False by blast
      qed
    qed
  qed
  ultimately show False by blast
qed

lemma self_reference_never_ends_witness:
  "fillTemplate (GMap [(''x'', GStr ''{{x}}'')]) (\<lambda>c n. n) (placeholder ''x'' @ '' tail'')
     (length (placeholder ''x'' @ '' tail'')) = None"
  by (rule self_reference_never_ends) (simp_all add: plain_key_def Get_key has_prefix_def placeholder_def)

end
