(* ===== verification/Lua_Bridge.thy ===== *)
theory Lua_Bridge
  imports Objx Edge_Prelude
begin

text \<open>
  The scripts of the core (\<open>pkg/lua\<close>): the table of compiled functions, the conversion of
  values in both directions, the run of a function and the functions \<open>binary_to_num\<close>,
  \<open>num_to_binary\<close> and \<open>from_json\<close> offered to scripts. The interpreter, its compiler and the
  floating-point conversions of the machine are parameters; a float64 is its 64 bits. The
  interface the core relies on is the locale \<open>action_engine\<close>.
\<close>

section \<open>Values\<close>

text \<open>A table is its array part (with holes as nil) and its other entries, in the order in which
  \<open>ForEach\<close> visits them. \<open>LOther\<close> is a function, thread or channel.\<close>

datatype lval =
    LNil
  | LBool bool
  | LNumber "64 word"
  | LString string
  | LUserData gval
  | LTable "lval list" "(lval \<times> lval) list"
  | LOther string

record fpu =
  f64_of_int :: "int \<Rightarrow> 64 word"
  f64_of_f32 :: "32 word \<Rightarrow> 64 word"
  f32_of_f64 :: "64 word \<Rightarrow> 32 word"
  int_of_f64 :: "64 word \<Rightarrow> int"

text \<open>\<open>toVal\<close>: a \<open>json.Number\<close> has kind string; slices and maps have no counterpart.\<close>

fun toVal :: "fpu \<Rightarrow> gval \<Rightarrow> lval option" where
  "toVal f GNil = Some LNil"
| "toVal f (GBool b) = Some (LBool b)"
| "toVal f (GNum s) = Some (LString s)"
| "toVal f (GFloat w) = Some (LNumber w)"
| "toVal f (GInt i) = Some (LNumber (f64_of_int f i))"
| "toVal f (GStr s) = Some (LString s)"
| "toVal f (GBytes s) = Some (LString s)"
| "toVal f (GRaw s) = Some (LString s)"
| "toVal f (GArr _) = None"
| "toVal f (GMap _) = None"

definition MaxN :: "lval list \<Rightarrow> nat" where
  "MaxN a = length (rev (dropWhile (\<lambda>v. v = LNil) (rev a)))"

text \<open>\<open>sprint\<close> is \<open>fmt.Sprint\<close>; \<open>opaque\<close> the Go value of a Lua value that is left as it is.\<close>

fun valTo :: "(gval \<Rightarrow> string) \<Rightarrow> (string \<Rightarrow> gval) \<Rightarrow> lval \<Rightarrow> gval" where
  "valTo sprint opq LNil = GNil"
| "valTo sprint opq (LBool b) = GBool b"
| "valTo sprint opq (LNumber w) = GFloat w"
| "valTo sprint opq (LString s) = GStr s"
| "valTo sprint opq (LUserData v) = v"
| "valTo sprint opq (LOther t) = opq t"
| "valTo sprint opq (LTable a h) =
     (if MaxN a = 0 then
        GMap (fold (\<lambda>(k, v) m. AList.update k v m)
                (map (\<lambda>(k, v). (sprint (valTo sprint opq k), valTo sprint opq v)) h) [])
      else GArr (take (MaxN a) (map (valTo sprint opq) a)))"

section \<open>Functions offered to scripts\<close>

text \<open>A Lua function of Go pushes values or raises an error.\<close>

datatype lua_ret = Push "lval list" | Raise string

datatype byte_order = LittleEndian | BigEndian

definition be_word :: "byte list \<Rightarrow> 'a::len word" where
  "be_word bs = foldl (\<lambda>w b. push_bit 8 w OR ucast b) 0 bs"

definition be_bytes :: "nat \<Rightarrow> 'a::len word \<Rightarrow> byte list" where
  "be_bytes n w = map (\<lambda>i. ucast (drop_bit (8 * i) w)) (rev [0..<n])"

definition order_word :: "byte_order \<Rightarrow> byte list \<Rightarrow> 'a::len word" where
  "order_word od bs = (case od of BigEndian \<Rightarrow> be_word bs | LittleEndian \<Rightarrow> be_word (rev bs))"

definition order_bytes :: "byte_order \<Rightarrow> nat \<Rightarrow> 'a::len word \<Rightarrow> byte list" where
  "order_bytes od n w = (case od of BigEndian \<Rightarrow> be_bytes n w | LittleEndian \<Rightarrow> rev (be_bytes n w))"

definition to_bytes :: "string \<Rightarrow> byte list" where
  "to_bytes s = map (\<lambda>c. word_of_nat (of_char c)) s"

definition of_bytes :: "byte list \<Rightarrow> string" where
  "of_bytes bs = map (\<lambda>b. char_of (unat b)) bs"

definition getBinaryOrder :: "lval \<Rightarrow> string + byte_order" where
  "getBinaryOrder v =
     (let endian = (case v of LNil \<Rightarrow> Inr ''little'' | LString s \<Rightarrow> Inr s
                    | _ \<Rightarrow> Inl ''bad argument #2 (string expected)'')
      in case endian of
           Inl e \<Rightarrow> Inl e
         | Inr s \<Rightarrow>
             if s = ''little'' then Inr LittleEndian
             else if s = ''big'' then Inr BigEndian
             else Inl (''little or big endian allowed, but given: '' @ s))"

definition getSize :: "fpu \<Rightarrow> lval \<Rightarrow> string + nat" where
  "getSize f v =
     (let sz = (case v of LNil \<Rightarrow> Inr 64 | LNumber n \<Rightarrow> Inr (int_of_f64 f n)
                  | _ \<Rightarrow> Inl ''bad argument #3 (number expected)'')
      in case sz of
           Inl e \<Rightarrow> Inl e
         | Inr n \<Rightarrow>
             if n = 32 then Inr 32 else if n = 64 then Inr 64
             else Inl (''32 or 64 size allowed, but given: '' @ dec_of_int n))"

text \<open>\<open>CheckString\<close> also takes a number, by its text (\<open>num_text\<close>).\<close>

definition CheckString :: "(64 word \<Rightarrow> string) \<Rightarrow> lval \<Rightarrow> string + string" where
  "CheckString num_text v =
     (case v of LString s \<Rightarrow> Inr s | LNumber n \<Rightarrow> Inr (num_text n)
      | _ \<Rightarrow> Inl ''bad argument #1 (string expected)'')"

definition binaryToNumber :: "fpu \<Rightarrow> (64 word \<Rightarrow> string) \<Rightarrow> lval \<Rightarrow> lval \<Rightarrow> lval \<Rightarrow> lua_ret" where
  "binaryToNumber f num_text a1 a2 a3 =
     (case CheckString num_text a1 of Inl e \<Rightarrow> Raise e | Inr s \<Rightarrow>
      (case getBinaryOrder a2 of Inl e \<Rightarrow> Raise e | Inr od \<Rightarrow>
      (case getSize f a3 of Inl e \<Rightarrow> Raise e | Inr sz \<Rightarrow>
         let bytes = to_bytes s; bLen = sz div 8 in
         if length bytes < bLen then
           Raise (''binary should have length at least: '' @ dec_of_nat bLen @ '', but have: ''
                  @ dec_of_nat (length bytes))
         else if sz = 32 then
           Push [LNumber (f64_of_f32 f (order_word od (take 4 bytes)))]
         else Push [LNumber (order_word od (take 8 bytes))])))"

text \<open>\<open>parse_float\<close> is \<open>strconv.ParseFloat\<close>.\<close>

definition numberToBinary ::
  "fpu \<Rightarrow> (string \<Rightarrow> string + 64 word) \<Rightarrow> lval \<Rightarrow> lval \<Rightarrow> lval \<Rightarrow> lua_ret" where
  "numberToBinary f parse_float a1 a2 a3 =
     (let num = (case a1 of LNumber v \<Rightarrow> Inr v | LString s \<Rightarrow> parse_float s
                 | _ \<Rightarrow> Inl ''number or string required'') in
      case num of
        Inl e \<Rightarrow> Push [LNil, LString e]
      | Inr n \<Rightarrow>
          (case getBinaryOrder a2 of Inl e \<Rightarrow> Raise e | Inr od \<Rightarrow>
          (case getSize f a3 of Inl e \<Rightarrow> Raise e | Inr sz \<Rightarrow>
             let bytes = (if sz = 32 then order_bytes od 4 (f32_of_f64 f n)
                          else order_bytes od 8 n)
             in Push [LUserData (GBytes (of_bytes bytes))])))"

definition fromJSON ::
  "(string \<Rightarrow> string + gval) \<Rightarrow> (64 word \<Rightarrow> string) \<Rightarrow> lval \<Rightarrow> lua_ret" where
  "fromJSON dec num_text a1 =
     (case CheckString num_text a1 of
        Inl e \<Rightarrow> Raise e
      | Inr s \<Rightarrow>
          (case dec s of
             Inl e \<Rightarrow> Push [LNil, LString e]
           | Inr v \<Rightarrow> Push [LUserData v]))"

text \<open>\<open>newState\<close>: the functions a script finds beside those of the opened libraries (package, base, table, math
  and string). A missing argument is nil.\<close>

definition lua_arg :: "lval list \<Rightarrow> nat \<Rightarrow> lval" where
  "lua_arg args i = (if i < length args then args ! i else LNil)"

definition newState ::
  "fpu \<Rightarrow> (64 word \<Rightarrow> string) \<Rightarrow> (string \<Rightarrow> string + 64 word) \<Rightarrow> (string \<Rightarrow> string + gval)
     \<Rightarrow> string \<Rightarrow> (lval list \<Rightarrow> lua_ret) option" where
  "newState f num_text parse_float dec =
     [''binary_to_num'' \<mapsto> (\<lambda>as. binaryToNumber f num_text (lua_arg as 0) (lua_arg as 1) (lua_arg as 2)),
      ''num_to_binary'' \<mapsto> (\<lambda>as. numberToBinary f parse_float (lua_arg as 0) (lua_arg as 1) (lua_arg as 2)),
      ''from_json'' \<mapsto> (\<lambda>as. fromJSON dec num_text (lua_arg as 0))]"

section \<open>Service\<close>

text \<open>
  All threads share the globals of the base state, \<open>param\<close> among them. The interpreter is
  \<open>run\<close>: a function and the globals to its returned values, or an error (timeout included),
  and new globals.
\<close>

record ('p, 'g) lua_service =
  funcs :: "string \<rightharpoonup> 'p"
  param :: lval
  globals :: 'g

record ('p, 'g) engine =
  compile :: "string \<Rightarrow> string \<Rightarrow> string + 'p"
  run :: "'p \<Rightarrow> lval \<Rightarrow> 'g \<Rightarrow> (string + lval list) \<times> 'g"
  conv :: fpu
  sprint :: "gval \<Rightarrow> string"
  opaque :: "string \<Rightarrow> gval"

definition lua_New :: "'g \<Rightarrow> ('p, 'g) lua_service" where
  "lua_New state = \<lparr>funcs = Map.empty, param = LNil, globals = state\<rparr>"

definition lua_Add ::
  "('p, 'g) engine \<Rightarrow> ('p, 'g) lua_service \<Rightarrow> string \<Rightarrow> string \<Rightarrow> (unit, string) go \<times> ('p, 'g) lua_service" where
  "lua_Add e s name src =
     (case compile e name src of
        Inl m \<Rightarrow> (Err m, s)
      | Inr p \<Rightarrow> (Ok (), s\<lparr>funcs := (funcs s)(name \<mapsto> p)\<rparr>))"

definition lua_Remove :: "('p, 'g) lua_service \<Rightarrow> string \<Rightarrow> ('p, 'g) lua_service" where
  "lua_Remove s name = s\<lparr>funcs := (funcs s)(name := None)\<rparr>"

text \<open>\<open>Execute\<close> up to \<open>SetGlobal\<close>, and the run of the function after it.\<close>

definition exec_begin ::
  "('p, 'g) engine \<Rightarrow> ('p, 'g) lua_service \<Rightarrow> string \<Rightarrow> gval \<Rightarrow> ('p, string) go \<times> ('p, 'g) lua_service" where
  "exec_begin e s name d =
     (case funcs s name of
        None \<Rightarrow> (Err ''function not found'', s)
      | Some p \<Rightarrow>
          (case toVal (conv e) d of
             None \<Rightarrow> (Err ''unknown param type'', s)
           | Some v \<Rightarrow> (Ok p, s\<lparr>param := v\<rparr>)))"

text \<open>\<open>PCall(0, 1, nil)\<close> leaves exactly one value.\<close>

definition exec_run ::
  "('p, 'g) engine \<Rightarrow> ('p, 'g) lua_service \<Rightarrow> 'p \<Rightarrow> (gval, string) go \<times> ('p, 'g) lua_service" where
  "exec_run e s p =
     (case run e p (param s) (globals s) of
        (Inl m, g) \<Rightarrow> (Err m, s\<lparr>globals := g\<rparr>)
      | (Inr vs, g) \<Rightarrow>
          (Ok (valTo (sprint e) (opaque e) (hd (vs @ [LNil]))), s\<lparr>globals := g\<rparr>))"

definition lua_Execute ::
  "('p, 'g) engine \<Rightarrow> ('p, 'g) lua_service \<Rightarrow> string \<Rightarrow> gval \<Rightarrow> (gval, string) go \<times> ('p, 'g) lua_service" where
  "lua_Execute e s name d =
     (case exec_begin e s name d of
        (Ok p, s') \<Rightarrow> exec_run e s' p
      | (Err m, s') \<Rightarrow> (Err m, s')
      | (Panic m, s') \<Rightarrow> (Panic m, s'))"

section \<open>The interface\<close>

text \<open>
  What the core relies on: a name is known after it was added and until it is removed,
  nothing else changes the known names, and an unknown name is refused without an effect.
\<close>

locale action_engine =
  fixes Add :: "'s \<Rightarrow> string \<Rightarrow> string \<Rightarrow> (unit, string) go \<times> 's"
    and Remove :: "'s \<Rightarrow> string \<Rightarrow> 's"
    and Execute :: "'s \<Rightarrow> string \<Rightarrow> gval \<Rightarrow> (gval, string) go \<times> 's"
    and known :: "'s \<Rightarrow> string \<Rightarrow> bool"
  assumes known_Add: "Add s n c = (Ok (), s') \<Longrightarrow> known s' m \<longleftrightarrow> m = n \<or> known s m"
    and Add_fails: "Add s n c = (r, s') \<Longrightarrow> r \<noteq> Ok () \<Longrightarrow> s' = s \<and> \<not> is_panic r"
    and known_Remove: "known (Remove s n) m \<longleftrightarrow> m \<noteq> n \<and> known s m"
    and known_Execute: "known (snd (Execute s n d)) m \<longleftrightarrow> known s m"
    and Execute_unknown: "\<not> known s n \<Longrightarrow> Execute s n d = (Err ''function not found'', s)"
    and Execute_no_panic: "\<not> is_panic (fst (Execute s n d))"
begin

text \<open>Adding the expressions of a model one by one; the first failure stops.\<close>

fun add_all :: "'s \<Rightarrow> (string \<times> string) list \<Rightarrow> (unit, string) go \<times> 's" where
  "add_all s [] = (Ok (), s)"
| "add_all s ((n, c) # es) =
     (case Add s n c of
        (Ok _, s') \<Rightarrow> add_all s' es
      | (Err m, s') \<Rightarrow> (Err m, s')
      | (Panic m, s') \<Rightarrow> (Panic m, s'))"

lemma add_all_known:
  "add_all s es = (Ok (), s') \<Longrightarrow> known s' m \<longleftrightarrow> m \<in> set (map fst es) \<or> known s m"
proof (induction s es rule: add_all.induct)
  case (2 s n c es)
  then obtain s1 where a: "Add s n c = (Ok (), s1)" "add_all s1 es = (Ok (), s')"
    by (auto split: prod.splits go.splits)
  with "2.IH" [OF a(1) [symmetric] refl] known_Add [OF a(1)] show ?case by auto
qed simp

lemma add_all_no_panic: "\<not> is_panic (fst (add_all s es))"
proof (induction s es rule: add_all.induct)
  case (2 s n c es)
  obtain r s1 where a: "Add s n c = (r, s1)" by fastforce
  show ?case
  proof (cases r)
    case (Ok u)
    with 2 a show ?thesis by simp
  qed (use a Add_fails [OF a] in auto)
qed simp

lemma remove_all_known:
  "known (foldl Remove s ns) m \<longleftrightarrow> m \<notin> set ns \<and> known s m"
  by (induction ns arbitrary: s) (auto simp: known_Remove)

text \<open>Undoing what was added leaves only what was known before.\<close>

lemma undo_all:
  assumes "add_all s es = (Ok (), s')"
  shows "known (foldl Remove s' (map fst es)) m \<longleftrightarrow> m \<notin> set (map fst es) \<and> known s m"
  using add_all_known [OF assms] by (auto simp: remove_all_known)

end

interpretation lua: action_engine "lua_Add e" lua_Remove "lua_Execute e" "\<lambda>s n. funcs s n \<noteq> None" for e
  by unfold_locales
    (auto simp: lua_Add_def lua_Remove_def lua_Execute_def exec_begin_def exec_run_def
      split: sum.splits option.splits prod.splits)

section \<open>Laws of the binary functions\<close>

lemma to_of_bytes [simp]: "to_bytes (of_bytes bs) = bs"
proof -
  have "word_of_nat (of_char (char_of (unat b) :: char)) = (b :: byte)" for b
  proof -
    have "unat b < 2 ^ LENGTH(8)" by (rule unsigned_less)
    then have "(of_char (char_of (unat b) :: char) :: nat) = unat b" by simp
    then show ?thesis by simp
  qed
  then show ?thesis by (induction bs) (simp_all add: to_bytes_def of_bytes_def)
qed

lemma length_of_bytes [simp]: "length (of_bytes bs) = length bs" "length (to_bytes s) = length s"
  by (simp_all add: of_bytes_def to_bytes_def)

lemma length_be_bytes [simp]: "length (be_bytes n w) = n" "length (order_bytes od n w) = n"
  by (simp_all add: be_bytes_def order_bytes_def split: byte_order.split)

lemma be_word_append:
  "be_word (bs @ [b]) = push_bit 8 (be_word bs) OR ucast b"
  by (simp add: be_word_def)

lemma be_bytes_Suc:
  "be_bytes (Suc n) w = be_bytes n (drop_bit 8 w) @ [ucast w]"
proof -
  have "rev [0..<Suc n] = map Suc (rev [0..<n]) @ [0]"
  proof (induction n)
    case (Suc n)
    have "rev [0..<Suc (Suc n)] = Suc n # rev [0..<Suc n]" by simp
    also have "\<dots> = Suc n # map Suc (rev [0..<n]) @ [0]" by (simp only: Suc append_Cons)
    also have "\<dots> = map Suc (rev [0..<Suc n]) @ [0]" by simp
    finally show ?case .
  qed simp
  then show ?thesis by (simp add: be_bytes_def drop_bit_drop_bit add.commute)
qed

lemma bit_be_word_bytes:
  fixes w :: "'a::len word"
  assumes "j < LENGTH('a)"
  shows "bit (be_word (be_bytes n w) :: 'a word) j \<longleftrightarrow> j < 8 * n \<and> bit w j"
  using assms
proof (induction n arbitrary: w j)
  case 0
  then show ?case by (simp add: be_bytes_def be_word_def)
next
  case (Suc n)
  then show ?case
    by (auto simp: be_bytes_Suc be_word_append bit_simps)
qed

lemma be_word_be_bytes:
  fixes w :: "'a::len word"
  assumes "LENGTH('a) \<le> 8 * n"
  shows "be_word (be_bytes n w) = w"
  using assms by (intro bit_word_eqI) (simp add: bit_be_word_bytes)

lemma order_word_bytes:
  fixes w :: "'a::len word"
  assumes "LENGTH('a) \<le> 8 * n"
  shows "order_word od (order_bytes od n w) = w"
  using be_word_be_bytes [OF assms, of w]
  by (simp add: order_word_def order_bytes_def split: byte_order.split)

section \<open>Properties\<close>

text \<open>A script whose body calls one of the functions on \<open>param\<close> and returns what it gives.\<close>

definition lua_result :: "lua_ret \<Rightarrow> string + lval list" where
  "lua_result r = (case r of Push vs \<Rightarrow> Inr vs | Raise m \<Rightarrow> Inl m)"

text \<open>C35: what a script makes of a number with \<open>num_to_binary\<close> is bytes of the asked size, and a script that
  gets these bytes as its \<open>param\<close> reads the number back with \<open>binary_to_num\<close>, the order and size being the
  same: the number itself for 64 bits, the number rounded to single precision for 32. Within one script the
  two do not compose, because the first gives user data and the second wants a string.\<close>

theorem binary_number_roundtrip:
  assumes "getBinaryOrder a2 = Inr od" and "getSize (conv e) a3 = Inr sz"
    and "funcs s w = Some p" and "funcs s r = Some q"
    and "\<forall>v g. run e p v g = (lua_result (numberToBinary (conv e) parse_float v a2 a3), g)"
    and "\<forall>v g. run e q v g = (lua_result (binaryToNumber (conv e) num_text v a2 a3), g)"
  shows "\<exists>bs s' s''. lua_Execute e s w (GFloat n) = (Ok (GBytes bs), s') \<and> length bs = sz div 8
     \<and> lua_Execute e s' r (GBytes bs) = (Ok (GFloat (if sz = 32 then f64_of_f32 (conv e) (f32_of_f64 (conv e) n) else n)), s'')
     \<and> (\<exists>v. numberToBinary (conv e) parse_float (LNumber n) a2 a3 = Push [v]
          \<and> binaryToNumber (conv e) num_text v a2 a3 = Raise ''bad argument #1 (string expected)'')"
proof -
  have "sz = 32 \<or> sz = 64"
    using assms(2) by (auto simp: getSize_def Let_def split: sum.splits if_splits)
  then show ?thesis
    using assms
    by (auto simp: lua_Execute_def exec_begin_def exec_run_def lua_result_def numberToBinary_def binaryToNumber_def
        CheckString_def Let_def order_word_bytes)
qed

definition example_fpu :: fpu where
  "example_fpu = \<lparr>f64_of_int = word_of_int, f64_of_f32 = ucast, f32_of_f64 = ucast, int_of_f64 = uint\<rparr>"

definition binary_engine :: "(bool, unit) engine" where
  "binary_engine = \<lparr>compile = (\<lambda>_ _. Inr True),
     run = (\<lambda>p v g. (lua_result (if p then numberToBinary example_fpu (\<lambda>_. Inr 0) v (LString ''big'') (LNumber 32)
                               else binaryToNumber example_fpu (\<lambda>_. '''') v (LString ''big'') (LNumber 32)), g)),
     conv = example_fpu, sprint = (\<lambda>_. ''''), opaque = GStr\<rparr>"

lemma binary_number_roundtrip_witness:
  "\<exists>bs s' s''. lua_Execute binary_engine \<lparr>funcs = [''w'' \<mapsto> True, ''r'' \<mapsto> False], param = LNil, globals = ()\<rparr> ''w'' (GFloat 7)
       = (Ok (GBytes bs), s') \<and> length bs = 4 \<and> lua_Execute binary_engine s' ''r'' (GBytes bs) = (Ok (GFloat 7), s'')"
proof -
  have o: "getBinaryOrder (LString ''big'') = Inr BigEndian" by (simp add: getBinaryOrder_def Let_def)
  have z: "getSize (conv binary_engine) (LNumber 32) = Inr 32"
    by (simp add: getSize_def binary_engine_def example_fpu_def Let_def)
  have c: "conv binary_engine = example_fpu" by (simp add: binary_engine_def)
  let ?s = "\<lparr>funcs = [''w'' \<mapsto> True, ''r'' \<mapsto> False], param = LNil, globals = ()\<rparr>"
  have f: "funcs ?s ''w'' = Some True" "funcs ?s ''r'' = Some False" by simp_all
  have r: "\<forall>v g. run binary_engine True v g
      = (lua_result (numberToBinary (conv binary_engine) (\<lambda>_. Inr 0) v (LString ''big'') (LNumber 32)), g)"
    "\<forall>v g. run binary_engine False v g
      = (lua_result (binaryToNumber (conv binary_engine) (\<lambda>_. '''') v (LString ''big'') (LNumber 32)), g)"
    by (simp_all add: binary_engine_def)
  show ?thesis
    using binary_number_roundtrip [OF o z f r, of 7] by (auto simp: c example_fpu_def)
qed

text \<open>with the default size of 64 bits a binary of fewer than eight bytes is an error, so four
  bytes without an explicit size are refused.\<close>

theorem short_binary_refused:
  assumes "length s < 8"
  shows "binaryToNumber f num_text (LString s) LNil LNil
    = Raise (''binary should have length at least: 8, but have: '' @ dec_of_nat (length s))"
proof -
  have "digit_char 8 = CHR ''8''" by code_simp
  then have "dec_of_nat 8 = ''8''" by (subst dec_of_nat.simps) simp
  with assms show ?thesis
    by (simp add: binaryToNumber_def CheckString_def getBinaryOrder_def getSize_def Let_def)
qed

lemma short_binary_refused_witness:
  "binaryToNumber example_fpu (\<lambda>_. '''') (LString (of_bytes [152, 0, 0, 0])) LNil LNil
    = Raise (''binary should have length at least: 8, but have: '' @ dec_of_nat (length (of_bytes [152, 0, 0, 0])))"
  by (rule short_binary_refused) simp

text \<open>two executions may interleave between the setting of the global \<open>param\<close> and the run; the
  first function then runs on the data of the second.\<close>

theorem concurrent_executions_share_param:
  assumes "exec_begin e s n1 d1 = (Ok p, s1)" and "exec_begin e s1 n2 d2 = (Ok q, s2)"
  shows "fst (exec_run e s2 p) = fst (lua_Execute e s n1 d2)"
  using assms
  by (auto simp: exec_begin_def exec_run_def lua_Execute_def split: option.splits prod.splits sum.splits)

definition example_engine :: "(unit, unit) engine" where
  "example_engine = \<lparr>compile = (\<lambda>n c. Inr ()), run = (\<lambda>p v g. (Inr [v], g)), conv = example_fpu,
     sprint = (\<lambda>_. ''''), opaque = (\<lambda>_. GNil)\<rparr>"

definition example_lua :: "(unit, unit) lua_service" where
  "example_lua = \<lparr>funcs = (\<lambda>_. Some ()), param = LNil, globals = ()\<rparr>"

lemma concurrent_executions_share_param_witness:
  "\<exists>s1 s2. exec_begin example_engine example_lua ''read.a'' (GStr ''1'') = (Ok (), s1)
     \<and> exec_begin example_engine s1 ''read.b'' (GStr ''2'') = (Ok (), s2)
     \<and> fst (exec_run example_engine s2 ()) = fst (lua_Execute example_engine example_lua ''read.a'' (GStr ''2''))
     \<and> fst (exec_run example_engine s2 ()) = Ok (GStr ''2'')"
proof -
  obtain s1 s2 where s: "exec_begin example_engine example_lua ''read.a'' (GStr ''1'') = (Ok (), s1)"
      "exec_begin example_engine s1 ''read.b'' (GStr ''2'') = (Ok (), s2)"
      "fst (exec_run example_engine s2 ()) = Ok (GStr ''2'')"
    by (simp add: exec_begin_def exec_run_def example_engine_def example_lua_def)
  from concurrent_executions_share_param [OF s(1,2)] s show ?thesis by blast
qed

end
