(* ===== verification/State_Store.thy ===== *)
theory State_Store
  imports Kv_Store Objx
begin

text \<open>
  The state store of the core (\<open>pkg/store/state/state.go\<close>): a map in memory, read and written
  through objx selectors, with every write repeated in the bucket \<open>state\<close> of the database
  under the plain key. JSON coding of values is the library's (parameters \<open>enc\<close> and \<open>dec\<close>);
  \<open>io\<close> is the outcome of a commit. The interface its users rely on is the locale \<open>stater\<close>.
\<close>

section \<open>Service\<close>

record state_service =
  st_db :: db
  st_mem :: gval

definition state_bucket :: string where
  "state_bucket = ''state''"

text \<open>\<open>getAll\<close>: every entry decoded, in key order; the first error ends the loop.\<close>

fun decode_all :: "(string \<Rightarrow> string + gval) \<Rightarrow> bucket \<Rightarrow> (gmap, string) go" where
  "decode_all dec [] = Ok []"
| "decode_all dec ((k, v) # b) =
     (case dec v of
        Inl e \<Rightarrow> Err e
      | Inr x \<Rightarrow> go_map (\<lambda>m. (k, x) # m) (decode_all dec b))"

definition getAll :: "(string \<Rightarrow> string + gval) \<Rightarrow> db \<Rightarrow> (gval, string) go" where
  "getAll dec d =
     db_View (\<lambda>d. with_bucket state_bucket d (\<lambda>b. go_map GMap (decode_all dec b))) d"

definition open_bucket :: "bool \<Rightarrow> db \<Rightarrow> (unit \<times> db, string) go" where
  "open_bucket cleanStart d =
     (let r = (if cleanStart then tx_DeleteBucket state_bucket d else Ok d) in
      case r of
        Ok d' \<Rightarrow> Ok ((), tx_CreateBucketIfNotExists state_bucket d')
      | Err e \<Rightarrow>
          if e \<noteq> ErrBucketNotFound then Err e
          else Ok ((), tx_CreateBucketIfNotExists state_bucket d)
      | Panic m \<Rightarrow> Panic m)"

definition NewService ::
  "(string \<Rightarrow> string + gval) \<Rightarrow> string option \<Rightarrow> bool \<Rightarrow> db \<Rightarrow> (state_service, string) go" where
  "NewService dec io cleanStart d =
     (case db_Update io (open_bucket cleanStart) d of
        (Err e, _) \<Rightarrow> Err e
      | (Panic m, _) \<Rightarrow> Panic m
      | (Ok _, d') \<Rightarrow> go_map (\<lambda>m. \<lparr>st_db = d', st_mem = m\<rparr>) (getAll dec d'))"

definition state_Get :: "state_service \<Rightarrow> string \<Rightarrow> gmap option" where
  "state_Get s key =
     (let val = Get (st_mem s) key in if IsNil val then None else Some [(key, val)])"

definition state_Set ::
  "(gval \<Rightarrow> string + string) \<Rightarrow> string option \<Rightarrow> state_service \<Rightarrow> string \<Rightarrow> gval
     \<Rightarrow> (unit, string) go \<times> state_service" where
  "state_Set enc io s key v =
     (case Set (st_mem s) key v of
        Ok m \<Rightarrow>
          (let s = s\<lparr>st_mem := m\<rparr> in
           case enc v of
             Inl e \<Rightarrow> (Err e, s)
           | Inr d \<Rightarrow>
               (case db_Update io (\<lambda>db. with_bucket state_bucket db (\<lambda>bk.
                        go_map (\<lambda>bk'. ((), db(state_bucket \<mapsto> bk'))) (bk_Put bk key d))) (st_db s) of
                  (r, d') \<Rightarrow> (r, s\<lparr>st_db := d'\<rparr>)))
      | Err e \<Rightarrow> (Err e, s)
      | Panic m \<Rightarrow> (Panic m, s))"

section \<open>The interface\<close>

text \<open>
  What a user of the store relies on: a write never panics, the value is read back under its
  key even when the write reports an error, and keys under another first component are not
  affected.
\<close>

locale stater =
  fixes SGet :: "'s \<Rightarrow> string \<Rightarrow> gmap option"
    and SSet :: "'s \<Rightarrow> string \<Rightarrow> gval \<Rightarrow> (unit, string) go \<times> 's"
    and inv :: "'s \<Rightarrow> bool"
  assumes set_no_panic: "inv s \<Longrightarrow> \<not> is_panic (fst (SSet s k v))"
    and set_inv: "inv s \<Longrightarrow> inv (snd (SSet s k v))"
    and get_set: "inv s \<Longrightarrow> no_bracket k \<Longrightarrow>
      SGet (snd (SSet s k v)) k = (if IsNil v then None else Some [(k, v)])"
    and get_set_other: "inv s \<Longrightarrow> no_bracket k \<Longrightarrow> no_bracket j \<Longrightarrow>
      fst (split_dot k) \<noteq> fst (split_dot j) \<Longrightarrow> SGet (snd (SSet s k v)) j = SGet s j"
begin

text \<open>A sequence of writes: the last write of a key decides.\<close>

fun set_all :: "'s \<Rightarrow> (string \<times> gval) list \<Rightarrow> 's" where
  "set_all s [] = s"
| "set_all s ((k, v) # ws) = set_all (snd (SSet s k v)) ws"

lemma set_all_inv: "inv s \<Longrightarrow> inv (set_all s ws)"
  by (induction s ws rule: set_all.induct) (auto simp: set_inv)

lemma set_all_append: "set_all s (xs @ ys) = set_all (set_all s xs) ys"
  by (induction s xs rule: set_all.induct) auto

lemma get_after_writes:
  assumes "inv s" "no_bracket k" "\<not> IsNil v"
    and "\<forall>(j, w) \<in> set ws. no_bracket j \<and> fst (split_dot j) \<noteq> fst (split_dot k)"
  shows "SGet (set_all s ((k, v) # ws)) k = Some [(k, v)]"
proof -
  have "SGet (set_all t ws) k = SGet t k" if "inv t" for t
    using that assms(4)
  proof (induction ws arbitrary: t)
    case (Cons w ws)
    obtain j x where w: "w = (j, x)" by fastforce
    with Cons.prems have "SGet (set_all (snd (SSet t j x)) ws) k = SGet (snd (SSet t j x)) k"
      by (intro Cons.IH set_inv) auto
    with w Cons.prems assms(2) show ?case by (simp add: get_set_other)
  qed simp
  with assms(1-3) show ?thesis by (simp add: set_inv get_set)
qed

end

definition state_inv :: "state_service \<Rightarrow> bool" where
  "state_inv s \<longleftrightarrow> is_GMap (st_mem s) \<and> st_db s state_bucket \<noteq> None"

lemma is_GMap_iff: "is_GMap m \<longleftrightarrow> (\<exists>x. m = GMap x)"
  by (auto simp: is_GMap_def split: gval.splits)

lemma bk_Put_no_panic: "\<not> is_panic (bk_Put b k v)"
  by (simp add: bk_Put_def)

text \<open>The memory after a write, whatever became of the database.\<close>

lemma state_Set_mem:
  assumes "state_inv s"
  shows "st_mem (snd (state_Set enc io s k v)) = access_set (st_mem s) k v"
  using assms
  by (auto simp: state_Set_def state_inv_def is_GMap_iff Set_def Let_def split: sum.split prod.split)

lemma state_Set_db:
  assumes "state_inv s"
  shows "st_db (snd (state_Set enc io s k v)) state_bucket \<noteq> None"
    "\<not> is_panic (fst (state_Set enc io s k v))"
proof -
  obtain b where b: "st_db s state_bucket = Some b" using assms by (auto simp: state_inv_def)
  obtain m where m: "st_mem s = GMap m" using assms by (auto simp: state_inv_def is_GMap_iff)
  have "st_db (snd (state_Set enc io s k v)) state_bucket \<noteq> None
     \<and> \<not> is_panic (fst (state_Set enc io s k v))"
    by (auto simp: state_Set_def b m Set_def Let_def db_Update_def with_bucket_def bk_Put_def
        split: sum.split prod.split option.split go.split)
  then show "st_db (snd (state_Set enc io s k v)) state_bucket \<noteq> None"
    "\<not> is_panic (fst (state_Set enc io s k v))" by simp_all
qed

interpretation state: stater state_Get "state_Set enc io" state_inv for enc io
proof unfold_locales
  fix s :: state_service and k j :: string and v :: gval
  assume i: "state_inv s"
  then have g: "is_GMap (st_mem s)" by (simp add: state_inv_def)
  show "\<not> is_panic (fst (state_Set enc io s k v))" by (rule state_Set_db [OF i])
  show "state_inv (snd (state_Set enc io s k v))"
    using state_Set_db [OF i] state_Set_mem [OF i] g by (simp add: state_inv_def)
  assume k: "no_bracket k"
  show "state_Get (snd (state_Set enc io s k v)) k = (if IsNil v then None else Some [(k, v)])"
    by (simp add: state_Get_def state_Set_mem [OF i] Get_def access_get_set [OF k g] Let_def)
  assume "no_bracket j" "fst (split_dot k) \<noteq> fst (split_dot j)"
  with k g show "state_Get (snd (state_Set enc io s k v)) j = state_Get s j"
    by (simp add: state_Get_def state_Set_mem [OF i] Get_def access_get_set_other)
qed

section \<open>Restarts\<close>

lemma decode_all_look:
  assumes "bk_ok b" and "\<forall>(k, d) \<in> set b. \<exists>x. dec d = Inr x"
  shows "\<exists>m. decode_all dec b = Ok m \<and>
    (\<forall>k. look m k = (case map_of b k of None \<Rightarrow> GNil | Some d \<Rightarrow> (case dec d of Inr x \<Rightarrow> x | Inl _ \<Rightarrow> GNil)))"
  using assms
proof (induction b)
  case (Cons e b)
  obtain k d where e: "e = (k, d)" by fastforce
  with Cons.prems obtain x where x: "dec d = Inr x" by auto
  have "bk_ok b" using Cons.prems by (simp add: bk_ok_def)
  with Cons obtain m where "decode_all dec b = Ok m"
    and "\<forall>k. look m k = (case map_of b k of None \<Rightarrow> GNil
      | Some d \<Rightarrow> (case dec d of Inr x \<Rightarrow> x | Inl _ \<Rightarrow> GNil))"
    by auto
  with e x show ?case by simp
qed simp

text \<open>The database holds only values that decode, in key order: true of what the store writes.\<close>

definition decodable :: "(string \<Rightarrow> string + gval) \<Rightarrow> db \<Rightarrow> bool" where
  "decodable dec d \<longleftrightarrow>
     (\<exists>b. d state_bucket = Some b \<and> bk_ok b \<and> (\<forall>(k, x) \<in> set b. \<exists>y. dec x = Inr y))"

lemma set_kv_insert: "set (kv_insert k v b) \<subseteq> insert (k, v) (set b)"
  by (induction k v b rule: kv_insert.induct) auto

lemma state_Set_stored:
  assumes "state_inv s" and "decodable dec (st_db s)" and "enc v = Inr d" and "dec d = Inr y"
    and "k \<noteq> []" and "length k \<le> 32768"
  shows "fst (state_Set enc None s k v) = Ok ()"
    and "decodable dec (st_db (snd (state_Set enc None s k v)))"
    and "map_of (the (st_db (snd (state_Set enc None s k v)) state_bucket)) k = Some d"
proof -
  obtain b where b: "st_db s state_bucket = Some b" "bk_ok b" "\<forall>(k, x) \<in> set b. \<exists>y. dec x = Inr y"
    using assms(2) by (auto simp: decodable_def)
  obtain m where m: "st_mem s = GMap m" using assms by (auto simp: state_inv_def is_GMap_iff)
  have e: "state_Set enc None s k v
      = (Ok (), \<lparr>st_db = (st_db s)(state_bucket \<mapsto> kv_insert k d b), st_mem = access_set (GMap m) k v\<rparr>)"
    using assms(3,5,6) b(1) m
    by (simp add: state_Set_def Set_def db_Update_def with_bucket_def bk_Put_def)
  show "fst (state_Set enc None s k v) = Ok ()" by (simp add: e)
  show "decodable dec (st_db (snd (state_Set enc None s k v)))"
    using b set_kv_insert [of k d b] assms(4) by (auto simp: e decodable_def bk_ok_insert)
  show "map_of (the (st_db (snd (state_Set enc None s k v)) state_bucket)) k = Some d"
    by (simp add: e map_of_kv_insert [OF b(2)])
qed

lemma restart:
  assumes "decodable dec d"
  shows "\<exists>s. NewService dec None False d = Ok s \<and> state_inv s \<and> st_db s = d \<and>
     (\<exists>m. st_mem s = GMap m \<and> (\<forall>k. look m k =
        (case map_of (the (d state_bucket)) k of None \<Rightarrow> GNil
         | Some x \<Rightarrow> (case dec x of Inr y \<Rightarrow> y | Inl _ \<Rightarrow> GNil))))"
proof -
  obtain b where b: "d state_bucket = Some b" "bk_ok b" "\<forall>(k, x) \<in> set b. \<exists>y. dec x = Inr y"
    using assms by (auto simp: decodable_def)
  obtain m where m: "decode_all dec b = Ok m" "\<forall>k. look m k =
      (case map_of b k of None \<Rightarrow> GNil | Some d \<Rightarrow> (case dec d of Inr x \<Rightarrow> x | Inl _ \<Rightarrow> GNil))"
    using decode_all_look [OF b(2,3)] by blast
  have "NewService dec None False d = Ok \<lparr>st_db = d, st_mem = GMap m\<rparr>"
    using b m by (simp add: NewService_def db_Update_def open_bucket_def getAll_def db_View_def
        with_bucket_def tx_CreateBucketIfNotExists_def)
  with b m show ?thesis by (simp add: state_inv_def is_GMap_iff)
qed

section \<open>Properties\<close>

text \<open>C14: a value written under a plain key survives a restart: a service opened on the database
  afterwards returns what its JSON text decodes to.\<close>

theorem state_survives_restart:
  assumes "state_inv s" and "decodable dec (st_db s)"
    and "enc v = Inr d" and "dec d = Inr y" and "\<not> IsNil y"
    and "k \<noteq> []" and "length k \<le> 32768" and "no_bracket k" and "no_dot k"
  shows "\<exists>s2. NewService dec None False (st_db (snd (state_Set enc None s k v))) = Ok s2
     \<and> state_Get s2 k = Some [(k, y)]"
proof -
  note w = state_Set_stored [where enc = enc and dec = dec and v = v and d = d and y = y, OF assms(1-4,6,7)]
  obtain s2 m where "NewService dec None False (st_db (snd (state_Set enc None s k v))) = Ok s2"
    and "st_mem s2 = GMap m" and "look m k = y"
    using restart [OF w(2)] w(3) assms(4) by auto
  with assms(5,8,9) show ?thesis by (simp add: state_Get_def Get_def access_get_plain)
qed

definition plain_enc :: "gval \<Rightarrow> string + string" where
  "plain_enc v = (case v of GStr t \<Rightarrow> Inr t | _ \<Rightarrow> Inl ''unsupported'')"

definition plain_dec :: "string \<Rightarrow> string + gval" where
  "plain_dec t = Inr (GStr t)"

definition empty_state :: state_service where
  "empty_state = \<lparr>st_db = [state_bucket \<mapsto> []], st_mem = GMap []\<rparr>"

lemma empty_state_ok: "state_inv empty_state" "decodable dec (st_db empty_state)"
  by (simp_all add: empty_state_def state_inv_def decodable_def is_GMap_iff bk_ok_def)

lemma state_survives_restart_witness:
  "\<exists>s2. NewService plain_dec None False (st_db (snd (state_Set plain_enc None empty_state ''temp'' (GStr ''21'')))) = Ok s2
     \<and> state_Get s2 ''temp'' = Some [(''temp'', GStr ''21'')]"
  by (rule state_survives_restart [where d = "''21''", OF empty_state_ok])
    (simp_all add: plain_enc_def plain_dec_def)

text \<open>a value written under a key with a dot is read back while the process runs, but not after
  a restart: memory nests it along the path, the database keeps the flat key.\<close>

theorem dotted_key_lost_on_restart:
  assumes "enc v = Inr d" and "dec d = Inr v" and "\<not> IsNil v"
    and "no_bracket (a @ CHR ''.'' # r)" and "no_dot a" and "r \<noteq> []"
    and "length (a @ CHR ''.'' # r) \<le> 32768"
  defines "k \<equiv> a @ CHR ''.'' # r"
  shows "state_Get (snd (state_Set enc None empty_state k v)) k = Some [(k, v)]
     \<and> (\<exists>s2. NewService dec None False (st_db (snd (state_Set enc None empty_state k v))) = Ok s2
          \<and> state_Get s2 k = None)"
proof
  show "state_Get (snd (state_Set enc None empty_state k v)) k = Some [(k, v)]"
    using state.get_set [OF empty_state_ok(1), of k enc None v] assms(3,4) by (simp add: k_def)
  have k: "k \<noteq> []" "length k \<le> 32768" using assms(7) by (simp_all add: k_def)
  note w = state_Set_stored [where enc = enc and dec = dec and v = v and d = d and y = v, OF empty_state_ok assms(1,2) k]
  have b: "st_db (snd (state_Set enc None empty_state k v)) state_bucket = Some [(k, d)]"
    using assms(1) k
    by (simp add: state_Set_def empty_state_def Set_def db_Update_def with_bucket_def bk_Put_def)
  obtain s2 m where n: "NewService dec None False (st_db (snd (state_Set enc None empty_state k v))) = Ok s2"
    and m: "st_mem s2 = GMap m" and l: "look m a = GNil"
    using restart [OF w(2)] b by (auto simp: k_def)
  have "access_get (GMap m) k = access_get GNil r"
    using assms(4-6) l by (simp add: k_def access_get_path)
  also have "\<dots> = GNil"
    using assms(4) by (intro access_get_no_map) (auto simp: is_GMap_def)
  finally show "\<exists>s2. NewService dec None False (st_db (snd (state_Set enc None empty_state k v))) = Ok s2
          \<and> state_Get s2 k = None"
    using n m by (simp add: state_Get_def Get_def)
qed

lemma dotted_key_lost_on_restart_witness:
  "state_Get (snd (state_Set plain_enc None empty_state (''edge'' @ CHR ''.'' # ''temp'') (GStr ''21'')))
      (''edge'' @ CHR ''.'' # ''temp'') = Some [(''edge'' @ CHR ''.'' # ''temp'', GStr ''21'')]
   \<and> (\<exists>s2. NewService plain_dec None False
        (st_db (snd (state_Set plain_enc None empty_state (''edge'' @ CHR ''.'' # ''temp'') (GStr ''21'')))) = Ok s2
        \<and> state_Get s2 (''edge'' @ CHR ''.'' # ''temp'') = None)"
  by (rule dotted_key_lost_on_restart [where d = "''21''"]) (simp_all add: plain_enc_def plain_dec_def)

end
