(* ===== verification/Cloud.thy ===== *)
theory Cloud
  imports Jsonrpc
begin

text \<open>
  The cloud client of the core (\<open>internal/pkg/core/cloud\<close>): requests to the REST API, and the
  preparation of a loaded model: \<open>walk\<close> collects expressions, commands and actions from the
  tree, \<open>afterWalk\<close> fills the payload of every action. HTTP, JSON decoding and encoding are
  parameters.

  \<open>walk\<close> passes its path, a Go slice, by value and appends to it: slices of different calls may
  share an array, so the arrays are part of the state.
\<close>

section \<open>Data\<close>

record read_cfg =
  rd_Type :: string
  rd_Command :: string
  rd_Interval :: string
  rd_Expr :: string

datatype children =
  Children (c_ID: string) (c_Name: string) (c_Type: string) (c_Active: bool)
    (c_Read: read_cfg) (c_WriteExpr: string) (c_Command: string) (c_Params: "gmap option")
    (c_Children: "children list")

record ActionConfig =
  ac_ID :: string
  ac_Connector :: string
  ac_Type :: string
  ac_Interval :: string
  ac_Payload :: string

record command =
  cm_Command :: string
  cm_Params :: "gmap option"

record object =
  o_OID :: string
  o_ID :: string
  o_ModelsID :: string
  o_Config :: gval

section \<open>Slices\<close>

text \<open>A slice is an array number and a length; array 0 is the empty one of the nil slice. When
  the array is full, \<open>append\<close> copies to an array of twice the size.\<close>

type_synonym arrays = "string list list"

record slice =
  sl_arr :: nat
  sl_len :: nat

definition nil_slice :: slice where
  "nil_slice = \<lparr>sl_arr = 0, sl_len = 0\<rparr>"

definition sl_append :: "arrays \<Rightarrow> slice \<Rightarrow> string \<Rightarrow> arrays \<times> slice" where
  "sl_append h s x =
     (let a = h ! sl_arr s; n = sl_len s in
      if n < length a then (h[sl_arr s := a[n := x]], s\<lparr>sl_len := Suc n\<rparr>)
      else (h @ [take n a @ x # replicate (length a - 1) ''''], \<lparr>sl_arr = length h, sl_len = Suc n\<rparr>))"

definition sl_last :: "arrays \<Rightarrow> slice \<Rightarrow> (string, string) go" where
  "sl_last h s =
     (if sl_len s = 0 then Panic ''index out of range [-1]''
      else Ok (h ! sl_arr s ! (sl_len s - 1)))"

definition contents :: "arrays \<Rightarrow> slice \<Rightarrow> string list" where
  "contents h s = take (sl_len s) (h ! sl_arr s)"

section \<open>Walk\<close>

record walk_state =
  w_heap :: arrays
  w_expr :: "(string \<times> string) list"
  w_commands :: "(string \<times> children) list"
  w_acmd :: "(string \<times> command) list"
  w_actions :: "(string \<times> ActionConfig) list"

definition add_command :: "children \<Rightarrow> walk_state \<Rightarrow> walk_state" where
  "add_command c st =
     (case c of Children i n t a r w cmd p _ \<Rightarrow>
        st\<lparr>w_commands := AList.update i (Children i n t a r w cmd p []) (w_commands st)\<rparr>)"

definition add_exprs :: "children \<Rightarrow> walk_state \<Rightarrow> walk_state" where
  "add_exprs c st =
     (let st = (if rd_Expr (c_Read c) \<noteq> ''''
                then st\<lparr>w_expr := AList.update (''read.'' @ c_ID c) (rd_Expr (c_Read c)) (w_expr st)\<rparr>
                else st) in
      if c_WriteExpr c \<noteq> ''''
      then st\<lparr>w_expr := AList.update (''write.'' @ c_ID c) (c_WriteExpr c) (w_expr st)\<rparr>
      else st)"

text \<open>The action and the command among the children that it names (the last one with the id).\<close>

definition add_action :: "children \<Rightarrow> string \<Rightarrow> walk_state \<Rightarrow> walk_state" where
  "add_action c conn st =
     (let ac = \<lparr>ac_ID = c_ID c, ac_Connector = conn, ac_Type = rd_Type (c_Read c),
                ac_Interval = rd_Interval (c_Read c), ac_Payload = ''''\<rparr>;
          acmd = fold (\<lambda>cc m. if c_ID cc = rd_Command (c_Read c)
                    then AList.update (c_ID c) \<lparr>cm_Command = c_Command cc, cm_Params = c_Params cc\<rparr> m
                    else m) (c_Children c) (w_acmd st)
      in st\<lparr>w_acmd := acmd, w_actions := AList.update (c_Name c) ac (w_actions st)\<rparr>)"

definition sl_pop :: "slice \<Rightarrow> slice" where
  "sl_pop s = (if sl_len s = 0 then s else s\<lparr>sl_len := sl_len s - 1\<rparr>)"

function walk :: "slice \<Rightarrow> children list \<Rightarrow> walk_state \<Rightarrow> (walk_state, string) go" where
  "walk path [] st = Ok st"
| "walk path (c # cs) st =
     (if \<not> c_Active c then walk path cs st
      else
        let (h, path) = (if c_Type c = ''subsystem'' then sl_append (w_heap st) path (c_ID c)
                         else (w_heap st, path));
            st = st\<lparr>w_heap := h\<rparr> in
        if c_Type c = ''action'' then walk path cs (add_command c st)
        else
          let st = add_exprs c st in
          if rd_Command (c_Read c) \<noteq> '''' then
            go_bind (sl_last (w_heap st) path) (\<lambda>conn. walk path cs (add_action c conn st))
          else
            go_bind (walk path (c_Children c) st) (\<lambda>st. walk (sl_pop path) cs st))"
  by pat_completeness auto
termination
proof (relation "measure (\<lambda>(p, cs, st). size_list size cs)")
  fix path :: slice and c :: children and cs :: "children list" and st :: walk_state
  show "((p, c_Children c, s), (path, c # cs, st)) \<in> measure (\<lambda>(p, cs, st). size_list size cs)" for p s
    by (cases c) simp
qed auto

definition walk_init :: walk_state where
  "walk_init = \<lparr>w_heap = [[]], w_expr = [], w_commands = [], w_acmd = [], w_actions = []\<rparr>"

section \<open>Payloads\<close>

record params =
  p_JSONRPC :: string
  p_Method :: string
  p_Params :: gmap

definition is_placeholder :: "string \<Rightarrow> bool" where
  "is_placeholder v \<longleftrightarrow> has_prefix v ''{{'' \<and> has_suffix v ''}}''"

definition placeholder_name :: "string \<Rightarrow> string" where
  "placeholder_name v = take (length v - 4) (drop 2 v)"

fun fill_params :: "gmap \<Rightarrow> gmap \<Rightarrow> (gmap, string) go" where
  "fill_params d [] = Ok []"
| "fill_params d ((k, v) # m) =
     (if k = ''_cancel'' then go_map (\<lambda>r. (k, v) # r) (fill_params d m)
      else
        (case v of
           GStr vv \<Rightarrow>
             if is_placeholder vv then
               (case map_of d (placeholder_name vv) of
                  None \<Rightarrow> Err (''prepare: '' @ placeholder_name vv @ '' not found in data'')
                | Some x \<Rightarrow> go_map (\<lambda>r. (k, x) # r) (fill_params d m))
             else go_map (\<lambda>r. (k, v) # r) (fill_params d m)
         | _ \<Rightarrow> Err ''prepare: wrong payload params type''))"

definition fillPayload ::
  "(string \<Rightarrow> string + params) \<Rightarrow> (params \<Rightarrow> string + string) \<Rightarrow> string \<Rightarrow> gmap \<Rightarrow> (string, string) go" where
  "fillPayload dec enc payload d =
     (case dec payload of
        Inl e \<Rightarrow> Err (''prepare: fill payload: unmarshal: '' @ e)
      | Inr pld \<Rightarrow>
          go_bind (fill_params d (p_Params pld)) (\<lambda>ps.
            case enc (pld\<lparr>p_Params := ps\<rparr>) of
              Inl e \<Rightarrow> Err (''prepare: fill payload: marshal: '' @ e)
            | Inr s \<Rightarrow> Ok s))"

text \<open>One turn of the loop of \<open>afterWalk\<close>, for the action under name \<open>k\<close>. A missing entry of a
  map reads as the zero value; writing to a nil map panics.\<close>

definition params_payload :: "gmap option \<Rightarrow> gval" where
  "params_payload p = (case p of None \<Rightarrow> GNil | Some m \<Rightarrow> look m ''payload'')"

definition afterWalk_one ::
  "(string \<Rightarrow> string + params) \<Rightarrow> (params \<Rightarrow> string + string) \<Rightarrow> string \<Rightarrow> walk_state \<Rightarrow> (walk_state, string) go" where
  "afterWalk_one dec enc k st =
     (case map_of (w_actions st) k of
        None \<Rightarrow> Ok st
      | Some v \<Rightarrow>
          let ac = (case map_of (w_acmd st) (ac_ID v) of
                      None \<Rightarrow> \<lparr>cm_Command = '''', cm_Params = None\<rparr> | Some c \<Rightarrow> c) in
          (case map_of (w_commands st) (cm_Command ac) of
             None \<Rightarrow> Err ''prepare: command not found in commands''
           | Some vv \<Rightarrow>
               (case params_payload (c_Params vv) of
                  GStr payload \<Rightarrow>
                    (case cm_Params ac of
                       None \<Rightarrow> Panic ''assignment to entry in nil map''
                     | Some ps \<Rightarrow>
                         let ps = AList.update ''node.parent.id'' (GStr (ac_ID v)) ps in
                         go_map (\<lambda>p. st\<lparr>
                             w_acmd := AList.update (ac_ID v) (ac\<lparr>cm_Params := Some ps\<rparr>) (w_acmd st),
                             w_actions := AList.update k (v\<lparr>ac_Payload := p\<rparr>) (w_actions st)\<rparr>)
                           (fillPayload dec enc payload ps))
                | _ \<Rightarrow> Err ''prepare: payload should be string'')))"

text \<open>The loop ranges over a Go map, so over its keys in any order \<open>ks\<close>.\<close>

fun afterWalk ::
  "(string \<Rightarrow> string + params) \<Rightarrow> (params \<Rightarrow> string + string) \<Rightarrow> string list \<Rightarrow> walk_state \<Rightarrow> (walk_state, string) go" where
  "afterWalk dec enc [] st = Ok st"
| "afterWalk dec enc (k # ks) st = go_bind (afterWalk_one dec enc k st) (afterWalk dec enc ks)"

record model =
  md_actions :: "(string \<times> ActionConfig) list"
  md_expr :: "(string \<times> string) list"

definition prepare ::
  "(string \<Rightarrow> string + params) \<Rightarrow> (params \<Rightarrow> string + string) \<Rightarrow> (string list \<Rightarrow> string list)
     \<Rightarrow> children list \<Rightarrow> (model, string) go" where
  "prepare dec enc order cs =
     go_bind (walk nil_slice cs walk_init) (\<lambda>st.
       go_map (\<lambda>st. \<lparr>md_actions = w_actions st, md_expr = w_expr st\<rparr>)
         (afterWalk dec enc (order (map fst (w_actions st))) st))"

section \<open>The REST API\<close>

definition newURL :: "string \<Rightarrow> string" where
  "newURL base = (if has_suffix base ''/'' then base else base @ ''/'')"

definition GetModel :: "string \<Rightarrow> string \<Rightarrow> string" where
  "GetModel u i = u @ ''models/'' @ i @ ''?with=data''"

definition GetObject :: "string \<Rightarrow> string \<Rightarrow> string" where
  "GetObject u i = u @ ''objects/'' @ i @ ''?with=data''"

text \<open>An answer is a status and a body, which may fail to be read; a request may fail.\<close>

record http_resp =
  h_status :: nat
  h_body :: "string + string"

type_synonym http = "string \<Rightarrow> string \<Rightarrow> (string \<times> string) list \<Rightarrow> string + http_resp"

record cloud =
  cl_base :: string
  cl_token :: string
  cl_agent :: string

definition client_Do :: "http \<Rightarrow> cloud \<Rightarrow> string \<Rightarrow> string \<Rightarrow> string + http_resp" where
  "client_Do send c meth url =
     send meth url [(''Authorization'', ''Bearer '' @ cl_token c), (''User-Agent'', cl_agent c)]"

text \<open>The library's request can only be refused for a URL it does not parse, which is an outcome of \<open>send\<close> like
  the others.\<close>

definition client_head :: "http \<Rightarrow> cloud \<Rightarrow> string \<Rightarrow> string + http_resp" where
  "client_head send c url = client_Do send c ''HEAD'' url"

definition client_Get :: "http \<Rightarrow> cloud \<Rightarrow> string \<Rightarrow> string + http_resp" where
  "client_Get send c url = client_Do send c ''GET'' url"

definition newClient :: "string \<Rightarrow> string \<Rightarrow> string \<Rightarrow> cloud" where
  "newClient base token version = \<lparr>cl_base = base, cl_token = token, cl_agent = ''ric-edge/'' @ version\<rparr>"

text \<open>A body that answers the ping is closed unread, whatever the status.\<close>

definition ping :: "http \<Rightarrow> cloud \<Rightarrow> string option" where
  "ping send s = (case client_head send s (cl_base s) of Inl e \<Rightarrow> Some e | Inr resp \<Rightarrow> None)"

definition cloud_New :: "http \<Rightarrow> string \<Rightarrow> string \<Rightarrow> string \<Rightarrow> (cloud, string) go" where
  "cloud_New send baseURL token v =
     (if baseURL = '''' then Err ''cloud: empty url''
      else
        let s = newClient (newURL baseURL) token v in
        case ping send s of Some e \<Rightarrow> Err e | None \<Rightarrow> Ok s)"

definition errIfBadStatus :: "(string \<Rightarrow> string) \<Rightarrow> http_resp \<Rightarrow> string option" where
  "errIfBadStatus message r =
     (if h_status r = 200 then None
      else case h_body r of Inl e \<Rightarrow> Some e | Inr b \<Rightarrow> Some (message b))"

text \<open>\<open>decode\<close> is the JSON decoder on a body that may fail to be read.\<close>

definition LoadModel ::
  "http \<Rightarrow> (string \<Rightarrow> string) \<Rightarrow> (string + string \<Rightarrow> string + children list)
     \<Rightarrow> (string \<Rightarrow> string + params) \<Rightarrow> (params \<Rightarrow> string + string) \<Rightarrow> (string list \<Rightarrow> string list)
     \<Rightarrow> cloud \<Rightarrow> string \<Rightarrow> (model, string) go" where
  "LoadModel send message decode dec enc order c i =
     (case client_Get send c (GetModel (cl_base c) i) of
        Inl e \<Rightarrow> Err e
      | Inr r \<Rightarrow>
          (case errIfBadStatus message r of
             Some e \<Rightarrow> Err (''load.model['' @ i @ '']:'' @ e)
           | None \<Rightarrow>
               (case decode (h_body r) of
                  Inl e \<Rightarrow> Err e
                | Inr cs \<Rightarrow> prepare dec enc order cs)))"

definition LoadObject ::
  "http \<Rightarrow> (string \<Rightarrow> string) \<Rightarrow> (string + string \<Rightarrow> string + object) \<Rightarrow> cloud \<Rightarrow> string
     \<Rightarrow> (object, string) go" where
  "LoadObject send message decode c i =
     (case client_Get send c (GetObject (cl_base c) i) of
        Inl e \<Rightarrow> Err e
      | Inr r \<Rightarrow>
          (case errIfBadStatus message r of
             Some e \<Rightarrow> Err (''load.object['' @ i @ '']:'' @ e)
           | None \<Rightarrow> (case decode (h_body r) of Inl e \<Rightarrow> Err e | Inr ob \<Rightarrow> Ok ob)))"

section \<open>The tree read with lexical scoping\<close>

text \<open>
  The reference: the connector of an action is the innermost enclosing subsystem. \<open>regular\<close>
  trees are those in which every active node is an action, a leaf with a read command, or a
  subsystem without one.
\<close>

function walk_spec :: "string list \<Rightarrow> children list \<Rightarrow> walk_state \<Rightarrow> (walk_state, string) go" where
  "walk_spec ctx [] st = Ok st"
| "walk_spec ctx (c # cs) st =
     (if \<not> c_Active c then walk_spec ctx cs st
      else if c_Type c = ''action'' then walk_spec ctx cs (add_command c st)
      else if rd_Command (c_Read c) \<noteq> '''' then
        (if ctx = [] then Panic ''index out of range [-1]''
         else walk_spec ctx cs (add_action c (last ctx) (add_exprs c st)))
      else
        go_bind (walk_spec (if c_Type c = ''subsystem'' then ctx @ [c_ID c] else ctx) (c_Children c)
                   (add_exprs c st))
          (\<lambda>st. walk_spec ctx cs st))"
  by pat_completeness auto
termination
proof (relation "measure (\<lambda>(p, cs, st). size_list size cs)")
  fix ctx :: "string list" and c :: children and cs :: "children list" and st :: walk_state
  show "((p, c_Children c, s), (ctx, c # cs, st)) \<in> measure (\<lambda>(p, cs, st). size_list size cs)" for p s
    by (cases c) simp
qed auto

function regular :: "children list \<Rightarrow> bool" where
  "regular [] \<longleftrightarrow> True"
| "regular (c # cs) \<longleftrightarrow>
     (c_Active c \<longrightarrow> c_Type c = ''action'' \<or>
        (if rd_Command (c_Read c) \<noteq> '''' then c_Type c \<noteq> ''subsystem''
         else c_Type c = ''subsystem'' \<and> regular (c_Children c))) \<and> regular cs"
  by pat_completeness auto
termination
proof (relation "measure (size_list size)")
  fix c :: children and cs :: "children list"
  show "(c_Children c, c # cs) \<in> measure (size_list size)" by (cases c) simp
qed auto

text \<open>What a call may change of the arrays: nothing below the length of its own slice.\<close>

definition frame :: "slice \<Rightarrow> arrays \<Rightarrow> arrays \<Rightarrow> bool" where
  "frame p h h' \<longleftrightarrow> length h \<le> length h' \<and>
     (\<forall>b < length h. length (h' ! b) = length (h ! b) \<and> (b \<noteq> sl_arr p \<longrightarrow> h' ! b = h ! b)) \<and>
     (sl_arr p < length h \<longrightarrow>
        take (sl_len p) (h' ! sl_arr p) = take (sl_len p) (h ! sl_arr p))"

definition sl_valid :: "arrays \<Rightarrow> slice \<Rightarrow> bool" where
  "sl_valid h p \<longleftrightarrow> sl_arr p < length h \<and> sl_len p \<le> length (h ! sl_arr p)"

lemma frame_refl: "frame p h h"
  by (simp add: frame_def)

lemma frame_trans: "frame p h h1 \<Longrightarrow> frame p h1 h2 \<Longrightarrow> frame p h h2"
  by (auto simp: frame_def)

lemma frame_contents: "frame p h h' \<Longrightarrow> sl_valid h p \<Longrightarrow> contents h' p = contents h p"
  by (auto simp: frame_def sl_valid_def contents_def)

lemma frame_valid: "frame p h h' \<Longrightarrow> sl_valid h p \<Longrightarrow> sl_valid h' p"
  by (auto simp: frame_def sl_valid_def)

lemma sl_append_valid:
  assumes "sl_append h p x = (h1, p1)" and "sl_valid h p"
  shows "sl_valid h1 p1" "contents h1 p1 = contents h p @ [x]"
  using assms
  by (auto simp: sl_append_def sl_valid_def contents_def Let_def nth_append take_Suc_conv_app_nth
      split: if_splits)

lemma sl_append_pop:
  assumes "sl_append h p x = (h1, p1)" and "sl_valid h p" and "frame p1 h1 h2"
  shows "sl_valid h2 (sl_pop p1)" "contents h2 (sl_pop p1) = contents h p"
proof -
  have v: "sl_valid h1 p1" and c: "contents h1 p1 = contents h p @ [x]"
    using sl_append_valid [OF assms(1,2)] by simp_all
  have l: "sl_len p1 = Suc (sl_len p)"
    using assms(1) by (auto simp: sl_append_def Let_def split: if_splits)
  have c2: "contents h2 p1 = contents h p @ [x]"
    using frame_contents [OF assms(3) v] c by simp
  show "sl_valid h2 (sl_pop p1)"
    using frame_valid [OF assms(3) v] by (auto simp: sl_valid_def sl_pop_def)
  have "contents h2 (sl_pop p1) = take (sl_len p) (contents h2 p1)"
    using l by (simp add: contents_def sl_pop_def min_def)
  also have "\<dots> = contents h p"
    using assms(2) unfolding c2 by (simp add: contents_def sl_valid_def)
  finally show "contents h2 (sl_pop p1) = contents h p" .
qed

lemma frame_take:
  "frame p h h' \<Longrightarrow> sl_arr p < length h \<Longrightarrow>
     take (sl_len p) (h' ! sl_arr p) = take (sl_len p) (h ! sl_arr p)"
  by (simp add: frame_def)

lemma take_Suc_eq: "take (Suc n) a = take (Suc n) b \<Longrightarrow> take n a = take n b"
  by (metis min.absorb1 le_SucI order_refl take_take)

lemma frame_append:
  assumes "sl_append h p x = (h1, p1)" and "sl_valid h p" and "frame p1 h1 h2"
    and "frame (sl_pop p1) h2 h3"
  shows "frame p h h3"
proof (cases "sl_len p < length (h ! sl_arr p)")
  case True
  then have p1: "p1 = p\<lparr>sl_len := Suc (sl_len p)\<rparr>"
    and h1: "h1 = h[sl_arr p := (h ! sl_arr p)[sl_len p := x]]"
    using assms(1) by (simp_all add: sl_append_def Let_def)
  have pp: "sl_pop p1 = p" by (simp add: p1 sl_pop_def)
  have "frame p h h1" using assms(2) by (auto simp: frame_def h1 nth_list_update sl_valid_def)
  moreover have t: "take (sl_len p) (h2 ! sl_arr p) = take (sl_len p) (h1 ! sl_arr p)"
    if "sl_arr p < length h1"
  proof -
    have "sl_arr p1 < length h1" using that by (simp add: p1)
    with assms(3) have "take (sl_len p1) (h2 ! sl_arr p1) = take (sl_len p1) (h1 ! sl_arr p1)"
      by (rule frame_take)
    then have "take (Suc (sl_len p)) (h2 ! sl_arr p) = take (Suc (sl_len p)) (h1 ! sl_arr p)"
      by (simp add: p1)
    then show ?thesis by (rule take_Suc_eq)
  qed
  moreover have "sl_arr p1 = sl_arr p" by (simp add: p1)
  with assms(3) t have "frame p h1 h2" by (simp add: frame_def)
  ultimately show ?thesis using assms(4) unfolding pp by (blast intro: frame_trans)
next
  case False
  then have p1: "p1 = \<lparr>sl_arr = length h, sl_len = Suc (sl_len p)\<rparr>" and l: "length h1 = Suc (length h)"
    and h1: "\<forall>b < length h. h1 ! b = h ! b"
    using assms(1) by (auto simp: sl_append_def Let_def nth_append)
  have h2: "length h1 \<le> length h2" "\<forall>b < length h. h2 ! b = h1 ! b"
    using assms(3) l by (auto simp: frame_def p1)
  have "length h2 \<le> length h3" "\<forall>b < length h. h3 ! b = h2 ! b"
    using assms(4) h2(1) l by (auto simp: frame_def p1 sl_pop_def)
  with h1 h2 l show ?thesis by (auto simp: frame_def)
qed

lemma heap_commute [simp]:
  "add_command c (st\<lparr>w_heap := h\<rparr>) = (add_command c st)\<lparr>w_heap := h\<rparr>"
  "add_exprs c (st\<lparr>w_heap := h\<rparr>) = (add_exprs c st)\<lparr>w_heap := h\<rparr>"
  "add_action c n (st\<lparr>w_heap := h\<rparr>) = (add_action c n st)\<lparr>w_heap := h\<rparr>"
  by (cases c; simp add: add_command_def add_exprs_def add_action_def Let_def)+

text \<open>The two results agree but for the arrays, which changed within the frame.\<close>

definition agrees ::
  "slice \<Rightarrow> arrays \<Rightarrow> (walk_state, string) go \<Rightarrow> (walk_state, string) go \<Rightarrow> bool" where
  "agrees p h r s \<longleftrightarrow>
     (case s of
        Ok st \<Rightarrow> \<exists>h'. r = Ok (st\<lparr>w_heap := h'\<rparr>) \<and> frame p h h'
      | Err e \<Rightarrow> r = Err e
      | Panic m \<Rightarrow> r = Panic m)"

lemma agrees_bind:
  assumes "agrees p1 h1 r s" and "\<And>st h2. frame p1 h1 h2 \<Longrightarrow> agrees p h (f (st\<lparr>w_heap := h2\<rparr>)) (g st)"
  shows "agrees p h (go_bind r f) (go_bind s g)"
proof (cases s)
  case (Ok st)
  then obtain h2 where "r = Ok (st\<lparr>w_heap := h2\<rparr>)" "frame p1 h1 h2"
    using assms(1) by (auto simp: agrees_def)
  with assms(2) [of h2 st] Ok show ?thesis by simp
qed (use assms(1) in \<open>auto simp: agrees_def\<close>)

lemma agrees_frame:
  "agrees p1 h1 r s \<Longrightarrow> (\<And>h2. frame p1 h1 h2 \<Longrightarrow> frame p h h2) \<Longrightarrow> agrees p h r s"
  by (auto simp: agrees_def split: go.splits)

lemma sl_last_contents:
  "sl_valid h p \<Longrightarrow> sl_last h p =
     (if contents h p = [] then Panic ''index out of range [-1]'' else Ok (last (contents h p)))"
  by (auto simp: sl_last_def sl_valid_def contents_def last_conv_nth)

lemma walk_regular:
  "regular cs \<Longrightarrow> sl_valid h path \<Longrightarrow>
     agrees path h (walk path cs (st\<lparr>w_heap := h\<rparr>)) (walk_spec (contents h path) cs st)"
proof (induction "size_list size cs" arbitrary: cs path h st rule: less_induct)
  case less
  show ?case
  proof (cases cs)
    case Nil
    then show ?thesis by (auto simp: agrees_def frame_refl)
  next
    case (Cons c cs')
    have reg: "regular cs'" using less.prems(1) Cons by simp
    have rest: "agrees path h (walk path cs' (s\<lparr>w_heap := h\<rparr>)) (walk_spec (contents h path) cs' s)" for s
      using less.hyps [OF _ reg less.prems(2)] Cons by simp
    consider "\<not> c_Active c" | "c_Active c" "c_Type c = ''action''"
      | "c_Active c" "c_Type c \<noteq> ''action''" "rd_Command (c_Read c) \<noteq> ''''" "c_Type c \<noteq> ''subsystem''"
      | "c_Active c" "rd_Command (c_Read c) = ''''" "c_Type c = ''subsystem''" "regular (c_Children c)"
      using less.prems(1) Cons by (auto split: if_splits)
    then show ?thesis
    proof cases
      case 1
      then show ?thesis using Cons rest by simp
    next
      case 2
      then show ?thesis using Cons rest by simp
    next
      case 3
      then show ?thesis
        using Cons rest less.prems(2) by (simp add: sl_last_contents) (simp add: agrees_def)
    next
      case 4
      obtain h1 p1 where a: "sl_append h path (c_ID c) = (h1, p1)" by fastforce
      note v = sl_append_valid [OF a less.prems(2)]
      have "size_list size (c_Children c) < size_list size cs" using Cons by (cases c) simp
      from less.hyps [OF this 4(4) v(1), of "add_exprs c st"]
      have sub: "agrees p1 h1 (walk p1 (c_Children c) ((add_exprs c st)\<lparr>w_heap := h1\<rparr>))
          (walk_spec (contents h path @ [c_ID c]) (c_Children c) (add_exprs c st))"
        by (simp add: v(2))
      have "agrees path h (walk (sl_pop p1) cs' (s\<lparr>w_heap := h2\<rparr>)) (walk_spec (contents h path) cs' s)"
        if f: "frame p1 h1 h2" for s h2
      proof -
        note p = sl_append_pop [OF a less.prems(2) f]
        have "agrees (sl_pop p1) h2 (walk (sl_pop p1) cs' (s\<lparr>w_heap := h2\<rparr>))
            (walk_spec (contents h path) cs' s)"
          using less.hyps [OF _ reg p(1), of s] Cons p(2) by simp
        then show ?thesis
          by (rule agrees_frame) (rule frame_append [OF a less.prems(2) f])
      qed
      then have "agrees path h
          (go_bind (walk p1 (c_Children c) ((add_exprs c st)\<lparr>w_heap := h1\<rparr>)) (walk (sl_pop p1) cs'))
          (go_bind (walk_spec (contents h path @ [c_ID c]) (c_Children c) (add_exprs c st))
             (walk_spec (contents h path) cs'))"
        by (rule agrees_bind [OF sub])
      then show ?thesis using Cons 4 a by (simp add: Let_def)
    qed
  qed
qed

section \<open>Laws of the payloads\<close>

text \<open>The payload of an action was filled with the action's own id.\<close>

definition filled ::
  "(string \<Rightarrow> string + params) \<Rightarrow> (params \<Rightarrow> string + string) \<Rightarrow> ActionConfig \<Rightarrow> bool" where
  "filled dec enc a \<longleftrightarrow>
     (\<exists>payload ps. fillPayload dec enc payload ps = Ok (ac_Payload a)
        \<and> look ps ''node.parent.id'' = GStr (ac_ID a))"

lemma filledI:
  assumes "fillPayload dec enc pl (AList.update ''node.parent.id'' (GStr i) ps) = Ok p"
    and "ac_ID a = i" and "ac_Payload a = p"
  shows "filled dec enc a"
proof -
  have "look (AList.update ''node.parent.id'' (GStr i) ps) ''node.parent.id'' = GStr (ac_ID a)"
    using assms(2) by simp
  with assms show ?thesis unfolding filled_def by blast
qed

lemma afterWalk_one_Ok:
  assumes "afterWalk_one dec enc k st = Ok st'"
  shows "(\<forall>j. j \<noteq> k \<longrightarrow> map_of (w_actions st') j = map_of (w_actions st) j)"
    and "\<forall>a. map_of (w_actions st') k = Some a \<longrightarrow> filled dec enc a"
  using assms
  by (auto simp: afterWalk_one_def Let_def go_map_eq_Ok update_conv'
      split: option.splits gval.splits) (erule filledI, simp_all)

lemma afterWalk_filled:
  "afterWalk dec enc ks st = Ok st' \<Longrightarrow>
     k \<in> set ks \<or> (\<forall>a. map_of (w_actions st) k = Some a \<longrightarrow> filled dec enc a) \<Longrightarrow>
     map_of (w_actions st') k = Some a \<Longrightarrow> filled dec enc a"
proof (induction ks arbitrary: st)
  case (Cons j ks)
  then obtain st1 where s: "afterWalk_one dec enc j st = Ok st1" "afterWalk dec enc ks st1 = Ok st'"
    by (auto simp: go_bind_eq_Ok)
  show ?case
  proof (cases "k = j")
    case True
    then show ?thesis using Cons.IH [OF s(2)] Cons.prems(3) afterWalk_one_Ok(2) [OF s(1)] by blast
  next
    case False
    then show ?thesis
      using Cons.IH [OF s(2)] Cons.prems(2,3) afterWalk_one_Ok(1) [OF s(1)] by auto
  qed
qed auto

lemma afterWalk_keys:
  "afterWalk dec enc ks st = Ok st' \<Longrightarrow>
     map_of (w_actions st') k \<noteq> None \<longleftrightarrow> map_of (w_actions st) k \<noteq> None"
proof (induction ks arbitrary: st)
  case (Cons j ks)
  then obtain st1 where s: "afterWalk_one dec enc j st = Ok st1" "afterWalk dec enc ks st1 = Ok st'"
    by (auto simp: go_bind_eq_Ok)
  have "map_of (w_actions st1) k \<noteq> None \<longleftrightarrow> map_of (w_actions st) k \<noteq> None"
    using s(1) by (auto simp: afterWalk_one_def Let_def go_map_eq_Ok update_conv'
        split: option.splits gval.splits if_splits)
  with Cons.IH [OF s(2)] show ?case by simp
qed auto

section \<open>Properties\<close>

text \<open>C13: on a regular tree (every active node an action, a leaf with a read command, or a subsystem
  without one) the walk over shared path arrays gives every action the innermost enclosing
  subsystem as its connector, and collects the same commands and expressions as the lexical
  reading of the tree.\<close>

theorem walk_finds_innermost_subsystem:
  assumes "regular cs"
  shows "case walk_spec [] cs walk_init of
      Ok st \<Rightarrow> \<exists>h. walk nil_slice cs walk_init = Ok (st\<lparr>w_heap := h\<rparr>)
    | Err e \<Rightarrow> walk nil_slice cs walk_init = Err e
    | Panic m \<Rightarrow> walk nil_slice cs walk_init = Panic m"
proof -
  have v: "sl_valid [[]] nil_slice" "contents [[]] nil_slice = []"
    by (simp_all add: sl_valid_def nil_slice_def contents_def)
  have i: "walk_init\<lparr>w_heap := [[]]\<rparr> = walk_init" by (simp add: walk_init_def)
  show ?thesis
    using walk_regular [OF assms v(1), of walk_init]
    by (auto simp: agrees_def v i split: go.split)
qed

definition no_read :: read_cfg where
  "no_read = \<lparr>rd_Type = '''', rd_Command = '''', rd_Interval = '''', rd_Expr = ''''\<rparr>"

definition subsystem :: "string \<Rightarrow> children list \<Rightarrow> children" where
  "subsystem i cs = Children i i ''subsystem'' True no_read '''' '''' None cs"

definition argument :: "string \<Rightarrow> string \<Rightarrow> children" where
  "argument i cmd =
     Children i i ''argument'' True
       \<lparr>rd_Type = ''schedule'', rd_Command = cmd, rd_Interval = '''', rd_Expr = ''''\<rparr> '''' '''' None []"

lemma walk_finds_innermost_subsystem_witness:
  "\<exists>st. walk nil_slice [subsystem ''a'' [subsystem ''b'' [argument ''t'' ''r''], argument ''u'' ''r'']]
       walk_init = Ok st
     \<and> map (\<lambda>x. ac_Connector (snd x)) (w_actions st) = [''b'', ''a'']"
proof -
  let ?cs = "[subsystem ''a'' [subsystem ''b'' [argument ''t'' ''r''], argument ''u'' ''r'']]"
  have r: "regular ?cs" by (simp add: subsystem_def argument_def no_read_def)
  obtain st where "walk_spec [] ?cs walk_init = Ok st"
      and "map (\<lambda>x. ac_Connector (snd x)) (w_actions st) = [''b'', ''a'']"
    by (simp add: subsystem_def argument_def no_read_def walk_init_def add_exprs_def add_action_def
        Let_def)
  moreover obtain h where "walk nil_slice ?cs walk_init = Ok (st\<lparr>w_heap := h\<rparr>)"
    using walk_finds_innermost_subsystem [OF r] calculation(1) by auto
  ultimately show ?thesis by auto
qed

text \<open>a subsystem with an argument that has no read command, followed by one that has, makes the
  preparation of the model panic: after every walked node the path loses its last element,
  subsystem or not.\<close>

theorem unread_argument_panics:
  assumes "cmd \<noteq> ''''"
  shows "prepare dec enc order [subsystem s [argument i '''', argument j cmd]]
    = Panic ''index out of range [-1]''"
  using assms
  by (simp add: prepare_def subsystem_def argument_def no_read_def walk_init_def add_exprs_def
      sl_append_def sl_pop_def sl_last_def nil_slice_def Let_def)

lemma unread_argument_panics_witness:
  "prepare (\<lambda>_. Inl '''') (\<lambda>_. Inl '''') (\<lambda>ks. ks)
     [subsystem ''plc'' [argument ''name'' '''', argument ''temp'' ''read'']]
   = Panic ''index out of range [-1]''"
  by (rule unread_argument_panics) simp

text \<open>one level deeper the action is attributed to the outer subsystem instead.\<close>

theorem unread_argument_wrong_connector:
  assumes "cmd \<noteq> ''''"
  shows "\<exists>st. walk nil_slice [subsystem a [subsystem b [argument i '''', argument j cmd]]] walk_init = Ok st
    \<and> map (\<lambda>x. ac_Connector (snd x)) (w_actions st) = [a]"
  using assms
  by (simp add: subsystem_def argument_def no_read_def walk_init_def add_exprs_def add_action_def
      sl_append_def sl_pop_def sl_last_def nil_slice_def Let_def)

lemma unread_argument_wrong_connector_witness:
  "\<exists>st. walk nil_slice [subsystem ''modbus'' [subsystem ''snmp'' [argument ''name'' '''', argument ''temp'' ''read'']]]
      walk_init = Ok st
    \<and> map (\<lambda>x. ac_Connector (snd x)) (w_actions st) = [''modbus'']"
  by (rule unread_argument_wrong_connector) simp

text \<open>filling the parameters of a command succeeds exactly when every parameter but \<open>_cancel\<close> is
  a string and every placeholder is in the data; each placeholder is then replaced by its value
  and nothing else changes.\<close>

theorem fill_params_correct:
  "fill_params d m = Ok r \<longleftrightarrow>
     list_all2 (\<lambda>(k, v) (k', v'). k' = k \<and>
        (if k = ''_cancel'' then v' = v
         else \<exists>vv. v = GStr vv \<and>
           (if is_placeholder vv then map_of d (placeholder_name vv) = Some v' else v' = v))) m r"
proof (induction m arbitrary: r)
  case Nil
  then show ?case by auto
next
  case (Cons e m)
  obtain k v where "e = (k, v)" by fastforce
  with Cons.IH show ?case
    by (auto simp: go_map_eq_Ok list_all2_Cons1 split: gval.splits option.splits)
qed

text \<open>when a model is prepared, every action carries a payload that was filled with the
  action's own id as \<open>node.parent.id\<close>, whatever the order in which the map was ranged over.\<close>

theorem prepared_actions_filled:
  assumes "prepare dec enc order cs = Ok m" and "\<And>ks. set ks \<subseteq> set (order ks)"
    and "map_of (md_actions m) k = Some a"
  shows "\<exists>payload ps. fillPayload dec enc payload ps = Ok (ac_Payload a)
     \<and> look ps ''node.parent.id'' = GStr (ac_ID a)"
proof -
  obtain st st' where s: "walk nil_slice cs walk_init = Ok st"
    "afterWalk dec enc (order (map fst (w_actions st))) st = Ok st'" "m = \<lparr>md_actions = w_actions st', md_expr = w_expr st'\<rparr>"
    using assms(1) by (auto simp: prepare_def go_bind_eq_Ok go_map_eq_Ok)
  have a: "map_of (w_actions st') k = Some a" using assms(3) s(3) by simp
  then have "map_of (w_actions st) k \<noteq> None" using afterWalk_keys [OF s(2), of k] by simp
  then have "k \<in> set (map fst (w_actions st))" by (simp add: map_of_eq_None_iff)
  with assms(2) have "k \<in> set (order (map fst (w_actions st)))" by blast
  with afterWalk_filled [OF s(2) _ a] show ?thesis by (simp add: filled_def)
qed

definition example_tree :: "children list" where
  "example_tree =
     [Children ''act'' ''act'' ''action'' True no_read '''' '''' (Some [(''payload'', GStr ''{}'')]) [],
      subsystem ''plc''
        [Children ''t'' ''temp'' ''argument'' True
           \<lparr>rd_Type = ''schedule'', rd_Command = ''r'', rd_Interval = ''@every 5s'', rd_Expr = ''''\<rparr> '''' '''' None
           [Children ''r'' ''r'' ''command'' True no_read '''' ''act'' (Some []) []]]]"

definition example_dec :: "string \<Rightarrow> string + params" where
  "example_dec _ = Inr \<lparr>p_JSONRPC = ''2.0'', p_Method = ''m'', p_Params = [(''n'', GStr ''{{node.parent.id}}'')]\<rparr>"

definition example_enc :: "params \<Rightarrow> string + string" where
  "example_enc p = Inr (Str (look (p_Params p) ''n''))"

lemma cloud_example_prepared:
  "prepare example_dec example_enc (\<lambda>ks. ks) example_tree
   = Ok \<lparr>md_actions = [(''temp'', \<lparr>ac_ID = ''t'', ac_Connector = ''plc'', ac_Type = ''schedule'',
         ac_Interval = ''@every 5s'', ac_Payload = ''t''\<rparr>)], md_expr = []\<rparr>"
  by (simp add: prepare_def example_tree_def subsystem_def no_read_def walk_init_def add_exprs_def
      add_command_def add_action_def sl_append_def sl_pop_def sl_last_def nil_slice_def
      afterWalk_one_def params_payload_def fillPayload_def example_dec_def example_enc_def
      is_placeholder_def placeholder_name_def has_prefix_def has_suffix_def Let_def)

lemma prepared_actions_filled_witness:
  "\<exists>payload ps. fillPayload example_dec example_enc payload ps = Ok ''t''
     \<and> look ps ''node.parent.id'' = GStr ''t''"
  using prepared_actions_filled [OF cloud_example_prepared, of "''temp''"] by simp

end
