(* ===== verification/Rpc_Service.thy ===== *)
theory Rpc_Service
  imports Rpc_Template Lua_Bridge State_Store Cloud Jsonrpc
begin

text \<open>
  The request interceptor of the core (\<open>internal/app/core/rpc/interceptor.go\<close>), the scheduler
  behind it (\<open>internal/pkg/core/jobs/jobs.go\<close>) and the identifiers it makes
  (\<open>pkg/nanoid\<close>): preparing a request (template, id, write script), the call with its
  timeout, the read script and the stored state on the way back, notifications, and the start of the
  actions of a model.

  The service keeps the script engine of \<open>Lua_Bridge\<close> and the store of
  \<open>State_Store\<close>. Marshalling, unmarshalling into an \<open>objx.Map\<close> (\<open>null\<close> gives the nil
  map \<open>GNil\<close>) or into any value, the random bytes, the outcomes of commits, the parser of schedules and the
  answers of connectors are parameters.
\<close>

section \<open>Identifiers\<close>

definition charset :: string where
  "charset = ''_-0123456789abcdefghijklmnopqrstuvwxyzABCDEFGHIJKLMNOPQRSTUVWXYZ''"

definition nanoid :: "byte list \<Rightarrow> string" where
  "nanoid bs = map (\<lambda>b. charset ! unat (b AND 63)) bs"

section \<open>State\<close>

text \<open>Entries of the scheduler: number, schedule, and what the function of the job holds: the connector and the
  array and length of the payload, which every run of the job shares.\<close>

record entry =
  en_id :: nat
  en_spec :: string
  en_connector :: string
  en_array :: string
  en_len :: nat

record cron =
  next_id :: nat
  entries :: "entry list"

definition AddFunc :: "(string \<Rightarrow> string option) \<Rightarrow> cron \<Rightarrow> string \<Rightarrow> ActionConfig \<Rightarrow> (nat, string) go \<times> cron" where
  "AddFunc spec_err c spec v =
     (case spec_err spec of
        Some e \<Rightarrow> (Err e, c)
      | None \<Rightarrow>
          let i = Suc (next_id c) in
          (Ok i, \<lparr>next_id = i, entries = entries c @
             [\<lparr>en_id = i, en_spec = spec, en_connector = ac_Connector v, en_array = ac_Payload v,
               en_len = length (ac_Payload v)\<rparr>]\<rparr>))"

definition cron_Remove :: "cron \<Rightarrow> nat \<Rightarrow> cron" where
  "cron_Remove c i = c\<lparr>entries := filter (\<lambda>x. en_id x \<noteq> i) (entries c)\<rparr>"

text \<open>\<open>sent\<close> is what was put on \<open>stateCh\<close>, \<open>drawn\<close> and \<open>commits\<close> count the identifiers
  made and the commits tried.\<close>

record ('p, 'g) rpc_service =
  action :: "('p, 'g) lua_service"
  stat :: state_service
  obj :: object
  mdl :: model
  jobs :: "nat list"
  job :: cron
  sent :: "string list"
  drawn :: nat
  commits :: nat

record ('p, 'g) rpc_env =
  engine :: "('p, 'g) engine"
  marshal :: "gval \<Rightarrow> string + string"
  unmarshal :: "string \<Rightarrow> string + gval"
  unmarshal_any :: "string \<Rightarrow> string + gval"
  commit :: "nat \<Rightarrow> string option"
  random :: "nat \<Rightarrow> byte list"
  newcap :: "nat \<Rightarrow> nat \<Rightarrow> nat"
  spec_err :: "string \<Rightarrow> string option"
  quote :: "string \<Rightarrow> string"
  enc_val :: "gval \<Rightarrow> string"

definition run_action ::
  "('p, 'g) rpc_env \<Rightarrow> ('p, 'g) rpc_service \<Rightarrow> string \<Rightarrow> gval \<Rightarrow> (gval, string) go \<times> ('p, 'g) rpc_service" where
  "run_action e s name d =
     (case lua_Execute (engine e) (action s) name d of (r, l) \<Rightarrow> (r, s\<lparr>action := l\<rparr>))"

definition store_state ::
  "('p, 'g) rpc_env \<Rightarrow> ('p, 'g) rpc_service \<Rightarrow> string \<Rightarrow> gval \<Rightarrow> (unit, string) go \<times> ('p, 'g) rpc_service" where
  "store_state e s key v =
     (case state_Set (marshal e) (commit e (commits s)) (stat s) key v of
        (r, st) \<Rightarrow> (r, s\<lparr>stat := st, commits := Suc (commits s)\<rparr>))"

section \<open>Errors\<close>

definition errTimeout :: rpc_error where
  "errTimeout = AddData ErrServer ''msg'' (GStr ''timeout'')"

definition errUnmarshal :: rpc_error where
  "errUnmarshal = AddData ErrParse ''msg'' (GStr ''json unmarshal error'')"

definition errBadIDType :: rpc_error where
  "errBadIDType = AddData ErrInternal ''msg'' (GStr ''id should be string or null'')"

section \<open>State on its way to the cloud\<close>

text \<open>A value that cannot be marshalled is logged and an empty message is sent all the same.\<close>

definition sendState ::
  "('p, 'g) rpc_env \<Rightarrow> ('p, 'g) rpc_service \<Rightarrow> string \<Rightarrow> gval \<Rightarrow> ('p, 'g) rpc_service" where
  "sendState e s parent v =
     (let d = access_set (GMap []) (trim_prefix parent ''edge.'') v;
          st = (case marshal e d of Inl _ \<Rightarrow> '''' | Inr t \<Rightarrow> t)
      in s\<lparr>sent := sent s @ [st]\<rparr>)"

text \<open>The value a connector reports: a string that is base64 text is replaced by its bytes.\<close>

definition decode_field :: "gval \<Rightarrow> string \<Rightarrow> (gval, string) go" where
  "decode_field m sel =
     (if IsStr (Get m sel) then
        (case b64_decode (Str (Get m sel)) of
           None \<Rightarrow> Ok m
         | Some b \<Rightarrow> Set m sel (GBytes b))
      else Ok m)"

text \<open>The read script of a parameter; without one, or when it fails, the value itself.\<close>

definition read_value ::
  "('p, 'g) rpc_env \<Rightarrow> ('p, 'g) rpc_service \<Rightarrow> string \<Rightarrow> gval \<Rightarrow> gval \<times> ('p, 'g) rpc_service" where
  "read_value e s parent v =
     (case run_action e s (''read.'' @ parent) v of
        (Ok r, s') \<Rightarrow> (if IsNil r then v else r, s')
      | (_, s') \<Rightarrow> (v, s'))"

section \<open>Notifications\<close>

text \<open>One turn of \<open>requestsListener\<close>.\<close>

definition notification ::
  "('p, 'g) rpc_env \<Rightarrow> ('p, 'g) rpc_service \<Rightarrow> string \<Rightarrow> (unit, string) go \<times> ('p, 'g) rpc_service" where
  "notification e s msg =
     (case unmarshal e msg of
        Inl _ \<Rightarrow> (Ok (), s)
      | Inr request \<Rightarrow>
          if IsNil (Get request ''params.value'') then (Ok (), s)
          else
            let parent = Str (Get request ''params.__request_params._parent'') in
            if parent = '''' then (Ok (), s)
            else
              (case decode_field request ''params.value'' of
                 Ok request' \<Rightarrow>
                   (case read_value e s parent (Get request' ''params.value'') of
                      (res, s1) \<Rightarrow>
                        (case store_state e s1 parent res of
                           (Ok _, s2) \<Rightarrow> (Ok (), sendState e s2 parent res)
                         | (Err _, s2) \<Rightarrow> (Ok (), s2)
                         | (Panic m, s2) \<Rightarrow> (Panic m, s2)))
               | Err _ \<Rightarrow> (Ok (), s)
               | Panic m \<Rightarrow> (Panic m, s)))"

fun requestsListener ::
  "('p, 'g) rpc_env \<Rightarrow> ('p, 'g) rpc_service \<Rightarrow> string list \<Rightarrow> (unit, string) go \<times> ('p, 'g) rpc_service" where
  "requestsListener e s [] = (Ok (), s)"
| "requestsListener e s (msg # ms) =
     (case notification e s msg of
        (Ok _, s') \<Rightarrow> requestsListener e s' ms
      | r \<Rightarrow> r)"

section \<open>Requests\<close>

text \<open>The write script: its result replaces the value; a failing script leaves the request.\<close>

definition write_value ::
  "('p, 'g) rpc_env \<Rightarrow> ('p, 'g) rpc_service \<Rightarrow> gval \<Rightarrow> bool \<Rightarrow> (gval \<times> bool, rpc_error) go \<times> ('p, 'g) rpc_service" where
  "write_value e s d changed =
     (let parent = Str (Get d ''params._parent'') in
      if Str (Get d ''params._type'') = ''write'' \<and> parent \<noteq> '''' then
        (case run_action e s (''write.'' @ parent) (Get d ''params.value'') of
           (Ok res, s') \<Rightarrow> (go_map (\<lambda>d'. (d', True)) (Set d ''params.value'' res), s')
         | (Err _, s') \<Rightarrow> (Ok (d, changed), s')
         | (Panic m, s') \<Rightarrow> (Panic m, s'))
      else (Ok (d, changed), s))"

text \<open>The identifier: a string is kept, a missing one is made.\<close>

definition with_id ::
  "('p, 'g) rpc_env \<Rightarrow> ('p, 'g) rpc_service \<Rightarrow> gval \<Rightarrow> bool \<Rightarrow> (gval \<times> bool, rpc_error) go \<times> ('p, 'g) rpc_service" where
  "with_id e s d changed =
     (let i = Get d ''id'' in
      if \<not> IsNil i \<and> \<not> IsStr i then (Err (AddData errBadIDType ''current_id'' i), s)
      else if IsNil i then
        (go_map (\<lambda>d'. (d', True)) (Set d ''id'' (GStr (nanoid (random e (drawn s))))),
         s\<lparr>drawn := Suc (drawn s)\<rparr>)
      else (Ok (d, changed), s))"

definition finish_request ::
  "('p, 'g) rpc_env \<Rightarrow> string \<Rightarrow> gval \<times> bool \<Rightarrow> (string \<times> gval, rpc_error) go" where
  "finish_request e payload r =
     (if snd r then
        (case marshal e (fst r) of
           Inl m \<Rightarrow> Panic m
         | Inr t \<Rightarrow> Ok (t, fst r))
      else Ok (payload, fst r))"

definition prepare_data ::
  "('p, 'g) rpc_env \<Rightarrow> ('p, 'g) rpc_service \<Rightarrow> string \<Rightarrow> bool
     \<Rightarrow> (string \<times> gval, rpc_error) go \<times> ('p, 'g) rpc_service" where
  "prepare_data e s payload changed =
     (case unmarshal e payload of
        Inl m \<Rightarrow> (Err (AddData errUnmarshal ''err'' (GStr m)), s)
      | Inr d \<Rightarrow>
          (case with_id e s d changed of
             (Ok (d1, c1), s1) \<Rightarrow>
               (case write_value e s1 d1 c1 of (r, s2) \<Rightarrow> (go_bind r (finish_request e payload), s2))
           | (Err x, s1) \<Rightarrow> (Err x, s1)
           | (Panic m, s1) \<Rightarrow> (Panic m, s1)))"

text \<open>\<open>prepareRequest\<close> on a slice of length \<open>n\<close> at the start of \<open>arr\<close>: the result, the service and
  the array afterwards, or nothing when the template never ends.\<close>

definition prepareRequest ::
  "('p, 'g) rpc_env \<Rightarrow> ('p, 'g) rpc_service \<Rightarrow> string \<Rightarrow> nat
     \<Rightarrow> ((string \<times> gval, rpc_error) go \<times> ('p, 'g) rpc_service \<times> string) option" where
  "prepareRequest e s arr n =
     (case fillTemplate (o_Config (obj s)) (newcap e) arr n of
        None \<Rightarrow> None
      | Some (Err m, _, arr') \<Rightarrow> Some (Err (AddData errUnmarshal ''err'' (GStr m)), s, arr')
      | Some (Panic m, _, arr') \<Rightarrow> Some (Panic m, s, arr')
      | Some (Ok payload, changed, arr') \<Rightarrow>
          (case prepare_data e s payload changed of (r, s') \<Rightarrow> Some (r, s', arr')))"

section \<open>Answers\<close>

definition finish_response ::
  "('p, 'g) rpc_env \<Rightarrow> ('p, 'g) rpc_service \<Rightarrow> gval \<Rightarrow> gval \<Rightarrow> string
     \<Rightarrow> (string, rpc_error) go \<times> ('p, 'g) rpc_service" where
  "finish_response e s result res resp =
     (case Set result ''result'' res of
        Ok result' \<Rightarrow> (case marshal e result' of Inl _ \<Rightarrow> (Ok resp, s) | Inr t \<Rightarrow> (Ok t, s))
      | Err x \<Rightarrow> (Err x, s)
      | Panic m \<Rightarrow> (Panic m, s))"

definition prepareResponse ::
  "('p, 'g) rpc_env \<Rightarrow> ('p, 'g) rpc_service \<Rightarrow> gval \<Rightarrow> string \<Rightarrow> (string, rpc_error) go \<times> ('p, 'g) rpc_service" where
  "prepareResponse e s req resp =
     (let parent = Str (Get req ''params._parent'') in
      if parent = '''' then (Ok resp, s)
      else
        (case unmarshal e resp of
           Inl _ \<Rightarrow> (Ok resp, s)
         | Inr result \<Rightarrow>
             if IsNil (Get result ''result'') then (Ok resp, s)
             else if Bool (Get result ''result.notification'') then (Ok resp, s)
             else
               (case decode_field result ''result'' of
                  Err m \<Rightarrow> (Ok resp, s)
                | Panic m \<Rightarrow> (Panic m, s)
                | Ok result1 \<Rightarrow>
                    (case read_value e s parent (Get result1 ''result'') of
                       (res, s1) \<Rightarrow>
                         (case store_state e s1 parent res of
                            (Panic m, s2) \<Rightarrow> (Panic m, s2)
                          | (_, s2) \<Rightarrow> finish_response e (sendState e s2 parent res) result1 res resp)))))"

text \<open>
  \<open>Call\<close>: what goes to the connector (name, identifier and payload), the answer, the service and
  the payload array. \<open>reply\<close> is the message that comes back before the timer, if any.
\<close>

definition finish_call ::
  "('p, 'g) rpc_env \<Rightarrow> ('p, 'g) rpc_service \<Rightarrow> gval \<Rightarrow> string option \<Rightarrow> (string, rpc_error) go \<times> ('p, 'g) rpc_service" where
  "finish_call e s d reply =
     (case reply of
        None \<Rightarrow> (Ok (BuildErrResp (quote e) (enc_val e) (Str (Get d ''id'')) errTimeout), s)
      | Some msg \<Rightarrow>
          if Str (Get d ''params._type'') = ''read'' then prepareResponse e s d msg else (Ok msg, s))"

record ('p, 'g) called =
  out :: "(string \<times> string \<times> string) option"
  answer :: "(string, rpc_error) go"
  after :: "('p, 'g) rpc_service"
  array :: string

definition rpc_Call ::
  "('p, 'g) rpc_env \<Rightarrow> (string \<Rightarrow> string \<Rightarrow> string \<Rightarrow> string option) \<Rightarrow> ('p, 'g) rpc_service \<Rightarrow> string
     \<Rightarrow> string \<Rightarrow> nat \<Rightarrow> ('p, 'g) called option" where
  "rpc_Call e reply s name arr n =
     (case prepareRequest e s arr n of
        None \<Rightarrow> None
      | Some (Err x, s', arr') \<Rightarrow>
          Some \<lparr>out = None, answer = Ok (BuildErrResp (quote e) (enc_val e) '''' x), after = s', array = arr'\<rparr>
      | Some (Panic m, s', arr') \<Rightarrow> Some \<lparr>out = None, answer = Panic m, after = s', array = arr'\<rparr>
      | Some (Ok (payload, d), s', arr') \<Rightarrow>
          let i = Str (Get d ''id'') in
          (case finish_call e s' d (reply name i payload) of
             (r, s'') \<Rightarrow>
               Some \<lparr>out = Some (name, i, payload), answer = r, after = s'', array = arr'\<rparr>))"

section \<open>Actions\<close>

text \<open>
  \<open>spawnJobs\<close>: schedules go to the scheduler, subscriptions run in goroutines of their own (the
  result lists them). The method has a value receiver: the numbers it collects in \<open>s.jobs\<close> are in
  its copy.
\<close>

definition spawn_error :: "string \<Rightarrow> string \<Rightarrow> string" where
  "spawn_error i m = ''spawn ['' @ i @ '']: '' @ m"

fun spawn_loop ::
  "('p, 'g) rpc_env \<Rightarrow> ('p, 'g) rpc_service \<Rightarrow> ActionConfig list
     \<Rightarrow> (unit, string) go \<times> ActionConfig list \<times> ('p, 'g) rpc_service" where
  "spawn_loop e s [] = (Ok (), [], s)"
| "spawn_loop e s (v # vs) =
     (if ac_Type v = ''schedule'' then
        (case AddFunc (spec_err e) (job s) (ac_Interval v) v of
           (Ok i, c) \<Rightarrow> spawn_loop e (s\<lparr>job := c, jobs := jobs s @ [i]\<rparr>) vs
         | (Err m, c) \<Rightarrow> (Err (spawn_error (ac_ID v) m), [], s\<lparr>job := c\<rparr>)
         | (Panic m, c) \<Rightarrow> (Panic m, [], s\<lparr>job := c\<rparr>))
      else if ac_Type v = ''subscribe'' then
        (case spawn_loop e s vs of (r, subs, s') \<Rightarrow> (r, v # subs, s'))
      else (Err (''spawn: wrong type '' @ ac_Type v), [], s))"

definition spawnJobs ::
  "('p, 'g) rpc_env \<Rightarrow> ('p, 'g) rpc_service \<Rightarrow> ActionConfig list
     \<Rightarrow> (unit, string) go \<times> ActionConfig list \<times> ('p, 'g) rpc_service" where
  "spawnJobs e s vs =
     (case spawn_loop e s vs of (r, subs, s') \<Rightarrow> (r, subs, s'\<lparr>jobs := jobs s\<rparr>))"

text \<open>A run of a scheduled job: the array of the entry is the one the next run starts from.\<close>

definition run_job ::
  "('p, 'g) rpc_env \<Rightarrow> (string \<Rightarrow> string \<Rightarrow> string \<Rightarrow> string option) \<Rightarrow> ('p, 'g) rpc_service \<Rightarrow> entry
     \<Rightarrow> (('p, 'g) called \<times> entry) option" where
  "run_job e reply s x =
     (case rpc_Call e reply s (en_connector x) (en_array x) (en_len x) of
        None \<Rightarrow> None
      | Some c \<Rightarrow> Some (c, x\<lparr>en_array := array c\<rparr>))"

text \<open>\<open>subscribe\<close>: the process id it logs, if the answer has one.\<close>

definition subscribe ::
  "('p, 'g) rpc_env \<Rightarrow> (string \<Rightarrow> string \<Rightarrow> string \<Rightarrow> string option) \<Rightarrow> (string \<Rightarrow> string option)
     \<Rightarrow> ('p, 'g) rpc_service \<Rightarrow> ActionConfig \<Rightarrow> (string option \<times> ('p, 'g) called) option" where
  "subscribe e reply process_id s v =
     (case rpc_Call e reply s (ac_Connector v) (ac_Payload v) (length (ac_Payload v)) of
        None \<Rightarrow> None
      | Some c \<Rightarrow> Some (case answer c of Ok t \<Rightarrow> process_id t | _ \<Rightarrow> None, c))"

section \<open>Start and stop\<close>

text \<open>
  \<open>New\<close>: \<open>loaded\<close> is what the cloud answers for the object, and for the model of an object. The
  maps of the model are ranged over in some order, here that of its lists.
\<close>

definition new_cron :: cron where
  "new_cron = \<lparr>next_id = 0, entries = []\<rparr>"

definition rpc_New ::
  "('p, 'g) rpc_env \<Rightarrow> ('p, 'g) lua_service \<Rightarrow> db \<Rightarrow> bool \<Rightarrow> (object, string) go
     \<Rightarrow> (string \<Rightarrow> (model, string) go)
     \<Rightarrow> (ActionConfig list \<times> ('p, 'g) rpc_service, string) go \<times> ('p, 'g) lua_service" where
  "rpc_New e ac d cleanStart loadObject loadModel =
     (case NewService (unmarshal_any e) (commit e 0) cleanStart d of
        Err m \<Rightarrow> (Err m, ac)
      | Panic m \<Rightarrow> (Panic m, ac)
      | Ok st \<Rightarrow>
          (case loadObject of
             Err m \<Rightarrow> (Err m, ac)
           | Panic m \<Rightarrow> (Panic m, ac)
           | Ok ob \<Rightarrow>
               (case loadModel (o_ModelsID ob) of
                  Err m \<Rightarrow> (Err m, ac)
                | Panic m \<Rightarrow> (Panic m, ac)
                | Ok md \<Rightarrow>
                    (case lua.add_all (engine e) ac (md_expr md) of
                       (Err m, ac') \<Rightarrow> (Err m, ac')
                     | (Panic m, ac') \<Rightarrow> (Panic m, ac')
                     | (Ok _, ac') \<Rightarrow>
                         (let s = \<lparr>action = ac', stat = st, obj = ob, mdl = md, jobs = [],
                                   job = new_cron, sent = [], drawn = 0, commits = 1\<rparr> in
                          case spawnJobs e s (map snd (md_actions md)) of
                            (r, subs, s') \<Rightarrow> (go_map (\<lambda>_. (subs, s')) r, ac'))))))"

definition GetEdgeID :: "('p, 'g) rpc_service \<Rightarrow> string" where
  "GetEdgeID s = o_ID (obj s)"

text \<open>Nothing calls \<open>undoAll\<close> yet; it is meant for an object whose model has changed.\<close>

definition undoAll :: "('p, 'g) rpc_service \<Rightarrow> ('p, 'g) rpc_service" where
  "undoAll s = s\<lparr>job := foldl cron_Remove (job s) (jobs s),
                 action := foldl lua_Remove (action s) (map fst (md_expr (mdl s)))\<rparr>"

section \<open>Laws of the steps\<close>

named_theorems rpc_frame

lemma run_action_frame [rpc_frame]:
  assumes "run_action e s n d = (r, s')"
  shows "stat s' = stat s \<and> obj s' = obj s \<and> mdl s' = mdl s \<and> jobs s' = jobs s \<and> job s' = job s
    \<and> sent s' = sent s \<and> \<not> is_panic r"
  using assms lua.Execute_no_panic [of "engine e" "action s" n d]
  by (auto simp: run_action_def split: prod.splits)

lemma run_action_safe [simp]: "run_action e s n d \<noteq> (Panic m, s')"
  using run_action_frame [of e s n d "Panic m" s'] by auto

lemma store_state_frame [rpc_frame]:
  assumes "store_state e s k v = (r, s')" and "state_inv (stat s)"
  shows "state_inv (stat s') \<and> \<not> is_panic r \<and> sent s' = sent s"
  using assms state.set_no_panic [of "stat s" "marshal e" "commit e (commits s)" k v]
    state.set_inv [of "stat s" "marshal e" "commit e (commits s)" k v]
  by (auto simp: store_state_def split: prod.splits)

lemma store_state_get:
  assumes "store_state e s k v = (r, s')" and "state_inv (stat s)" and "no_bracket k" and "\<not> IsNil v"
  shows "state_Get (stat s') k = Some [(k, v)]"
  using assms state.get_set [of "stat s" k "marshal e" "commit e (commits s)" v]
  by (auto simp: store_state_def split: prod.splits)

lemma sendState_frame [simp]:
  "stat (sendState e s p v) = stat s" "action (sendState e s p v) = action s"
  "obj (sendState e s p v) = obj s"
  by (simp_all add: sendState_def Let_def)

lemma sendState_sent:
  "sent (sendState e s p v) = sent s @ [case marshal e (access_set (GMap []) (trim_prefix p ''edge.'') v) of
     Inl _ \<Rightarrow> '''' | Inr t \<Rightarrow> t]"
  by (simp add: sendState_def Let_def)

lemma read_value_frame:
  assumes "read_value e s p v = (r, s')"
  shows "stat s' = stat s \<and> sent s' = sent s \<and> (IsNil r \<longrightarrow> IsNil v)"
  using assms
  by (auto simp: read_value_def split: prod.splits go.splits if_splits dest!: run_action_frame)

lemma Set_map: "is_GMap m \<Longrightarrow> Set m k v = Ok (access_set m k v)"
  by (auto simp: Set_def is_GMap_def split: gval.splits)

lemma Set_fails: "\<not> is_GMap m \<Longrightarrow> Set m k v = Panic ''assignment to entry in nil map''"
  by (auto simp: Set_def is_GMap_def split: gval.splits)

lemma Get_Set:
  assumes "Set m k v = Ok m'" and "no_bracket k"
  shows "Get m' k = v" and "is_GMap m'"
proof -
  have m: "is_GMap m" using assms(1) by (cases "is_GMap m") (auto simp: Set_fails)
  with assms(1) have "m' = access_set m k v" by (simp add: Set_map)
  with m access_get_set [OF assms(2) m, of v] show "Get m' k = v" "is_GMap m'"
    by (simp_all add: Get_def)
qed

lemma Get_Set_other:
  assumes "Set m k v = Ok m'" and "no_bracket k" and "no_bracket j"
    and "fst (split_dot k) \<noteq> fst (split_dot j)"
  shows "Get m' j = Get m j"
proof -
  have m: "is_GMap m" using assms(1) by (cases "is_GMap m") (auto simp: Set_fails)
  with assms(1) have "m' = access_set m k v" by (simp add: Set_map)
  with m access_get_set_other [OF assms(2-4) m, of v] show ?thesis by (simp add: Get_def)
qed

lemma Get_nil_map: "\<not> is_GMap m \<Longrightarrow> no_bracket k \<Longrightarrow> Get m k = GNil"
  by (simp add: Get_def access_get_no_map)

lemma decode_field_map:
  assumes "is_GMap m" and "no_bracket k"
  shows "\<exists>m'. decode_field m k = Ok m' \<and> is_GMap m' \<and> (IsNil (Get m' k) \<longleftrightarrow> IsNil (Get m k))"
proof (cases "IsStr (Get m k)")
  case True
  then obtain t where t: "Get m k = GStr t" by (cases "Get m k") auto
  show ?thesis
  proof (cases "b64_decode t")
    case None
    with t assms show ?thesis by (simp add: decode_field_def)
  next
    case (Some b)
    with t assms Get_Set [of m k "GBytes b"] show ?thesis
      by (simp add: decode_field_def Set_map)
  qed
next
  case False
  with assms show ?thesis by (simp add: decode_field_def)
qed

section \<open>Requests\<close>

lemma no_bracket_keys [simp]:
  "no_bracket ''id''" "no_bracket ''params.value''" "no_bracket ''result''"
  "split_dot ''id'' = (''id'', [])" "split_dot ''params.value'' = (''params'', ''value'')"
  by (simp_all add: split_dot_def)

lemma with_id_ok:
  assumes "with_id e s d c = (Ok (d', c'), s')"
  shows "IsStr (Get d' ''id'') \<and> stat s' = stat s \<and> sent s' = sent s \<and> action s' = action s
    \<and> (c' \<or> d' = d \<and> c' = c)"
  using assms
  by (auto simp: with_id_def Let_def split: if_splits prod.splits
      elim!: go_map.elims dest!: Get_Set(1))

lemma write_value_ok:
  assumes "write_value e s d c = (Ok (d', c'), s')"
  shows "Get d' ''id'' = Get d ''id'' \<and> stat s' = stat s \<and> sent s' = sent s \<and> (c' \<or> d' = d \<and> c' = c)"
  using assms
  by (auto simp: write_value_def Let_def split: if_splits prod.splits go.splits
      elim!: go_map.elims dest!: run_action_frame dest: Get_Set_other [where j = "''id''"])

lemma fillTemplate_plain:
  "index_of (take n arr) ''{{'' = None \<Longrightarrow> fillTemplate cfg nc arr n = Some (Ok (take n arr), False, arr)"
  by (subst fillTemplate_def, subst template_loop.simps) (simp add: template_step_def Let_def)

lemma fillTemplate_unchanged:
  assumes "fillTemplate cfg nc arr n = Some (Ok p, False, arr')"
  shows "p = take n arr"
  using assms
  by (auto simp: fillTemplate_def template_loop.simps [of cfg nc arr None n] template_step_def Let_def
      bind_eq_Some_conv split: template_step.splits option.splits if_splits prod.splits)

lemma prepare_data_ok:
  assumes "prepare_data e s payload changed = (Ok (p, d), s')"
  shows "IsStr (Get d ''id'')
    \<and> (marshal e d = Inr p \<or> unmarshal e p = Inr d \<and> p = payload \<and> \<not> changed)
    \<and> stat s' = stat s \<and> sent s' = sent s"
proof -
  from assms obtain d0 d1 c1 s1 d2 c2 where u: "unmarshal e payload = Inr d0"
    and i: "with_id e s d0 changed = (Ok (d1, c1), s1)"
    and w: "write_value e s1 d1 c1 = (Ok (d2, c2), s')"
    and f: "finish_request e payload (d2, c2) = Ok (p, d)"
    by (auto simp: prepare_data_def split: sum.splits prod.splits go.splits elim!: go_bind.elims)
  from f have "d2 = d" "(if c2 then marshal e d = Inr p else p = payload)"
    by (auto simp: finish_request_def split: if_splits sum.splits)
  with u with_id_ok [OF i] write_value_ok [OF w] show ?thesis by auto
qed

lemma prepareRequest_ok:
  assumes "prepareRequest e s arr n = Some (Ok (p, d), s', arr')"
  shows "IsStr (Get d ''id'')
    \<and> (marshal e d = Inr p \<or> unmarshal e p = Inr d \<and> p = take n arr)
    \<and> stat s' = stat s \<and> sent s' = sent s"
proof -
  from assms obtain payload changed where
    t: "fillTemplate (o_Config (obj s)) (newcap e) arr n = Some (Ok payload, changed, arr')"
    and p: "prepare_data e s payload changed = (Ok (p, d), s')"
    by (auto simp: prepareRequest_def split: option.splits prod.splits go.splits)
  have "\<not> changed \<Longrightarrow> payload = take n arr"
    using t fillTemplate_unchanged [of "o_Config (obj s)" "newcap e" arr n payload arr'] by simp
  with prepare_data_ok [OF p] show ?thesis by auto
qed

text \<open>C11: a prepared request always carries a string identifier, the one the answer is awaited under,
  and the text sent is either the marshalled request or, untouched, what came in.\<close>

theorem prepared_request_identified:
  assumes "prepareRequest e s arr n = Some (Ok (p, d), s', arr')"
  shows "IsStr (Get d ''id'')
    \<and> (marshal e d = Inr p \<or> unmarshal e p = Inr d \<and> p = take n arr)
    \<and> stat s' = stat s \<and> sent s' = sent s"
  by (rule prepareRequest_ok [OF assms])

text \<open>A request that fails is answered without a trace.\<close>

lemma with_id_err:
  "with_id e s d c = (Err x, s') \<Longrightarrow> s' = s \<and> err_code x = -32603"
  by (auto simp: with_id_def Let_def errBadIDType_def rpc_simps Set_def
      split: if_splits prod.splits gval.splits)

lemma write_value_err: "write_value e s d c \<noteq> (Err x, s')"
  by (auto simp: write_value_def Let_def Set_def split: if_splits prod.splits go.splits gval.splits)

lemma prepare_data_err:
  assumes "prepare_data e s payload c = (Err x, s')"
  shows "s' = s \<and> err_code x \<in> {-32700, -32603}"
  using assms
  by (auto simp: prepare_data_def errUnmarshal_def rpc_simps finish_request_def write_value_err
      split: sum.splits prod.splits go.splits if_splits elim!: go_bind.elims dest!: with_id_err)

text \<open>a request whose template, JSON text or identifier is wrong goes to no connector, leaves
  scripts, state and scheduler as they were and is answered with a parse or internal error.\<close>

theorem rejected_request_leaves_no_trace:
  assumes "rpc_Call e reply s name arr n = Some c" and "out c = None" and "\<not> is_panic (answer c)"
  shows "after c = s \<and> (\<exists>x. answer c = Ok (BuildErrResp (quote e) (enc_val e) '''' x)
    \<and> err_code x \<in> {-32700, -32603})"
  using assms
  by (auto simp: rpc_Call_def prepareRequest_def Let_def errUnmarshal_def rpc_simps
      split: option.splits prod.splits go.splits dest!: prepare_data_err)

text \<open>the JSON text \<open>null\<close> as a request ends the process: it decodes to a nil map without an
  error, and setting the identifier in it panics in a goroutine nothing recovers.\<close>

theorem null_request_panics:
  assumes "index_of (take n arr) ''{{'' = None" and "unmarshal e (take n arr) = Inr GNil"
  shows "\<exists>c. rpc_Call e reply s name arr n = Some c
    \<and> answer c = Panic ''assignment to entry in nil map'' \<and> out c = None"
proof -
  note fillTemplate_plain [OF assms(1)]
  moreover have "Get GNil ''id'' = GNil" by (rule Get_nil_map) (simp_all add: is_GMap_def)
  ultimately show ?thesis
    using assms(2) by (simp add: rpc_Call_def prepareRequest_def prepare_data_def with_id_def Set_def Let_def)
qed

section \<open>Values on their way in\<close>

definition map_reader :: "('p, 'g) rpc_env \<Rightarrow> bool" where
  "map_reader e \<longleftrightarrow> (\<forall>t v. unmarshal e t = Inr v \<longrightarrow> v = GNil \<or> is_GMap v)"

text \<open>\<open>recorded\<close>: the value is in the store under its name, and one message with it went to the
  cloud.\<close>

definition recorded ::
  "('p, 'g) rpc_env \<Rightarrow> ('p, 'g) rpc_service \<Rightarrow> string \<Rightarrow> gval \<Rightarrow> ('p, 'g) rpc_service \<Rightarrow> bool" where
  "recorded e s parent res s' \<longleftrightarrow>
     state_Get (stat s') parent = Some [(parent, res)] \<and>
     sent s' = sent s @ [case marshal e (access_set (GMap []) (trim_prefix parent ''edge.'') res) of
       Inl _ \<Rightarrow> '''' | Inr t \<Rightarrow> t]"

lemma store_and_send:
  assumes "state_inv (stat s)" and "\<not> IsNil v" and "no_bracket parent"
    and r: "read_value e s parent v = (res, s1)" and w: "store_state e s1 parent res = (x, s2)"
  shows "recorded e s parent res (sendState e s2 parent res) \<and> state_inv (stat s2)
    \<and> \<not> is_panic x \<and> \<not> IsNil res \<and> state_Get (stat s2) parent = Some [(parent, res)] \<and> sent s2 = sent s"
proof -
  from read_value_frame [OF r] assms(1,2) have 1: "stat s1 = stat s" "sent s1 = sent s" "\<not> IsNil res"
    "state_inv (stat s1)"
    by auto
  with store_state_frame [OF w] store_state_get [OF w _ assms(3)] show ?thesis
    by (simp add: recorded_def sendState_sent)
qed

lemma notification_safe:
  assumes "map_reader e" and "state_inv (stat s)"
  shows "\<exists>s'. notification e s msg = (Ok (), s') \<and> state_inv (stat s')"
proof (cases "unmarshal e msg")
  case (Inl m)
  with assms show ?thesis by (simp add: notification_def)
next
  case (Inr request)
  show ?thesis
  proof (cases "IsNil (Get request ''params.value'') \<or> Str (Get request ''params.__request_params._parent'') = ''''")
    case True
    with Inr assms show ?thesis by (auto simp: notification_def Let_def)
  next
    case False
    let ?p = "Str (Get request ''params.__request_params._parent'')"
    have m: "is_GMap request"
      using False Get_nil_map [of request "''params.value''"] by (cases "is_GMap request") auto
    from decode_field_map [OF m, of "''params.value''"]
    obtain r where r: "decode_field request ''params.value'' = Ok r" by auto
    obtain res s1 where v: "read_value e s ?p (Get r ''params.value'') = (res, s1)" by fastforce
    obtain x s2 where w: "store_state e s1 ?p res = (x, s2)" by fastforce
    from read_value_frame [OF v] assms(2) have "state_inv (stat s1)" by simp
    from store_state_frame [OF w this] False Inr r v w show ?thesis
      by (cases x) (auto simp: notification_def Let_def)
  qed
qed

text \<open>C33: no sequence of messages stops the listener of notifications, and the store stays well formed
  whatever they hold.\<close>

theorem listener_survives_any_message:
  assumes "map_reader e" and "state_inv (stat s)"
  shows "\<exists>s'. requestsListener e s msgs = (Ok (), s') \<and> state_inv (stat s')"
  using assms(2)
proof (induction msgs arbitrary: s)
  case (Cons m msgs)
  from notification_safe [OF assms(1) Cons.prems, of m] Cons.IH show ?case by fastforce
qed simp

lemma read_answer_value:
  assumes "prepareRequest e s arr n = Some (Ok (p, d), s1, arr1)"
    and "reply name (Str (Get d ''id'')) p = Some msg"
    and "Str (Get d ''params._type'') = ''read''"
    and "Str (Get d ''params._parent'') = parent" and "parent \<noteq> ''''" and "no_bracket parent"
    and "unmarshal e msg = Inr result" and "\<not> IsNil (Get result ''result'')"
    and "\<not> Bool (Get result ''result.notification'')" and "state_inv (stat s)"
  shows "\<exists>c res r. rpc_Call e reply s name arr n = Some c \<and> out c = Some (name, Str (Get d ''id''), p)
    \<and> recorded e s parent res (after c) \<and> state_inv (stat (after c))
    \<and> Get r ''result'' = res
    \<and> answer c = Ok (case marshal e r of Inl _ \<Rightarrow> msg | Inr t \<Rightarrow> t)
    \<and> (funcs (action s1) (''read.'' @ parent) = None \<and> \<not> IsStr (Get result ''result'') \<longrightarrow> res = Get result ''result'')"
proof -
  have q: "stat s1 = stat s" "sent s1 = sent s"
    using prepareRequest_ok [OF assms(1)] by auto
  have m: "is_GMap result"
    using assms(8) Get_nil_map [of result "''result''"] by (cases "is_GMap result") auto
  from decode_field_map [OF m, of "''result''"] assms(8)
  obtain r1 where r1: "decode_field result ''result'' = Ok r1" "is_GMap r1" "\<not> IsNil (Get r1 ''result'')"
    by auto
  obtain res s2 where v: "read_value e s1 parent (Get r1 ''result'') = (res, s2)" by fastforce
  obtain x s3 where w: "store_state e s2 parent res = (x, s3)" by fastforce
  from assms(10) q have "state_inv (stat s1)" by simp
  from store_and_send [OF this r1(3) assms(6) v w]
  have f: "recorded e s1 parent res (sendState e s3 parent res)" "state_inv (stat s3)" "\<not> is_panic x"
    by auto
  obtain r2 where r2: "Set r1 ''result'' res = (Ok r2 :: (gval, rpc_error) go)"
    using r1(2) by (simp add: Set_map)
  have "prepareResponse e s1 d msg
      = (Ok (case marshal e r2 of Inl _ \<Rightarrow> msg | Inr t \<Rightarrow> t), sendState e s3 parent res)"
    using assms(4,5,7-9) r1(1) v w r2 f(3)
    by (cases x) (auto simp: prepareResponse_def finish_response_def Let_def split: sum.splits)
  then have "rpc_Call e reply s name arr n = Some \<lparr>out = Some (name, Str (Get d ''id''), p),
      answer = Ok (case marshal e r2 of Inl _ \<Rightarrow> msg | Inr t \<Rightarrow> t),
      after = sendState e s3 parent res, array = arr1\<rparr>"
    using assms(1-3) by (simp add: rpc_Call_def finish_call_def Let_def)
  moreover have "recorded e s parent res (sendState e s3 parent res)"
    using f(1) q by (simp add: recorded_def)
  moreover have "Get r2 ''result'' = res" using Get_Set(1) [OF r2] by simp
  moreover have "res = Get result ''result''"
    if "funcs (action s1) (''read.'' @ parent) = None \<and> \<not> IsStr (Get result ''result'')"
    using that v r1(1) by (simp add: decode_field_def read_value_def run_action_def lua.Execute_unknown)
  ultimately show ?thesis
    using f(2) by (intro exI [where x = r2] exI [where x = res] exI conjI) (assumption | simp)+
qed

lemma read_answer_kept:
  assumes "prepareRequest e s arr n = Some (Ok (p, d), s1, arr1)"
    and "reply name (Str (Get d ''id'')) p = Some msg"
    and "Str (Get d ''params._type'') = ''read''"
    and "Str (Get d ''params._parent'') = parent" and "parent \<noteq> ''''" and "no_bracket parent"
    and "unmarshal e msg = Inr result" and "\<not> IsNil (Get result ''result'')"
    and "\<not> Bool (Get result ''result.notification'')" and "state_inv (stat s)"
  shows "\<exists>c res r. rpc_Call e reply s name arr n = Some c \<and> out c = Some (name, Str (Get d ''id''), p)
    \<and> recorded e s parent res (after c) \<and> state_inv (stat (after c))
    \<and> Get r ''result'' = res
    \<and> answer c = Ok (case marshal e r of Inl _ \<Rightarrow> msg | Inr t \<Rightarrow> t)"
  using read_answer_value [where reply = reply and name = name and msg = msg, OF assms] by blast

text \<open>the answer of a connector to a read: the script's value (or the reported one) is stored under
  the parameter, published once, and is the result of the answer passed on.\<close>

theorem read_answer_recorded:
  assumes "prepareRequest e s arr n = Some (Ok (p, d), s1, arr1)"
    and "reply name (Str (Get d ''id'')) p = Some msg"
    and "Str (Get d ''params._type'') = ''read''"
    and "Str (Get d ''params._parent'') = parent" and "parent \<noteq> ''''" and "no_bracket parent"
    and "unmarshal e msg = Inr result" and "\<not> IsNil (Get result ''result'')"
    and "\<not> Bool (Get result ''result.notification'')" and "state_inv (stat s)"
  shows "\<exists>c res r. rpc_Call e reply s name arr n = Some c \<and> out c = Some (name, Str (Get d ''id''), p)
    \<and> recorded e s parent res (after c) \<and> state_inv (stat (after c))
    \<and> Get r ''result'' = res
    \<and> answer c = Ok (case marshal e r of Inl _ \<Rightarrow> msg | Inr t \<Rightarrow> t)"
  by (rule read_answer_kept) (fact assms)+

section \<open>Values on their way out\<close>

text \<open>C38: the result of the write script is what the connector is told to write: it replaces the value
  of the request, everything outside \<open>params\<close> keeps its value, and the marshalled request is sent.
  A failing script changes nothing.\<close>

theorem write_script_applied:
  assumes "index_of (take n arr) ''{{'' = None" and "unmarshal e (take n arr) = Inr d0"
    and "IsStr (Get d0 ''id'')" and "Str (Get d0 ''params._type'') = ''write''"
    and "Str (Get d0 ''params._parent'') = parent" and "parent \<noteq> ''''"
    and "prepareRequest e s arr n = Some (Ok (p, d), s', arr')"
  shows "case run_action e s (''write.'' @ parent) (Get d0 ''params.value'') of
      (Ok res, t) \<Rightarrow> Get d ''params.value'' = res \<and> Inr p = marshal e d \<and> s' = t
        \<and> (\<forall>k. no_bracket k \<longrightarrow> fst (split_dot k) \<noteq> ''params'' \<longrightarrow> Get d k = Get d0 k)
    | (_, t) \<Rightarrow> p = take n arr \<and> d = d0 \<and> s' = t"
proof -
  note f = fillTemplate_plain [OF assms(1)]
  have i: "with_id e s d0 False = (Ok (d0, False), s)"
    using assms(3) by (cases "Get d0 ''id''") (simp_all add: with_id_def)
  obtain r t where a: "run_action e s (''write.'' @ parent) (Get d0 ''params.value'') = (r, t)" by fastforce
  show ?thesis
  proof (cases r)
    case (Ok res)
    have "finish_request e (take n arr) (d, True) = Ok (p, d) \<and> Set d0 ''params.value'' res = (Ok d :: (gval, rpc_error) go) \<and> s' = t"
      using assms(2,4-7) f i a Ok
      by (auto simp: prepareRequest_def prepare_data_def write_value_def finish_request_def
          split: sum.splits elim!: go_bind.elims go_map.elims)
    then have s: "Set d0 ''params.value'' res = (Ok d :: (gval, rpc_error) go)" "Inr p = marshal e d" "s' = t"
      by (auto simp: finish_request_def split: sum.splits)
    have "Get d k = Get d0 k" if "no_bracket k" "fst (split_dot k) \<noteq> ''params''" for k
      by (rule Get_Set_other [OF s(1)]) (use that in auto)
    with a Ok s Get_Set(1) [OF s(1)] show ?thesis by simp
  next
    case (Err m)
    then show ?thesis
      using assms(2,4-7) f i a
      by (auto simp: prepareRequest_def prepare_data_def write_value_def finish_request_def)
  next
    case (Panic m)
    with a show ?thesis by simp
  qed
qed

section \<open>What a start does\<close>

text \<open>The action an entry of the scheduler runs: its schedule, connector and payload.\<close>

definition scheduled_as :: "entry \<Rightarrow> ActionConfig \<Rightarrow> bool" where
  "scheduled_as x v \<longleftrightarrow> en_spec x = ac_Interval v \<and> en_connector x = ac_Connector v
     \<and> en_array x = ac_Payload v \<and> en_len x = length (ac_Payload v)"

lemma AddFunc_scheduled:
  "AddFunc bad c (ac_Interval v) v = (Ok i, c') \<Longrightarrow> \<exists>x. entries c' = entries c @ [x] \<and> scheduled_as x v"
  by (auto simp: AddFunc_def Let_def scheduled_as_def split: option.splits)

lemma spawn_loop_ok:
  assumes "spawn_loop e s vs = (Ok (), subs, s')"
  shows "subs = filter (\<lambda>v. ac_Type v = ''subscribe'') vs
    \<and> (\<exists>xs. entries (job s') = entries (job s) @ xs
        \<and> list_all2 scheduled_as xs (filter (\<lambda>v. ac_Type v = ''schedule'') vs))
    \<and> action s' = action s \<and> mdl s' = mdl s \<and> stat s' = stat s \<and> obj s' = obj s"
  using assms
proof (induction e s vs arbitrary: subs rule: spawn_loop.induct)
  case (2 e s v vs)
  consider "ac_Type v = ''schedule''" | "ac_Type v = ''subscribe''"
    using 2(3) by (auto split: if_splits)
  then show ?case
  proof cases
    case 1
    then obtain i c where a: "AddFunc (spec_err e) (job s) (ac_Interval v) v = (Ok i, c)"
      using 2(3) by (auto split: prod.splits go.splits)
    from AddFunc_scheduled [OF a] obtain x where c: "entries c = entries (job s) @ [x]" "scheduled_as x v" by blast
    have "spawn_loop e (s\<lparr>job := c, jobs := jobs s @ [i]\<rparr>) vs = (Ok (), subs, s')"
      using 2(3) 1 a by simp
    from 2(1) [OF 1 a [symmetric] refl this] 1 c show ?thesis by auto
  next
    case 2
    note t = this
    then obtain subs' where l: "spawn_loop e s vs = (Ok (), subs', s')" "subs = v # subs'"
      using \<open>spawn_loop e s (v # vs) = _\<close> by (auto split: prod.splits)
    from t have "ac_Type v \<noteq> ''schedule''" by simp
    from "2.IH"(2) [OF this t l(1)] t l(2) show ?thesis by simp
  qed
qed simp

text \<open>What a service that starts has loaded.\<close>

lemma rpc_New_loaded:
  assumes "rpc_New e ac d clean loadObject loadModel = (Ok (subs, s), ac')"
  shows "loadObject = Ok (obj s) \<and> loadModel (o_ModelsID (obj s)) = Ok (mdl s)"
proof -
  from assms obtain st ob md ac1 s1 where l: "loadObject = Ok ob" "loadModel (o_ModelsID ob) = Ok md"
    "spawn_loop e \<lparr>action = ac1, stat = st, obj = ob, mdl = md, jobs = [], job = new_cron, sent = [],
      drawn = 0, commits = 1\<rparr> (map snd (md_actions md)) = (Ok (), subs, s1)" "s = s1\<lparr>jobs := []\<rparr>"
    by (auto simp: rpc_New_def spawnJobs_def Let_def split: go.splits prod.splits elim!: go_map.elims)
  from spawn_loop_ok [OF l(3)] l show ?thesis by simp
qed

lemma add_all_compiled:
  assumes "lua.add_all e s es = (Ok (), s')"
  shows "(case map_of (rev es) n of Some src \<Rightarrow> \<exists>p. compile e n src = Inr p \<and> funcs s' n = Some p
    | None \<Rightarrow> funcs s' n = funcs s n)"
  using assms
proof (induction es arbitrary: s)
  case (Cons x es)
  obtain m src where x: "x = (m, src)" by fastforce
  with Cons.prems obtain s1 where a: "lua_Add e s m src = (Ok (), s1)" "lua.add_all e s1 es = (Ok (), s')"
    by (auto split: prod.splits go.splits)
  then obtain p where "compile e m src = Inr p" "funcs s1 = (funcs s)(m \<mapsto> p)"
    by (auto simp: lua_Add_def split: sum.splits)
  with Cons.IH [OF a(2)] x show ?case
    by (auto simp: map_add_def split: option.splits)
qed simp

text \<open>C32: a service that starts runs what the model says: under the name of every expression the compiled
  text of that expression and nothing else new (the last one of a name counts; the names of a map are
  distinct), one entry of the scheduler per schedule of the model, in order and with the interval, the
  connector and the payload of its action, and one subscription per subscribe action.\<close>

theorem start_covers_the_model:
  assumes "rpc_New e ac d clean (Ok ob) (\<lambda>_. Ok md) = (Ok (subs, s), ac')"
  shows "(case map_of (rev (md_expr md)) n of
        Some src \<Rightarrow> \<exists>p. compile (engine e) n src = Inr p \<and> funcs (action s) n = Some p
      | None \<Rightarrow> funcs (action s) n = funcs ac n)
    \<and> list_all2 scheduled_as (entries (job s)) (filter (\<lambda>v. ac_Type v = ''schedule'') (map snd (md_actions md)))
    \<and> subs = filter (\<lambda>v. ac_Type v = ''subscribe'') (map snd (md_actions md))"
proof -
  from assms obtain st where "NewService (unmarshal_any e) (commit e 0) clean d = Ok st"
    by (auto simp: rpc_New_def split: go.splits)
  with assms obtain ac1 where a: "lua.add_all (engine e) ac (md_expr md) = (Ok (), ac1)"
    by (auto simp: rpc_New_def split: go.splits prod.splits)
  let ?s = "\<lparr>action = ac1, stat = st, obj = ob, mdl = md, jobs = [],
                                   job = new_cron, sent = [], drawn = 0, commits = 1\<rparr>"
  obtain s1 where l: "spawn_loop e ?s (map snd (md_actions md)) = (Ok (), subs, s1)" and s: "s = s1\<lparr>jobs := []\<rparr>"
    using assms a \<open>NewService _ _ _ _ = _\<close>
    by (auto simp: rpc_New_def spawnJobs_def Let_def split: prod.splits elim!: go_map.elims)
  from spawn_loop_ok [OF l] s add_all_compiled [OF a, of n] show ?thesis by (auto simp: new_cron_def split: option.split)
qed

text \<open>the numbers of the scheduled jobs are lost with the copy \<open>spawnJobs\<close> works on, so
  \<open>undoAll\<close> stops none of them: every schedule of the model runs on.\<close>

theorem undo_keeps_every_job:
  assumes "rpc_New e ac d clean lo lm = (Ok (subs, s), ac')"
  shows "jobs s = [] \<and> job (undoAll s) = job s"
proof -
  have "jobs s = []"
    using assms
    by (auto simp: rpc_New_def spawnJobs_def Let_def split: prod.splits go.splits elim!: go_map.elims)
  then show ?thesis by (simp add: undoAll_def)
qed

section \<open>Identifiers\<close>

lemma charset_distinct: "distinct charset" "length charset = 64"
  by (simp_all add: charset_def)

lemma low6: "unat ((b :: byte) AND 63) < 64"
proof -
  have "b AND 63 \<le> 63" by (rule word_and_le1)
  then show ?thesis by (simp add: word_le_nat_alt)
qed

text \<open>an identifier has one character of the alphabet per random byte, and two identifiers are
  equal only when the low six bits of all their bytes are: 132 bits decide it for 22 bytes.\<close>

theorem nanoid_injective:
  "length (nanoid bs) = length bs \<and> set (nanoid bs) \<subseteq> set charset
   \<and> (nanoid bs = nanoid cs \<longleftrightarrow> map (\<lambda>b. b AND 63) bs = map (\<lambda>b. b AND 63) cs)"
proof (intro conjI)
  show "set (nanoid bs) \<subseteq> set charset"
    using low6 by (auto simp: nanoid_def charset_distinct intro!: nth_mem)
  have i: "charset ! unat ((b :: byte) AND 63) = charset ! unat (c AND 63) \<longleftrightarrow> b AND 63 = c AND 63" for b c
    using low6 [of b] low6 [of c]
    by (simp add: nth_eq_iff_index_eq charset_distinct word_unat_eq_iff [symmetric])
  show "nanoid bs = nanoid cs \<longleftrightarrow> map (\<lambda>b. b AND 63) bs = map (\<lambda>b. b AND 63) cs"
    unfolding nanoid_def using i
  proof (induction bs arbitrary: cs)
    case (Cons b bs)
    then show ?case by (cases cs) auto
  qed simp
qed (simp add: nanoid_def)

section \<open>An example core\<close>

text \<open>One request text of each kind, scripts that return their argument, and an empty store.\<close>

definition example_request :: "string \<Rightarrow> gval" where
  "example_request t = GMap [(''id'', GStr ''1''),
     (''params'', GMap [(''_type'', GStr t), (''_parent'', GStr ''temp''), (''value'', GStr ''on'')])]"

definition example_unmarshal :: "string \<Rightarrow> string + gval" where
  "example_unmarshal t =
     (if t = ''null'' then Inr GNil
      else if t = ''R'' then Inr (example_request ''read'')
      else if t = ''W'' then Inr (example_request ''write'')
      else if t = ''A'' then Inr (GMap [(''result'', GStr ''12.5'')])
      else Inl ''syntax'')"

definition example_env :: "(unit, unit) rpc_env" where
  "example_env = \<lparr>engine = example_engine, marshal = (\<lambda>_. Inr ''J''), unmarshal = example_unmarshal,
     unmarshal_any = plain_dec, commit = (\<lambda>_. None), random = (\<lambda>_. []), newcap = (\<lambda>_ n. n),
     spec_err = (\<lambda>_. None), quote = (\<lambda>t. t), enc_val = (\<lambda>_. '''')\<rparr>"

definition example_model :: model where
  "example_model = \<lparr>md_actions = [(''a'', \<lparr>ac_ID = ''a'', ac_Connector = ''modbus'', ac_Type = ''schedule'',
     ac_Interval = ''@hourly'', ac_Payload = ''R''\<rparr>)], md_expr = [(''read.temp'', ''return param'')]\<rparr>"

definition example_object :: object where
  "example_object = \<lparr>o_OID = ''1'', o_ID = ''edge'', o_ModelsID = ''m'', o_Config = GMap []\<rparr>"

definition example_service :: "(unit, unit) rpc_service" where
  "example_service = \<lparr>action = example_lua, stat = empty_state, obj = example_object, mdl = example_model,
     jobs = [], job = new_cron, sent = [], drawn = 0, commits = 0\<rparr>"

lemmas example_defs = example_request_def example_unmarshal_def example_env_def example_model_def
  example_object_def example_service_def

lemma example_Get [simp]:
  "Get (example_request t) ''id'' = GStr ''1''"
  "Get (example_request t) ''params._type'' = GStr t"
  "Get (example_request t) ''params._parent'' = GStr ''temp''"
  "Get (example_request t) ''params.value'' = GStr ''on''"
proof -
  have s: "split_dot ''params._type'' = (''params'', ''_type'')"
    "split_dot ''params._parent'' = (''params'', ''_parent'')"
    by (simp_all add: split_dot_def)
  show "Get (example_request t) ''id'' = GStr ''1''"
    by (simp add: Get_key example_request_def)
  show "Get (example_request t) ''params._type'' = GStr t"
    "Get (example_request t) ''params._parent'' = GStr ''temp''"
    "Get (example_request t) ''params.value'' = GStr ''on''"
    unfolding Get_def example_request_def
    by (subst access_get.simps, simp add: selector_plain s at_index_def access_get_plain)+
qed

lemma no_template:
  "fillTemplate cfg nc ''R'' (Suc 0) = Some (Ok ''R'', False, ''R'')"
  "fillTemplate cfg nc ''W'' (Suc 0) = Some (Ok ''W'', False, ''W'')"
  "fillTemplate cfg nc ''x'' (Suc 0) = Some (Ok ''x'', False, ''x'')"
  by (simp_all add: fillTemplate_plain has_prefix_def)

lemma example_prepared:
  "prepareRequest example_env example_service ''R'' 1
     = Some (Ok (''R'', example_request ''read''), example_service, ''R'')"
  by (simp add: prepareRequest_def no_template prepare_data_def with_id_def write_value_def
      finish_request_def example_env_def example_unmarshal_def)

lemma prepared_request_identified_witness:
  "IsStr (Get (example_request ''read'') ''id'')
    \<and> (marshal example_env (example_request ''read'') = Inr ''R''
       \<or> unmarshal example_env ''R'' = Inr (example_request ''read'') \<and> ''R'' = take 1 ''R'')
    \<and> stat example_service = stat example_service \<and> sent example_service = sent example_service"
  by (rule prepared_request_identified [OF example_prepared])

lemma rejected_request_leaves_no_trace_witness:
  "\<exists>c. rpc_Call example_env (\<lambda>_ _ _. None) example_service ''modbus'' ''x'' 1 = Some c
    \<and> after c = example_service \<and> (\<exists>x. answer c = Ok (BuildErrResp (quote example_env) (enc_val example_env) '''' x)
    \<and> err_code x \<in> {-32700, -32603})"
proof -
  obtain c where c: "rpc_Call example_env (\<lambda>_ _ _. None) example_service ''modbus'' ''x'' 1 = Some c"
      "out c = None" "\<not> is_panic (answer c)"
    by (simp add: rpc_Call_def prepareRequest_def no_template prepare_data_def example_env_def example_unmarshal_def)
  from rejected_request_leaves_no_trace [OF this] c(1) show ?thesis by blast
qed

lemma null_request_panics_witness:
  "\<exists>c. rpc_Call example_env (\<lambda>_ _ _. None) example_service ''modbus'' ''null'' 4 = Some c
    \<and> answer c = Panic ''assignment to entry in nil map'' \<and> out c = None"
  by (rule null_request_panics) (simp_all add: has_prefix_def example_env_def example_unmarshal_def)

lemma example_reader: "map_reader example_env" "state_inv (stat example_service)"
  by (simp_all add: map_reader_def example_env_def example_unmarshal_def example_request_def is_GMap_def
      example_service_def empty_state_ok)

lemma listener_survives_any_message_witness:
  "\<exists>s'. requestsListener example_env example_service [''null'', ''W'', ''?''] = (Ok (), s') \<and> state_inv (stat s')"
  by (rule listener_survives_any_message [OF example_reader])

lemma read_answer_recorded_witness:
  "\<exists>c res r. rpc_Call example_env (\<lambda>_ _ _. Some ''A'') example_service ''modbus'' ''R'' 1 = Some c
    \<and> out c = Some (''modbus'', Str (Get (example_request ''read'') ''id''), ''R'')
    \<and> recorded example_env example_service ''temp'' res (after c) \<and> state_inv (stat (after c))
    \<and> Get r ''result'' = res
    \<and> answer c = Ok (case marshal example_env r of Inl _ \<Rightarrow> ''A'' | Inr t \<Rightarrow> t)"
proof (rule read_answer_recorded [OF example_prepared])
  show "unmarshal example_env ''A'' = Inr (GMap [(''result'', GStr ''12.5'')])"
    by (simp add: example_env_def example_unmarshal_def)
  have s: "split_dot ''result.notification'' = (''result'', ''notification'')" by (simp add: split_dot_def)
  show "\<not> Bool (Get (GMap [(''result'', GStr ''12.5'')]) ''result.notification'')"
    unfolding Get_def
    by (subst access_get.simps, simp add: selector_plain s at_index_def access_get_no_map is_GMap_def)
qed (simp_all add: Get_key example_reader)

lemma write_script_applied_witness:
  "\<exists>p d s' arr'. prepareRequest example_env example_service ''W'' 1 = Some (Ok (p, d), s', arr')
    \<and> Get d ''params.value'' = GStr ''on'' \<and> p = ''J''"
proof -
  have a: "run_action example_env example_service (''write.'' @ ''temp'') (GStr ''on'')
      = (Ok (GStr ''on''), example_service\<lparr>action := example_lua\<lparr>param := LString ''on''\<rparr>\<rparr>)"
    by (simp add: run_action_def lua_Execute_def exec_begin_def exec_run_def example_env_def
        example_engine_def example_service_def example_lua_def)
  obtain d' where d': "Set (example_request ''write'') ''params.value'' (GStr ''on'') = (Ok d' :: (gval, rpc_error) go)"
    by (simp add: Set_def example_request_def)
  obtain p d s' arr' where q: "prepareRequest example_env example_service ''W'' 1 = Some (Ok (p, d), s', arr')"
    using a d'
    by (simp add: prepareRequest_def no_template prepare_data_def with_id_def write_value_def
      finish_request_def example_env_def example_unmarshal_def)
  have "case run_action example_env example_service (''write.'' @ ''temp'') (Get (example_request ''write'') ''params.value'') of
      (Ok res, t) \<Rightarrow> Get d ''params.value'' = res \<and> Inr p = marshal example_env d \<and> s' = t
        \<and> (\<forall>k. no_bracket k \<longrightarrow> fst (split_dot k) \<noteq> ''params'' \<longrightarrow> Get d k = Get (example_request ''write'') k)
    | (_, t) \<Rightarrow> p = take 1 ''W'' \<and> d = example_request ''write'' \<and> s' = t"
    by (rule write_script_applied [OF _ _ _ _ _ _ q]) (simp_all add: has_prefix_def example_env_def example_unmarshal_def)
  with q a show ?thesis by (simp add: example_env_def)
qed

lemma example_start:
  "\<exists>s ac'. rpc_New example_env example_lua (\<lambda>_. None) True (Ok example_object) (\<lambda>_. Ok example_model)
     = (Ok ([], s), ac')"
  by (simp add: rpc_New_def NewService_def db_Update_def open_bucket_def tx_DeleteBucket_def
      tx_CreateBucketIfNotExists_def getAll_def db_View_def with_bucket_def example_env_def
      example_model_def lua_Add_def example_engine_def spawnJobs_def AddFunc_def new_cron_def Let_def)

lemma start_covers_the_model_witness:
  "\<exists>s ac'. rpc_New example_env example_lua (\<lambda>_. None) True (Ok example_object) (\<lambda>_. Ok example_model)
     = (Ok ([], s), ac') \<and> map (\<lambda>x. (en_spec x, en_connector x, en_array x)) (entries (job s)) = [(''@hourly'', ''modbus'', ''R'')]"
proof -
  obtain s ac' where r: "rpc_New example_env example_lua (\<lambda>_. None) True (Ok example_object) (\<lambda>_. Ok example_model)
     = (Ok ([], s), ac')"
    using example_start by blast
  from start_covers_the_model [OF this, of "''read.temp''"] r show ?thesis
    by (auto simp: example_model_def list_all2_Cons2 scheduled_as_def)
qed

lemma undo_keeps_every_job_witness:
  "\<exists>s ac'. rpc_New example_env example_lua (\<lambda>_. None) True (Ok example_object) (\<lambda>_. Ok example_model)
     = (Ok ([], s), ac') \<and> jobs s = [] \<and> job (undoAll s) = job s"
  using example_start undo_keeps_every_job by blast

end
