(* ===== verification/End_To_End.thy ===== *)
theory End_To_End
  imports Modbus_Transport Snmp_Handler Connector Ws_Server Rpc_Service Mqtt_Link
begin

text \<open>
  A request on its way through the program: from the broker to the interceptor of the core, over the
  websocket server to a connector, and the answer back, with the state it leaves. \<open>core_rpc\<close> is the core
  as the MQTT link calls it; \<open>exchange\<close> is the server and the connector as the interceptor calls them, when
  the connector answers a registered call in time.
\<close>

section \<open>A request from the core to a connector and back\<close>

text \<open>A connector that serves answers a request it reads on its current connection, with the identifier of
  the request.\<close>

context rpc_caller
begin

lemma request_answered:
  assumes "cn_rc cn = Serving" and "cn_dead cn = None" and "wc_ws (cn_client cn) = Some c"
    and "decode p = Some (Inr req)" and "ID req \<noteq> ''''"
  shows "\<exists>r. cn_out (cn_step True stack decode call (Incoming (Frame TextMessage p) None None) cn)
      = cn_out cn @ [(c, r)] \<and> resp_ID r = ID req"
proof -
  obtain r s' where h: "handleMessage True stack call (cn_state cn) (Inr req) = (Inr r, s')"
    using handleMessage_total by blast
  with handleMessage_Inr_ID [OF h] assms show ?thesis
    by (simp add: cn_step_def cn_serve_def to_incoming_def client_NextReader_def)
qed

text \<open>Over the websocket server: the answer is delivered to the call that waits for it. The call waits under the
  text \<open>i\<close> of the identifier; the request and its answer hold the JSON value, which is read back as that text.\<close>

lemma call_answered:
  assumes "ws_reach e w" and "crashed w = None" and "reqs w k i = Some ch"
    and "s_open (socks w ! k)" and "s_listening (socks w ! k)"
    and "cn_rc cn = Serving" and "cn_dead cn = None" and "wc_ws (cn_client cn) = Some c"
    and "decode p = Some (Inr req)" and "ID req \<noteq> ''''"
    and "\<forall>r. resp_ID r = ID req \<longrightarrow> \<not> method_present e (encode r) \<and> id_text e (encode r) = Some i"
  shows "\<exists>r w'. cn_out (cn_step True stack decode call (Incoming (Frame TextMessage p) None None) cn)
      = cn_out cn @ [(c, r)] \<and> ws_step e (Read k True (encode r)) w = Some w' \<and> crashed w' = None
    \<and> chans w' ch = [encode r] \<and> (\<forall>j. j \<noteq> ch \<longrightarrow> chans w' j = chans w j)"
proof -
  obtain r where r: "cn_out (cn_step True stack decode call (Incoming (Frame TextMessage p) None None) cn)
      = cn_out cn @ [(c, r)]" "resp_ID r = ID req"
    using request_answered [of cn c decode p req stack] assms(6-10) by blast
  from answer_delivered [OF assms(1-5), of "encode r"] r(2) assms(11) obtain w' where
    "ws_step e (Read k True (encode r)) w = Some w'" "chans w' ch = [encode r]" "crashed w' = None"
    "\<forall>j. j \<noteq> ch \<longrightarrow> chans w' j = chans w j" by auto
  with r(1) show ?thesis by blast
qed

lemmas serves_again = cn_serves_after_dial

end

section \<open>One exchange\<close>

text \<open>The steps of the server and the connector between the interceptor's call and the message on its
  channel: the request is written and registered, the connector serves it, its answer is read. An answer
  that is read before the call is registered is another matter (\<open>early_answer_crashes\<close>).\<close>

definition exchange ::
  "ws_env \<Rightarrow> (response \<Rightarrow> string) \<Rightarrow> string \<Rightarrow> (string \<Rightarrow> (string + request) option) \<Rightarrow> 's caller \<Rightarrow> string \<Rightarrow> string
     \<Rightarrow> string \<Rightarrow> ws_state \<Rightarrow> ('s, 'c) connector \<Rightarrow> (string \<times> ws_state \<times> ('s, 'c) connector) option" where
  "exchange e encode stack decode call name i p w cn =
     (let ch = length (calls w);
          cn' = cn_step True stack decode call (Incoming (Frame TextMessage p) None None) cn in
      case (conns w name, drop (length (cn_out cn)) (cn_out cn')) of
        (Some k, (c, r) # _) \<Rightarrow>
          (case ws_run e [Calling name i p, Written ch True, Register ch, Read k True (encode r)] w of
             Some w' \<Rightarrow> (case chans w' ch of m # _ \<Rightarrow> Some (m, w', cn') | [] \<Rightarrow> None)
           | None \<Rightarrow> None)
      | _ \<Rightarrow> None)"

lemma served_value:
  assumes "cn_rc cn = Serving" and "cn_dead cn = None" and "wc_ws (cn_client cn) = Some c"
    and "decode p = Some (Inr req)" and "JSONRPC req = jsonRPCVersion" and "Method req \<noteq> ''''"
    and "call (cn_state cn) req = (Ok (RVal v), st)" and "\<not> IsNil v"
  shows "cn_step True stack decode call (Incoming (Frame TextMessage p) None None) cn
    = cn\<lparr>cn_state := st, cn_out := cn_out cn @ [(c, buildResult (ID req) v None)]\<rparr>"
proof -
  have "handleMessage True stack call (cn_state cn) (Inr req) = (Inr (buildResult (ID req) v None), st)"
    using assms(5-8) by (simp add: handleMessage_def call_service_def)
  with assms(1-4) show ?thesis
    by (simp add: cn_step_def cn_serve_def to_incoming_def client_NextReader_def)
qed

lemma registered_call:
  assumes "ws_reach e w" and "crashed w = None" and "conns w name = Some k" and "s_open (socks w ! k)"
    and "s_listening (socks w ! k)"
  obtains w1 where "ws_run e [Calling name i p, Written (length (calls w)) True, Register (length (calls w))] w = Some w1"
    "crashed w1 = None" "reqs w1 k i = Some (length (calls w))" "s_open (socks w1 ! k)" "s_listening (socks w1 ! k)"
    "chans w1 (length (calls w)) = chans w (length (calls w))"
proof -
  have k: "k < length (socks w)" using ws_inv_conns [OF inv_reach [OF assms(1)] assms(3)] by simp
  let ?ch = "length (calls w)"
  let ?w1 = "ws_register ?ch k (ws_written e ?ch k True (ws_call e name i p w))"
  note ops = ws_call_def new_call_def ws_written_def set_pc_def ws_register_def
  have r: "ws_run e [Calling name i p, Written ?ch True, Register ?ch] w = Some ?w1"
    using assms(2-4) k by (simp add: ops)
  show thesis
  proof (rule that [OF r])
    show "crashed ?w1 = None" "reqs ?w1 k i = Some ?ch" "s_open (socks ?w1 ! k)" "s_listening (socks ?w1 ! k)"
      "chans ?w1 ?ch = chans w ?ch"
      using assms(2-5) k by (simp_all add: ops)
  qed
qed

lemma exchange_answered:
  assumes "ws_reach e w" and "crashed w = None" and "conns w name = Some k" and "s_open (socks w ! k)"
    and "s_listening (socks w ! k)"
    and "cn_rc cn = Serving" and "cn_dead cn = None" and "wc_ws (cn_client cn) = Some c"
    and "decode p = Some (Inr req)" and "JSONRPC req = jsonRPCVersion" and "Method req \<noteq> ''''"
    and "call (cn_state cn) req = (Ok (RVal v), st)" and "\<not> IsNil v"
    and "\<not> method_present e (encode (buildResult (ID req) v None))"
    and "id_text e (encode (buildResult (ID req) v None)) = Some i"
  shows "\<exists>w' cn'. exchange e encode stack decode call name i p w cn = Some (encode (buildResult (ID req) v None), w', cn')
    \<and> cn_state cn' = st \<and> crashed w' = None"
proof -
  let ?ch = "length (calls w)"
  let ?m = "encode (buildResult (ID req) v None)"
  note s = served_value [where decode = decode and call = call, OF assms(6-13), of stack]
  obtain w1 where w1: "ws_run e [Calling name i p, Written ?ch True, Register ?ch] w = Some w1"
    "crashed w1 = None" "reqs w1 k i = Some ?ch" "s_open (socks w1 ! k)" "s_listening (socks w1 ! k)"
    by (rule registered_call [OF assms(1-5)])
  from answer_delivered [OF run_reach [OF assms(1) w1(1)] w1(2-5) assms(14,15)] obtain w2 where
    w2: "ws_step e (Read k True ?m) w1 = Some w2" "chans w2 ?ch = [?m]" "crashed w2 = None" by blast
  have "ws_run e ([Calling name i p, Written ?ch True, Register ?ch] @ [Read k True ?m]) w = Some w2"
    unfolding ws_run_append w1(1) using w2(1) by simp
  then show ?thesis
    using assms(3) s w2(2,3) by (simp add: exchange_def Let_def)
qed

section \<open>The core as the link calls it\<close>

text \<open>\<open>rpc\<close> in \<open>mqtt.go\<close>: the payload of the message is the whole array.\<close>

definition core_rpc ::
  "('p, 'g) rpc_env \<Rightarrow> (string \<Rightarrow> string \<Rightarrow> string \<Rightarrow> string option) \<Rightarrow> ('p, 'g) rpc_service \<Rightarrow> string \<Rightarrow> string
     \<Rightarrow> ((string, rpc_error) go \<times> ('p, 'g) rpc_service) option" where
  "core_rpc e reply s name payload =
     map_option (\<lambda>c. (answer c, after c)) (rpc_Call e reply s name payload (length payload))"

lemma command_recorded:
  assumes "CHR ''/'' \<notin> set name" and "topic = ''ric-edge/'' @ name @ ''/command''"
    and "prepareRequest e s payload (length payload) = Some (Ok (p, d), s1, arr1)"
    and "reply name (Str (Get d ''id'')) p = Some msg"
    and "Str (Get d ''params._type'') = ''read''"
    and "Str (Get d ''params._parent'') = parent" and "parent \<noteq> ''''" and "no_bracket parent"
    and "unmarshal e msg = Inr result" and "\<not> IsNil (Get result ''result'')"
    and "\<not> Bool (Get result ''result.notification'')" and "state_inv (stat s)"
  shows "\<exists>res r text s'. rpcCallback (core_rpc e reply) token s topic payload
      = Some (Ok ((''ric-edge/'' @ name @ ''/response'', text),
          publish_error (token (''ric-edge/'' @ name @ ''/response'') text)), s')
    \<and> recorded e s parent res s' \<and> state_inv (stat s') \<and> Get r ''result'' = res
    \<and> text = (case marshal e r of Inl _ \<Rightarrow> msg | Inr t \<Rightarrow> t)
    \<and> (funcs (action s1) (''read.'' @ parent) = None \<and> \<not> IsStr (Get result ''result'') \<longrightarrow> res = Get result ''result'')"
proof -
  from read_answer_value [where reply = reply and name = name and msg = msg, OF assms(3-12)]
  obtain c res r where c: "rpc_Call e reply s name payload (length payload) = Some c"
    "recorded e s parent res (after c)" "state_inv (stat (after c))" "Get r ''result'' = res"
    "answer c = Ok (case marshal e r of Inl _ \<Rightarrow> msg | Inr t \<Rightarrow> t)"
    "funcs (action s1) (''read.'' @ parent) = None \<and> \<not> IsStr (Get result ''result'') \<longrightarrow> res = Get result ''result''"
    by blast
  then have "rpcCallback (core_rpc e reply) token s topic payload
      = Some (Ok ((''ric-edge/'' @ name @ ''/response'', case marshal e r of Inl _ \<Rightarrow> msg | Inr t \<Rightarrow> t),
          publish_error (token (''ric-edge/'' @ name @ ''/response'') (case marshal e r of Inl _ \<Rightarrow> msg | Inr t \<Rightarrow> t))), after c)"
    unfolding callback_topic [OF assms(1,2)] by (simp add: core_rpc_def)
  with c(2-4,6) show ?thesis by blast
qed

text \<open>the whole way of a read: a command published for a connector that is connected and serves, and whose
  handler answers it with a value, ends with that value stored under the parameter and sent to the cloud,
  and with the answer that holds it published on the response topic of the connector. The connector can be
  any; the parameter has no read script, and the laws of the JSON text are those of the answer.\<close>

theorem read_command_end_to_end:
  assumes "CHR ''/'' \<notin> set name" and "topic = ''ric-edge/'' @ name @ ''/command''"
    and "prepareRequest e s payload (length payload) = Some (Ok (p, d), s1, arr1)"
    and "Str (Get d ''params._type'') = ''read''" and "Str (Get d ''params._parent'') = parent" and "parent \<noteq> ''''"
    and "no_bracket parent" and "funcs (action s1) (''read.'' @ parent) = None" and "state_inv (stat s)"
    and ws: "ws_reach we w" "crashed w = None" "conns w name = Some k" "s_open (socks w ! k)" "s_listening (socks w ! k)"
    and cn: "cn_rc cn = Serving" "cn_dead cn = None" "wc_ws (cn_client cn) = Some c"
    and req: "decode p = Some (Inr req)" "JSONRPC req = jsonRPCVersion" "Method req \<noteq> ''''"
    and dev: "call (cn_state cn) req = (Ok (RVal v), st)" "\<not> IsNil v"
    and m: "m = encode (buildResult (ID req) v None)" and "\<not> method_present we m"
    and "id_text we m = Some (Str (Get d ''id''))" and "unmarshal e m = Inr result"
    and "Get result ''result'' = x" and "\<not> IsNil x" and "\<not> IsStr x" and "\<not> Bool (Get result ''result.notification'')"
  shows "\<exists>r text s' w' cn'. exchange we encode stack decode call name (Str (Get d ''id'')) p w cn = Some (m, w', cn')
    \<and> cn_state cn' = st
    \<and> rpcCallback (core_rpc e (\<lambda>n i q. map_option fst (exchange we encode stack decode call n i q w cn))) token s topic payload
      = Some (Ok ((''ric-edge/'' @ name @ ''/response'', text),
          publish_error (token (''ric-edge/'' @ name @ ''/response'') text)), s')
    \<and> recorded e s parent x s' \<and> Get r ''result'' = x \<and> text = (case marshal e r of Inl _ \<Rightarrow> m | Inr t \<Rightarrow> t)"
proof -
  let ?reply = "\<lambda>n i q. map_option fst (exchange we encode stack decode call n i q w cn)"
  obtain w' cn' where x: "exchange we encode stack decode call name (Str (Get d ''id'')) p w cn = Some (m, w', cn')"
    "cn_state cn' = st"
    using exchange_answered [where decode = decode and call = call, OF ws cn req dev, of encode "Str (Get d ''id'')"] assms(24,25) unfolding m by blast
  then have "?reply name (Str (Get d ''id'')) p = Some m" by simp
  from command_recorded [where reply = ?reply and msg = m, OF assms(1-3) this assms(4-7,26) _ assms(30) assms(9), of token]
    assms(8,27-29) x show ?thesis by auto
qed

text \<open>Values of registers as the core reads them in JSON text, without \<open>UseNumber\<close>: a number is a float64. The bits of a
  natural number below \<open>2 ^ 53\<close> in that format: the biased exponent, and what follows the leading bit.\<close>

fun top_bit :: "nat \<Rightarrow> nat" where
  "top_bit n = (if n < 2 then 0 else Suc (top_bit (n div 2)))"

declare top_bit.simps [simp del]

definition f64_of_nat :: "nat \<Rightarrow> 64 word" where
  "f64_of_nat n =
     (if n = 0 then 0
      else word_of_nat ((1023 + top_bit n) * 2 ^ 52 + (n - 2 ^ top_bit n) * 2 ^ (52 - top_bit n)))"

definition numbers :: "u16 list \<Rightarrow> gval" where
  "numbers vs = GArr (map (\<lambda>v. GFloat (f64_of_nat (unat v))) vs)"

text \<open>258 is 1.0078125 times 2 to the 8.\<close>

lemma f64_of_258: "f64_of_nat 258 = 0x4070200000000000"
proof -
  have "top_bit 258 = 8" by (simp add: top_bit.simps)
  then show ?thesis by (simp add: f64_of_nat_def)
qed

text \<open>C1: the whole way of a read of registers, from the broker to the wire and back: a command published for a
  Modbus connector over TCP that is connected and serves, and whose device answers with the values of the
  registers in some pieces, ends with these values stored under the parameter and sent to the cloud, and with the
  answer that holds them published on the response topic of the connector; the connection to the device is in
  step for the next read. The parameter has no read script; the numbers are those of the core, which reads a JSON
  number as a float64; the laws of the JSON text are those of the answer.\<close>

theorem registers_from_broker_to_wire:
  assumes "CHR ''/'' \<notin> set name" and "topic = ''ric-edge/'' @ name @ ''/command''"
    and "prepareRequest e s payload (length payload) = Some (Ok (p, d), s1, arr1)"
    and "Str (Get d ''params._type'') = ''read''" and "Str (Get d ''params._parent'') = parent" and "parent \<noteq> ''''"
    and "no_bracket parent" and "funcs (action s1) (''read.'' @ parent) = None" and "state_inv (stat s)"
    and ws: "ws_reach we w" "crashed w = None" "conns w name = Some k" "s_open (socks w ! k)" "s_listening (socks w ! k)"
    and cn: "cn_rc cn = Serving" "cn_dead cn = None" "wc_ws (cn_client cn) = Some c"
    and req: "decode p = Some (Inr req)" "JSONRPC req = jsonRPCVersion" "reads_registers req fc a q sl"
    and dev: "mb_service_of ''tcp'' (tcp_Send N) = Inr sv" "length vs = unat q" "in_step (cn_state cn)"
      "replies N (cn_state cn) (tcp_frame 1 sl (registers_request fc a q)) (tcp_frame 1 sl (registers_answer fc vs)) dv"
    and m: "m = encode (buildResult (ID req) (words vs) None)" "\<not> method_present we m"
      "id_text we m = Some (Str (Get d ''id''))" "unmarshal e m = Inr result"
    and x: "Get result ''result'' = numbers vs" "\<not> Bool (Get result ''result.notification'')"
  shows "\<exists>r text s' w' cn'.
    exchange we encode stack decode (modbus_Call sv) name (Str (Get d ''id'')) p w cn = Some (m, w', cn')
    \<and> in_step (cn_state cn') \<and> tt_dev (cn_state cn') = dv
    \<and> rpcCallback (core_rpc e (\<lambda>n i q. map_option fst (exchange we encode stack decode (modbus_Call sv) n i q w cn))) token s topic payload
      = Some (Ok ((''ric-edge/'' @ name @ ''/response'', text),
          publish_error (token (''ric-edge/'' @ name @ ''/response'') text)), s')
    \<and> recorded e s parent (numbers vs) s' \<and> Get r ''result'' = numbers vs
    \<and> text = (case marshal e r of Inl _ \<Rightarrow> m | Inr t \<Rightarrow> t)"
proof -
  obtain st where st: "modbus_Call sv (cn_state cn) req = (Ok (RVal (words vs)), st)" "in_step st" "tt_dev st = dv"
    using tcp_read_next [OF dev(1) req(3) dev(2-4)] by blast
  have n: "Method req \<noteq> ''''" "\<not> IsNil (words vs)" "\<not> IsNil (numbers vs)" "\<not> IsStr (numbers vs)"
    using req(3) by (auto simp: reads_registers_def words_def numbers_def)
  show ?thesis
    using read_command_end_to_end [where decode = decode and call = "modbus_Call sv" and encode = encode and stack = stack
        and token = token, OF assms(1-9) ws cn req(1,2) n(1) st(1) n(2) m x(1) n(3,4) x(2)] st(2,3) by blast
qed

text \<open>A Modbus connector, connected and serving, whose device holds 258 and 7 in the two registers asked
  for.\<close>

definition read_example :: "(unit, unit) rpc_env" where
  "read_example = example_env\<lparr>unmarshal := (\<lambda>t. if t = ''V''
     then Inr (GMap [(''result'', numbers [258, 7])]) else example_unmarshal t)\<rparr>"

definition read_service :: "(unit, unit) rpc_service" where
  "read_service = example_service\<lparr>action := lua_New ()\<rparr>"

definition read_net :: "unit net" where
  "read_net = (let f = tcp_frame 1 0 (registers_answer 3 [258, 7]) in example_net (\<lambda>_. map In [take 3 f, drop 3 f]))"

definition read_connector :: "(unit transporter, string) connector" where
  "read_connector = \<lparr>cn_client = \<lparr>wc_host = ''localhost:9000'', wc_path = ''modbus'', wc_ver = ''1.0.0'',
       wc_done = False, wc_ws = Some ''c''\<rparr>, cn_state = NewTCPTransporter () ''plc:502'', cn_rc = Serving, cn_out = [], cn_dead = None\<rparr>"

definition read_ws_env :: ws_env where
  "read_ws_env = \<lparr>method_present = (\<lambda>_. False), id_text = (\<lambda>_. Some ''1''), w_quote = (\<lambda>s. s), w_enc = (\<lambda>_. '''')\<rparr>"

lemmas read_examples = read_example_def read_service_def read_connector_def read_ws_env_def

lemma read_replies:
  "replies read_net (cn_state read_connector) (tcp_frame 1 0 (registers_request 3 4 2)) (tcp_frame 1 0 (registers_answer 3 [258, 7])) ()"
  unfolding replies_def read_net_def Let_def read_connector_def
  by (rule exI [of _ "(NewTCPTransporter () ''plc:502'')\<lparr>tt_conn := Some []\<rparr>"],
      rule exI [of _ "[take 3 (tcp_frame 1 0 (registers_answer 3 [258, 7])), drop 3 (tcp_frame 1 0 (registers_answer 3 [258, 7]))]"]) simp

lemma read_prepared:
  "prepareRequest read_example read_service ''R'' (length ''R'')
     = Some (Ok (''R'', example_request ''read''), read_service, ''R'')"
  by (simp add: prepareRequest_def no_template prepare_data_def with_id_def write_value_def
      finish_request_def read_examples example_env_def example_unmarshal_def)

lemma read_no_notification: "\<not> Bool (Get (GMap [(''result'', GArr xs)]) ''result.notification'')"
proof -
  have "split_dot ''result.notification'' = (''result'', ''notification'')" by (simp add: split_dot_def)
  then show ?thesis
    unfolding Get_def
    by (subst access_get.simps) (simp add: selector_plain at_index_def access_get_no_map is_GMap_def)
qed

lemma registers_from_broker_to_wire_witness:
  "\<exists>w sv t r text s' w' cn'. ws_run read_ws_env [Connect ''modbus'' ''s1'', Upgraded 0 True] ws_init = Some w
    \<and> mb_service_of ''tcp'' (tcp_Send read_net) = Inr sv
    \<and> exchange read_ws_env (\<lambda>_. ''V'') ''stack'' (\<lambda>_. Some (Inr (read_at ''4''))) (modbus_Call sv) ''modbus'' ''1'' ''R''
        w read_connector = Some (''V'', w', cn') \<and> in_step (cn_state cn')
    \<and> rpcCallback (core_rpc read_example (\<lambda>n i q. map_option fst (exchange read_ws_env (\<lambda>_. ''V'') ''stack''
          (\<lambda>_. Some (Inr (read_at ''4''))) (modbus_Call sv) n i q w read_connector))) (\<lambda>_ _. Completed) read_service
        ''ric-edge/modbus/command'' ''R'' = Some (Ok ((''ric-edge/modbus/response'', text), publish_error Completed), s')
    \<and> recorded read_example read_service ''temp'' (numbers [258, 7]) s'"
proof -
  obtain w where w: "ws_run read_ws_env [Connect ''modbus'' ''s1'', Upgraded 0 True] ws_init = Some w"
    and c: "crashed w = None" "conns w ''modbus'' = Some 0" "s_open (socks w ! 0)" "s_listening (socks w ! 0)"
    by (simp add: ws_ops_defs ws_init_def)
  obtain sv where sv: "mb_service_of ''tcp'' (tcp_Send read_net) = Inr sv" using tcp_service_of by blast
  have l: "length [258, 7 :: u16] = unat (2 :: u16)" by simp
  have v: "JSONRPC (read_at ''4'') = jsonRPCVersion" by (simp add: read_at_def jsonRPCVersion_def)
  have i: "in_step (cn_state read_connector)" by (simp add: read_connector_def)
  have "\<exists>r text s' w' cn'. exchange read_ws_env (\<lambda>_. ''V'') ''stack'' (\<lambda>_. Some (Inr (read_at ''4''))) (modbus_Call sv)
        ''modbus'' (Str (Get (example_request ''read'') ''id'')) ''R'' w read_connector = Some (''V'', w', cn')
    \<and> in_step (cn_state cn') \<and> tt_dev (cn_state cn') = ()
    \<and> rpcCallback (core_rpc read_example (\<lambda>n i q. map_option fst (exchange read_ws_env (\<lambda>_. ''V'') ''stack''
          (\<lambda>_. Some (Inr (read_at ''4''))) (modbus_Call sv) n i q w read_connector))) (\<lambda>_ _. Completed) read_service
        ''ric-edge/modbus/command'' ''R'' = Some (Ok ((''ric-edge/'' @ ''modbus'' @ ''/response'', text),
          publish_error ((\<lambda>_ _. Completed) (''ric-edge/'' @ ''modbus'' @ ''/response'') text)), s')
    \<and> recorded read_example read_service ''temp'' (numbers [258, 7]) s' \<and> Get r ''result'' = numbers [258, 7]
    \<and> text = (case marshal read_example r of Inl _ \<Rightarrow> ''V'' | Inr t \<Rightarrow> t)"
    by (rule registers_from_broker_to_wire [where k = 0 and c = "''c''" and d = "example_request ''read''"
          and parent = "''temp''" and result = "GMap [(''result'', numbers [258, 7])]",
          OF _ _ read_prepared _ _ _ _ _ _ run_reach [OF reach_init w] c _ _ _ _ v reads_at(1) sv l i read_replies])
      (simp_all add: read_no_notification numbers_def read_examples lua_New_def Get_key
        example_reader(2) [unfolded example_service_def] example_service_def empty_state_ok)
  from w sv this [simplified] show ?thesis by blast
qed

end
