(* ===== verification/Core_Start.thy ===== *)
theory Core_Start
  imports Edge_Prelude
begin

text \<open>
  What the start-up of the core does (\<open>internal/app/core/entrypoint/start.go\<close>), as a trace: the parts it
  opens, its pause, and what it closes, the deferred calls included, which run last deferred first when the
  function returns and when a panic leaves it. \<open>Core_Boot\<close> has the function itself, with the parts.
\<close>

datatype stage = Database | CloudClient | WsServer | RpcService | MqttLink

datatype action = Opened stage | SleptTwoSeconds | ClosedMqtt | ClosedWs | ClosedDatabase

text \<open>A panic leaves the function and ends the process.\<close>

datatype start_result = StartReturned "string option" | StartPanicked string

record start_run =
  done_acts :: "action list"
  deferred :: "action list list"

definition begin_run :: start_run where
  "begin_run = \<lparr>done_acts = [], deferred = []\<rparr>"

definition doing :: "action \<Rightarrow> start_run \<Rightarrow> start_run" where
  "doing a s = s\<lparr>done_acts := done_acts s @ [a]\<rparr>"

definition deferring :: "action list \<Rightarrow> start_run \<Rightarrow> start_run" where
  "deferring fs s = s\<lparr>deferred := fs # deferred s\<rparr>"

text \<open>Opening a part: its error is returned, its panic is not recovered.\<close>

definition open_part ::
  "stage \<Rightarrow> ('x, string) go \<Rightarrow> start_run \<Rightarrow> ('x \<Rightarrow> start_run \<Rightarrow> start_run \<times> start_result) \<Rightarrow> start_run \<times> start_result" where
  "open_part st g s k =
     (case g of
        Ok x \<Rightarrow> k x (doing (Opened st) s)
      | Err m \<Rightarrow> (s, StartReturned (Some m))
      | Panic m \<Rightarrow> (s, StartPanicked m))"

definition leaving :: "start_run \<times> start_result \<Rightarrow> action list \<times> start_result" where
  "leaving x = (case x of (s, r) \<Rightarrow> (done_acts s @ concat (deferred s), r))"

lemmas start_ops = begin_run_def doing_def deferring_def open_part_def leaving_def

fun is_Ok :: "('x, 'e) go \<Rightarrow> bool" where
  "is_Ok (Ok x) = True"
| "is_Ok (Err m) = False"
| "is_Ok (Panic m) = False"

end
