(* ===== verification/Update.thy ===== *)
theory Update
  imports Go_Text
begin

text \<open>
  The update check and download of \<open>pkg/update\<close> (\<open>check.go\<close>, \<open>download.go\<close>, \<open>file_linux.go\<close>,
  \<open>file_windows.go\<close>). HTTP and the file system are parameters, as are the versions of the library
  semver (\<open>newVersion\<close>, \<open>newer\<close>) and the JSON decoder.
\<close>

section \<open>Checking\<close>

record asset =
  a_Name :: string
  a_URL :: string

record release =
  TagName :: string
  Assets :: "asset list"

text \<open>The answer of the release page: an error of the request, or a status and the decoded body.\<close>

datatype page = Unanswered string | Page nat "string + release"

definition Check ::
  "(string \<Rightarrow> string + 'v) \<Rightarrow> ('v \<Rightarrow> 'v \<Rightarrow> bool) \<Rightarrow> page \<Rightarrow> string \<Rightarrow> string \<Rightarrow> string" where
  "Check newVersion newer resp currentVer name =
     (case resp of
        Unanswered e \<Rightarrow> ''''
      | Page status body \<Rightarrow>
          if status \<noteq> 200 then ''''
          else
            (case body of
               Inl e \<Rightarrow> ''''
             | Inr rel \<Rightarrow>
                 (case newVersion (TagName rel) of
                    Inl e \<Rightarrow> ''''
                  | Inr releaseVersion \<Rightarrow>
                      (case newVersion currentVer of
                         Inl e \<Rightarrow> ''''
                       | Inr currentVersion \<Rightarrow>
                           if newer releaseVersion currentVersion then
                             (case filter (\<lambda>a. has_prefix (a_Name a) name) (Assets rel) of
                                [] \<Rightarrow> '''' | ass # _ \<Rightarrow> a_URL ass)
                           else ''''))))"

section \<open>Downloading\<close>

definition getName_linux :: "string \<Rightarrow> string" where
  "getName_linux u =
     (case last_index_byte u CHR ''/'' of None \<Rightarrow> '''' | Some idx \<Rightarrow> drop (idx + 1) u)"

definition getName_windows :: "string \<Rightarrow> string" where
  "getName_windows u =
     (case last_index_byte u CHR ''/'' of
        None \<Rightarrow> ''''
      | Some idx \<Rightarrow>
          (case last_index_byte (take idx u) CHR ''/'' of
             None \<Rightarrow> ''''
           | Some sidx \<Rightarrow>
               let ver = drop (sidx + 1) (take idx u);
                   tmp = split_on CHR ''.'' (drop (idx + 1) u)
               in join_with ''.'' (tmp[0 := tmp ! 0 @ ''-'' @ ver])))"

text \<open>The answer to the download: an error, or a status, the bytes that arrive and the error the copy ends
  with. The status is not looked at.\<close>

datatype body = NoBody string | Body nat string "string option"

datatype download =
    NotStarted
  | GetFailed string
  | CreateFailed string
  | WriteFailed string string
  | PermFailed string
  | Saved string string

definition Download ::
  "(string \<Rightarrow> string) \<Rightarrow> (string \<Rightarrow> body) \<Rightarrow> (string \<Rightarrow> string option) \<Rightarrow> (string \<Rightarrow> string option) \<Rightarrow> string
     \<Rightarrow> download" where
  "Download getName get create setPerm u =
     (if getName u = '''' then NotStarted
      else
        (case get u of
           NoBody e \<Rightarrow> GetFailed e
         | Body status bytes copy_error \<Rightarrow>
             (case create (getName u) of
                Some e \<Rightarrow> CreateFailed e
              | None \<Rightarrow>
                  (case copy_error of
                     Some e \<Rightarrow> WriteFailed (getName u) bytes
                   | None \<Rightarrow>
                       (case setPerm (getName u) of
                          Some e \<Rightarrow> PermFailed e
                        | None \<Rightarrow> Saved (getName u) bytes)))))"

text \<open>\<open>printStat\<close> runs beside the copy: at a tick it looks at the size of the file, and it ends when the
  download has ended, in whatever way. \<open>percent\<close> is the floating-point expression of the code, the part of
  the size the server announced.\<close>

datatype progress = Sized int | Unreadable | DownloadEnded

definition percent_line :: "int \<Rightarrow> string" where
  "percent_line p = ''Downloaded: '' @ dec_of_int p @ ''%''"

fun printStat :: "(int \<Rightarrow> int \<Rightarrow> int) \<Rightarrow> int \<Rightarrow> int \<Rightarrow> progress list \<Rightarrow> string list" where
  "printStat percent totalSize lastPercent [] = []"
| "printStat percent totalSize lastPercent (DownloadEnded # es) = [''Downloaded: 100%'']"
| "printStat percent totalSize lastPercent (Unreadable # es) = printStat percent totalSize lastPercent es"
| "printStat percent totalSize lastPercent (Sized n # es) =
     (let p = percent n totalSize in
      if lastPercent \<noteq> p then percent_line p # printStat percent totalSize p es
      else printStat percent totalSize lastPercent es)"

section \<open>Properties\<close>

fun sizes :: "progress list \<Rightarrow> int list" where
  "sizes [] = []"
| "sizes (Sized n # es) = n # sizes es"
| "sizes (e # es) = sizes es"

text \<open>the progress of a download is logged without repetition, each figure once as often as it changes, and
  ends with all of it, also when the download failed.\<close>

theorem progress_without_repetition:
  assumes "DownloadEnded \<notin> set es"
  shows "printStat percent totalSize l (es @ [DownloadEnded])
    = map percent_line (tl (remdups_adj (l # map (\<lambda>n. percent n totalSize) (sizes es)))) @ [''Downloaded: 100%'']"
  using assms
proof (induction es arbitrary: l)
  case (Cons e es)
  show ?case
  proof (cases e)
    case (Sized n)
    have r: "remdups_adj (p # ys) = p # tl (remdups_adj (p # ys))" for p :: int and ys
      by (rule remdups_adj_Cons_alt [symmetric])
    show ?thesis
    proof (cases "l = percent n totalSize")
      case False
      with Sized Cons have "printStat percent totalSize l ((e # es) @ [DownloadEnded])
        = percent_line (percent n totalSize)
          # map percent_line (tl (remdups_adj (percent n totalSize # map (\<lambda>n. percent n totalSize) (sizes es))))
            @ [''Downloaded: 100%'']" by (simp add: Let_def)
      also have "\<dots> = map percent_line (remdups_adj (percent n totalSize # map (\<lambda>n. percent n totalSize) (sizes es)))
            @ [''Downloaded: 100%'']" 
        by (subst (2) r) (simp only: list.simps(9) append_Cons)
      finally show ?thesis using Sized False by simp
    qed (use Sized Cons in simp)
  qed (use Cons in simp_all)
qed simp

lemma progress_without_repetition_witness:
  "printStat (\<lambda>n t. n * 100 div t) 200 0 ([Sized 1, Sized 50, Unreadable, Sized 51] @ [DownloadEnded])
    = [''Downloaded: 25%'', ''Downloaded: 100%'']"
  using progress_without_repetition [of "[Sized 1, Sized 50, Unreadable, Sized 51]" "\<lambda>n t. n * 100 div t" 200 0]
  by (simp add: percent_line_def dec_of_int_def dec_of_nat.simps digit_char_def char_of_eq_iff take_bit_eq_mod)


lemma last_index_byte_None: "last_index_byte s d = None \<longleftrightarrow> d \<notin> set s"
  by (induction s) (auto split: option.splits)

lemma last_index_byte_append:
  "d \<notin> set t \<Longrightarrow> last_index_byte (s @ d # t) d = Some (length s)"
  by (induction s) (auto simp: last_index_byte_None split: option.splits)

lemma first_match:
  "(case filter P xs of [] \<Rightarrow> '''' | a # _ \<Rightarrow> a_URL a) = u \<and> u \<noteq> '''' \<longleftrightarrow>
     (\<exists>pre a post. xs = pre @ a # post \<and> (\<forall>b \<in> set pre. \<not> P b) \<and> P a \<and> a_URL a = u \<and> u \<noteq> '''')"
proof (cases "filter P xs")
  case Nil
  then show ?thesis by (auto simp: filter_empty_conv)
next
  case (Cons a as)
  then obtain pre post where xs: "xs = pre @ a # post" "\<forall>b \<in> set pre. \<not> P b" "P a"
    by (auto simp: filter_eq_Cons_iff)
  have "b = a" if "xs = q @ b # r" "\<forall>x \<in> set q. \<not> P x" "P b" for q b r
  proof -
    have "filter P q = []" using that(2) by (simp add: filter_empty_conv)
    with that(1,3) Cons show ?thesis by simp
  qed
  note unique = this
  show ?thesis
  proof
    assume "(case filter P xs of [] \<Rightarrow> '''' | a # _ \<Rightarrow> a_URL a) = u \<and> u \<noteq> ''''"
    with Cons have "a_URL a = u \<and> u \<noteq> ''''" by simp
    with xs show "\<exists>pre a post. xs = pre @ a # post \<and> (\<forall>b \<in> set pre. \<not> P b) \<and> P a \<and> a_URL a = u \<and> u \<noteq> ''''"
      by (intro exI [of _ pre] exI [of _ a] exI [of _ post] conjI) auto
  next
    assume "\<exists>pre a post. xs = pre @ a # post \<and> (\<forall>b \<in> set pre. \<not> P b) \<and> P a \<and> a_URL a = u \<and> u \<noteq> ''''"
    then obtain q b r where "xs = q @ b # r" "\<forall>x \<in> set q. \<not> P x" "P b" "a_URL b = u" "u \<noteq> ''''" by (elim exE conjE)
    with unique [of q b r] Cons show "(case filter P xs of [] \<Rightarrow> '''' | a # _ \<Rightarrow> a_URL a) = u \<and> u \<noteq> ''''" by simp
  qed
qed

lemma Check_newer:
  "newVersion (TagName rel) = Inr rv \<Longrightarrow> newVersion currentVer = Inr cv \<Longrightarrow> newer rv cv \<Longrightarrow>
     Check newVersion newer (Page 200 (Inr rel)) currentVer name
     = (case filter (\<lambda>a. has_prefix (a_Name a) name) (Assets rel) of [] \<Rightarrow> '''' | a # _ \<Rightarrow> a_URL a)"
  by (simp add: Check_def)

lemma Check_nonempty:
  assumes "Check newVersion newer resp currentVer name \<noteq> ''''"
  obtains rel rv cv where "resp = Page 200 (Inr rel)" "newVersion (TagName rel) = Inr rv"
    "newVersion currentVer = Inr cv" "newer rv cv"
  using assms by (auto simp: Check_def split: page.splits if_splits sum.splits)

text \<open>an update is offered exactly for a newer release that lists a file whose name begins with the
  name of the program, and it is the first such file, not the one of that name.\<close>

theorem update_is_first_match:
  "Check newVersion newer resp currentVer name = u \<and> u \<noteq> '''' \<longleftrightarrow>
     (\<exists>rel rv cv pre a post. resp = Page 200 (Inr rel) \<and> newVersion (TagName rel) = Inr rv
        \<and> newVersion currentVer = Inr cv \<and> newer rv cv \<and> Assets rel = pre @ a # post
        \<and> (\<forall>b \<in> set pre. \<not> has_prefix (a_Name b) name) \<and> has_prefix (a_Name a) name \<and> a_URL a = u \<and> u \<noteq> '''')"
  (is "?offer \<longleftrightarrow> ?found")
proof
  assume o: ?offer
  then obtain rel rv cv where r: "resp = Page 200 (Inr rel)" "newVersion (TagName rel) = Inr rv"
    "newVersion currentVer = Inr cv" "newer rv cv"
    using Check_nonempty [of newVersion newer resp currentVer name] by blast
  from o have "(case filter (\<lambda>a. has_prefix (a_Name a) name) (Assets rel) of [] \<Rightarrow> '''' | a # _ \<Rightarrow> a_URL a) = u \<and> u \<noteq> ''''"
    unfolding r(1) Check_newer [where newVersion = newVersion and newer = newer, OF r(2-4)] .
  from iffD1 [OF first_match this] r show ?found by (elim exE conjE) (intro exI conjI, assumption+)
next
  assume ?found
  then obtain rel rv cv where r: "resp = Page 200 (Inr rel)" "newVersion (TagName rel) = Inr rv"
    "newVersion currentVer = Inr cv" "newer rv cv"
    and m: "\<exists>pre a post. Assets rel = pre @ a # post \<and> (\<forall>b \<in> set pre. \<not> has_prefix (a_Name b) name)
      \<and> has_prefix (a_Name a) name \<and> a_URL a = u \<and> u \<noteq> ''''" by blast
  show ?offer
    unfolding r(1) Check_newer [where newVersion = newVersion and newer = newer, OF r(2-4)]
    by (rule iffD2 [OF first_match m])
qed

definition example_release :: release where
  "example_release = \<lparr>TagName = ''2'', Assets = [\<lparr>a_Name = ''core-linux-arm64'', a_URL = ''u64''\<rparr>,
     \<lparr>a_Name = ''core-linux-arm'', a_URL = ''u32''\<rparr>]\<rparr>"

lemma update_is_first_match_witness:
  "Check (\<lambda>s. Inr (length s)) (\<lambda>_ _. True) (Page 200 (Inr example_release)) ''1'' ''core-linux-arm'' = ''u64''"
proof -
  have "Assets example_release = [] @ \<lparr>a_Name = ''core-linux-arm64'', a_URL = ''u64''\<rparr> # [\<lparr>a_Name = ''core-linux-arm'', a_URL = ''u32''\<rparr>]"
    by (simp add: example_release_def)
  then show ?thesis
    using iffD2 [OF update_is_first_match [of "\<lambda>s. Inr (length s)" "\<lambda>_ _. True" "Page 200 (Inr example_release)" "''1''" "''core-linux-arm''" "''u64''"]]
    by (fastforce simp: has_prefix_def)
qed

text \<open>on a 32-bit ARM machine the update is the 64-bit file when the release lists it first.\<close>

theorem arm_offered_arm64:
  assumes "newVersion (TagName rel) = Inr rv" and "newVersion currentVer = Inr cv" and "newer rv cv"
    and "Assets rel = pre @ \<lparr>a_Name = ''core-linux-arm64'', a_URL = u64\<rparr> # \<lparr>a_Name = ''core-linux-arm'', a_URL = u32\<rparr> # post"
    and "\<forall>b \<in> set pre. \<not> has_prefix (a_Name b) ''core-linux-arm''"
  shows "Check newVersion newer (Page 200 (Inr rel)) currentVer ''core-linux-arm'' = u64"
proof -
  have "filter (\<lambda>a. has_prefix (a_Name a) ''core-linux-arm'') pre = []"
    using assms(5) by (simp add: filter_empty_conv)
  then show ?thesis using assms(1-4) by (simp add: Check_newer has_prefix_def)
qed

lemma arm_offered_arm64_witness:
  "Check (\<lambda>s. Inr (length s)) (\<lambda>_ _. True) (Page 200 (Inr example_release)) ''1'' ''core-linux-arm'' = ''u64''"
  using arm_offered_arm64 [of "\<lambda>s. Inr (length s)" example_release 1 "''1''" 1 "\<lambda>_ _. True" "[]" "''u64''" "''u32''" "[]"]
  by (simp add: example_release_def)

text \<open>the file an update is saved to has the last part of the address as its name on Linux; on Windows
  the version, the part before it, goes between the name and its extension.\<close>

theorem download_names:
  assumes "CHR ''/'' \<notin> set base \<union> set ver" and "CHR ''.'' \<notin> set base"
  shows "getName_linux (host @ ''/'' @ ver @ ''/'' @ base @ ''.exe'') = base @ ''.exe''
    \<and> getName_windows (host @ ''/'' @ ver @ ''/'' @ base @ ''.exe'') = base @ ''-'' @ ver @ ''.exe''"
proof -
  have l: "last_index_byte (host @ ''/'' @ ver @ ''/'' @ base @ ''.exe'') CHR ''/'' = Some (length (host @ ''/'' @ ver))"
    using assms(1) last_index_byte_append [of "CHR ''/''" "base @ ''.exe''" "host @ ''/'' @ ver"] by simp
  have k: "last_index_byte (host @ ''/'' @ ver) CHR ''/'' = Some (length host)"
    using assms(1) last_index_byte_append [of "CHR ''/''" ver host] by simp
  have t: "take (length (host @ ''/'' @ ver)) (host @ ''/'' @ ver @ ''/'' @ base @ ''.exe'') = host @ ''/'' @ ver"
    "drop (length (host @ ''/'' @ ver) + 1) (host @ ''/'' @ ver @ ''/'' @ base @ ''.exe'') = base @ ''.exe''" by simp_all
  have s: "split_on CHR ''.'' (base @ ''.exe'') = [base, ''exe'']"
    using assms(2) split_on_append_sep [of "CHR ''.''" base "''exe''"] by simp
  have v: "drop (length host + 1) (host @ ''/'' @ ver) = ver" by simp
  show ?thesis
    unfolding getName_linux_def getName_windows_def l option.case t k Let_def s v by simp
qed

lemma download_names_witness:
  "getName_windows ''https://h/r/v1/core-windows-amd64.exe'' = ''core-windows-amd64-v1.exe''"
  using download_names [of "''core-windows-amd64''" "''v1''" "''https://h/r''"] by simp

text \<open>what the server answers is saved as the new program whatever its status is: the page of an error
  becomes an executable file.\<close>

theorem download_ignores_status:
  assumes "get u = Body status bytes None" and "getName u \<noteq> ''''" and "create (getName u) = None"
    and "setPerm (getName u) = None"
  shows "Download getName get create setPerm u = Saved (getName u) bytes"
  using assms by (simp add: Download_def)

lemma download_ignores_status_witness:
  "Download getName_linux (\<lambda>_. Body 404 ''Not Found'' None) (\<lambda>_. None) (\<lambda>_. None) ''h/core''
     = Saved ''core'' ''Not Found''"
  using download_ignores_status [of "\<lambda>_. Body 404 ''Not Found'' None" "''h/core''" 404 "''Not Found''" getName_linux "\<lambda>_. None" "\<lambda>_. None"]
  by (simp add: getName_linux_def)

end
