(* ===== verification/Config.thy ===== *)
theory Config
  imports Go_Text "HOL-Library.AList"
begin

text \<open>
  Command line and configuration of the processes: the flags (package \<open>flag\<close> of Go), the settings
  (\<open>internal/pkg/config/config.go\<close> and \<open>internal/app/*/config/config.go\<close>) and the layers of the vendored
  \<open>viper\<close> they live in. Reading and decoding the file is a parameter: an error, or the nested table with
  lower-case keys that viper keeps. The keys the program uses are lower case.
\<close>

section \<open>Flags\<close>

datatype flag_value = BoolFlag bool | StringFlag string

type_synonym flags = "(string \<times> flag_value) list"

text \<open>\<open>flag.Parse\<close>: the flags with their new values, or the message with which the process exits with
  status 2. Parsing stops at the first argument that is no flag.\<close>

definition split_eq :: "string \<Rightarrow> string \<times> string option" where
  "split_eq name =
     (if CHR ''='' \<in> set name
      then (takeWhile (\<lambda>c. c \<noteq> CHR ''='') name, Some (tl (dropWhile (\<lambda>c. c \<noteq> CHR ''='') name)))
      else (name, None))"

definition flag_name :: "string \<Rightarrow> string" where
  "flag_name s = (if s ! 1 = CHR ''-'' then drop 2 s else drop 1 s)"

definition no_flag :: "string \<Rightarrow> bool" where
  "no_flag s \<longleftrightarrow> length s < 2 \<or> hd s \<noteq> CHR ''-'' \<or> s = ''--''"

definition bad_flag :: "string \<Rightarrow> bool" where
  "bad_flag name \<longleftrightarrow> name = [] \<or> hd name = CHR ''-'' \<or> hd name = CHR ''=''"

fun parse_flags :: "flags \<Rightarrow> string list \<Rightarrow> string + flags" where
  "parse_flags fs [] = Inr fs"
| "parse_flags fs (s # rest) =
     (if no_flag s then Inr fs
      else if bad_flag (flag_name s) then Inl (''bad flag syntax: '' @ s)
      else
        (case split_eq (flag_name s) of (name, value) \<Rightarrow>
          (case map_of fs name of
             None \<Rightarrow>
               Inl (if name = ''help'' \<or> name = ''h'' then ''flag: help requested''
                    else ''flag provided but not defined: -'' @ name)
           | Some (BoolFlag _) \<Rightarrow>
               (case value of
                  None \<Rightarrow> parse_flags (AList.update name (BoolFlag True) fs) rest
                | Some v \<Rightarrow>
                    (case parse_bool v of
                       Inl e \<Rightarrow> Inl (''invalid boolean value for -'' @ name)
                     | Inr b \<Rightarrow> parse_flags (AList.update name (BoolFlag b) fs) rest))
           | Some (StringFlag _) \<Rightarrow>
               (case value of
                  Some v \<Rightarrow> parse_flags (AList.update name (StringFlag v) fs) rest
                | None \<Rightarrow>
                    (case rest of
                       [] \<Rightarrow> Inl (''flag needs an argument: -'' @ name)
                     | v # rest' \<Rightarrow> parse_flags (AList.update name (StringFlag v) fs) rest')))))"

definition flag_set :: "flags \<Rightarrow> string \<Rightarrow> bool" where
  "flag_set fs name = (map_of fs name = Some (BoolFlag True))"

definition flag_text :: "flags \<Rightarrow> string \<Rightarrow> string" where
  "flag_text fs name = (case map_of fs name of Some (StringFlag s) \<Rightarrow> s | _ \<Rightarrow> '''')"

section \<open>Settings\<close>

text \<open>A setting has the Go type its source gives it: \<open>CInt\<close> is an \<open>int\<close> of the program, \<open>CInt64\<close> an integer
  of a file.\<close>

datatype setting =
    CNil
  | CBool bool
  | CInt int
  | CInt64 int
  | CFloat "64 word"
  | CStr string
  | CList "setting list"
  | CTab "(string \<times> setting) list"

type_synonym table = "(string \<times> setting) list"

definition pick :: "table \<Rightarrow> string \<Rightarrow> setting" where
  "pick m k = (case map_of m k of None \<Rightarrow> CNil | Some v \<Rightarrow> v)"

fun searchMap :: "table \<Rightarrow> string list \<Rightarrow> setting" where
  "searchMap m [] = CTab m"
| "searchMap m (k # ks) =
     (if ks = [] then pick m k
      else (case pick m k of CTab m' \<Rightarrow> searchMap m' ks | _ \<Rightarrow> CNil))"

text \<open>The file may also have dotted keys: longer prefixes of the path are tried first.\<close>

fun first_found :: "('a \<Rightarrow> 'b option) \<Rightarrow> 'a list \<Rightarrow> 'b option" where
  "first_found f [] = None"
| "first_found f (x # xs) = (case f x of None \<Rightarrow> first_found f xs | Some v \<Rightarrow> Some v)"

lemma first_found_cong [fundef_cong]:
  "xs = ys \<Longrightarrow> (\<And>x. x \<in> set ys \<Longrightarrow> f x = g x) \<Longrightarrow> first_found f xs = first_found g ys"
  by (induction ys arbitrary: xs) (auto split: option.splits)

function searchMapWithPathPrefixes :: "table \<Rightarrow> string list \<Rightarrow> setting" where
  "searchMapWithPathPrefixes m path =
     (if path = [] then CTab m
      else
        (case first_found
           (\<lambda>i. case map_of m (join_with ''.'' (take i path)) of
              None \<Rightarrow> None
            | Some next \<Rightarrow>
                if i = length path then Some next
                else
                  (case next of
                     CTab m' \<Rightarrow>
                       (case searchMapWithPathPrefixes m' (drop i path) of CNil \<Rightarrow> None | v \<Rightarrow> Some v)
                   | _ \<Rightarrow> None))
           (rev [1..<Suc (length path)])
         of None \<Rightarrow> CNil | Some v \<Rightarrow> v))"
  by pat_completeness auto
termination
  by (relation "measure (\<lambda>(m, path). length path)") auto

declare searchMapWithPathPrefixes.simps [simp del]

fun shadow_loop :: "table \<Rightarrow> string list list \<Rightarrow> bool" where
  "shadow_loop m [] = False"
| "shadow_loop m (p # ps) =
     (case searchMap m p of CNil \<Rightarrow> False | CTab _ \<Rightarrow> shadow_loop m ps | _ \<Rightarrow> True)"

definition isPathShadowedInDeepMap :: "string list \<Rightarrow> table \<Rightarrow> bool" where
  "isPathShadowedInDeepMap path m = shadow_loop m (map (\<lambda>i. take i path) [1..<length path])"

text \<open>\<open>deepSearch\<close> and the write into the innermost map.\<close>

fun deep_set :: "table \<Rightarrow> string list \<Rightarrow> setting \<Rightarrow> table" where
  "deep_set m [] v = m"
| "deep_set m (k # ks) v =
     (if ks = [] then AList.update k v m
      else AList.update k (CTab (deep_set (case pick m k of CTab m' \<Rightarrow> m' | _ \<Rightarrow> []) ks v)) m)"

record viper =
  override :: table
  config :: table
  defaults :: table

definition v_path :: "string \<Rightarrow> string list" where
  "v_path key = split_on CHR ''.'' key"

definition v_Set :: "string \<Rightarrow> setting \<Rightarrow> viper \<Rightarrow> viper" where
  "v_Set key x v = v\<lparr>override := deep_set (override v) (v_path key) x\<rparr>"

definition v_SetDefault :: "string \<Rightarrow> setting \<Rightarrow> viper \<Rightarrow> viper" where
  "v_SetDefault key x v = v\<lparr>defaults := deep_set (defaults v) (v_path key) x\<rparr>"

text \<open>\<open>find\<close> for the layers the program uses; it registers no aliases, bound flags, environment or
  key-value stores.\<close>

definition v_find :: "viper \<Rightarrow> string \<Rightarrow> setting" where
  "v_find v key =
     (let path = v_path key in
      if searchMap (override v) path \<noteq> CNil then searchMap (override v) path
      else if isPathShadowedInDeepMap path (override v) then CNil
      else if searchMapWithPathPrefixes (config v) path \<noteq> CNil then searchMapWithPathPrefixes (config v) path
      else if isPathShadowedInDeepMap path (config v) then CNil
      else searchMap (defaults v) path)"

text \<open>Conversions (\<open>spf13/cast\<close>): the text of a float, its integer part, and the integer a text denotes are
  parameters.\<close>

record cast_env =
  float_text :: "64 word \<Rightarrow> string"
  float_int :: "64 word \<Rightarrow> int"
  text_int :: "string \<Rightarrow> int option"

definition v_GetString :: "cast_env \<Rightarrow> viper \<Rightarrow> string \<Rightarrow> string" where
  "v_GetString ce v key =
     (case v_find v key of
        CStr s \<Rightarrow> s
      | CBool b \<Rightarrow> if b then ''true'' else ''false''
      | CInt i \<Rightarrow> dec_of_int i
      | CInt64 i \<Rightarrow> dec_of_int i
      | CFloat w \<Rightarrow> float_text ce w
      | _ \<Rightarrow> '''')"

text \<open>An integer of a file is no \<open>int\<close>, so it is not a truth value.\<close>

definition v_GetBool :: "viper \<Rightarrow> string \<Rightarrow> bool" where
  "v_GetBool v key =
     (case v_find v key of
        CBool b \<Rightarrow> b
      | CInt i \<Rightarrow> i \<noteq> 0
      | CStr s \<Rightarrow> (case parse_bool s of Inl _ \<Rightarrow> False | Inr b \<Rightarrow> b)
      | _ \<Rightarrow> False)"

definition v_GetInt :: "cast_env \<Rightarrow> viper \<Rightarrow> string \<Rightarrow> int" where
  "v_GetInt ce v key =
     (case v_find v key of
        CInt i \<Rightarrow> i
      | CInt64 i \<Rightarrow> i
      | CFloat w \<Rightarrow> float_int ce w
      | CStr s \<Rightarrow> (case text_int ce s of None \<Rightarrow> 0 | Some i \<Rightarrow> i)
      | CBool b \<Rightarrow> if b then 1 else 0
      | _ \<Rightarrow> 0)"

section \<open>Initialisation\<close>

definition parse_level :: "string \<Rightarrow> nat option" where
  "parse_level l =
     map_of [(''panic'', 0), (''fatal'', 1), (''error'', 2), (''warn'', 3), (''warning'', 3), (''info'', 4),
       (''debug'', 5), (''trace'', 6)] (map lower_char l)"

datatype log_format = TextFormat | JSONFormat

definition logFormatter :: "cast_env \<Rightarrow> viper \<Rightarrow> string + log_format" where
  "logFormatter ce v =
     (if v_GetString ce v ''log_format'' = ''text'' then Inr TextFormat
      else if v_GetString ce v ''log_format'' = ''json'' then Inr JSONFormat
      else Inl ''unknown log format. use text or json'')"

definition setupLogger :: "cast_env \<Rightarrow> viper \<Rightarrow> string + log_format \<times> nat" where
  "setupLogger ce v =
     (case logFormatter ce v of
        Inl e \<Rightarrow> Inl e
      | Inr f \<Rightarrow>
          (case parse_level (v_GetString ce v ''log_level'') of
             None \<Rightarrow> Inl (''config:setupLogger:not a valid logrus Level'')
           | Some l \<Rightarrow> Inr (f, l)))"

definition with_defaults :: "(string \<times> setting) list \<Rightarrow> viper \<Rightarrow> viper" where
  "with_defaults kvs v = fold (\<lambda>(k, x). v_SetDefault k x) kvs v"

definition common_defaults :: "(string \<times> setting) list" where
  "common_defaults =
     [(''log_level'', CStr ''info''), (''log_format'', CStr ''text''), (''ws_port'', CInt 9000),
      (''check_updates'', CBool True), (''auto_download_updates'', CBool False), (''catch_panic'', CBool True)]"

text \<open>A process that does not start exits with a status and a message. An unreadable file is only reported.\<close>

type_synonym exit = "nat \<times> string"

definition read_version :: "string list \<Rightarrow> string" where
  "read_version version = (case version of [] \<Rightarrow> ''0.0.0'' | x # _ \<Rightarrow> if x = '''' then ''0.0.0'' else x)"

definition file_table :: "(string \<Rightarrow> string + table) \<Rightarrow> string \<Rightarrow> table" where
  "file_table read path = (case read path of Inl e \<Rightarrow> [] | Inr t \<Rightarrow> t)"

definition Init ::
  "cast_env \<Rightarrow> (string \<Rightarrow> string + table) \<Rightarrow> flags \<Rightarrow> string list \<Rightarrow> string list \<Rightarrow> exit + viper" where
  "Init ce read fs args version =
     (case parse_flags (fs @ [(''config'', StringFlag ''config.toml'')]) args of
        Inl e \<Rightarrow> Inl (2, e)
      | Inr fs' \<Rightarrow>
          (let v0 = \<lparr>override = [], config = file_table read (flag_text fs' ''config''), defaults = []\<rparr>;
               v1 = v_Set ''version'' (CStr (read_version version)) v0;
               v2 = with_defaults common_defaults v1
           in (case setupLogger ce v2 of Inl e \<Rightarrow> Inl (1, e) | Inr _ \<Rightarrow> Inr v2)))"

text \<open>The settings of each process on top of the common ones.\<close>

definition core_defaults :: "(string \<times> setting) list" where
  "core_defaults =
     [(''core.rpc_timeout'', CStr ''1m''), (''core.db.path'', CStr ''storage.db''),
      (''core.db.clean_state'', CBool False), (''core.mqtt.url'', CStr ''tls://sandbox.rightech.io:8883''),
      (''core.mqtt.cert_file'', CStr ''''), (''core.mqtt.key_path'', CStr ''''),
      (''core.cloud.url'', CStr ''https://sandbox.rightech.io/api/v1'')]"

definition core_Setup ::
  "cast_env \<Rightarrow> (string \<Rightarrow> string + table) \<Rightarrow> flags \<Rightarrow> string list \<Rightarrow> string list \<Rightarrow> exit + viper" where
  "core_Setup ce read fs args version = map_sum id (with_defaults core_defaults) (Init ce read fs args version)"

definition modbus_Setup ::
  "cast_env \<Rightarrow> (string \<Rightarrow> string + table) \<Rightarrow> flags \<Rightarrow> string list \<Rightarrow> string list \<Rightarrow> exit + viper" where
  "modbus_Setup ce read fs args version =
     map_sum id
       (v_Set ''modbus.ws_path'' (CStr ''/modbus'')
        \<circ> with_defaults [(''modbus.mode'', CStr ''tcp''), (''modbus.addr'', CStr ''localhost:8000'')])
       (Init ce read fs args version)"

definition snmp_Setup ::
  "cast_env \<Rightarrow> (string \<Rightarrow> string + table) \<Rightarrow> flags \<Rightarrow> string list \<Rightarrow> string list \<Rightarrow> exit + viper" where
  "snmp_Setup ce read fs args version =
     map_sum id
       (v_Set ''snmp.ws_path'' (CStr ''/snmp'')
        \<circ> with_defaults
            [(''snmp.host_port'', CStr ''localhost:161''), (''snmp.version'', CStr ''2c''),
             (''snmp.community'', CStr ''public''), (''snmp.mode'', CStr ''''), (''snmp.auth_protocol'', CStr ''''),
             (''snmp.auth_key'', CStr ''''), (''snmp.priv_protocol'', CStr ''''), (''snmp.priv_key'', CStr ''''),
             (''snmp.security_name'', CStr '''')])
       (Init ce read fs args version)"

definition opcua_Setup ::
  "cast_env \<Rightarrow> (string \<Rightarrow> string + table) \<Rightarrow> flags \<Rightarrow> string list \<Rightarrow> string list \<Rightarrow> exit + viper" where
  "opcua_Setup ce read fs args version =
     map_sum id
       (v_Set ''opcua.ws_path'' (CStr ''/opcua'')
        \<circ> with_defaults
            [(''opcua.endpoint'', CStr ''opc.tcp://localhost:4840''), (''opcua.encryption'', CStr ''''),
             (''opcua.mode'', CStr ''None''), (''opcua.server_cert'', CStr ''''), (''opcua.server_key'', CStr '''')])
       (Init ce read fs args version)"

definition ble_Setup ::
  "cast_env \<Rightarrow> (string \<Rightarrow> string + table) \<Rightarrow> flags \<Rightarrow> string list \<Rightarrow> string list \<Rightarrow> exit + viper" where
  "ble_Setup ce read fs args version =
     map_sum id
       (with_defaults [(''ble.use_plugin'', CBool False)] \<circ> v_Set ''ble.ws_path'' (CStr ''/ble''))
       (Init ce read fs args version)"

section \<open>Laws of the layers\<close>

text \<open>Two paths of which neither leads to the other.\<close>

fun apart :: "string list \<Rightarrow> string list \<Rightarrow> bool" where
  "apart (p # ps) (q # qs) = (p \<noteq> q \<or> apart ps qs)"
| "apart _ _ = False"

lemma pick_update [simp]: "pick (AList.update k v m) j = (if j = k then v else pick m j)"
  by (simp add: pick_def update_conv')

text \<open>The table below a key, empty when there is none.\<close>

definition below :: "table \<Rightarrow> string \<Rightarrow> table" where
  "below m k = (case pick m k of CTab m' \<Rightarrow> m' | _ \<Rightarrow> [])"

lemma searchMap_empty [simp]: "ks \<noteq> [] \<Longrightarrow> searchMap [] ks = CNil"
  by (cases ks) (simp_all add: pick_def)

lemma searchMap_below: "ks \<noteq> [] \<Longrightarrow> searchMap m (k # ks) = searchMap (below m k) ks"
  by (cases "pick m k") (simp_all add: below_def)

lemma below_update [simp]: "below (AList.update k (CTab t) m) j = (if j = k then t else below m j)"
  by (simp add: below_def)

lemma deep_set_below: "ks \<noteq> [] \<Longrightarrow> deep_set m (k # ks) v = AList.update k (CTab (deep_set (below m k) ks v)) m"
  by (simp add: below_def)

declare searchMap.simps(2) [simp del] deep_set.simps(2) [simp del]

lemma deep_set_one [simp]: "deep_set m [k] v = AList.update k v m"
  by (simp add: deep_set.simps)

lemma searchMap_one [simp]: "searchMap m [k] = pick m k"
  by (simp add: searchMap.simps)

lemma searchMap_deep_set: "p \<noteq> [] \<Longrightarrow> searchMap (deep_set m p x) p = x"
proof (induction p arbitrary: m)
  case (Cons k ks)
  then show ?case by (cases "ks = []") (simp_all add: deep_set_below searchMap_below)
qed simp

lemma searchMap_deep_set_apart: "apart p q \<Longrightarrow> searchMap (deep_set m p x) q = searchMap m q"
proof (induction p q arbitrary: m rule: apart.induct)
  case (1 p ps q qs)
  show ?case
  proof (cases "qs = [] \<or> ps = []")
    case True
    with 1(2) show ?thesis
      by (cases "ps = []"; cases "qs = []")
        (auto simp: deep_set_below searchMap_below below_def)
  next
    case False
    with 1 show ?thesis by (auto simp: deep_set_below searchMap_below)
  qed
qed simp_all

lemma v_find_Set:
  "x \<noteq> CNil \<Longrightarrow> v_find (v_Set k x v) k = x"
  by (simp add: v_find_def v_Set_def searchMap_deep_set v_path_def Let_def)

lemma v_Set_layers [simp]:
  "config (v_Set k x v) = config v" "defaults (v_Set k x v) = defaults v"
  by (simp_all add: v_Set_def)

lemma v_SetDefault_layers [simp]:
  "config (v_SetDefault k x v) = config v" "override (v_SetDefault k x v) = override v"
  by (simp_all add: v_SetDefault_def)

lemma with_defaults_layers [simp]:
  "config (with_defaults kvs v) = config v" "override (with_defaults kvs v) = override v"
  unfolding with_defaults_def by (induction kvs arbitrary: v) auto

lemma with_defaults_apart:
  "\<forall>(j, y) \<in> set kvs. apart (v_path j) q \<Longrightarrow>
     searchMap (defaults (with_defaults kvs v)) q = searchMap (defaults v) q"
  unfolding with_defaults_def
  by (induction kvs arbitrary: v) (auto simp: v_SetDefault_def searchMap_deep_set_apart)

lemma with_defaults_find:
  "sorted_wrt (\<lambda>a b. apart (v_path (fst b)) (v_path (fst a))) kvs \<Longrightarrow> (k, x) \<in> set kvs \<Longrightarrow>
     searchMap (defaults (with_defaults kvs v)) (v_path k) = x"
proof (induction kvs arbitrary: v)
  case (Cons a kvs)
  have step: "with_defaults (a # kvs) v = with_defaults kvs (v_SetDefault (fst a) (snd a) v)"
    by (simp add: with_defaults_def split_beta)
  show ?case
  proof (cases "(k, x) = a")
    case True
    then have "\<forall>(j, y) \<in> set kvs. apart (v_path j) (v_path k)"
      using Cons.prems(1) by (auto simp: split_beta)
    from with_defaults_apart [OF this] True show ?thesis
      unfolding step by (auto simp: v_SetDefault_def searchMap_deep_set v_path_def)
  next
    case False
    with Cons show ?thesis unfolding step by simp
  qed
qed simp

lemma with_defaults_append: "with_defaults (as @ bs) v = with_defaults bs (with_defaults as v)"
  by (simp add: with_defaults_def)

text \<open>A key whose first part is not set by the program is read from the file, else from the defaults.\<close>

lemma shadow_unset:
  assumes "pick m k = CNil"
  shows "\<not> isPathShadowedInDeepMap (k # ks) m"
proof (cases ks)
  case (Cons j js)
  have "[1..<length (k # ks)] = 1 # [2..<length (k # ks)]"
    by (subst upt_conv_Cons) (simp_all add: Cons numeral_2_eq_2)
  with assms show ?thesis by (simp add: isPathShadowedInDeepMap_def)
qed (simp add: isPathShadowedInDeepMap_def)

lemma v_find_unset:
  assumes "pick (override v) (hd (v_path k)) = CNil"
  shows "v_find v k =
    (case searchMapWithPathPrefixes (config v) (v_path k) of
       CNil \<Rightarrow> if isPathShadowedInDeepMap (v_path k) (config v) then CNil else searchMap (defaults v) (v_path k)
     | x \<Rightarrow> x)"
proof -
  obtain a as where p: "v_path k = a # as" by (cases "v_path k") (auto simp: v_path_def)
  with assms have n: "pick (override v) a = CNil" by simp
  then have "searchMap (override v) (a # as) = CNil"
    by (cases "as = []") (simp_all add: searchMap_below below_def)
  with shadow_unset [OF n, of as] p show ?thesis
    by (simp add: v_find_def Let_def split: setting.split)
qed

lemma Init_layers:
  assumes "Init ce read fs args version = Inr v"
  obtains fs' v1 where "parse_flags (fs @ [(''config'', StringFlag ''config.toml'')]) args = Inr fs'"
    "v = with_defaults common_defaults v1"
    "v1 = \<lparr>override = [(''version'', CStr (read_version version))],
           config = file_table read (flag_text fs' ''config''), defaults = []\<rparr>"
proof -
  from assms obtain fs' where p: "parse_flags (fs @ [(''config'', StringFlag ''config.toml'')]) args = Inr fs'"
    by (auto simp: Init_def split: sum.splits)
  let ?v0 = "\<lparr>override = [], config = file_table read (flag_text fs' ''config''), defaults = []\<rparr>"
  have w: "v_Set ''version'' (CStr (read_version version)) ?v0 = ?v0\<lparr>override := [(''version'', CStr (read_version version))]\<rparr>"
    by (simp add: v_Set_def v_path_def)
  have "v = with_defaults common_defaults (?v0\<lparr>override := [(''version'', CStr (read_version version))]\<rparr>)"
    using assms p unfolding w [symmetric] by (auto simp: Init_def Let_def split: sum.splits)
  with p show thesis using that by simp
qed

lemma core_settings_apart:
  "sorted_wrt (\<lambda>a b. apart (v_path (fst b)) (v_path (fst a))) (common_defaults @ core_defaults)"
  by (simp add: common_defaults_def core_defaults_def v_path_def)

lemma core_settings_unset:
  "(k, d) \<in> set (common_defaults @ core_defaults) \<Longrightarrow> hd (v_path k) \<noteq> ''version''"
  by (auto simp: common_defaults_def core_defaults_def v_path_def)

lemma prefixes_one [simp]: "searchMapWithPathPrefixes m [k] = pick m k"
  by (subst searchMapWithPathPrefixes.simps) (simp add: pick_def split: option.split)

lemma prefixes_two [simp]:
  "searchMapWithPathPrefixes m [j, k] =
     (case map_of m (j @ ''.'' @ k) of
        Some x \<Rightarrow> x
      | None \<Rightarrow> (case pick m j of CTab t \<Rightarrow> pick t k | _ \<Rightarrow> CNil))"
proof -
  have "rev [1..<Suc (length [j, k])] = [2, 1]" by simp
  then show ?thesis
    by (subst searchMapWithPathPrefixes.simps) (simp add: pick_def split: option.split setting.split)
qed

lemma core_setting_found:
  assumes "core_Setup ce read fs args version = Inr v"
    and "parse_flags (fs @ [(''config'', StringFlag ''config.toml'')]) args = Inr fs'"
    and "(k, d) \<in> set (common_defaults @ core_defaults)"
  shows "v_find v k =
    (let file = file_table read (flag_text fs' ''config'') in
     case searchMapWithPathPrefixes file (v_path k) of
       CNil \<Rightarrow> if isPathShadowedInDeepMap (v_path k) file then CNil else d
     | x \<Rightarrow> x)"
proof -
  from assms(1) obtain v0 where i: "Init ce read fs args version = Inr v0" and v: "v = with_defaults core_defaults v0"
    by (cases "Init ce read fs args version") (auto simp: core_Setup_def)
  from Init_layers [OF i] assms(2) obtain v1 where v1: "v0 = with_defaults common_defaults v1"
    "v1 = \<lparr>override = [(''version'', CStr (read_version version))],
           config = file_table read (flag_text fs' ''config''), defaults = []\<rparr>" by auto
  have w: "v = with_defaults (common_defaults @ core_defaults) v1"
    unfolding v v1(1) with_defaults_append ..
  have "pick (override v) (hd (v_path k)) = CNil"
    using core_settings_unset [OF assms(3)] by (simp add: w v1(2) pick_def)
  note found = v_find_unset [OF this]
  have c: "config v = file_table read (flag_text fs' ''config'')" by (simp add: w v1(2))
  have d: "searchMap (defaults v) (v_path k) = d"
    unfolding w by (rule with_defaults_find [OF core_settings_apart assms(3)])
  show ?thesis unfolding found c d Let_def ..
qed

text \<open>every setting of the core is what the file says; where the file says nothing it is the default,
  unless the file has a plain value where the setting's section should be, which hides it.\<close>

theorem core_setting_from_file_or_default:
  assumes "core_Setup ce read fs args version = Inr v"
    and "parse_flags (fs @ [(''config'', StringFlag ''config.toml'')]) args = Inr fs'"
    and "(k, d) \<in> set (common_defaults @ core_defaults)"
  shows "v_find v k =
    (let file = file_table read (flag_text fs' ''config'') in
     case searchMapWithPathPrefixes file (v_path k) of
       CNil \<Rightarrow> if isPathShadowedInDeepMap (v_path k) file then CNil else d
     | x \<Rightarrow> x)"
  using core_setting_found [OF assms] .

definition example_cast :: cast_env where
  "example_cast = \<lparr>float_text = (\<lambda>_. ''1.5''), float_int = (\<lambda>_. 1), text_int = (\<lambda>_. None)\<rparr>"

text \<open>A file whose section \<open>core\<close> is a text.\<close>

lemma core_setting_from_file_or_default_witness:
  "\<exists>v. core_Setup example_cast (\<lambda>_. Inr [(''core'', CStr ''x'')]) [] [] [''1.2.0''] = Inr v
    \<and> v_find v ''core.rpc_timeout'' = CNil"
proof -
  let ?r = "\<lambda>_. Inr [(''core'', CStr ''x'')] :: string + table"
  let ?v = "with_defaults common_defaults
    \<lparr>override = [(''version'', CStr ''1.2.0'')], config = [(''core'', CStr ''x'')], defaults = []\<rparr>"
  have "v_find ?v ''log_format'' = CStr ''text''" "v_find ?v ''log_level'' = CStr ''info''"
    using with_defaults_find [where kvs = common_defaults]
    by (simp_all add: v_find_unset v_path_def pick_def isPathShadowedInDeepMap_def
        with_defaults_def common_defaults_def v_SetDefault_def)
  then have "Init example_cast ?r [] [] [''1.2.0''] = Inr ?v"
    by (simp add: Init_def Let_def v_Set_def v_path_def setupLogger_def logFormatter_def v_GetString_def
        parse_level_def lower_char_def read_version_def file_table_def)
  then obtain v where v: "core_Setup example_cast ?r [] [] [''1.2.0''] = Inr v"
    by (simp add: core_Setup_def)
  have "v_find v ''core.rpc_timeout'' = (let file = file_table ?r (flag_text [(''config'', StringFlag ''config.toml'')] ''config'') in
     case searchMapWithPathPrefixes file (v_path ''core.rpc_timeout'') of
       CNil \<Rightarrow> if isPathShadowedInDeepMap (v_path ''core.rpc_timeout'') file then CNil else CStr ''1m''
     | x \<Rightarrow> x)"
    by (rule core_setting_from_file_or_default [OF v]) (simp_all add: core_defaults_def)
  with v show ?thesis
    by (simp add: v_path_def file_table_def isPathShadowedInDeepMap_def Let_def pick_def)
qed

end
