(* ===== verification/Process_Main.thy ===== *)
theory Process_Main
  imports Config Connector Jsonrpc_Writers Update Snmp_Handler Opcua_Handler Core_Start
begin

text \<open>
  The \<open>main\<close> functions of the processes (\<open>cmd/*/main.go\<close>), the start of the four connectors
  (\<open>internal/app/*/entrypoint/start.go\<close>) and the loading of a plugin (\<open>internal/app/common/common.go\<close>): from the
  arguments and the configuration file to a connector that serves, an exit status, or a download. The operating
  system, the plugin loader and the libraries of the protocols are parameters.
\<close>

section \<open>Plugins\<close>

text \<open>\<open>cast\<close> is the type assertion on the symbol found.\<close>

definition plugin_path :: "string \<Rightarrow> string \<Rightarrow> string" where
  "plugin_path dir name = path_Clean (dir @ ''/plugins/'' @ name @ ''/'' @ name @ ''.so'')"

definition LoadPlugin ::
  "string + string \<Rightarrow> (string \<Rightarrow> string + 'p) \<Rightarrow> ('p \<Rightarrow> string \<Rightarrow> string + 'y) \<Rightarrow> ('y \<Rightarrow> 's option) \<Rightarrow> string
     \<Rightarrow> ('s, string) go" where
  "LoadPlugin getwd open_plugin lookup cast name =
     (case getwd of
        Inl e \<Rightarrow> Panic e
      | Inr dir \<Rightarrow>
          (case open_plugin (plugin_path dir name) of
             Inl e \<Rightarrow> Err e
           | Inr p \<Rightarrow>
               (case lookup p ''GetCaller'' of
                  Inl e \<Rightarrow> Panic e
                | Inr y \<Rightarrow> (case cast y of None \<Rightarrow> Panic ''interface conversion'' | Some s \<Rightarrow> Ok s))))"

section \<open>Starting a connector\<close>

text \<open>The connector that serves, and whether it recovers panics.\<close>

type_synonym ('s, 'c) running = "('s, 'c) connector \<times> bool"

definition start_serving ::
  "(string \<Rightarrow> string \<Rightarrow> string \<Rightarrow> 'c dialled) \<Rightarrow> cast_env \<Rightarrow> viper \<Rightarrow> string \<Rightarrow> 's \<Rightarrow> (('s, 'c) running, string) go" where
  "start_serving dial ce v path_key hand =
     (case start_connector dial (v_GetInt ce v ''ws_port'') (v_GetString ce v ''version'')
             (v_GetString ce v path_key) (Inr hand) of
        Inl e \<Rightarrow> Err e
      | Inr cn \<Rightarrow>
          Ok (cn, js_catchPanic (js_New (cn_client cn) hand [CatchPanic (v_GetBool v ''catch_panic'')])))"

text \<open>\<open>transport\<close> builds the transport of a mode for an address; it does not connect yet.\<close>

definition modbus_Start ::
  "(modbus_mode \<Rightarrow> string \<Rightarrow> 's) \<Rightarrow> (string \<Rightarrow> string \<Rightarrow> string \<Rightarrow> 'c dialled) \<Rightarrow> cast_env \<Rightarrow> viper
     \<Rightarrow> (('s, 'c) running, string) go" where
  "modbus_Start transport dial ce v =
     (case select_mode (v_GetString ce v ''modbus.mode'') of
        Inl e \<Rightarrow> Err e
      | Inr m \<Rightarrow> start_serving dial ce v ''modbus.ws_path'' (transport m (v_GetString ce v ''modbus.addr'')))"

definition snmp_Start ::
  "(string \<Rightarrow> string) \<Rightarrow> (snmp_config \<Rightarrow> string option) \<Rightarrow> (string \<Rightarrow> string \<Rightarrow> string \<Rightarrow> 'c dialled) \<Rightarrow> cast_env \<Rightarrow> viper
     \<Rightarrow> ((snmp_config, 'c) running, string) go" where
  "snmp_Start quote connect dial ce v =
     go_bind
       (snmp_New quote connect
          (v_GetString ce v ''snmp.host_port'') (v_GetString ce v ''snmp.community'')
          (v_GetString ce v ''snmp.version'') (v_GetString ce v ''snmp.mode'')
          (v_GetString ce v ''snmp.auth_protocol'') (v_GetString ce v ''snmp.auth_key'')
          (v_GetString ce v ''snmp.priv_protocol'') (v_GetString ce v ''snmp.priv_key'')
          (v_GetString ce v ''snmp.security_name''))
       (start_serving dial ce v ''snmp.ws_path'')"

definition opcua_Start ::
  "(string \<Rightarrow> string + 'ep list) \<Rightarrow> ('ep list \<Rightarrow> string \<Rightarrow> string \<Rightarrow> 'ep option)
     \<Rightarrow> (string \<Rightarrow> 'ep ua_option list \<Rightarrow> string option)
     \<Rightarrow> (string \<Rightarrow> string \<Rightarrow> string \<Rightarrow> 'c dialled) \<Rightarrow> cast_env \<Rightarrow> viper
     \<Rightarrow> (('ep ua_option list, 'c) running, string) go" where
  "opcua_Start getEndpoints select connect dial ce v =
     go_bind
       (opcua_New getEndpoints select connect
          (v_GetString ce v ''opcua.endpoint'') (v_GetString ce v ''opcua.encryption'')
          (v_GetString ce v ''opcua.mode'') (v_GetString ce v ''opcua.server_cert'')
          (v_GetString ce v ''opcua.server_key''))
       (start_serving dial ce v ''opcua.ws_path'')"

text \<open>The Bluetooth connector may take its handler from a plugin and falls back to its own when the plugin
  does not open.\<close>

definition ble_handler :: "bool \<Rightarrow> (unit \<Rightarrow> ('s, string) go) \<Rightarrow> (unit \<Rightarrow> ('s, string) go) \<Rightarrow> ('s, string) go" where
  "ble_handler usePlugin load new =
     (if \<not> usePlugin then new ()
      else (case load () of Ok s \<Rightarrow> Ok s | Err e \<Rightarrow> new () | Panic m \<Rightarrow> Panic m))"

definition ble_Start ::
  "(string \<Rightarrow> ('s, string) go) \<Rightarrow> (unit \<Rightarrow> ('s, string) go) \<Rightarrow> (string \<Rightarrow> string \<Rightarrow> string \<Rightarrow> 'c dialled) \<Rightarrow> cast_env
     \<Rightarrow> viper \<Rightarrow> (('s, 'c) running, string) go" where
  "ble_Start load new dial ce v =
     go_bind (ble_handler (v_GetBool v ''ble.use_plugin'') (\<lambda>_. load ''ble'') new)
       (start_serving dial ce v ''ble.ws_path'')"

section \<open>Main functions\<close>

text \<open>\<open>Prints\<close> has an error of the assets, for the standard error, or the text of the file.\<close>

datatype 'a main_end =
    Exits nat string
  | Prints "string + string"
  | Downloads string
  | Serves 'a
  | Dies string

text \<open>What the five processes do once they are configured; \<open>check\<close> is the update check.\<close>

definition run_main ::
  "(string \<Rightarrow> string \<Rightarrow> string) \<Rightarrow> cast_env \<Rightarrow> string \<Rightarrow> (viper \<Rightarrow> ('a, string) go) \<Rightarrow> exit + viper \<Rightarrow> 'a main_end" where
  "run_main check ce name start setup =
     (case setup of
        Inl (status, e) \<Rightarrow> Exits status e
      | Inr v \<Rightarrow>
          (let res = (if v_GetBool v ''check_updates'' then check (v_GetString ce v ''version'') name else '''')
           in if res \<noteq> '''' \<and> v_GetBool v ''auto_download_updates'' then Downloads res
              else (case start v of Ok r \<Rightarrow> Serves r | Err e \<Rightarrow> Exits 1 e | Panic m \<Rightarrow> Dies m)))"

text \<open>The process: its checks, the machine it was built for, the configuration it reads.\<close>

record process =
  p_check :: "string \<Rightarrow> string \<Rightarrow> string"
  p_cast :: cast_env
  p_os :: string
  p_arch :: string
  p_read :: "string \<Rightarrow> string + table"
  p_version :: string

definition program_name :: "process \<Rightarrow> string \<Rightarrow> string" where
  "program_name p kind = kind @ ''-'' @ p_os p @ ''-'' @ p_arch p"

definition modbus_main ::
  "process \<Rightarrow> (modbus_mode \<Rightarrow> string \<Rightarrow> 's) \<Rightarrow> (string \<Rightarrow> string \<Rightarrow> string \<Rightarrow> 'c dialled) \<Rightarrow> string list
     \<Rightarrow> ('s, 'c) running main_end" where
  "modbus_main p transport dial args =
     run_main (p_check p) (p_cast p) (program_name p ''modbus'') (modbus_Start transport dial (p_cast p))
       (modbus_Setup (p_cast p) (p_read p) [] args [p_version p])"

definition snmp_main ::
  "process \<Rightarrow> (string \<Rightarrow> string) \<Rightarrow> (snmp_config \<Rightarrow> string option) \<Rightarrow> (string \<Rightarrow> string \<Rightarrow> string \<Rightarrow> 'c dialled)
     \<Rightarrow> string list \<Rightarrow> (snmp_config, 'c) running main_end" where
  "snmp_main p quote connect dial args =
     run_main (p_check p) (p_cast p) (program_name p ''snmp'') (snmp_Start quote connect dial (p_cast p))
       (snmp_Setup (p_cast p) (p_read p) [] args [p_version p])"

definition opcua_main ::
  "process \<Rightarrow> (string \<Rightarrow> string + 'ep list) \<Rightarrow> ('ep list \<Rightarrow> string \<Rightarrow> string \<Rightarrow> 'ep option)
     \<Rightarrow> (string \<Rightarrow> 'ep ua_option list \<Rightarrow> string option) \<Rightarrow> (string \<Rightarrow> string \<Rightarrow> string \<Rightarrow> 'c dialled)
     \<Rightarrow> string list \<Rightarrow> ('ep ua_option list, 'c) running main_end" where
  "opcua_main p getEndpoints select connect dial args =
     run_main (p_check p) (p_cast p) (program_name p ''opcua'') (opcua_Start getEndpoints select connect dial (p_cast p))
       (opcua_Setup (p_cast p) (p_read p) [] args [p_version p])"

definition ble_main ::
  "process \<Rightarrow> (string \<Rightarrow> ('s, string) go) \<Rightarrow> (unit \<Rightarrow> ('s, string) go) \<Rightarrow> (string \<Rightarrow> string \<Rightarrow> string \<Rightarrow> 'c dialled)
     \<Rightarrow> string list \<Rightarrow> ('s, 'c) running main_end" where
  "ble_main p load new dial args =
     run_main (p_check p) (p_cast p) (program_name p ''ble'') (ble_Start load new dial (p_cast p))
       (ble_Setup (p_cast p) (p_read p) [] args [p_version p])"

text \<open>The core parses its command line for two flags of its own before the configuration adds its flag and
  parses it again.\<close>

definition core_flags :: flags where
  "core_flags = [(''default-config'', BoolFlag False), (''min-config'', BoolFlag False)]"

definition printConfig :: "(string \<Rightarrow> string + string) \<Rightarrow> string \<Rightarrow> string + string" where
  "printConfig asset name = asset (''/'' @ name @ ''.toml'')"

definition core_main ::
  "process \<Rightarrow> (string \<Rightarrow> string + string) \<Rightarrow> (viper \<Rightarrow> ('a, string) go) \<Rightarrow> string list \<Rightarrow> 'a main_end" where
  "core_main p asset start args =
     (case parse_flags core_flags args of
        Inl e \<Rightarrow> Exits 2 e
      | Inr fs \<Rightarrow>
          if flag_set fs ''default-config'' then Prints (printConfig asset ''default-config'')
          else if flag_set fs ''min-config'' then Prints (printConfig asset ''min-config'')
          else run_main (p_check p) (p_cast p) (program_name p ''core'') start
            (core_Setup (p_cast p) (p_read p) fs args [p_version p]))"

section \<open>The command line of the core\<close>

lemma update_snoc:
  "j \<noteq> k \<Longrightarrow> AList.update j x (fs @ [(k, y)]) = (if j \<in> fst ` set fs then AList.update j x fs @ [(k, y)]
     else fs @ [(k, y), (j, x)])"
  by (induction fs) auto

definition only_bools :: "flags \<Rightarrow> bool" where
  "only_bools fs \<longleftrightarrow> (\<forall>(k, v) \<in> set fs. \<exists>b. v = BoolFlag b)"

lemma only_bools_update: "only_bools fs \<Longrightarrow> only_bools (AList.update k (BoolFlag b) fs)"
  unfolding only_bools_def by (induction fs) auto

lemma only_bools_look: "only_bools fs \<Longrightarrow> map_of fs k = Some v \<Longrightarrow> \<exists>b. v = BoolFlag b"
  unfolding only_bools_def by (auto dest!: map_of_SomeD)

text \<open>What parses with truth values only parses from any values they have, and leaves another flag alone.\<close>

lemma parse_flags_again:
  assumes "parse_flags fs args = Inr fs'" and "only_bools fs" and "only_bools gs"
    and "fst ` set gs = fst ` set fs" and "k \<notin> fst ` set fs"
  shows "only_bools fs' \<and> fst ` set fs' = fst ` set fs
    \<and> (\<exists>gs'. parse_flags (gs @ [(k, v)]) args = Inr (gs' @ [(k, v)]) \<and> k \<notin> fst ` set gs')"
  using assms
proof (induction fs args arbitrary: fs' gs rule: parse_flags.induct)
  case (2 fs s rest)
  obtain name val where n: "split_eq (flag_name s) = (name, val)" by fastforce
  show ?case
  proof (cases "no_flag s")
    case False
    with "2.prems"(1) have b: "\<not> bad_flag (flag_name s)" by (auto split: if_splits)
    from False b "2.prems"(1) n obtain x where "map_of fs name = Some x"
      by (auto split: option.splits)
    with "2.prems"(2) obtain b0 where m: "map_of fs name = Some (BoolFlag b0)" using only_bools_look by blast
    then have "name \<in> fst ` set fs" by (auto dest: map_of_SomeD intro: rev_image_eqI)
    with "2.prems"(4,5) have k: "name \<noteq> k" "name \<in> fst ` set gs" "name \<in> fst ` set fs" by auto
    then obtain y where "map_of gs name = Some y" by (cases "map_of gs name") (auto simp: map_of_eq_None_iff)
    with "2.prems"(3) obtain b1 where "map_of gs name = Some (BoolFlag b1)" using only_bools_look by blast
    then have m': "map_of (gs @ [(k, v)]) name = Some (BoolFlag b1)" by simp
    have same: "only_bools (AList.update name (BoolFlag x) fs)" "only_bools (AList.update name (BoolFlag x) gs)"
        "fst ` set (AList.update name (BoolFlag x) gs) = fst ` set (AList.update name (BoolFlag x) fs)"
        "k \<notin> fst ` set (AList.update name (BoolFlag x) fs)"
        "AList.update name (BoolFlag x) (gs @ [(k, v)]) = AList.update name (BoolFlag x) gs @ [(k, v)]"
        "fst ` set (AList.update name (BoolFlag x) fs) = fst ` set fs" for x
      using "2.prems"(2-5) k by (auto simp: only_bools_update update_snoc dom_update [unfolded dom_map_of_conv_image_fst])
    show ?thesis
    proof (cases val)
      case None
      with "2.prems"(1) False b n m have "parse_flags (AList.update name (BoolFlag True) fs) rest = Inr fs'" by simp
      from "2.IH"(1) [OF False b n [symmetric] m refl None this same(1-4)] False b n m' None same(5,6) show ?thesis
        by simp
    next
      case (Some t)
      with "2.prems"(1) False b n m obtain x where x: "parse_bool t = Inr x"
        "parse_flags (AList.update name (BoolFlag x) fs) rest = Inr fs'" by (auto split: sum.splits)
      from "2.IH"(2) [OF False b n [symmetric] m refl Some x same(1-4)] False b n m' Some x(1) same(5,6) show ?thesis
        by simp
    qed
  qed (use 2 in auto)
qed simp

lemma core_config_path:
  assumes "parse_flags core_flags args = Inr fs"
    and "parse_flags (fs @ [(''config'', StringFlag ''config.toml'')]) args = Inr fs'"
  shows "flag_text fs' ''config'' = ''config.toml''"
proof -
  have c: "only_bools core_flags" "''config'' \<notin> fst ` set core_flags"
    by (auto simp: core_flags_def only_bools_def intro: exI [of _ False])
  from parse_flags_again [OF assms(1) c(1) c(1) refl c(2)] have "only_bools fs" "fst ` set fs = fst ` set core_flags"
    by auto
  from parse_flags_again [OF assms(1) c(1) this c(2), of "StringFlag ''config.toml''"] assms(2)
  obtain gs where "fs' = gs @ [(''config'', StringFlag ''config.toml'')]" "''config'' \<notin> fst ` set gs" by auto
  then show ?thesis by (simp add: flag_text_def map_add_def map_of_eq_None_iff [symmetric])
qed

text \<open>the core cannot be given a configuration file: it ends with status 2 on the option that names
  one, and with any arguments what it does depends on the contents of \<open>config.toml\<close> alone.\<close>

theorem core_takes_no_config_path:
  assumes "r ''config.toml'' = p_read p ''config.toml''"
  shows "core_main (p\<lparr>p_read := r\<rparr>) asset start args = core_main p asset start args
    \<and> core_main p asset start (''-config'' # args)
      = Exits 2 ''flag provided but not defined: -config''"
proof
  show "core_main (p\<lparr>p_read := r\<rparr>) asset start args = core_main p asset start args"
  proof (cases "parse_flags core_flags args")
    case (Inr fs)
    have "Init (p_cast p) r fs args v = Init (p_cast p) (p_read p) fs args v" for v
      using core_config_path [OF Inr] assms
      by (cases "parse_flags (fs @ [(''config'', StringFlag ''config.toml'')]) args")
        (simp_all add: Init_def file_table_def)
    with Inr show ?thesis by (simp add: core_main_def core_Setup_def program_name_def)
  qed (simp add: core_main_def)
  show "core_main p asset start (''-config'' # args) = Exits 2 ''flag provided but not defined: -config''"
    by (simp add: core_main_def core_flags_def no_flag_def bad_flag_def flag_name_def split_eq_def)
qed

text \<open>A connector takes the option.\<close>

lemma connector_takes_config_path:
  "parse_flags [(''config'', StringFlag ''config.toml'')] [''-config'', ''/etc/edge.toml'']
     = Inr [(''config'', StringFlag ''/etc/edge.toml'')]"
  by (simp add: no_flag_def bad_flag_def flag_name_def split_eq_def)

definition example_process :: process where
  "example_process = \<lparr>p_check = (\<lambda>_ _. ''''),
     p_cast = \<lparr>float_text = (\<lambda>_. ''''), float_int = (\<lambda>_. 0), text_int = (\<lambda>_. None)\<rparr>,
     p_os = ''linux'', p_arch = ''amd64'', p_read = (\<lambda>_. Inl ''no such file''), p_version = ''1.2.0''\<rparr>"

definition example_file :: "string \<Rightarrow> string + table" where
  "example_file f = (if f = ''config.toml'' then Inl ''no such file'' else Inr [])"

lemma core_takes_no_config_path_witness:
  "core_main (example_process\<lparr>p_read := example_file\<rparr>) (\<lambda>_. Inl ''none'') (\<lambda>_. Ok ()) [''/etc/edge.toml'']
      = core_main example_process (\<lambda>_. Inl ''none'') (\<lambda>_. Ok ()) [''/etc/edge.toml'']
    \<and> core_main example_process (\<lambda>_. Inl ''none'') (\<lambda>_. Ok ()) [''-config'', ''/etc/edge.toml'']
      = Exits 2 ''flag provided but not defined: -config''"
proof -
  have r: "example_file ''config.toml'' = p_read example_process ''config.toml''"
    by (simp add: example_process_def example_file_def)
  show ?thesis by (rule core_takes_no_config_path [where r = example_file and p = example_process, OF r])
qed

section \<open>What no file changes\<close>

lemma own_settings:
  assumes "Init ce read fs args version = Inr v0"
    and "override v = deep_set (override v0) [a, b] (CStr s)" and "v_path key = [a, b]" and "a \<noteq> ''version''"
  shows "v_GetString ce v key = s \<and> v_GetString ce v ''version'' = read_version version"
proof -
  have o: "override v0 = [(''version'', CStr (read_version version))]"
    by (rule Init_layers [OF assms(1)]) simp
  have "searchMap (override v) [''version''] = CStr (read_version version)"
    unfolding assms(2) o using assms(4) by (subst searchMap_deep_set_apart) (simp_all add: pick_def)
  then show ?thesis
    using assms(2,3) by (simp add: v_GetString_def v_find_def Let_def searchMap_deep_set v_path_def)
qed

lemma connector_settings:
  "modbus_Setup ce read fs args version = Inr v \<Longrightarrow>
     v_GetString ce v ''modbus.ws_path'' = ''/modbus'' \<and> v_GetString ce v ''version'' = read_version version"
  "snmp_Setup ce read fs args version = Inr v \<Longrightarrow>
     v_GetString ce v ''snmp.ws_path'' = ''/snmp'' \<and> v_GetString ce v ''version'' = read_version version"
  "opcua_Setup ce read fs args version = Inr v \<Longrightarrow>
     v_GetString ce v ''opcua.ws_path'' = ''/opcua'' \<and> v_GetString ce v ''version'' = read_version version"
  "ble_Setup ce read fs args version = Inr v \<Longrightarrow>
     v_GetString ce v ''ble.ws_path'' = ''/ble'' \<and> v_GetString ce v ''version'' = read_version version"
  subgoal
    by (cases "Init ce read fs args version", simp add: modbus_Setup_def)
      (rule own_settings [where a = "''modbus''" and b = "''ws_path''"], auto simp: modbus_Setup_def v_Set_def v_path_def)
  subgoal
    by (cases "Init ce read fs args version", simp add: snmp_Setup_def)
      (rule own_settings [where a = "''snmp''" and b = "''ws_path''"], auto simp: snmp_Setup_def v_Set_def v_path_def)
  subgoal
    by (cases "Init ce read fs args version", simp add: opcua_Setup_def)
      (rule own_settings [where a = "''opcua''" and b = "''ws_path''"], auto simp: opcua_Setup_def v_Set_def v_path_def)
  subgoal
    by (cases "Init ce read fs args version", simp add: ble_Setup_def)
      (rule own_settings [where a = "''ble''" and b = "''ws_path''"], auto simp: ble_Setup_def v_Set_def v_path_def)
  done

lemma start_connector_address:
  assumes "start_connector dial port ver path hand = Inr cn"
  shows "wc_path (cn_client cn) = path \<and> wc_ver (cn_client cn) = ver \<and> 1 \<le> port \<and> port \<le> 65535
    \<and> wc_host (cn_client cn) = ''localhost:'' @ dec_of_int port \<and> cn_rc cn = Serving \<and> cn_ok cn"
  using assms cn_ok_start [OF assms]
  by (auto simp: start_connector_def client_New_def client_Connect_def Let_def
      split: sum.splits if_splits dialled.splits)

text \<open>A connector that serves was dialled on its own path with its version.\<close>

definition serves_at :: "string \<Rightarrow> string \<Rightarrow> ('s, 'c) connector \<Rightarrow> bool" where
  "serves_at path ver cn \<longleftrightarrow> wc_path (cn_client cn) = path \<and> wc_ver (cn_client cn) = ver
     \<and> (\<exists>port. 1 \<le> port \<and> port \<le> 65535 \<and> wc_host (cn_client cn) = ''localhost:'' @ dec_of_int port)
     \<and> cn_rc cn = Serving \<and> cn_ok cn"

lemma start_serving_address:
  "start_serving dial ce v key hand = Ok (cn, c) \<Longrightarrow>
     serves_at (v_GetString ce v key) (v_GetString ce v ''version'') cn"
  by (auto simp: start_serving_def serves_at_def dest!: start_connector_address split: sum.splits)

lemma run_main_serves:
  assumes "run_main check ce name start setup = Serves r"
  obtains v where "setup = Inr v" "start v = Ok r"
  using assms by (auto simp: run_main_def Let_def split: sum.splits if_splits go.splits)

lemma started_connector_address:
  "modbus_main p transport dial args = Serves (cm, c) \<Longrightarrow> serves_at ''/modbus'' (read_version [p_version p]) cm"
  "snmp_main p quote connect dial args = Serves (cs, c) \<Longrightarrow> serves_at ''/snmp'' (read_version [p_version p]) cs"
  "opcua_main p getEndpoints select conn dial args = Serves (co, c) \<Longrightarrow> serves_at ''/opcua'' (read_version [p_version p]) co"
  "ble_main p load new dial args = Serves (cb, c) \<Longrightarrow> serves_at ''/ble'' (read_version [p_version p]) cb"
  subgoal unfolding modbus_main_def modbus_Start_def
    by (erule run_main_serves) (auto dest!: connector_settings(1) start_serving_address split: sum.splits)
  subgoal unfolding snmp_main_def snmp_Start_def
    by (erule run_main_serves) (auto dest!: connector_settings(2) start_serving_address simp: go_simps)
  subgoal unfolding opcua_main_def opcua_Start_def
    by (erule run_main_serves) (auto dest!: connector_settings(3) start_serving_address simp: go_simps)
  subgoal unfolding ble_main_def ble_Start_def
    by (erule run_main_serves) (auto dest!: connector_settings(4) start_serving_address simp: go_simps)
  done

end
