(* ===== verification/Core_Boot.thy ===== *)
theory Core_Boot
  imports Core_Start Cloud Ws_Server Rpc_Service Mqtt_Link Process_Main
begin

text \<open>
  The start-up of the core with its parts (\<open>internal/app/core/entrypoint/start.go\<close>): which settings each
  part is opened with and what it gets from the others, and the order in which they are opened and closed, as
  a trace of \<open>Core_Start\<close>. The timeout of requests, which is the settings' \<open>core.rpc_timeout\<close>, is in the outcome of
  a request (\<open>Rpc_Service\<close>).
\<close>

section \<open>Start-up\<close>

text \<open>The file system, the network and the libraries: the database file, HTTP with the JSON of the cloud,
  version constraints, and the MQTT client.\<close>

record ('c, 'k) core_world =
  w_open :: "string \<Rightarrow> string + db"
  w_http :: http
  w_message :: "string \<Rightarrow> string"
  w_object :: "string + string \<Rightarrow> string + object"
  w_children :: "string + string \<Rightarrow> string + children list"
  w_params :: "string \<Rightarrow> string + params"
  w_payload :: "params \<Rightarrow> string + string"
  w_range :: "string list \<Rightarrow> string list"
  w_constraint :: "string \<Rightarrow> string + 'c"
  w_url :: "string \<Rightarrow> string + url"
  w_keys :: "string \<Rightarrow> string \<Rightarrow> string + 'k"
  w_connect :: "'k mqtt_options \<Rightarrow> string option"
  w_subscribe :: "string \<Rightarrow> string option"

record ('p, 'g, 'c, 'k) core_process =
  cp_cloud :: cloud
  cp_sock :: "'c \<times> string"
  cp_rpc :: "('p, 'g) rpc_service"
  cp_subscriptions :: "ActionConfig list"
  cp_mqtt :: "'k mqtt_options"

text \<open>One definition per part.\<close>

definition of_sum :: "string + 'x \<Rightarrow> ('x, string) go" where
  "of_sum x = (case x of Inl e \<Rightarrow> Err e | Inr y \<Rightarrow> Ok y)"

definition boot_db :: "('c, 'k) core_world \<Rightarrow> cast_env \<Rightarrow> viper \<Rightarrow> (db, string) go" where
  "boot_db W ce v = of_sum (w_open W (v_GetString ce v ''core.db.path''))"

definition boot_api :: "('c, 'k) core_world \<Rightarrow> cast_env \<Rightarrow> viper \<Rightarrow> (cloud, string) go" where
  "boot_api W ce v =
     cloud_New (w_http W) (v_GetString ce v ''core.cloud.url'') (v_GetString ce v ''core.cloud.token'')
       (v_GetString ce v ''version'')"

definition boot_sock :: "('c, 'k) core_world \<Rightarrow> cast_env \<Rightarrow> viper \<Rightarrow> ('c \<times> string, string) go" where
  "boot_sock W ce v = ws_New (w_constraint W) (v_GetInt ce v ''ws_port'') (v_GetString ce v ''version'')"

definition boot_rpc ::
  "('c, 'k) core_world \<Rightarrow> ('p, 'g) rpc_env \<Rightarrow> 'g \<Rightarrow> cast_env \<Rightarrow> viper \<Rightarrow> db \<Rightarrow> cloud
     \<Rightarrow> (ActionConfig list \<times> ('p, 'g) rpc_service, string) go" where
  "boot_rpc W e luaState ce v d api =
     fst (rpc_New e (lua_New luaState) d (v_GetBool v ''core.db.clean_state'')
       (LoadObject (w_http W) (w_message W) (w_object W) api (v_GetString ce v ''core.id''))
       (LoadModel (w_http W) (w_message W) (w_children W) (w_params W) (w_payload W) (w_range W) api))"

definition boot_mqtt ::
  "('c, 'k) core_world \<Rightarrow> cast_env \<Rightarrow> viper \<Rightarrow> ('p, 'g) rpc_service \<Rightarrow> ('k mqtt_options, string) go" where
  "boot_mqtt W ce v rpcCli =
     of_sum (mqtt_New (w_url W) (w_keys W) (w_connect W) (w_subscribe W) (v_GetString ce v ''core.mqtt.url'')
       (GetEdgeID rpcCli) (v_GetString ce v ''core.mqtt.cert_file'') (v_GetString ce v ''core.mqtt.key_path''))"

definition core_boot ::
  "('c, 'k) core_world \<Rightarrow> ('p, 'g) rpc_env \<Rightarrow> 'g \<Rightarrow> cast_env \<Rightarrow> viper
     \<Rightarrow> (('p, 'g, 'c, 'k) core_process, string) go" where
  "core_boot W e luaState ce v =
     go_bind (boot_db W ce v) (\<lambda>d.
     go_bind (boot_api W ce v) (\<lambda>api.
     go_bind (boot_sock W ce v) (\<lambda>sock.
     go_bind (boot_rpc W e luaState ce v d api) (\<lambda>(subs, rpcCli).
     go_bind (boot_mqtt W ce v rpcCli) (\<lambda>opts.
       Ok \<lparr>cp_cloud = api, cp_sock = sock, cp_rpc = rpcCli, cp_subscriptions = subs, cp_mqtt = opts\<rparr>)))))"

text \<open>A core that has started waits until it is told to stop or the listener of the websocket server ends, with
  an error or, when the server was closed, without one.\<close>

datatype core_wait = ToldToStop | ListenerEnded "string option"

definition ws_Start :: "string option \<Rightarrow> string option" where
  "ws_Start err = map_option (\<lambda>m. ''ws:Start:'' @ m) err"

definition core_ending :: "core_wait \<Rightarrow> string option" where
  "core_ending w = (case w of ToldToStop \<Rightarrow> None | ListenerEnded err \<Rightarrow> ws_Start err)"

text \<open>\<open>Start\<close> with its trace: a part that fails ends it, and what was deferred before runs.\<close>

definition core_Start ::
  "('c, 'k) core_world \<Rightarrow> ('p, 'g) rpc_env \<Rightarrow> 'g \<Rightarrow> cast_env \<Rightarrow> viper \<Rightarrow> core_wait
     \<Rightarrow> action list \<times> start_result" where
  "core_Start W e luaState ce v w = leaving
     (open_part Database (boot_db W ce v) begin_run (\<lambda>d s.
      open_part CloudClient (boot_api W ce v) (deferring [ClosedDatabase] s) (\<lambda>api s.
      open_part WsServer (boot_sock W ce v) s (\<lambda>sock s.
      open_part RpcService (boot_rpc W e luaState ce v d api) (doing SleptTwoSeconds s) (\<lambda>(subs, rpcCli) s.
      open_part MqttLink (boot_mqtt W ce v rpcCli) s (\<lambda>opts s.
        (deferring [ClosedMqtt, ClosedWs] s, StartReturned (core_ending w))))))))"

section \<open>Laws\<close>

lemma cloud_New_Ok:
  "cloud_New send base token v = Ok c \<longleftrightarrow>
     base \<noteq> '''' \<and> c = newClient (newURL base) token v \<and> ping send c = None"
  by (auto simp: cloud_New_def Let_def split: option.splits)

lemma LoadObject_Ok:
  "LoadObject send message decode c i = Ok ob \<longleftrightarrow>
     (\<exists>r. client_Get send c (GetObject (cl_base c) i) = Inr r \<and> h_status r = 200 \<and> decode (h_body r) = Inr ob)"
  by (auto simp: LoadObject_def errIfBadStatus_def split: sum.splits option.splits if_splits)

lemma ws_New_Ok:
  "ws_New newConstraint port version = Ok (c, a) \<longleftrightarrow>
     1 \<le> port \<and> port \<le> 65535 \<and> a = ''localhost:'' @ dec_of_int port
     \<and> (\<exists>cs. versionToConstr version = Ok cs \<and> newConstraint cs = Inr c)"
proof (cases "versionToConstr version")
  case (Ok cs)
  then show ?thesis by (cases "newConstraint cs") (auto simp: ws_New_def)
qed (auto simp: ws_New_def)

lemma core_version:
  assumes "core_Setup ce read fs args version = Inr v"
  shows "v_GetString ce v ''version'' = read_version version"
proof -
  from assms obtain v0 where i: "Init ce read fs args version = Inr v0" and v: "v = with_defaults core_defaults v0"
    by (cases "Init ce read fs args version") (auto simp: core_Setup_def)
  have "override v = [(''version'', CStr (read_version version))]"
    unfolding v by (rule Init_layers [OF i]) simp
  then show ?thesis
    by (simp add: v_GetString_def v_find_def Let_def v_path_def searchMap.simps pick_def)
qed

lemma mqtt_New_client:
  "mqtt_New parse load connect subs u clientID cert key = Inr opts \<Longrightarrow> o_ClientID opts = clientID"
  by (auto simp: mqtt_New_def Let_def split: sum.splits option.splits)

lemma of_sum_eq [simp]: "of_sum x = Ok y \<longleftrightarrow> x = Inr y" "of_sum x = Err m \<longleftrightarrow> x = Inl m" "of_sum x \<noteq> Panic m"
  by (cases x; auto simp: of_sum_def)+

lemma core_boot_Ok:
  assumes "core_boot W e l ce v = Ok c"
  obtains d ac' where "w_open W (v_GetString ce v ''core.db.path'') = Inr d" "boot_api W ce v = Ok (cp_cloud c)"
    "boot_sock W ce v = Ok (cp_sock c)" "boot_rpc W e l ce v d (cp_cloud c) = Ok (cp_subscriptions c, cp_rpc c)"
    "boot_mqtt W ce v (cp_rpc c) = Ok (cp_mqtt c)"
  using assms unfolding core_boot_def go_bind_eq_Ok
  by (elim exE conjE) (auto simp: boot_db_def go_simps intro: that split: prod.splits)

text \<open>A core that serves was configured by \<open>config.toml\<close>.\<close>

lemma core_main_Serves:
  assumes "core_main p asset start args = Serves c"
  obtains fs fs' v where "parse_flags core_flags args = Inr fs"
    "parse_flags (fs @ [(''config'', StringFlag ''config.toml'')]) args = Inr fs'"
    "flag_text fs' ''config'' = ''config.toml''"
    "core_Setup (p_cast p) (p_read p) fs args [p_version p] = Inr v" "start v = Ok c"
proof -
  from assms obtain fs v where fs: "parse_flags core_flags args = Inr fs"
    and v: "core_Setup (p_cast p) (p_read p) fs args [p_version p] = Inr v" "start v = Ok c"
    by (auto simp: core_main_def run_main_def Let_def split: sum.splits if_splits go.splits)
  from v(1) obtain v0 where "Init (p_cast p) (p_read p) fs args [p_version p] = Inr v0"
    by (cases "Init (p_cast p) (p_read p) fs args [p_version p]") (auto simp: core_Setup_def)
  from Init_layers [OF this] obtain fs' where
    "parse_flags (fs @ [(''config'', StringFlag ''config.toml'')]) args = Inr fs'" by blast
  with that [OF fs this core_config_path [OF fs this] v] show thesis by blast
qed

text \<open>C7: the core serves the object its settings name: the one the cloud answered for \<open>core.id\<close>, asked for at the
  URL of the settings with their token; it is known to the broker by the identifier of that object, takes
  connectors on the port of the settings, and accepts those whose version the constraint for the version it
  was built with allows.\<close>

theorem core_serves_configured_object:
  assumes "core_main p asset (core_boot W e l (p_cast p)) args = Serves c"
  shows "\<exists>fs v cs r. core_Setup (p_cast p) (p_read p) fs args [p_version p] = Inr v
    \<and> w_http W ''GET'' (newURL (v_GetString (p_cast p) v ''core.cloud.url'') @ ''objects/''
         @ v_GetString (p_cast p) v ''core.id'' @ ''?with=data'')
         [(''Authorization'', ''Bearer '' @ v_GetString (p_cast p) v ''core.cloud.token''),
          (''User-Agent'', ''ric-edge/'' @ read_version [p_version p])] = Inr r
    \<and> h_status r = 200 \<and> w_object W (h_body r) = Inr (obj (cp_rpc c))
    \<and> o_ClientID (cp_mqtt c) = o_ID (obj (cp_rpc c))
    \<and> versionToConstr (read_version [p_version p]) = Ok cs \<and> w_constraint W cs = Inr (fst (cp_sock c))
    \<and> snd (cp_sock c) = ''localhost:'' @ dec_of_int (v_GetInt (p_cast p) v ''ws_port'')"
proof (rule core_main_Serves [OF assms])
  fix fs fs' v
  assume v: "core_Setup (p_cast p) (p_read p) fs args [p_version p] = Inr v"
    and c: "core_boot W e l (p_cast p) v = Ok c"
  show ?thesis
  proof (rule core_boot_Ok [OF c])
    fix d
    let ?s = "v_GetString (p_cast p) v"
    assume api: "boot_api W (p_cast p) v = Ok (cp_cloud c)" and sock: "boot_sock W (p_cast p) v = Ok (cp_sock c)"
      and "boot_rpc W e l (p_cast p) v d (cp_cloud c) = Ok (cp_subscriptions c, cp_rpc c)"
      and mqtt: "boot_mqtt W (p_cast p) v (cp_rpc c) = Ok (cp_mqtt c)"
    then obtain ac' where rpc: "rpc_New e (lua_New l) d (v_GetBool v ''core.db.clean_state'')
        (LoadObject (w_http W) (w_message W) (w_object W) (cp_cloud c) (?s ''core.id''))
        (LoadModel (w_http W) (w_message W) (w_children W) (w_params W) (w_payload W) (w_range W) (cp_cloud c))
        = (Ok (cp_subscriptions c, cp_rpc c), ac')"
      by (auto simp: boot_rpc_def fst_def split: prod.splits)
    from rpc_New_loaded [OF rpc] obtain r where r:
      "client_Get (w_http W) (cp_cloud c) (GetObject (cl_base (cp_cloud c)) (?s ''core.id'')) = Inr r"
      "h_status r = 200" "w_object W (h_body r) = Inr (obj (cp_rpc c))"
      by (auto simp: LoadObject_Ok)
    from sock obtain cs where cs: "versionToConstr (?s ''version'') = Ok cs" "w_constraint W cs = Inr (fst (cp_sock c))"
      "snd (cp_sock c) = ''localhost:'' @ dec_of_int (v_GetInt (p_cast p) v ''ws_port'')"
      using ws_New_Ok [of _ _ _ "fst (cp_sock c)" "snd (cp_sock c)"]
      by (auto simp: boot_sock_def)
    note ver = core_version [OF v]
    from api r(1) have g: "w_http W ''GET'' (newURL (?s ''core.cloud.url'') @ ''objects/'' @ ?s ''core.id'' @ ''?with=data'')
         [(''Authorization'', ''Bearer '' @ ?s ''core.cloud.token''), (''User-Agent'', ''ric-edge/'' @ read_version [p_version p])]
         = Inr r"
      by (auto simp: boot_api_def cloud_New_Ok client_Get_def client_Do_def newClient_def GetObject_def ver)
    have i: "o_ClientID (cp_mqtt c) = o_ID (obj (cp_rpc c))"
      using mqtt mqtt_New_client by (auto simp: boot_mqtt_def GetEdgeID_def)
    show ?thesis
      by (intro exI conjI) (rule v g r i cs [unfolded ver])+
  qed
qed

section \<open>The order of the start-up\<close>

text \<open>A part that opens, given the parts before it.\<close>

definition opens ::
  "('c, 'k) core_world \<Rightarrow> ('p, 'g) rpc_env \<Rightarrow> 'g \<Rightarrow> cast_env \<Rightarrow> viper \<Rightarrow> stage \<Rightarrow> bool" where
  "opens W e l ce v st =
     (let rpc = go_bind (boot_db W ce v) (\<lambda>d. go_bind (boot_api W ce v) (boot_rpc W e l ce v d)) in
      case st of
        Database \<Rightarrow> is_Ok (boot_db W ce v)
      | CloudClient \<Rightarrow> is_Ok (boot_api W ce v)
      | WsServer \<Rightarrow> is_Ok (boot_sock W ce v)
      | RpcService \<Rightarrow> is_Ok rpc
      | MqttLink \<Rightarrow> is_Ok (go_bind rpc (\<lambda>(subs, s). boot_mqtt W ce v s)))"

text \<open>C12: the core starts its parts in one order and stops at the first that fails: database, cloud client,
  websocket server, after two seconds the service of requests, and the link to the broker. When all open, it
  waits, and then closes the link, the websocket server and the database, in this order; when one fails, its error
  is returned, a panic leaves the function, and the database is closed, if it was opened, and nothing else: the
  websocket server is not.\<close>

theorem start_up_in_order:
  "core_Start W e l ce v w =
     (takeWhile (\<lambda>a. case a of Opened st \<Rightarrow> opens W e l ce v st | _ \<Rightarrow> True)
        [Opened Database, Opened CloudClient, Opened WsServer, SleptTwoSeconds, Opened RpcService, Opened MqttLink]
      @ (case core_boot W e l ce v of
           Ok c \<Rightarrow> [ClosedMqtt, ClosedWs, ClosedDatabase]
         | _ \<Rightarrow> (if is_Ok (boot_db W ce v) then [ClosedDatabase] else [])),
      case core_boot W e l ce v of
        Ok c \<Rightarrow> StartReturned (core_ending w)
      | Err m \<Rightarrow> StartReturned (Some m)
      | Panic m \<Rightarrow> StartPanicked m)"
proof (cases "boot_db W ce v")
  case d: (Ok d)
  show ?thesis
  proof (cases "boot_api W ce v")
    case a: (Ok api)
    show ?thesis
    proof (cases "boot_sock W ce v")
      case s: (Ok sock)
      show ?thesis
      proof (cases "boot_rpc W e l ce v d api")
        case r: (Ok x)
        then show ?thesis
          by (cases x; cases "boot_mqtt W ce v (snd x)")
            (simp_all add: core_Start_def core_boot_def opens_def d a s r Let_def start_ops)
      qed (simp_all add: core_Start_def core_boot_def opens_def d a s Let_def start_ops)
    qed (simp_all add: core_Start_def core_boot_def opens_def d a Let_def start_ops)
  qed (simp_all add: core_Start_def core_boot_def opens_def d Let_def start_ops)
qed (simp_all add: core_Start_def core_boot_def opens_def Let_def start_ops)

section \<open>A core without a configuration file\<close>

lemma first_found_None: "first_found (\<lambda>i. None) js = None"
  by (induction js) simp_all

lemma unconfigured_setting:
  assumes "core_Setup ce read fs args version = Inr v"
    and "parse_flags (fs @ [(''config'', StringFlag ''config.toml'')]) args = Inr fs'"
    and "read (flag_text fs' ''config'') = Inl x" and "(k, d) \<in> set (common_defaults @ core_defaults)"
  shows "v_find v k = d"
proof -
  have "searchMapWithPathPrefixes [] p = CNil" if "p \<noteq> []" for p
    using that by (subst searchMapWithPathPrefixes.simps) (simp del: upt_Suc add: first_found_None)
  then have "searchMapWithPathPrefixes [] (v_path k) = CNil"
    using assms(4) by (auto simp: common_defaults_def core_defaults_def v_path_def)
  moreover have "\<not> isPathShadowedInDeepMap (v_path k) []"
    using assms(4) by (auto simp: common_defaults_def core_defaults_def v_path_def isPathShadowedInDeepMap_def pick_def)
  ultimately show ?thesis
    using core_setting_found [OF assms(1,2,4)] assms(3) by (simp add: file_table_def)
qed

definition example_world :: "(string, string) core_world" where
  "example_world = \<lparr>w_open = (\<lambda>_. Inr (\<lambda>_. None)),
     w_http = (\<lambda>meth u h. Inr \<lparr>h_status = 200, h_body = Inr u\<rparr>), w_message = (\<lambda>b. b),
     w_object = (\<lambda>_. Inr example_object), w_children = (\<lambda>_. Inr []), w_params = (\<lambda>_. Inl ''''), w_payload = (\<lambda>_. Inl ''''),
     w_range = (\<lambda>ks. ks), w_constraint = Inr,
     w_url = (\<lambda>u. Inr \<lparr>Scheme = ''mqtt'', Host = u, Opaque = '''', u_rest = ''''\<rparr>), w_keys = (\<lambda>c k. Inl ''no key''),
     w_connect = (\<lambda>_. None), w_subscribe = (\<lambda>_. None)\<rparr>"

lemma example_core:
  "\<exists>c. core_main example_process (\<lambda>_. Inl ''none'') (core_boot example_world example_env () (p_cast example_process)) []
     = Serves c"
proof -
  let ?ce = "p_cast example_process"
  let ?v0 = "with_defaults common_defaults \<lparr>override = [(''version'', CStr ''1.2.0'')], config = [], defaults = []\<rparr>"
  have e: "v_find ?v0 ''log_format'' = CStr ''text''" "v_find ?v0 ''log_level'' = CStr ''info''"
    by (simp_all add: v_find_unset v_path_def pick_def isPathShadowedInDeepMap_def
        with_defaults_def common_defaults_def v_SetDefault_def)
  then have "Init ?ce (p_read example_process) core_flags [] [''1.2.0''] = Inr ?v0"
    by (simp add: Init_def Let_def v_Set_def v_path_def setupLogger_def logFormatter_def v_GetString_def
        parse_level_def lower_char_def read_version_def file_table_def example_process_def)
  then obtain v where v: "core_Setup ?ce (p_read example_process) core_flags [] [p_version example_process] = Inr v"
    by (simp add: core_Setup_def example_process_def)
  have f: "parse_flags core_flags [] = Inr core_flags"
    "parse_flags (core_flags @ [(''config'', StringFlag ''config.toml'')]) [] = Inr (core_flags @ [(''config'', StringFlag ''config.toml'')])"
    by simp_all
  have r: "p_read example_process x = Inl ''no such file''" for x by (simp add: example_process_def)
  note d = unconfigured_setting [OF v f(2) r]
  have s: "v_find v ''check_updates'' = CBool True" "v_find v ''ws_port'' = CInt 9000"
    "v_find v ''core.cloud.url'' = CStr ''https://sandbox.rightech.io/api/v1''"
    "v_find v ''core.db.clean_state'' = CBool False" "v_find v ''core.mqtt.cert_file'' = CStr ''''"
    by (rule d; simp add: common_defaults_def core_defaults_def)+
  then have g: "v_GetInt ce v ''ws_port'' = 9000" "v_GetString ce v ''core.cloud.url'' = ''https://sandbox.rightech.io/api/v1''"
    "v_GetString ce v ''core.mqtt.cert_file'' = ''''" "\<not> v_GetBool v ''core.db.clean_state''" for ce
    by (simp_all add: v_GetInt_def v_GetString_def v_GetBool_def)
  have "\<exists>c. core_boot example_world example_env () ?ce v = Ok c"
    using core_version [OF v]
    by (simp add: core_boot_def boot_db_def boot_api_def boot_sock_def boot_rpc_def boot_mqtt_def of_sum_def lua_New_def
        g example_world_def cloud_New_def ping_def client_head_def client_Do_def
        ws_New_def versionToConstr_def read_version_def example_process_def rpc_New_def NewService_def db_Update_def
        open_bucket_def tx_CreateBucketIfNotExists_def getAll_def db_View_def with_bucket_def example_env_def
        LoadObject_def LoadModel_def client_Get_def errIfBadStatus_def prepare_def walk_init_def spawnJobs_def
        mqtt_New_def setupTLS_def Let_def)
  with v f(1) s(1) show ?thesis
    by (auto simp: core_main_def run_main_def flag_set_def core_flags_def v_GetBool_def example_process_def)
qed

lemma core_serves_configured_object_witness:
  "\<exists>c. core_main example_process (\<lambda>_. Inl ''none'') (core_boot example_world example_env () (p_cast example_process)) []
       = Serves c \<and> obj (cp_rpc c) = example_object \<and> o_ClientID (cp_mqtt c) = ''edge''"
proof -
  obtain c where c: "core_main example_process (\<lambda>_. Inl ''none'')
      (core_boot example_world example_env () (p_cast example_process)) [] = Serves c"
    using example_core by blast
  from core_serves_configured_object [OF c] obtain r :: http_resp where "w_object example_world (h_body r) = Inr (obj (cp_rpc c))"
    "o_ClientID (cp_mqtt c) = o_ID (obj (cp_rpc c))" by (elim exE conjE) (erule (1) that)
  then have "obj (cp_rpc c) = example_object" "o_ClientID (cp_mqtt c) = o_ID example_object"
    by (simp_all add: example_world_def)
  with c show ?thesis by (simp add: example_object_def)
qed

end
