(* ===== verification/Assets.thy ===== *)
theory Assets
  imports Go_Text
begin

text \<open>
  The file system of the configuration examples the core carries (\<open>cmd/core/data/assets_generated.go\<close>):
  files kept compressed and read through a decompressor that only moves forward, with a position to seek, and
  a directory. Decompressing is a parameter: \<open>gunzip\<close> opens a compressed text, and \<open>gread\<close> says how much of
  what is left one read returns and whether it also reports the end.
\<close>

section \<open>The tree\<close>

record file_info =
  fi_name :: string
  compressedContent :: string
  uncompressedSize :: int

record dir_info =
  di_name :: string
  di_entries :: "file_info list"

datatype asset_node = FileNode file_info | DirNode dir_info

text \<open>The two files by their compressed texts.\<close>

definition Assets_tree :: "string \<Rightarrow> string \<Rightarrow> (string \<times> asset_node) list" where
  "Assets_tree default_gz min_gz =
     (let d = \<lparr>fi_name = ''default-config.toml'', compressedContent = default_gz, uncompressedSize = 2231\<rparr>;
          m = \<lparr>fi_name = ''min-config.toml'', compressedContent = min_gz, uncompressedSize = 277\<rparr>
      in [(''/'', DirNode \<lparr>di_name = ''/'', di_entries = [d, m]\<rparr>),
          (''/default-config.toml'', FileNode d), (''/min-config.toml'', FileNode m)])"

text \<open>An open file: what the decompressor has not delivered yet, its position, and the position asked for.\<close>

record open_file =
  of_info :: file_info
  of_gr :: string
  grPos :: int
  seekPos :: int

record open_dir =
  od_info :: dir_info
  od_pos :: nat

datatype opened = OpenFile open_file | OpenDir open_dir

definition fs_Open ::
  "(string \<Rightarrow> string + string) \<Rightarrow> (string \<times> asset_node) list \<Rightarrow> string \<Rightarrow> (opened, string) go" where
  "fs_Open gunzip fs path =
     (let p = path_Clean (''/'' @ path) in
      case map_of fs p of
        None \<Rightarrow> Err (''open '' @ p @ '': file does not exist'')
      | Some (FileNode f) \<Rightarrow>
          (case gunzip (compressedContent f) of
             Inl e \<Rightarrow> Panic (''unexpected error reading own gzip compressed bytes: '' @ e)
           | Inr t \<Rightarrow> Ok (OpenFile \<lparr>of_info = f, of_gr = t, grPos = 0, seekPos = 0\<rparr>))
      | Some (DirNode d) \<Rightarrow> Ok (OpenDir \<lparr>od_info = d, od_pos = 0\<rparr>))"

section \<open>Files\<close>

definition EOF :: string where "EOF = ''EOF''"

text \<open>The three parts of \<open>Read\<close>: rewind, skip forward, read.\<close>

definition file_rewind :: "(string \<Rightarrow> string + string) \<Rightarrow> open_file \<Rightarrow> string option \<times> open_file" where
  "file_rewind gunzip f =
     (if grPos f > seekPos f then
        (case gunzip (compressedContent (of_info f)) of
           Inl e \<Rightarrow> (Some e, f)
         | Inr t \<Rightarrow> (None, f\<lparr>of_gr := t, grPos := 0\<rparr>))
      else (None, f))"

definition file_forward :: "open_file \<Rightarrow> string option \<times> open_file" where
  "file_forward f =
     (if grPos f < seekPos f then
        (if length (of_gr f) < nat (seekPos f - grPos f) then (Some EOF, f\<lparr>of_gr := ''''\<rparr>)
         else (None, f\<lparr>of_gr := drop (nat (seekPos f - grPos f)) (of_gr f), grPos := seekPos f\<rparr>))
      else (None, f))"

definition file_Read ::
  "(string \<Rightarrow> string + string) \<Rightarrow> (nat \<Rightarrow> string \<Rightarrow> nat \<times> string option) \<Rightarrow> nat \<Rightarrow> open_file
     \<Rightarrow> (string \<times> string option) \<times> open_file" where
  "file_Read gunzip gread k f =
     (case file_rewind gunzip f of
        (Some e, f1) \<Rightarrow> (('''', Some e), f1)
      | (None, f1) \<Rightarrow>
          (case file_forward f1 of
             (Some e, f2) \<Rightarrow> (('''', Some e), f2)
           | (None, f2) \<Rightarrow>
               (case gread k (of_gr f2) of
                  (n, err) \<Rightarrow>
                    ((take n (of_gr f2), err),
                     f2\<lparr>of_gr := drop n (of_gr f2), grPos := grPos f2 + int n, seekPos := grPos f2 + int n\<rparr>))))"

datatype whence = SeekStart | SeekCurrent | SeekEnd | BadWhence int

definition file_Seek :: "int \<Rightarrow> whence \<Rightarrow> open_file \<Rightarrow> (int, string) go \<times> open_file" where
  "file_Seek off w f =
     (case w of
        SeekStart \<Rightarrow> (Ok off, f\<lparr>seekPos := off\<rparr>)
      | SeekCurrent \<Rightarrow> (Ok (seekPos f + off), f\<lparr>seekPos := seekPos f + off\<rparr>)
      | SeekEnd \<Rightarrow>
          (Ok (uncompressedSize (of_info f) + off), f\<lparr>seekPos := uncompressedSize (of_info f) + off\<rparr>)
      | BadWhence i \<Rightarrow> (Panic (''invalid whence value: '' @ dec_of_int i), f))"

section \<open>Directories\<close>

definition dir_Seek :: "int \<Rightarrow> whence \<Rightarrow> open_dir \<Rightarrow> (int, string) go \<times> open_dir" where
  "dir_Seek off w d =
     (if off = 0 \<and> w = SeekStart then (Ok 0, d\<lparr>od_pos := 0\<rparr>)
      else (Err (''unsupported Seek in directory '' @ di_name (od_info d)), d))"

definition dir_Readdir :: "int \<Rightarrow> open_dir \<Rightarrow> (file_info list, string) go \<times> open_dir" where
  "dir_Readdir count d =
     (let es = di_entries (od_info d) in
      if od_pos d \<ge> length es \<and> count > 0 then (Err EOF, d)
      else
        (let n = (if count \<le> 0 \<or> count > int (length es) - int (od_pos d) then length es - od_pos d
                  else nat count)
         in (Ok (take n (drop (od_pos d) es)), d\<lparr>od_pos := od_pos d + n\<rparr>)))"

section \<open>Copying out\<close>

text \<open>\<open>io.Copy\<close> in blocks of 32768 bytes, for at most \<open>fuel\<close> reads: the text and the error that stops it, if
  it is not the end.\<close>

fun copy_out ::
  "(string \<Rightarrow> string + string) \<Rightarrow> (nat \<Rightarrow> string \<Rightarrow> nat \<times> string option) \<Rightarrow> nat \<Rightarrow> open_file
     \<Rightarrow> (string \<times> string option) option" where
  "copy_out gunzip gread 0 f = None"
| "copy_out gunzip gread (Suc fuel) f =
     (case file_Read gunzip gread 32768 f of
        ((t, None), f') \<Rightarrow>
          (case copy_out gunzip gread fuel f' of None \<Rightarrow> None | Some (ts, e) \<Rightarrow> Some (t @ ts, e))
      | ((t, Some e), f') \<Rightarrow> Some (t, if e = EOF then None else Some e))"

section \<open>Laws\<close>

text \<open>What the documentation of a reader asks of \<open>gread\<close>: at most what is asked for and there, at least one
  byte unless none is asked for or it is the end, and the end only with the last bytes.\<close>

definition reads_ok :: "(nat \<Rightarrow> string \<Rightarrow> nat \<times> string option) \<Rightarrow> bool" where
  "reads_ok gread \<longleftrightarrow>
     (\<forall>k t. case gread k t of (n, err) \<Rightarrow> n \<le> k \<and> n \<le> length t
        \<and> (err = None \<longrightarrow> n > 0 \<or> k = 0) \<and> (err \<noteq> None \<longrightarrow> err = Some EOF \<and> n = length t))"

text \<open>The decompressor is where its position says.\<close>

definition file_inv :: "(string \<Rightarrow> string + string) \<Rightarrow> string \<Rightarrow> open_file \<Rightarrow> bool" where
  "file_inv gunzip t f \<longleftrightarrow> gunzip (compressedContent (of_info f)) = Inr t \<and> 0 \<le> grPos f
     \<and> grPos f \<le> int (length t) \<and> of_gr f = drop (nat (grPos f)) t"

text \<open>The abstract file: a text and a position; a read returns some of the text from there.\<close>

definition abs_reads :: "string \<Rightarrow> int \<Rightarrow> nat \<Rightarrow> string \<times> string option \<Rightarrow> int \<Rightarrow> bool" where
  "abs_reads t p k r p' \<longleftrightarrow>
     (\<exists>n. fst r = take n (drop (nat p) t) \<and> n \<le> k \<and> nat p + n \<le> length t \<and> p' = p + int n
        \<and> (snd r = None \<longrightarrow> n > 0 \<or> k = 0) \<and> (snd r \<noteq> None \<longrightarrow> snd r = Some EOF \<and> nat p + n = length t))"

lemma rewind_inv:
  assumes "file_inv gunzip t f" and "0 \<le> seekPos f"
  shows "\<exists>f1. file_rewind gunzip f = (None, f1) \<and> file_inv gunzip t f1 \<and> seekPos f1 = seekPos f
    \<and> of_info f1 = of_info f \<and> grPos f1 \<le> seekPos f"
  using assms by (cases "seekPos f < grPos f") (auto simp: file_rewind_def file_inv_def)

lemma forward_inv:
  assumes "file_inv gunzip t f" and "grPos f \<le> seekPos f" and "seekPos f \<le> int (length t)"
  shows "\<exists>f2. file_forward f = (None, f2) \<and> file_inv gunzip t f2 \<and> seekPos f2 = seekPos f
    \<and> of_info f2 = of_info f \<and> grPos f2 = seekPos f"
proof (cases "grPos f < seekPos f")
  case True
  from assms(1) have g: "0 \<le> grPos f" "of_gr f = drop (nat (grPos f)) t" by (simp_all add: file_inv_def)
  then have "drop (nat (seekPos f - grPos f)) (of_gr f) = drop (nat (seekPos f)) t"
    using True by (simp add: nat_diff_distrib)
  moreover have "\<not> length (of_gr f) < nat (seekPos f - grPos f)"
    using g assms(3) by simp
  ultimately show ?thesis
    using True assms g(1) by (simp add: file_forward_def file_inv_def)
qed (use assms in \<open>simp add: file_forward_def\<close>)

lemma read_after_seek:
  assumes "reads_ok gread" and "file_inv gunzip t f" and "0 \<le> seekPos f" and "seekPos f \<le> int (length t)"
    and "file_Read gunzip gread k f = (r, f')"
  shows "abs_reads t (seekPos f) k r (seekPos f') \<and> file_inv gunzip t f' \<and> of_info f' = of_info f
    \<and> 0 \<le> seekPos f' \<and> seekPos f' \<le> int (length t)"
proof -
  obtain f1 where w: "file_rewind gunzip f = (None, f1)" "file_inv gunzip t f1" "seekPos f1 = seekPos f"
    "of_info f1 = of_info f" "grPos f1 \<le> seekPos f1"
    using rewind_inv [OF assms(2,3)] by auto
  obtain f2 where v: "file_forward f1 = (None, f2)" "file_inv gunzip t f2" "of_info f2 = of_info f" "grPos f2 = seekPos f"
    using forward_inv [OF w(2,5)] w(3,4) assms(4) by auto
  obtain n err where g: "gread k (of_gr f2) = (n, err)" by fastforce
  have o: "of_gr f2 = drop (nat (seekPos f)) t" using v(2,4) by (simp add: file_inv_def)
  from assms(1) [unfolded reads_ok_def, THEN spec, of k, THEN spec, of "of_gr f2"] g
  have n: "n \<le> k" "n \<le> length (of_gr f2)" "err = None \<longrightarrow> n > 0 \<or> k = 0"
    "err \<noteq> None \<longrightarrow> err = Some EOF \<and> n = length (of_gr f2)" by simp_all
  from assms(5) w(1) v(1) g have r: "r = (take n (of_gr f2), err)"
    "f' = f2\<lparr>of_gr := drop n (of_gr f2), grPos := grPos f2 + int n, seekPos := grPos f2 + int n\<rparr>"
    by (auto simp: file_Read_def)
  have l: "n \<le> length t - nat (seekPos f)" using n(2) o by simp
  then have le: "seekPos f + int n \<le> int (length t)" "nat (seekPos f) + n \<le> length t"
    using assms(3,4) by linarith+
  have "abs_reads t (seekPos f) k r (seekPos f')"
    unfolding abs_reads_def using n o v(4) le r by (intro exI [of _ n]) auto
  moreover have "file_inv gunzip t f'"
    using v(2,4) o r(2) assms(3) le by (simp add: file_inv_def nat_add_distrib add.commute)
  ultimately show ?thesis using r(2) v(3,4) le assms(3) by simp
qed

lemma copy_out_rest:
  assumes "reads_ok gread" and "file_inv gunzip t f" and "0 \<le> seekPos f" and "seekPos f \<le> int (length t)"
    and "length t - nat (seekPos f) < fuel"
  shows "copy_out gunzip gread fuel f = Some (drop (nat (seekPos f)) t, None)"
  using assms
proof (induction fuel arbitrary: f)
  case (Suc fuel)
  obtain r f' where r: "file_Read gunzip gread 32768 f = (r, f')" by fastforce
  note a = read_after_seek [OF Suc.prems(1-4) r]
  then obtain n where n: "fst r = take n (drop (nat (seekPos f)) t)" "nat (seekPos f) + n \<le> length t"
    "seekPos f' = seekPos f + int n" "snd r = None \<longrightarrow> n > 0"
    "snd r \<noteq> None \<longrightarrow> snd r = Some EOF \<and> nat (seekPos f) + n = length t"
    unfolding abs_reads_def by auto
  show ?case
  proof (cases "snd r")
    case None
    with n Suc.prems(3,5) have "length t - nat (seekPos f') < fuel" by linarith
    from Suc.IH [OF Suc.prems(1) _ _ _ this] a
    have "copy_out gunzip gread fuel f' = Some (drop (nat (seekPos f')) t, None)" by blast
    moreover have "take n (drop (nat (seekPos f)) t) @ drop (nat (seekPos f')) t = drop (nat (seekPos f)) t"
      using n(3) Suc.prems(3) by (metis append_take_drop_id drop_drop add.commute nat_add_distrib nat_int of_nat_0_le_iff)
    ultimately show ?thesis using r n(1) None by (cases r) simp
  next
    case (Some e)
    with n(5) have "length (drop (nat (seekPos f)) t) = n" by auto
    then have "take n (drop (nat (seekPos f)) t) = drop (nat (seekPos f)) t" by simp
    with n(1,5) r Some show ?thesis by (cases r) simp
  qed
qed simp

text \<open>Reads and seeks that stay inside the text.\<close>

datatype file_op = OpRead nat | OpSeek int whence

fun file_ops ::
  "(string \<Rightarrow> string + string) \<Rightarrow> (nat \<Rightarrow> string \<Rightarrow> nat \<times> string option) \<Rightarrow> string \<Rightarrow> file_op list \<Rightarrow> open_file
     \<Rightarrow> open_file option" where
  "file_ops gunzip gread t [] f = Some f"
| "file_ops gunzip gread t (OpRead k # ops) f = file_ops gunzip gread t ops (snd (file_Read gunzip gread k f))"
| "file_ops gunzip gread t (OpSeek off w # ops) f =
     (let f' = snd (file_Seek off w f) in
      if 0 \<le> seekPos f' \<and> seekPos f' \<le> int (length t) then file_ops gunzip gread t ops f' else None)"

lemma seek_inv: "file_inv gunzip t f \<Longrightarrow> file_inv gunzip t (snd (file_Seek off w f))"
  by (cases w) (simp_all add: file_Seek_def file_inv_def)

lemma file_ops_inv:
  assumes "reads_ok gread" and "file_ops gunzip gread t ops f = Some f'"
    and "file_inv gunzip t f" and "0 \<le> seekPos f" and "seekPos f \<le> int (length t)"
  shows "file_inv gunzip t f'"
  using assms(2-)
proof (induction ops arbitrary: f)
  case (Cons a ops)
  show ?case
  proof (cases a)
    case (OpRead k)
    obtain r g where r: "file_Read gunzip gread k f = (r, g)" by fastforce
    from read_after_seek [OF assms(1) Cons.prems(2-4) r] Cons.IH [of g] Cons.prems(1) OpRead r
    show ?thesis by simp
  next
    case (OpSeek off w)
    with Cons.prems Cons.IH [OF _ seek_inv [OF Cons.prems(2)]] show ?thesis
      by (auto simp: Let_def split: if_splits)
  qed
qed simp

lemma opened_file:
  "fs_Open gunzip fs path = Ok (OpenFile f0) \<Longrightarrow> gunzip (compressedContent (of_info f0)) = Inr t \<Longrightarrow>
     of_gr f0 = t \<and> grPos f0 = 0 \<and> seekPos f0 = 0 \<and> file_inv gunzip t f0"
  by (auto simp: fs_Open_def Let_def file_inv_def split: option.splits asset_node.splits sum.splits)

text \<open>an asset behaves as a text with a position: however a file was read and sought before, seeking to a
  place in it and copying gives the text from there to the end, in as many reads as there are bytes left at
  most and one.\<close>

theorem asset_is_text_with_position:
  assumes "reads_ok gread" and "fs_Open gunzip fs path = Ok (OpenFile f0)"
    and "gunzip (compressedContent (of_info f0)) = Inr t"
    and "file_ops gunzip gread t ops f0 = Some f" and "p \<le> length t" and "length t - p < fuel"
  shows "copy_out gunzip gread fuel (snd (file_Seek (int p) SeekStart f)) = Some (drop p t, None)"
proof -
  from opened_file [OF assms(2,3)] have "file_inv gunzip t f0" "seekPos f0 = 0" by simp_all
  then have "file_inv gunzip t f" using file_ops_inv [OF assms(1,4)] by simp
  then have "file_inv gunzip t (snd (file_Seek (int p) SeekStart f))" by (rule seek_inv)
  from copy_out_rest [OF assms(1) this] assms(5,6) show ?thesis by (simp add: file_Seek_def)
qed

lemma asset_is_text_with_position_witness:
  "\<exists>f0. fs_Open Inr (Assets_tree ''abc'' ''de'') ''../min-config.toml'' = Ok (OpenFile f0)
    \<and> copy_out Inr (\<lambda>k t. if t = '''' then (0, Some EOF) else (min k 1, None)) 9
        (snd (file_Seek 1 SeekStart f0)) = Some (''e'', None)"
proof -
  obtain f0 where o: "fs_Open Inr (Assets_tree ''abc'' ''de'') ''../min-config.toml'' = Ok (OpenFile f0)"
    and f: "compressedContent (of_info f0) = ''de''"
    by (simp add: fs_Open_def path_Clean_def Assets_tree_def Let_def)
  have "copy_out Inr (\<lambda>k t. if t = '''' then (0, Some EOF) else (min k 1, None)) 9
      (snd (file_Seek (int 1) SeekStart f0)) = Some (drop 1 ''de'', None)"
    by (rule asset_is_text_with_position [where ops = "[]", OF _ o])
      (auto simp: reads_ok_def f min_def neq_Nil_conv)
  with o show ?thesis by simp
qed

text \<open>a seek beyond the end is accepted, and a read there leaves the decompressor at its end while the
  position is kept: after seeking back to the start, nothing is left to read.\<close>

theorem seek_past_end_loses_the_text:
  assumes "fs_Open gunzip fs path = Ok (OpenFile f0)"
    and "gunzip (compressedContent (of_info f0)) = Inr t" and "int (length t) < q"
    and "f1 = snd (file_Seek q SeekStart f0)" and "f2 = snd (file_Read gunzip gread k f1)"
    and "f3 = snd (file_Seek 0 SeekStart f2)"
  shows "fst (file_Read gunzip gread k f1) = ('''', Some EOF) \<and> fst (fst (file_Read gunzip gread j f3)) = ''''"
proof -
  from opened_file [OF assms(1,2)] have f0: "of_gr f0 = t" "grPos f0 = 0" by simp_all
  from assms(3) have "length t < nat q" "0 < q" by linarith+
  with f0 have r: "file_Read gunzip gread k f1 = (('''', Some EOF), f1\<lparr>of_gr := ''''\<rparr>)"
    using assms(4) by (simp add: file_Read_def file_rewind_def file_forward_def file_Seek_def)
  with f0 assms(4-6) have "of_gr f3 = ''''" "grPos f3 = 0" "seekPos f3 = 0" by (simp_all add: file_Seek_def)
  then have "fst (fst (file_Read gunzip gread j f3)) = ''''"
    by (simp add: file_Read_def file_rewind_def file_forward_def split: prod.split)
  with r show ?thesis by simp
qed

end
