(* ===== verification/Logging.thy ===== *)
theory Logging
  imports Go_Text
begin

text \<open>
  The position in the source that a log line carries: the search for the caller (\<open>pkg/utils/callfnd.go\<close>), the
  formatter that adds it (\<open>pkg/log/formatter/formatter.go\<close>) and the logger handed to libraries
  (\<open>pkg/log/logger/logger.go\<close>). The stack of the runtime and the formatter of logrus are parameters: a frame is
  a program counter, a file, a line and the name of its function.
\<close>

section \<open>Finding the caller\<close>

record frame_info =
  fr_pc :: nat
  fr_file :: string
  fr_line :: nat

text \<open>\<open>runtime.Caller\<close>: the frame that many levels up, if there is one.\<close>

type_synonym stack = "nat \<Rightarrow> frame_info option"

text \<open>\<open>getCaller\<close> cuts a file name after the second slash from its end; the first byte is not looked at.
  The loop runs over the positions from the last down to the second.\<close>

fun cut_file :: "string \<Rightarrow> nat \<Rightarrow> nat list \<Rightarrow> string" where
  "cut_file file n [] = file"
| "cut_file file n (i # is) =
     (if file ! i = CHR ''/'' then
        (if n + 1 \<ge> 2 then drop (i + 1) file else cut_file file (n + 1) is)
      else cut_file file n is)"

definition getCaller :: "stack \<Rightarrow> nat \<Rightarrow> nat \<times> string \<times> nat" where
  "getCaller st skip =
     (case st skip of
        None \<Rightarrow> (0, '''', 0)
      | Some f \<Rightarrow> (fr_pc f, cut_file (fr_file f) 0 (rev [1..<length (fr_file f)]), fr_line f))"

record call_finder =
  Skip :: nat
  SkipPrefixes :: "string list"

definition skipFile :: "call_finder \<Rightarrow> string \<Rightarrow> bool" where
  "skipFile f file \<longleftrightarrow> (\<exists>p \<in> set (SkipPrefixes f). has_prefix file p)"

text \<open>The loop of \<open>FindCaller\<close> from its \<open>i\<close>-th turn, with \<open>n\<close> turns left.\<close>

fun find_loop :: "call_finder \<Rightarrow> stack \<Rightarrow> nat \<Rightarrow> nat \<Rightarrow> nat \<times> string \<times> nat \<Rightarrow> nat \<times> string \<times> nat" where
  "find_loop f st i 0 r = r"
| "find_loop f st i (Suc n) r =
     (let r' = getCaller st (Skip f + i)
      in if \<not> skipFile f (fst (snd r')) then r' else find_loop f st (i + 1) n r')"

definition FindCaller :: "(nat \<Rightarrow> string) \<Rightarrow> call_finder \<Rightarrow> stack \<Rightarrow> string \<times> string \<times> nat" where
  "FindCaller function_of f st =
     (case find_loop f st 0 10 (0, '''', 0) of
        (pc, file, line) \<Rightarrow> (file, if pc \<noteq> 0 then function_of pc else '''', line))"

section \<open>Formatting\<close>

text \<open>An entry has fields, a level and a message; setting a field makes a new entry with that field.\<close>

record log_entry =
  e_Data :: "(string \<times> string) list"
  e_Level :: nat
  e_Message :: string

definition WithField :: "string \<Rightarrow> string \<Rightarrow> log_entry \<Rightarrow> log_entry" where
  "WithField k v e = \<lparr>e_Data = (k, v) # filter (\<lambda>x. fst x \<noteq> k) (e_Data e), e_Level = 0, e_Message = ''''\<rparr>"

type_synonym record_fmt = "string \<Rightarrow> string \<Rightarrow> nat \<Rightarrow> string"

definition file_line :: "string \<Rightarrow> nat \<Rightarrow> string" where
  "file_line file line = file @ '':'' @ dec_of_nat line"

record formatter =
  f_field :: string
  f_finder :: call_finder
  f_formatter :: record_fmt
  f_original :: "log_entry \<Rightarrow> string"

definition Build :: "(log_entry \<Rightarrow> string) \<Rightarrow> string \<Rightarrow> record_fmt option \<Rightarrow> formatter" where
  "Build orgF field rfmt =
     \<lparr>f_field = field,
      f_finder = \<lparr>Skip = 5, SkipPrefixes = [''logrus/'', ''logrus@'']\<rparr>,
      f_formatter = (case rfmt of None \<Rightarrow> (\<lambda>file function line. file_line file line) | Some g \<Rightarrow> g),
      f_original = orgF\<rparr>"

definition Format :: "(nat \<Rightarrow> string) \<Rightarrow> stack \<Rightarrow> formatter \<Rightarrow> log_entry \<Rightarrow> string" where
  "Format function_of st f e =
     (case FindCaller function_of (f_finder f) st of
        (file, function, line) \<Rightarrow>
          f_original f
            (WithField (f_field f) (f_formatter f file function line) e
               \<lparr>e_Level := e_Level e, e_Message := e_Message e\<rparr>))"

section \<open>The logger of the libraries\<close>

text \<open>\<open>New\<close> panics when the standard formatter is not the one above; the new logger has the level of the
  standard one, its original formatter, and a fixed field.\<close>

record logger =
  l_level :: nat
  l_threshold :: nat
  l_formatter :: "log_entry \<Rightarrow> string"
  l_wrapped :: string

datatype std_formatter = Ours formatter | Other

definition logger_New :: "nat \<Rightarrow> std_formatter \<Rightarrow> string \<Rightarrow> nat \<Rightarrow> (logger, string) go" where
  "logger_New std_level std level lvl =
     (case std of
        Other \<Rightarrow> Panic ''interface conversion''
      | Ours f \<Rightarrow>
          Ok \<lparr>l_level = lvl, l_threshold = std_level, l_formatter = f_original f, l_wrapped = level\<rparr>)"

definition logger_finder :: call_finder where
  "logger_finder = \<lparr>Skip = 3, SkipPrefixes = [''logrus/'', ''logrus@'']\<rparr>"

text \<open>\<open>Print\<close>, \<open>Println\<close> and \<open>Printf\<close> differ in how the message is made from the arguments. Nothing is written
  below the threshold (higher numbers are lower levels).\<close>

definition logger_Print :: "(nat \<Rightarrow> string) \<Rightarrow> stack \<Rightarrow> logger \<Rightarrow> string \<Rightarrow> string option" where
  "logger_Print function_of st l msg =
     (case FindCaller function_of logger_finder st of
        (file, _, line) \<Rightarrow>
          if l_level l \<le> l_threshold l then
            Some (l_formatter l \<lparr>e_Data = [(''source'', file_line file line), (''wrapped_level'', l_wrapped l)],
              e_Level = l_level l, e_Message = msg\<rparr>)
          else None)"

section \<open>Laws\<close>

text \<open>The file of a log line is the last two parts of a longer path.\<close>

lemma cut_file_skip:
  "\<forall>i \<in> set is. file ! i \<noteq> CHR ''/'' \<Longrightarrow> cut_file file n (is @ js) = cut_file file n js"
  by (induction "is") auto

lemma cut_two_parts:
  assumes "CHR ''/'' \<notin> set d" and "CHR ''/'' \<notin> set b" and "p \<noteq> []"
  shows "cut_file (p @ ''/'' @ d @ ''/'' @ b) 0 (rev [1..<length (p @ ''/'' @ d @ ''/'' @ b)]) = d @ ''/'' @ b"
proof -
  let ?f = "p @ ''/'' @ d @ ''/'' @ b" and ?k = "length p" and ?m = "Suc (length p + length d)"
  have up: "[i..<j] = [i..<k] @ k # [Suc k..<j]" if "i \<le> k" "k < j" for i j k :: nat
    using that by (metis upt_conv_Cons upt_add_eq_append less_imp_le le_add_diff_inverse)
  have "[1..<length ?f] = [1..<?k] @ ?k # [Suc ?k..<?m] @ ?m # [Suc ?m..<length ?f]"
    using assms(3) up [of 1 ?k "length ?f"] up [of "Suc ?k" ?m "length ?f"] by (simp add: Suc_le_eq)
  then have r: "rev [1..<length ?f]
      = rev [Suc ?m..<length ?f] @ ?m # rev [Suc ?k..<?m] @ ?k # rev [1..<?k]" by simp
  have 1: "\<forall>i \<in> set (rev [Suc ?m..<length ?f]). ?f ! i \<noteq> CHR ''/''"
  proof
    fix i assume "i \<in> set (rev [Suc ?m..<length ?f])"
    then obtain j where j: "i = length (p @ ''/'' @ d @ ''/'') + j" "j < length b"
      by (auto simp: le_iff_add)
    then have "?f ! i = b ! j"
      using nth_append_length_plus [of "p @ ''/'' @ d @ ''/''" b j] by simp
    with j assms(2) show "?f ! i \<noteq> CHR ''/''" by (metis nth_mem)
  qed
  have 2: "\<forall>i \<in> set (rev [Suc ?k..<?m]). ?f ! i \<noteq> CHR ''/''"
  proof
    fix i assume "i \<in> set (rev [Suc ?k..<?m])"
    then obtain j where j: "i = length (p @ ''/'') + j" "j < length d"
      by (auto simp: le_iff_add)
    then have "?f ! i = d ! j"
      using nth_append_length_plus [of "p @ ''/''" "d @ ''/'' @ b" j] by (simp add: nth_append)
    with j assms(1) show "?f ! i \<noteq> CHR ''/''" by (metis nth_mem)
  qed
  have s: "?f ! ?m = CHR ''/''" "?f ! ?k = CHR ''/''"
    by (simp_all add: nth_append)
  show ?thesis
    unfolding r cut_file_skip [OF 1]
    using cut_file_skip [OF 2, of "Suc 0" "?k # rev [1..<?k]"] s by simp
qed

lemma find_loop_first:
  assumes "j < n" and "\<not> skipFile f (fst (snd (getCaller st (Skip f + (i + j)))))"
    and "\<forall>k < j. skipFile f (fst (snd (getCaller st (Skip f + (i + k)))))"
  shows "find_loop f st i n r = getCaller st (Skip f + (i + j))"
  using assms
proof (induction n arbitrary: i j r)
  case (Suc n)
  show ?case
  proof (cases j)
    case 0
    with Suc.prems show ?thesis by (simp add: Let_def)
  next
    case (Suc l)
    with Suc.prems(3) have "skipFile f (fst (snd (getCaller st (Skip f + i))))" by (auto dest: spec [of _ 0])
    moreover have "\<forall>k < l. skipFile f (fst (snd (getCaller st (Skip f + (i + 1 + k)))))"
      using Suc.prems(3) Suc by (auto dest: spec [of _ "Suc _"])
    ultimately show ?thesis using Suc Suc.prems(1,2) Suc.IH [of l "i + 1"] by (simp add: Let_def)
  qed
qed simp

text \<open>A log line names the first caller that is not the logging library, by the last two parts of its file,
  when there is one among the ten frames looked at.\<close>

theorem log_line_names_the_caller:
  assumes "j < 10" and "st (Skip f + j) = Some fr" and "fr_file fr = p @ ''/'' @ d @ ''/'' @ b"
    and "CHR ''/'' \<notin> set d" and "CHR ''/'' \<notin> set b" and "p \<noteq> []"
    and "\<not> skipFile f (d @ ''/'' @ b)" and "\<forall>i < j. skipFile f (fst (snd (getCaller st (Skip f + i))))"
  shows "FindCaller function_of f st
    = (d @ ''/'' @ b, if fr_pc fr \<noteq> 0 then function_of (fr_pc fr) else '''', fr_line fr)"
proof -
  have g: "getCaller st (Skip f + j) = (fr_pc fr, d @ ''/'' @ b, fr_line fr)"
    using assms(2,3) cut_two_parts [OF assms(4-6)] by (simp add: getCaller_def)
  then have "find_loop f st 0 10 ((0 :: nat), '''', (0 :: nat)) = (fr_pc fr, d @ ''/'' @ b, fr_line fr)"
    using find_loop_first [of j 10 f st 0] assms(1,7,8) by simp
  then show ?thesis by (simp add: FindCaller_def)
qed

end
