(* ===== verification/Dev_Tools.thy ===== *)
theory Dev_Tools
  imports Lua_Bridge Ble_Gatt Config
begin

text \<open>
  The developer tools: a Bluetooth server with one counting characteristic to try the connector on
  (\<open>tools/ble-srv\<close>), and the client that sends the core an action (\<open>tools/add-action\<close>). The device, the MQTT
  client and the clock are parameters: outcomes and a list of ticks.
\<close>

section \<open>The counting characteristic\<close>

text \<open>The value is a float64; reading and writing only move its bits.\<close>

datatype att_status = ErrSuccess | ErrInvalidHandle

definition count_read :: "(byte list \<Rightarrow> string option) \<Rightarrow> 64 word \<Rightarrow> byte list \<times> att_status" where
  "count_read write n =
     (let bs = order_bytes LittleEndian 8 n
      in (bs, case write bs of Some e \<Rightarrow> ErrInvalidHandle | None \<Rightarrow> ErrSuccess))"

definition count_write :: "byte list \<Rightarrow> 64 word \<Rightarrow> (att_status, string) go \<times> 64 word" where
  "count_write req n =
     (if length req < 8 then (Panic ''index out of range'', n)
      else (Ok ErrSuccess, order_word LittleEndian (take 8 req)))"

text \<open>One subscription: what is written at each tick, until the client is gone or a write fails. The counter
  starts anew for each subscription.\<close>

datatype nf_event = NfDone | NfTick bool

fun nf_loop :: "u32 \<Rightarrow> nf_event list \<Rightarrow> byte list list" where
  "nf_loop cnt [] = []"
| "nf_loop cnt (NfDone # evs) = []"
| "nf_loop cnt (NfTick ok # evs) =
     order_bytes LittleEndian 4 cnt # (if ok then nf_loop (cnt + 1) evs else [])"

definition nfHandler :: "nf_event list \<Rightarrow> byte list list" where
  "nfHandler evs = nf_loop 0 evs"

text \<open>A characteristic as the library sees it: its identifier, its handlers and its value.\<close>

record count_char =
  cc_UUID :: "string + uuid"
  cc_value :: "64 word"

definition newCountChar :: "(char \<Rightarrow> string) \<Rightarrow> count_char" where
  "newCountChar rune = \<lparr>cc_UUID = uuid_Parse rune ''00010000-0002-1000-8000-00805F9B34FB'', cc_value = 0\<rparr>"

text \<open>The server: what it ends with, and the identifiers of its service and its characteristic.\<close>

datatype srv_end = SrvFatal string | SrvCanceled | SrvError string

definition ble_srv_main ::
  "(char \<Rightarrow> string) \<Rightarrow> (unit \<Rightarrow> exit + viper) \<Rightarrow> (string \<Rightarrow> string option) \<Rightarrow> (string + uuid \<Rightarrow> count_char \<Rightarrow> string option)
     \<Rightarrow> (string \<Rightarrow> string + uuid \<Rightarrow> string) \<Rightarrow> srv_end" where
  "ble_srv_main rune init newDevice addService advertise =
     (case init () of
        Inl (_, e) \<Rightarrow> SrvFatal e
      | Inr _ \<Rightarrow>
          (case newDevice ''ble-srv'' of
             Some e \<Rightarrow> SrvFatal (''can't new device : '' @ e)
           | None \<Rightarrow>
               (let svc = uuid_Parse rune ''00010000-0001-1000-8000-00805F9B34FB'' in
                case addService svc (newCountChar rune) of
                  Some e \<Rightarrow> SrvFatal (''can't add service: '' @ e)
                | None \<Rightarrow>
                    (let e = advertise ''ble-srv'' svc
                     in if e = ''context canceled'' then SrvCanceled else SrvError e))))"

section \<open>Adding an action\<close>

definition nl :: string where "nl = [CHR 0x0A]"

definition action_code :: string where
  "action_code =
     ''const xml = require('fast-xml-parser');'' @ nl @
     ''const math = require('mathjs');'' @ nl @ nl @
     ''function handle(packet) {'' @ nl @
     ''    const time = packet.time || Date.now();'' @ nl @
     ''    const iso = new Date(+time).toISOString();'' @ nl @
     ''    const rand = Math.random();'' @ nl @
     ''    const x = xml.parse('<a>10</a>');'' @ nl @
     ''    console.log(new Date().toISOString(), packet);'' @ nl @
     ''    return { iso, rand, x };'' @ nl @
     ''}'' @ nl @ nl @
     ''module.exports = handle;'' @ nl"

definition action_name :: string where
  "action_name = ''ric-v3-5d681eb0b6a1c026ca418faf''"

definition action_pkg :: string where
  "action_pkg =
     ''{'' @ nl @
     ''    \"name\":\"ric-v3-5d681eb0b6a1c026ca418faf\",'' @ nl @
     ''    \"private\":true,'' @ nl @
     ''    \"dependencies\":{'' @ nl @
     ''        \"fast-xml-parser\":\"latest\",'' @ nl @
     ''        \"mathjs\":\"6.1.0\"'' @ nl @
     ''    }'' @ nl @
     ''}'' @ nl"

definition action_data :: gval where
  "action_data =
     GMap [(''jsonrpc'', GStr ''2.0''), (''method'', GStr ''add-action''),
           (''params'', GMap [(''name'', GStr action_name), (''package'', GStr action_pkg), (''code'', GStr action_code)])]"

definition getPayload :: "(gval \<Rightarrow> string + string) \<Rightarrow> (string, string) go" where
  "getPayload marshal = (case marshal action_data of Inl e \<Rightarrow> Panic e | Inr t \<Rightarrow> Ok t)"

text \<open>What the tool does with the broker of the core's settings: connect, publish once, disconnect.\<close>

datatype tool_end = ToolExit exit | ToolLogged string | ToolPublished string string | ToolPanic string

definition add_action_main ::
  "cast_env \<Rightarrow> (unit \<Rightarrow> exit + viper) \<Rightarrow> (gval \<Rightarrow> string + string) \<Rightarrow> (string \<Rightarrow> string option)
     \<Rightarrow> (string \<Rightarrow> nat \<Rightarrow> string \<Rightarrow> string option) \<Rightarrow> tool_end" where
  "add_action_main ce setup marshal connect publish =
     (case setup () of
        Inl x \<Rightarrow> ToolExit x
      | Inr v \<Rightarrow>
          (case connect (v_GetString ce v ''core.mqtt.url'') of
             Some e \<Rightarrow> ToolLogged e
           | None \<Rightarrow>
               (case getPayload marshal of
                  Panic m \<Rightarrow> ToolPanic m
                | Err m \<Rightarrow> ToolPanic m
                | Ok p \<Rightarrow>
                    (case publish ''ric-edge/action/command'' 2 p of
                       Some e \<Rightarrow> ToolLogged e
                     | None \<Rightarrow> ToolPublished ''ric-edge/action/command'' p))))"

section \<open>Laws\<close>

lemma bit_be_word:
  assumes "j < LENGTH('a)"
  shows "bit (be_word bs :: 'a::len word) j \<longleftrightarrow> j < 8 * length bs \<and> bit (rev bs ! (j div 8)) (j mod 8)"
  using assms
proof (induction bs arbitrary: j rule: rev_induct)
  case Nil
  then show ?case by (simp add: be_word_def)
next
  case (snoc b bs)
  show ?case
  proof (cases "j < 8")
    case True
    with snoc.prems show ?thesis
      by (simp add: be_word_append bit_simps)
  next
    case False
    then obtain i where i: "j = i + 8" by (metis add.commute le_add_diff_inverse not_less)
    have d: "(i + 8) div 8 = Suc (i div 8)" by simp
    from i snoc.prems snoc.IH [of i] show ?thesis
      by (auto simp: d be_word_append bit_simps dest: bit_imp_le_length)
  qed
qed

lemma be_bytes_be_word:
  assumes "8 * length bs \<le> LENGTH('a)"
  shows "be_bytes (length bs) (be_word bs :: 'a::len word) = bs"
proof (rule nth_equalityI)
  fix i assume "i < length (be_bytes (length bs) (be_word bs :: 'a word))"
  then have i: "i < length bs" by simp
  let ?j = "length bs - Suc i"
  have "be_bytes (length bs) (be_word bs :: 'a word) ! i = ucast (drop_bit (8 * ?j) (be_word bs :: 'a word))"
    using i by (simp add: be_bytes_def rev_nth)
  also have "\<dots> = bs ! i"
  proof (rule bit_word_eqI)
    fix k assume k: "k < LENGTH(8)"
    then have "8 * ?j + k < LENGTH('a)" using i assms by (simp add: algebra_simps)
    with k i show "bit (ucast (drop_bit (8 * ?j) (be_word bs :: 'a word)) :: byte) k = bit (bs ! i) k"
      by (auto simp: bit_simps bit_be_word rev_nth Suc_diff_Suc)
  qed
  finally show "be_bytes (length bs) (be_word bs :: 'a word) ! i = bs ! i" .
qed simp

lemma order_bytes_word:
  "8 * length bs \<le> LENGTH('a) \<Longrightarrow> order_bytes od (length bs) (order_word od bs :: 'a::len word) = bs"
  using be_bytes_be_word [of bs, where 'a = 'a] be_bytes_be_word [of "rev bs", where 'a = 'a]
  by (cases od) (simp_all add: order_bytes_def order_word_def)

text \<open>what is written to the counting characteristic is read back, eight bytes of it, whatever it held;
  a shorter write ends the server.\<close>

theorem written_count_is_read:
  "(case count_write req n of
      (Ok st, n') \<Rightarrow> st = ErrSuccess \<and> length req \<ge> 8 \<and> fst (count_read w n') = take 8 req
    | (Panic m, n') \<Rightarrow> length req < 8 \<and> n' = n
    | (Err e, n') \<Rightarrow> False)"
proof (cases "length req < 8")
  case False
  then have "length (take 8 req) = 8" by simp
  with order_bytes_word [of "take 8 req" LittleEndian, where 'a = 64] False show ?thesis
    by (simp add: count_write_def count_read_def Let_def)
qed (simp add: count_write_def)

lemma nf_loop_nth:
  "k < length (nf_loop cnt evs) \<Longrightarrow> nf_loop cnt evs ! k = order_bytes LittleEndian 4 (cnt + word_of_nat k)"
proof (induction cnt evs arbitrary: k rule: nf_loop.induct)
  case (3 cnt ok evs)
  then show ?case by (cases k) (auto simp: add_ac split: if_splits)
qed simp_all

text \<open>C40: the notification of a subscription that was preceded by \<open>k\<close> others carries \<open>k\<close> modulo
  4294967296 in four bytes, and there are never more than ticks.\<close>

theorem notification_counts:
  assumes "k < length (nfHandler evs)"
  shows "unat (order_word LittleEndian (nfHandler evs ! k) :: u32) = k mod 2 ^ 32 \<and> length (nfHandler evs ! k) = 4
    \<and> length (nfHandler evs) \<le> length evs"
proof -
  have "length (nf_loop c evs) \<le> length evs" for c
    by (induction c evs rule: nf_loop.induct) auto
  then show ?thesis
    using nf_loop_nth [of k 0 evs] assms
    by (simp add: nfHandler_def order_word_bytes unat_of_nat)
qed

lemma notification_counts_witness:
  "unat (order_word LittleEndian (nfHandler [NfTick True, NfTick True, NfDone] ! 1) :: u32) = 1"
  using notification_counts [of 1 "[NfTick True, NfTick True, NfDone]"]
  by (simp add: nfHandler_def)

end
