(* ===== verification/Spec2Isabelle.thy ===== *)
theory Spec2Isabelle
  imports Modbus_Transport Snmp_Handler Opcua_Handler Ble_Adv Ble_Att Connector Ws_Server Mqtt_Store Mqtt_Link
    Jsonrpc_Writers Rpc_Service End_To_End Core_Start Update Process_Main Core_Boot Assets Logging Dev_Tools
begin

text \<open>
  \<^bold>\<open>Verification of the Rightech edge\<close>

  The program (\<open>src/\<close>, Go) is a set of processes on an edge machine: a core, and one connector per
  field protocol (Modbus, SNMP, OPC UA, Bluetooth). A connector dials the core's websocket server
  and serves JSON-RPC requests over it. The core receives commands from a cloud over MQTT, fills
  the templates in them, runs the read and write scripts of the object's configuration, passes the
  command to the connector its topic names, keeps the values that come back and publishes them.

  \<^bold>\<open>Theories, from the bottom up\<close>

  \<^item> \<open>Edge_Prelude\<close>: the outcome of a Go call (\<open>Ok\<close>, \<open>Err\<close>, \<open>Panic\<close>) with its sequencing, and
    16-bit packing. \<open>Go_Text\<close>: what is used of \<open>strings\<close>, \<open>strconv\<close> and \<open>encoding/base64\<close>.
    \<open>Objx\<close>: dynamic values and the selector access of the vendored \<open>objx\<close>.
  \<^item> \<open>Jsonrpc\<close> (\<open>pkg/jsonrpc\<close>): errors, messages, \<open>handleMessage\<close> with panic recovery, the
    serve loop, notifications, and the interface \<open>Caller\<close> as the locale \<open>rpc_caller\<close>: a handler never
    returns a nil result together with a nil error. Its lemmas (every message is answered, a connector
    survives and serves again) hold of the Modbus, SNMP and Bluetooth handlers by interpretation. The
    OPC UA handler does not meet the contract, and \<open>null_read_ends_connector\<close> says exactly when.
  \<^item> \<open>Jsonrpc_Writers\<close> (the same package): the service with its options, and the goroutines that write to
    its transport, the serve loop and the senders of notifications, as a machine whose steps lie between
    two points where another of them can run. Its invariant gives that messages are never mixed.
  \<^item> \<open>Connector\<close> (\<open>internal/pkg/ws\<close>, \<open>pkg/jsonrpc/serve.go\<close>, \<open>internal/app/*/entrypoint\<close>): the
    websocket client, the serve and reconnect loop over it as a machine, and the start-up.
  \<^item> \<open>Modbus_Crc_Table\<close>, \<open>Modbus_Checksum\<close>, \<open>Modbus_Packager\<close>, \<open>Modbus_Client\<close>
    (\<open>third_party/goburrow/modbus\<close>, the program's own copy) and \<open>Modbus_Handler\<close>
    (\<open>internal/app/modbus/handler\<close>): framing and checksums at machine width, the client's requests and
    checks, parameters and results. \<open>Modbus_Transport\<close>: the \<open>Send\<close> methods of the three modes over a stream
    that arrives in pieces, with the idle timer, and what a late answer or a closed connection does. In RTU mode
    the timer may close the port in the middle of a \<open>Send\<close>, which takes no mutex.
  \<^item> \<open>Snmp_Handler\<close> (\<open>internal/app/snmp/handler\<close>), with the part of the vendored gosnmp that a set
    goes through up to the exchange of its packet, the recovery of panics included.
  \<^item> \<open>Opcua_Handler\<close> (\<open>internal/app/opcua/handler\<close>): read, typed write, recursive browse.
  \<^item> \<open>Ble_Gatt\<close> (\<open>third_party/go-ble\<close>: identifiers and the GATT client of one connection) and
    \<open>Ble_Handler\<close> (\<open>internal/app/ble/handler\<close>): scan with beacons, discover, read, write, subscribe,
    cancel, the table of kept clients, and the injection of the service a subscription needs. \<open>Ble_Adv\<close>
    (\<open>linux/adv\<close> of the library): advertising packets, built and read, and the handler of a scan over them.
    \<open>Ble_Att\<close> (\<open>linux/att/client.go\<close>, \<open>linux/gatt/client.go\<close>): the client of the attribute protocol packet by
    packet and the discovery loops over it, which are the sweeps \<open>Ble_Gatt\<close> takes as given.
  \<^item> \<open>Ws_Server\<close> (\<open>internal/pkg/core/ws\<close>): connections, waiting calls and listeners as a machine whose
    steps lie between two points of interleaving, with its invariant over all reachable states.
  \<^item> \<open>Kv_Store\<close> (the database file), \<open>State_Store\<close> (\<open>pkg/store/state\<close>), \<open>Mqtt_Store\<close>
    (\<open>pkg/store/mqtt\<close>).
  \<^item> \<open>Cloud\<close> (\<open>internal/pkg/core/cloud\<close>): the REST client and the walk over the model that gives the
    actions. \<open>Lua_Bridge\<close> (\<open>pkg/lua\<close>): values into and out of scripts, and the script functions.
  \<^item> \<open>Rpc_Template\<close> and \<open>Rpc_Service\<close> (\<open>internal/app/core/rpc\<close>, \<open>internal/pkg/core/jobs\<close>,
    \<open>pkg/nanoid\<close>): templates in a request's bytes; preparing requests and answers, notifications,
    jobs and subscriptions, start-up of the service.
  \<^item> \<open>Mqtt_Link\<close> (\<open>internal/pkg/core/mqtt\<close>), \<open>Update\<close> (\<open>pkg/update\<close>: the check, the download and its progress).
  \<^item> \<open>End_To_End\<close>: the parts together, a command from the broker through the core, the server and a
    connector to a device and back.
  \<^item> \<open>Config\<close> (\<open>internal/pkg/config\<close>, \<open>internal/app/*/config\<close>): the command line, the layers of the vendored
    viper (set, file, default) with its paths and shadowing, and the set-up of each process.
  \<^item> \<open>Process_Main\<close> (\<open>cmd/*/main.go\<close>, \<open>internal/app/*/entrypoint\<close>, \<open>internal/app/common\<close>): the \<open>main\<close> of the five
    processes, the start of the connectors from their settings, and plugins.
  \<^item> \<open>Core_Start\<close> and \<open>Core_Boot\<close> (\<open>internal/app/core/entrypoint\<close>): the start-up of the core with its parts, and the
    trace of what it opens and closes, after an error and after a panic.
  \<^item> \<open>Assets\<close> (\<open>cmd/core/data\<close>): the file system of the printed configurations, with positions in compressed
    files. \<open>Logging\<close> (\<open>pkg/log\<close>): the caller a log line names. \<open>Dev_Tools\<close> (\<open>tools\<close>): the Bluetooth test
    server and the tool that adds an action.

  \<^bold>\<open>Conventions\<close>

  A Go struct is a record, an interface value from JSON a \<open>gval\<close>, an error a value of a sum or of
  \<open>go\<close>, and a panic the value \<open>Panic\<close>; \<open>call_service\<close> recovers one, and so does the SNMP library where it
  sends (\<open>recover_send\<close>). Machine
  integers are words where wrap-around matters and integers with their range checks elsewhere. Code
  outside the repository, and libraries below the level of interest, are records of functions over a
  state of their own (\<open>snmp_cli\<close>, \<open>ua_cli\<close>, \<open>radio\<close>, \<open>ble_lib\<close>, \<open>engine\<close>) or arguments: JSON text,
  the Lua engine, sockets, the MQTT client, semantic versions, floating point, time. Hypotheses about
  them are named in the theorems that need them and hold in the witnesses.

  \<^bold>\<open>Bounds and termination\<close>

  A browse stops at depth 10 as in the code (\<open>browse\<close>, by a measure), so it ends on cyclic address
  spaces. The template loop, the readers of advertising packets and the discovery loops may never end;
  they are partial functions whose value \<open>None\<close> is not ending, and the theorems say when they return. The loops over frames, events and messages recurse on the list
  of what arrives. A copy of an asset (\<open>copy_out\<close>) has fuel, because the reader decides how much a read gives;
  \<open>asset_is_text_with_position\<close> says how much is enough.

  \<^bold>\<open>What the properties show\<close>

  Values survive the way between the request and the device (Modbus registers and coils, SNMP sets, OPC
  UA writes, Bluetooth reads, the services of a Bluetooth device over its packets) and between runs of the core (\<open>state_survives_restart\<close>); frames and
  checksums detect a changed byte; calls and answers are matched one to one (\<open>call_answered_at_most_once\<close>,
  \<open>snmp_call_answered\<close>), a read comes back with what the device said
  (\<open>registers_from_broker_to_wire\<close>), and messages of different goroutines are not mixed (\<open>concurrent_messages_whole\<close>);
  what a process does depends on its settings as it should (\<open>core_setting_from_file_or_default\<close>,
  \<open>connectors_known_by_their_topic\<close>, \<open>core_serves_configured_object\<close>); templates, scripts and the model walk do what their reference definitions say;
  connectors and listeners survive any message. Where the code does not do what it means to, a theorem
  states exactly when: early answers, lost calls, subscriptions that never succeed and leak their connection,
  beacons that end the process, padded advertisements that stop a scan for ever, one late answer that shifts
  all later reads of a Modbus device, connections that are kept after the device has closed them,
  Bluetooth devices whose answers panic the request that searches or keep it asking, serial ports closed
  under a request.

  \<^bold>\<open>Not modelled\<close>

  What the kernel does for the protocol clients (sockets, serial ports), the SNMP and OPC UA transports, HCI
  events and the logical link of the Bluetooth library and its server side, the JSON and
  TOML decoders, the Lua interpreter, the database file format and compression: they are parameters, or
  libraries whose documented contract the models use. The Darwin variant of the Bluetooth stack, the
  generators of assets, and logging calls inside operations have no effect on what is stated here.
\<close>

section \<open>Properties across components\<close>

text \<open>C2: a Modbus connector with panic recovery on answers every message it receives over a healthy
  transport, whatever the messages hold, and in order: the n-th answer is what the handler makes of the n-th
  message in the state the messages before have left, and carries the identifier of that message.\<close>

theorem modbus_connector_answers_all:
  assumes "\<forall>t \<in> set ts. \<not> ctx_done t \<and> writer_err t = None \<and> encoder_err t = None
             \<and> (\<exists>d. incoming t = ReadMsg d)"
  shows "\<exists>rs ss. serve True st (modbus_Call svc) s ts = (rs, Blocked, ss ! length ts)
    \<and> length rs = length ts \<and> ss ! 0 = s
    \<and> (\<forall>i < length ts. \<forall>d. incoming (ts ! i) = ReadMsg d \<longrightarrow>
        handleMessage True st (modbus_Call svc) (ss ! i) d = (Inr (rs ! i), ss ! Suc i)
        \<and> resp_ID (rs ! i) = answer_id d)"
  by (rule modbus.serve_answers_in_order [OF assms])

text \<open>A message that is no JSON and then a request.\<close>

lemma modbus_connector_answers_all_witness:
  "\<exists>r0 r1 s'. serve True ''stack'' (modbus_Call (rtu_example \<lparr>FunctionCode = 1, Data = [1, 5]\<rparr>)) 0
      [\<lparr>ctx_done = False, incoming = ReadMsg (Inl ''bad json''), writer_err = None, encoder_err = None\<rparr>,
       \<lparr>ctx_done = False, incoming = ReadMsg (Inr (read_at ''4'')), writer_err = None, encoder_err = None\<rparr>]
      = ([r0, r1], Blocked, s') \<and> resp_ID r0 = ''null'' \<and> resp_ID r1 = ID (read_at ''4'')"
proof -
  let ?ts = "[\<lparr>ctx_done = False, incoming = ReadMsg (Inl ''bad json''), writer_err = None, encoder_err = None\<rparr>,
       \<lparr>ctx_done = False, incoming = ReadMsg (Inr (read_at ''4'')), writer_err = None, encoder_err = None\<rparr>]"
  let ?call = "modbus_Call (rtu_example \<lparr>FunctionCode = 1, Data = [1, 5]\<rparr>)"
  have "\<forall>t \<in> set ?ts. \<not> ctx_done t \<and> writer_err t = None \<and> encoder_err t = None \<and> (\<exists>d. incoming t = ReadMsg d)" by simp
  from modbus_connector_answers_all [OF this, of "''stack''" "rtu_example \<lparr>FunctionCode = 1, Data = [1, 5]\<rparr>" 0]
  obtain rs ss where rs: "serve True ''stack'' ?call 0 ?ts = (rs, Blocked, ss ! length ?ts)" "length rs = 2"
    and a: "\<forall>i < length ?ts. \<forall>d. incoming (?ts ! i) = ReadMsg d \<longrightarrow> resp_ID (rs ! i) = answer_id d" by auto
  then obtain r0 r1 where r: "rs = [r0, r1]" by (auto simp: length_Suc_conv numeral_2_eq_2)
  from a [rule_format, of 0 "Inl ''bad json''"] a [rule_format, of 1 "Inr (read_at ''4'')"] r rs(1)
  show ?thesis by (auto simp: answer_id_def read_at_def)
qed

text \<open>C3: a request the core has sent to the SNMP connector and waits for is answered: the connector writes
  one response with the identifier of the request, whatever the request holds and the device does, and the
  websocket server delivers it on the channel of that call and on no other. The core waits under the text of the
  identifier; the request and the response carry it quoted, as JSON, and the server reads the text back.\<close>

theorem snmp_call_answered:
  assumes "ws_reach e w" and "crashed w = None" and "reqs w k i = Some ch"
    and "s_open (socks w ! k)" and "s_listening (socks w ! k)"
    and "cn_rc cn = Serving" and "cn_dead cn = None" and "wc_ws (cn_client cn) = Some c"
    and "decode p = Some (Inr req)" and "ID req = w_quote e i" and "w_quote e i \<noteq> ''''"
    and "\<forall>r j. resp_ID r = w_quote e j \<longrightarrow> \<not> method_present e (encode r) \<and> id_text e (encode r) = Some j"
  shows "\<exists>r w'. cn_out (cn_step True stack decode (snmp_Call q dev) (Incoming (Frame TextMessage p) None None) cn)
      = cn_out cn @ [(c, r)] \<and> resp_ID r = w_quote e i
    \<and> ws_step e (Read k True (encode r)) w = Some w' \<and> crashed w' = None
    \<and> chans w' ch = [encode r] \<and> (\<forall>j. j \<noteq> ch \<longrightarrow> chans w' j = chans w j)"
proof -
  have n: "ID req \<noteq> ''''" and l: "\<forall>r. resp_ID r = ID req \<longrightarrow> \<not> method_present e (encode r) \<and> id_text e (encode r) = Some i"
    using assms(10-12) by simp_all
  obtain r w' where r: "cn_out (cn_step True stack decode (snmp_Call q dev) (Incoming (Frame TextMessage p) None None) cn)
      = cn_out cn @ [(c, r)]" "ws_step e (Read k True (encode r)) w = Some w'" "crashed w' = None"
    "chans w' ch = [encode r]" "\<forall>j. j \<noteq> ch \<longrightarrow> chans w' j = chans w j"
    using snmp.call_answered [where decode = decode and encode = encode and e = e and req = req, OF assms(1-9) n l] by blast
  moreover have "resp_ID r = w_quote e i"
    using snmp.request_answered [where decode = decode and req = req, OF assms(6-9) n, of stack q dev] assms(10) r(1) by auto
  ultimately show ?thesis by blast
qed

text \<open>C4: a Modbus connector that has started keeps running while it is not told to stop: whatever frames
  it reads and however many dials fail, the first dial that succeeds makes it serve again, on the new
  connection.\<close>

theorem modbus_connector_serves_again:
  assumes "start_connector dial port version path hand = Inr cn0" and "\<forall>ev \<in> set evs. calm ev"
  shows "let cn = cn_run True stack decode (modbus_Call svc) evs cn0;
      cn' = cn_step True stack decode (modbus_Call svc) (Ticked (Dialled c)) cn in
    cn_dead cn' = None \<and> cn_rc cn' = Serving
    \<and> wc_ws (cn_client cn') = (if cn_rc cn = Serving then wc_ws (cn_client cn) else Some c)"
  by (rule modbus.serves_again [OF assms])

lemma modbus_connector_serves_again_witness:
  "\<exists>cn0. start_connector (\<lambda>_ _ _. Dialled ''c'') 9000 ''1.0.0'' ''modbus'' (Inr 0) = Inr cn0
    \<and> wc_ws (cn_client (cn_step True ''stack'' (\<lambda>_. None) (modbus_Call (rtu_example \<lparr>FunctionCode = 1, Data = [1, 5]\<rparr>))
        (Ticked (Dialled ''d''))
        (cn_run True ''stack'' (\<lambda>_. None) (modbus_Call (rtu_example \<lparr>FunctionCode = 1, Data = [1, 5]\<rparr>))
          [Incoming (Broken ''eof'' False) None None, Ticked (Unreachable ''down'')] cn0))) = Some ''d''"
proof -
  obtain cn0 :: "(nat, string) connector" where s: "start_connector (\<lambda>_ _ _. Dialled ''c'') 9000 ''1.0.0'' ''modbus'' (Inr 0) = Inr cn0"
    by (simp add: start_connector_def client_New_def client_Connect_def Let_def)
  have c: "\<forall>ev \<in> set [Incoming (Broken ''eof'' False) None None, Ticked (Unreachable ''down'')]. calm ev"
    by (simp add: calm_def)
  from s have "cn_rc (cn_run True ''stack'' (\<lambda>_. None) (modbus_Call (rtu_example \<lparr>FunctionCode = 1, Data = [1, 5]\<rparr>))
      [Incoming (Broken ''eof'' False) None None, Ticked (Unreachable ''down'')] cn0) \<noteq> Serving"
    by (auto simp: start_connector_def client_New_def client_Connect_def Let_def cn_step_def cn_serve_def
        client_NextReader_def to_incoming_def)
  with modbus_connector_serves_again [where c = "''d''" and stack = "''stack''" and decode = "\<lambda>_. None"
      and svc = "rtu_example \<lparr>FunctionCode = 1, Data = [1, 5]\<rparr>", OF s c] s
  show ?thesis by (simp add: Let_def)
qed

section \<open>A command from the cloud\<close>

text \<open>a read command on the topic of a connector, answered by it with a value, ends with the value (or what
  the object's script makes of it) stored under the parameter, sent once to the cloud, and the answer holding
  it published on the response topic of that connector.\<close>

theorem read_command_recorded_and_published:
  assumes "CHR ''/'' \<notin> set name" and "topic = ''ric-edge/'' @ name @ ''/command''"
    and "prepareRequest e s payload (length payload) = Some (Ok (p, d), s1, arr1)"
    and "reply name (Str (Get d ''id'')) p = Some msg"
    and "Str (Get d ''params._type'') = ''read''"
    and "Str (Get d ''params._parent'') = parent" and "parent \<noteq> ''''" and "no_bracket parent"
    and "unmarshal e msg = Inr result" and "\<not> IsNil (Get result ''result'')"
    and "\<not> Bool (Get result ''result.notification'')" and "state_inv (stat s)"
  shows "\<exists>res r text s'. rpcCallback (core_rpc e reply) token s topic payload
      = Some (Ok ((''ric-edge/'' @ name @ ''/response'', text),
          publish_error (token (''ric-edge/'' @ name @ ''/response'') text)), s')
    \<and> recorded e s parent res s' \<and> state_inv (stat s') \<and> Get r ''result'' = res
    \<and> text = (case marshal e r of Inl _ \<Rightarrow> msg | Inr t \<Rightarrow> t)"
proof -
  from command_recorded [where reply = reply and name = name and msg = msg and token = token, OF assms] show ?thesis by blast
qed

lemma read_command_recorded_and_published_witness:
  "\<exists>res text s'. rpcCallback (core_rpc example_env (\<lambda>_ _ _. Some ''A'')) (\<lambda>_ _. Completed) example_service
        ''ric-edge/modbus/command'' ''R''
      = Some (Ok ((''ric-edge/'' @ ''modbus'' @ ''/response'', text),
          publish_error ((\<lambda>_ _. Completed) (''ric-edge/'' @ ''modbus'' @ ''/response'') text)), s')
    \<and> recorded example_env example_service ''temp'' res s'"
proof -
  have s: "split_dot ''result.notification'' = (''result'', ''notification'')" by (simp add: split_dot_def)
  have n: "\<not> Bool (Get (GMap [(''result'', GStr ''12.5'')]) ''result.notification'')"
    unfolding Get_def
    by (subst access_get.simps, simp add: selector_plain s at_index_def access_get_no_map is_GMap_def)
  have q: "prepareRequest example_env example_service ''R'' (length ''R'')
      = Some (Ok (''R'', example_request ''read''), example_service, ''R'')"
    using example_prepared by simp
  have u: "unmarshal example_env ''A'' = Inr (GMap [(''result'', GStr ''12.5'')])"
    by (simp add: example_env_def example_unmarshal_def)
  have "\<exists>res r text s'. rpcCallback (core_rpc example_env (\<lambda>_ _ _. Some ''A'')) (\<lambda>_ _. Completed) example_service
        ''ric-edge/modbus/command'' ''R''
      = Some (Ok ((''ric-edge/'' @ ''modbus'' @ ''/response'', text),
          publish_error ((\<lambda>_ _. Completed) (''ric-edge/'' @ ''modbus'' @ ''/response'') text)), s')
    \<and> recorded example_env example_service ''temp'' res s' \<and> state_inv (stat s') \<and> Get r ''result'' = res
    \<and> text = (case marshal example_env r of Inl _ \<Rightarrow> ''A'' | Inr t \<Rightarrow> t)"
    by (rule read_command_recorded_and_published [OF _ _ q _ _ _ _ _ u]) (simp_all add: n Get_key example_reader)
  then show ?thesis by blast
qed

text \<open>The name under which the core registers a client that dials it.\<close>

definition registered_name ::
  "(string \<Rightarrow> string + 'v) \<Rightarrow> ('r \<Rightarrow> 'v \<Rightarrow> bool) \<Rightarrow> 'r \<Rightarrow> (string \<Rightarrow> bool) \<Rightarrow> 'c ws_client \<Rightarrow> nat \<times> gval + string" where
  "registered_name newVersion check constr present cl =
     handler_front newVersion check constr present (wc_ver cl) (wc_path cl)"

lemma registered_at:
  assumes "serves_at (CHR ''/'' # name) ver cn" and "CHR ''/'' \<notin> set name" and "newVersion ver = Inr v"
    and "check constr v" and "\<not> present name"
  shows "registered_name newVersion check constr present (cn_client cn) = Inr name"
proof -
  have "split_on CHR ''/'' name = [name]" using assms(2) by simp
  with assms show ?thesis
    by (simp add: registered_name_def serves_at_def handler_front_def checkVersion_def)
qed

text \<open>C5: whatever the configuration file and the arguments say, a connector process that gets to serve is
  known to the core by the name its commands have: the core registers the websocket client of each under
  the name of its protocol, if the core accepts its version and has no such connector yet, and commands on the
  topic of that name are put to it.\<close>

theorem connectors_known_by_their_topic:
  assumes "newVersion (read_version [p_version p]) = Inr v" and "check constr v"
    and "\<forall>name \<in> {''modbus'', ''snmp'', ''opcua'', ''ble''}. \<not> present name"
  shows "(modbus_main p transport dial args = Serves (cm, rm) \<longrightarrow>
      registered_name newVersion check constr present (cn_client cm) = Inr ''modbus'')
    \<and> (snmp_main p quoted_text connect dial args = Serves (cs, rs) \<longrightarrow>
      registered_name newVersion check constr present (cn_client cs) = Inr ''snmp'')
    \<and> (opcua_main p getEndpoints select conn dial args = Serves (co, ro) \<longrightarrow>
      registered_name newVersion check constr present (cn_client co) = Inr ''opcua'')
    \<and> (ble_main p load new dial args = Serves (cb, rb) \<longrightarrow>
      registered_name newVersion check constr present (cn_client cb) = Inr ''ble'')
    \<and> (\<forall>name \<in> {''modbus'', ''snmp'', ''opcua'', ''ble''}.
      rpcCallback rpc token s (''ric-edge/'' @ name @ ''/command'') payload = None \<longleftrightarrow> rpc s name payload = None)"
proof (intro conjI impI ballI)
  fix name assume "name \<in> {''modbus'', ''snmp'', ''opcua'', ''ble''}"
  then have "CHR ''/'' \<notin> set name" by auto
  show "rpcCallback rpc token s (''ric-edge/'' @ name @ ''/command'') payload = None \<longleftrightarrow> rpc s name payload = None"
    unfolding callback_topic [OF \<open>CHR ''/'' \<notin> set name\<close> refl] by (simp split: option.split prod.split)
next
  assume "modbus_main p transport dial args = Serves (cm, rm)"
  from registered_at [where newVersion = newVersion and check = check and constr = constr and present = present,
      OF started_connector_address(1) [OF this] _ assms(1,2)] assms(3)
  show "registered_name newVersion check constr present (cn_client cm) = Inr ''modbus''" by simp
next
  assume "snmp_main p quoted_text connect dial args = Serves (cs, rs)"
  from registered_at [where newVersion = newVersion and check = check and constr = constr and present = present,
      OF started_connector_address(2) [OF this] _ assms(1,2)] assms(3)
  show "registered_name newVersion check constr present (cn_client cs) = Inr ''snmp''" by simp
next
  assume "opcua_main p getEndpoints select conn dial args = Serves (co, ro)"
  from registered_at [where newVersion = newVersion and check = check and constr = constr and present = present,
      OF started_connector_address(3) [OF this] _ assms(1,2)] assms(3)
  show "registered_name newVersion check constr present (cn_client co) = Inr ''opcua''" by simp
next
  assume "ble_main p load new dial args = Serves (cb, rb)"
  from registered_at [where newVersion = newVersion and check = check and constr = constr and present = present,
      OF started_connector_address(4) [OF this] _ assms(1,2)] assms(3)
  show "registered_name newVersion check constr present (cn_client cb) = Inr ''ble''" by simp
qed

text \<open>A Modbus process without a configuration file.\<close>

definition example_dial :: "string \<Rightarrow> string \<Rightarrow> string \<Rightarrow> string dialled" where
  "example_dial host path ver = Dialled path"

lemma example_modbus_main:
  "\<exists>cm r. modbus_main example_process (\<lambda>_ _. ()) example_dial [] = Serves (cm, r)"
proof -
  let ?v = "with_defaults common_defaults \<lparr>override = [(''version'', CStr ''1.2.0'')], config = [], defaults = []\<rparr>"
  have e: "v_find ?v ''log_format'' = CStr ''text''" "v_find ?v ''log_level'' = CStr ''info''"
    by (simp_all add: v_find_unset v_path_def pick_def isPathShadowedInDeepMap_def
        with_defaults_def common_defaults_def v_SetDefault_def)
  then have "Init (p_cast example_process) (p_read example_process) [] [] [''1.2.0''] = Inr ?v"
    by (simp add: Init_def Let_def v_Set_def v_path_def setupLogger_def logFormatter_def v_GetString_def
        parse_level_def lower_char_def read_version_def file_table_def example_process_def)
  moreover define w where "w = v_Set ''modbus.ws_path'' (CStr ''/modbus'')
    (with_defaults [(''modbus.mode'', CStr ''tcp''), (''modbus.addr'', CStr ''localhost:8000'')] ?v)"
  ultimately have w: "modbus_Setup (p_cast example_process) (p_read example_process) [] [] [''1.2.0''] = Inr w"
    by (simp add: modbus_Setup_def)
  have f: "v_find w ''check_updates'' = CBool True" "v_find w ''ws_port'' = CInt 9000"
    "v_find w ''modbus.mode'' = CStr ''tcp''"
    by (simp_all add: w_def v_find_def Let_def v_path_def v_Set_def with_defaults_def v_SetDefault_def
        common_defaults_def searchMap.simps deep_set.simps pick_def isPathShadowedInDeepMap_def)
  then have s: "v_GetInt ce w ''ws_port'' = 9000" "v_GetString ce w ''modbus.mode'' = ''tcp''"
    "v_GetBool w ''check_updates''" for ce
    by (simp_all add: v_GetInt_def v_GetString_def v_GetBool_def)
  have "p_check example_process x y = ''''" "p_version example_process = ''1.2.0''" for x y
    by (simp_all add: example_process_def)
  with w s show ?thesis
    by (simp add: modbus_main_def run_main_def modbus_Start_def select_mode_def start_serving_def
        start_connector_def client_New_def client_Connect_def example_dial_def Let_def)
qed

lemma connectors_known_by_their_topic_witness:
  "\<exists>cm r. modbus_main example_process (\<lambda>_ _. ()) example_dial [] = Serves (cm, r)
    \<and> registered_name Inr (\<lambda>_ _. True) () (\<lambda>_. False) (cn_client cm) = Inr ''modbus''"
proof -
  obtain cm r where m: "modbus_main example_process (\<lambda>_ _. ()) example_dial [] = Serves (cm, r)"
    using example_modbus_main by blast
  have none: "\<forall>name \<in> {''modbus'', ''snmp'', ''opcua'', ''ble''}. \<not> (\<lambda>_. False) name" by simp
  have "registered_name Inr (\<lambda>_ _. True) () (\<lambda>_. False) (cn_client cm) = Inr ''modbus''"
    by (rule mp [OF conjunct1 [OF connectors_known_by_their_topic [where newVersion = Inr and check = "\<lambda>_ _. True"
          and constr = "()" and present = "\<lambda>_. False", OF refl TrueI none]] m])
  with m show ?thesis by blast
qed

section \<open>Witness of the call\<close>

definition example_connector :: "(nat, string) connector" where
  "example_connector = \<lparr>cn_client = \<lparr>wc_host = ''localhost:9000'', wc_path = ''snmp'', wc_ver = ''1.0.0'',
       wc_done = False, wc_ws = Some ''c''\<rparr>, cn_state = 0, cn_rc = Serving, cn_out = [], cn_dead = None\<rparr>"

text \<open>JSON as far as identifiers go: a string in its quotes, a response as the object that has its identifier,
  and reading the value after the colon.\<close>

definition quotation :: char where
  "quotation = CHR 0x22"

definition example_quote :: "string \<Rightarrow> string" where
  "example_quote s = quotation # s @ [quotation]"

definition example_encode :: "response \<Rightarrow> string" where
  "example_encode r = ''{\"id\":'' @ resp_ID r @ ''}''"

definition example_id_text :: "string \<Rightarrow> string option" where
  "example_id_text m =
     (case dropWhile (\<lambda>c. c \<noteq> CHR '':'') m of
        [] \<Rightarrow> None
      | _ # v \<Rightarrow>
          (case butlast v of
             [] \<Rightarrow> None
           | c # cs \<Rightarrow> if c = quotation then Some (butlast cs) else Some (c # cs)))"

definition example_ws_env :: ws_env where
  "example_ws_env = \<lparr>method_present = (\<lambda>_. False), id_text = example_id_text, w_quote = example_quote, w_enc = (\<lambda>_. ''null'')\<rparr>"

lemma example_id_read: "resp_ID r = example_quote j \<Longrightarrow> example_id_text (example_encode r) = Some j"
  by (simp add: example_id_text_def example_encode_def example_quote_def butlast_append)

definition example_get :: request where
  "example_get = \<lparr>JSONRPC = ''2.0'', Method = ''snmp-get'', ID = example_quote ''7'', Params = GMap []\<rparr>"

lemma example_get_ID: "ID example_get = w_quote example_ws_env ''7''" "w_quote example_ws_env ''7'' \<noteq> ''''"
  by (simp_all add: example_get_def example_ws_env_def example_quote_def)

lemma snmp_call_answered_witness:
  "\<exists>w (r :: response) w'. ws_run example_ws_env (ws_example_call @ [Register 0]) ws_init = Some w
     \<and> resp_ID r = example_quote ''7''
     \<and> ws_step example_ws_env (Read 0 True (example_encode r)) w = Some w' \<and> chans w' 0 = [example_encode r]"
proof -
  obtain w where w: "ws_run example_ws_env (ws_example_call @ [Register 0]) ws_init = Some w"
    and c: "crashed w = None" "reqs w 0 ''7'' = Some 0" "s_open (socks w ! 0)" "s_listening (socks w ! 0)"
    by (simp add: ws_example_call_def ws_ops_defs ws_init_def)
  have "\<exists>r w'. cn_out (cn_step True ''stack'' (\<lambda>_. Some (Inr example_get)) (snmp_Call (\<lambda>s. s)
          (example_snmp (\<lambda>us n. (Err ''timeout'', n)))) (Incoming (Frame TextMessage ''get'') None None) example_connector)
      = cn_out example_connector @ [(''c'', r)] \<and> resp_ID r = w_quote example_ws_env ''7''
    \<and> ws_step example_ws_env (Read 0 True (example_encode r)) w = Some w' \<and> crashed w' = None
    \<and> chans w' 0 = [example_encode r] \<and> (\<forall>j. j \<noteq> 0 \<longrightarrow> chans w' j = chans w j)"
    by (rule snmp_call_answered [OF run_reach [OF reach_init w] c _ _ _ _ example_get_ID])
      (simp_all add: example_connector_def example_ws_env_def example_id_read)
  then obtain r w' where "resp_ID r = w_quote example_ws_env ''7''"
    "ws_step example_ws_env (Read 0 True (example_encode r)) w = Some w'" "chans w' 0 = [example_encode r]" by blast
  moreover have "w_quote example_ws_env ''7'' = example_quote ''7''" by (simp add: example_ws_env_def)
  ultimately show ?thesis using w by metis
qed

end
